(* ===== verification/Prelude.thy ===== *)
theory Prelude
  imports Main "HOL-Library.Word"
begin

text \<open>
  Shared vocabulary of the development: the machine integers of \<^verbatim>\<open>core/type_def.h\<close>, byte
  memory with \<^verbatim>\<open>memcpy\<close>-style reads and writes, little-endian integer layouts with the
  \<^verbatim>\<open>htonl\<close>/\<^verbatim>\<open>ntohl\<close> conversions of a little-endian host, and the generic lemmas on
  lists, words and ring indices that the component theories use.

  A C array or a mapped segment is a total function from offsets to bytes (\<open>mem\<close>). A write
  outside the array's extent is therefore visible in the model, and memory safety is a
  property to prove (cells outside the extent are unchanged), not a convention.
\<close>

named_theorems pipe_simps \<open>unfolding rules of the ring-buffer operations\<close>
named_theorems layout_simps \<open>sizes and offsets of the C structs\<close>

type_synonym byte = "8 word"
type_synonym uint8 = "8 word"
type_synonym uint16 = "16 word"
type_synonym uint32 = "32 word"
type_synonym uint64 = "64 word"
type_synonym mem = "nat \<Rightarrow> byte"

subsection \<open>Byte memory\<close>

definition mem_read :: "mem \<Rightarrow> nat \<Rightarrow> nat \<Rightarrow> byte list" where
  "mem_read m a n = map m [a..<a + n]"

definition mem_write :: "mem \<Rightarrow> nat \<Rightarrow> byte list \<Rightarrow> mem" where
  "mem_write m a bs = (\<lambda>i. if a \<le> i \<and> i < a + length bs then bs ! (i - a) else m i)"

definition mem_zero :: mem where
  "mem_zero = (\<lambda>_. 0)"

subsection \<open>Integer layouts\<close>

fun le_enc :: "nat \<Rightarrow> nat \<Rightarrow> byte list" where
  "le_enc 0 x = []"
| "le_enc (Suc n) x = word_of_nat (x mod 256) # le_enc n (x div 256)"

fun le_dec :: "byte list \<Rightarrow> nat" where
  "le_dec [] = 0"
| "le_dec (b # bs) = unat b + 256 * le_dec bs"

definition le32 :: "uint32 \<Rightarrow> byte list" where
  "le32 w = le_enc 4 (unat w)"

definition un_le32 :: "byte list \<Rightarrow> uint32" where
  "un_le32 bs = word_of_nat (le_dec bs)"

definition le64 :: "uint64 \<Rightarrow> byte list" where
  "le64 w = le_enc 8 (unat w)"

definition un_le64 :: "byte list \<Rightarrow> uint64" where
  "un_le64 bs = word_of_nat (le_dec bs)"

text \<open>\<^verbatim>\<open>htonl\<close> and \<^verbatim>\<open>ntohl\<close> reverse the four bytes on the little-endian hosts the
  program is built for.\<close>

definition htonl :: "uint32 \<Rightarrow> uint32" where
  "htonl w = un_le32 (rev (le32 w))"

definition ntohl :: "uint32 \<Rightarrow> uint32" where
  "ntohl w = un_le32 (rev (le32 w))"

subsection \<open>Lemmas on byte memory\<close>

lemma length_mem_read [simp]: "length (mem_read m a n) = n"
  by (simp add: mem_read_def)

lemma nth_mem_read [simp]: "i < n \<Longrightarrow> mem_read m a n ! i = m (a + i)"
  by (simp add: mem_read_def)

lemma mem_read_0 [simp]: "mem_read m a 0 = []"
  by (simp add: mem_read_def)

lemma mem_read_cong: "(\<And>i. i < n \<Longrightarrow> m (a + i) = m' (b + i)) \<Longrightarrow> mem_read m a n = mem_read m' b n"
  by (rule nth_equalityI) auto

lemma mem_read_append: "mem_read m a (i + j) = mem_read m a i @ mem_read m (a + i) j"
  by (rule nth_equalityI) (auto simp: nth_append)

lemma mem_write_nil [simp]: "mem_write m a [] = m"
  by (rule ext) (auto simp: mem_write_def)

lemma mem_write_same: "i < length bs \<Longrightarrow> mem_write m a bs (a + i) = bs ! i"
  by (simp add: mem_write_def)

lemma mem_write_below [simp]: "i < a \<Longrightarrow> mem_write m a bs i = m i"
  by (simp add: mem_write_def)

lemma mem_write_above [simp]: "a + length bs \<le> i \<Longrightarrow> mem_write m a bs i = m i"
  by (simp add: mem_write_def)

lemma mem_read_write_same [simp]: "n = length bs \<Longrightarrow> mem_read (mem_write m a bs) a n = bs"
  by (rule nth_equalityI) (auto simp: mem_write_same)

lemma mem_read_write_disjoint:
  "b + n \<le> a \<or> a + length bs \<le> b \<Longrightarrow> mem_read (mem_write m a bs) b n = mem_read m b n"
  by (rule mem_read_cong) (auto simp: mem_write_def)

lemma mem_read_write_part:
  "a \<le> b \<Longrightarrow> b + n \<le> a + length bs \<Longrightarrow> mem_read (mem_write m a bs) b n = take n (drop (b - a) bs)"
  by (rule nth_equalityI) (auto simp: mem_write_def add.commute)

lemma mem_write_write_append:
  "mem_write (mem_write m a xs) (a + length xs) ys = mem_write m a (xs @ ys)"
  by (rule ext) (auto simp: mem_write_def nth_append)

lemma take_mem_read [simp]: "take k (mem_read m a n) = mem_read m a (min k n)"
  by (rule nth_equalityI) auto

lemma drop_mem_read [simp]: "drop k (mem_read m a n) = mem_read m (a + k) (n - k)"
  by (rule nth_equalityI) (auto simp: add.assoc)

subsection \<open>Lemmas on integer layouts\<close>

lemma unat_bound: "unat (w :: 'a::len word) < 2 ^ LENGTH('a)"
  by (rule unsigned_less)

lemma length_le_enc [simp]: "length (le_enc n x) = n"
  by (induction n arbitrary: x) auto

lemma le_dec_enc: "le_dec (le_enc n x) = x mod 256 ^ n"
proof (induction n arbitrary: x)
  case 0
  then show ?case by simp
next
  case (Suc n)
  have "x mod 256 + 256 * (x div 256 mod 256 ^ n) = x mod (256 * 256 ^ n)"
    by (simp add: mod_mult2_eq)
  with Suc show ?case
    by (simp add: unat_of_nat)
qed

lemma le_dec_bound: "le_dec bs < 256 ^ length bs"
proof (induction bs)
  case Nil
  then show ?case by simp
next
  case (Cons b bs)
  have "unat b < 256"
    using unat_bound [of b] by simp
  with Cons show ?case by simp
qed

lemma le_enc_dec [simp]: "n = length bs \<Longrightarrow> le_enc n (le_dec bs) = bs"
proof (induction bs arbitrary: n)
  case Nil
  then show ?case by simp
next
  case (Cons b bs)
  have "unat b < 256"
    using unat_bound [of b] by simp
  then have "(unat b + 256 * le_dec bs) mod 256 = unat b" and "(unat b + 256 * le_dec bs) div 256 = le_dec bs"
    by simp_all
  with Cons show ?case by simp
qed

lemma length_le32 [simp]: "length (le32 w) = 4"
  by (simp add: le32_def)

lemma length_le64 [simp]: "length (le64 w) = 8"
  by (simp add: le64_def)

lemma un_le32_le32 [simp]: "un_le32 (le32 w) = w"
  using unat_bound [of w] by (simp add: un_le32_def le32_def le_dec_enc)

lemma un_le64_le64 [simp]: "un_le64 (le64 w) = w"
  using unat_bound [of w] by (simp add: un_le64_def le64_def le_dec_enc)

lemma le32_un_le32 [simp]: "length bs = 4 \<Longrightarrow> le32 (un_le32 bs) = bs"
  using le_dec_bound [of bs] by (simp add: un_le32_def le32_def unat_of_nat)

lemma le64_un_le64 [simp]: "length bs = 8 \<Longrightarrow> le64 (un_le64 bs) = bs"
  using le_dec_bound [of bs] by (simp add: un_le64_def le64_def unat_of_nat)

lemma ntohl_htonl [simp]: "ntohl (htonl w) = w"
  by (simp add: ntohl_def htonl_def)

lemma htonl_ntohl [simp]: "htonl (ntohl w) = w"
  by (simp add: ntohl_def htonl_def)

lemma le32_htonl: "le32 (htonl w) = rev (le32 w)"
  by (simp add: htonl_def)

subsection \<open>Ring indices\<close>

lemma mod_less_cases: "(i::nat) < n \<Longrightarrow> j \<le> n \<Longrightarrow> (i + j) mod n = (if i + j < n then i + j else i + j - n)"
  by (simp add: le_mod_geq)

lemma mod_shift: "i \<le> k \<Longrightarrow> ((b + i) mod n + (k - i)) mod n = (b + k) mod (n::nat)"
  by (metis mod_add_left_eq add.assoc le_add_diff_inverse)

lemma mod_shift_wrap: "i \<le> n + k \<Longrightarrow> ((b + i) mod n + (n + k - i)) mod n = (b + k) mod (n::nat)"
  by (metis mod_shift mod_add_self1 add.left_commute)

lemma mod_add_left_inj_le:
  assumes "(b + i) mod n = (b + j) mod n" and "i \<le> j" and "j < (n::nat)"
  shows "i = j"
proof -
  have "n dvd (b + j) - (b + i)"
    using assms(1,2) by (metis add_left_mono mod_eq_dvd_iff_nat)
  then have "n dvd j - i" by simp
  moreover have "j - i < n" using assms(3) by simp
  ultimately have "j - i = 0"
    by (metis dvd_imp_le not_le gr0I)
  with assms(2) show ?thesis by simp
qed

lemma mod_add_left_inj:
  assumes "(b + i) mod n = (b + j) mod n" and "i < n" and "j < (n::nat)"
  shows "i = j"
  using assms mod_add_left_inj_le [of b i n j] mod_add_left_inj_le [of b j n i]
  by (cases "i \<le> j") auto

subsection \<open>Words\<close>

lemma unat_le_max32: "unat (w :: uint32) < 2 ^ 32"
  using unat_bound [of w] by simp

lemma unat_ucast: "unat (ucast w :: 'b::len word) = unat w mod 2 ^ LENGTH('b)"
  by (simp add: unsigned_ucast_eq take_bit_eq_mod)

lemma unat_add_noov: "unat a + unat b < 2 ^ 32 \<Longrightarrow> unat (a + b :: uint32) = unat a + unat b"
  by (simp add: unat_word_ariths)

lemma unat_sub_le: "b \<le> a \<Longrightarrow> unat (a - b :: uint32) = unat a - unat b"
  by (rule unat_sub)

end
