(* ===== verification/Base.thy ===== *)
theory Base
  imports Prelude
begin

text \<open>
  \<^verbatim>\<open>core/base.h\<close> and \<^verbatim>\<open>core/base.cpp\<close>: the message heads exchanged between the processes,
  their byte layouts, the buffer sizes, and the cached clock. Sizes and offsets are those of
  the LP64 ABI (\<^verbatim>\<open>sizeof(stTcpHead) = sizeof(stCenterHead) = 40\<close>,
  \<^verbatim>\<open>sizeof(stMsg) = 4144\<close>); padding bytes, which no code reads, are written as zero.
\<close>

definition TCP_NORMAL :: uint32 where "TCP_NORMAL = 0"
definition LOGIC_INDEX :: uint32 where "LOGIC_INDEX = 1"
definition CLI_DISCON :: uint32 where "CLI_DISCON = 2"

definition TCPHEAD_LEN :: nat where "TCPHEAD_LEN = 40"
definition CENTERHEAD_LEN :: nat where "CENTERHEAD_LEN = 40"
definition CS_PIPE_SIZE :: nat where "CS_PIPE_SIZE = 1024"
definition SC_PIPE_SIZE :: nat where "SC_PIPE_SIZE = 4096"
definition MSG_PIPE_SIZE :: nat where "MSG_PIPE_SIZE = 2048"
definition MAX_BUF_LEN :: nat where "MAX_BUF_LEN = 4096"
definition MAX_PB_LEN :: nat where "MAX_PB_LEN = MAX_BUF_LEN - 4"
definition TCP_BUF_LEN :: nat where "TCP_BUF_LEN = TCPHEAD_LEN + MAX_BUF_LEN"
definition CENTER_BUF_LEN :: nat where "CENTER_BUF_LEN = CENTERHEAD_LEN + MAX_BUF_LEN"

record stSvrInfo =
  si_svr_type :: uint32
  si_svr_id :: uint32

record stTcpHead =
  th_create_time :: uint64
  th_socket_pos :: uint32
  th_socket_port :: uint32
  th_socket_addr :: "byte list"
  th_msg_type :: uint32
  th_need_close :: bool

datatype RouteType = route_p2p | route_hash | route_broadcast | route_other uint32

record stCenterHead =
  ch_src_type :: uint32
  ch_src_id :: uint32
  ch_des_type :: uint32
  ch_des_id :: uint32
  ch_session_id :: uint32
  ch_route_type :: RouteType
  ch_hash_key :: uint64
  ch_center_index :: uint32

datatype EN_MSG_TYPE = EN_MSG_CLIENT | EN_MSG_SERVER | EN_MSG_INTERNAL | EN_MSG_other uint32

text \<open>\<^verbatim>\<open>stPBMsg\<close>: the length field and the fixed-size data array.\<close>

record stPBMsg =
  pm_data_len :: uint32
  pm_data :: mem

text \<open>\<^verbatim>\<open>stMsg\<close>: the 40 bytes of the union \<^verbatim>\<open>uMsgHead\<close> are kept as bytes and read through
  either view.\<close>

record stMsg =
  m_type :: EN_MSG_TYPE
  m_pb_msg :: stPBMsg
  m_head :: "byte list"

record stAuthToken =
  at_uid :: uint64
  at_time :: uint32

definition SIZEOF_stMsg :: nat where "SIZEOF_stMsg = 4144"
definition SIZEOF_stSvrInfo :: nat where "SIZEOF_stSvrInfo = 8"
definition SIZEOF_stAuthToken :: nat where "SIZEOF_stAuthToken = 16"

subsection \<open>Enumerations as integers\<close>

fun route_code :: "RouteType \<Rightarrow> uint32" where
  "route_code route_p2p = 1"
| "route_code route_hash = 2"
| "route_code route_broadcast = 4"
| "route_code (route_other w) = w"

definition route_of :: "uint32 \<Rightarrow> RouteType" where
  "route_of w = (if w = 1 then route_p2p else if w = 2 then route_hash
     else if w = 4 then route_broadcast else route_other w)"

fun msg_type_code :: "EN_MSG_TYPE \<Rightarrow> uint32" where
  "msg_type_code EN_MSG_CLIENT = 1"
| "msg_type_code EN_MSG_SERVER = 2"
| "msg_type_code EN_MSG_INTERNAL = 3"
| "msg_type_code (EN_MSG_other w) = w"

definition msg_type_of :: "uint32 \<Rightarrow> EN_MSG_TYPE" where
  "msg_type_of w = (if w = 1 then EN_MSG_CLIENT else if w = 2 then EN_MSG_SERVER
     else if w = 3 then EN_MSG_INTERNAL else EN_MSG_other w)"

subsection \<open>Struct layouts\<close>

definition enc_tcp_head :: "stTcpHead \<Rightarrow> byte list" where
  "enc_tcp_head h = le64 (th_create_time h) @ le32 (th_socket_pos h) @ le32 (th_socket_port h)
     @ th_socket_addr h @ le32 (th_msg_type h) @ [if th_need_close h then 1 else 0] @ [0, 0, 0]"

definition dec_tcp_head :: "byte list \<Rightarrow> stTcpHead" where
  "dec_tcp_head bs =
     \<lparr>th_create_time = un_le64 (take 8 bs), th_socket_pos = un_le32 (take 4 (drop 8 bs)),
      th_socket_port = un_le32 (take 4 (drop 12 bs)), th_socket_addr = take 16 (drop 16 bs),
      th_msg_type = un_le32 (take 4 (drop 32 bs)), th_need_close = (bs ! 36 \<noteq> 0)\<rparr>"

definition enc_center_head :: "stCenterHead \<Rightarrow> byte list" where
  "enc_center_head h = le32 (ch_src_type h) @ le32 (ch_src_id h) @ le32 (ch_des_type h)
     @ le32 (ch_des_id h) @ le32 (ch_session_id h) @ le32 (route_code (ch_route_type h))
     @ le64 (ch_hash_key h) @ le32 (ch_center_index h) @ [0, 0, 0, 0]"

definition dec_center_head :: "byte list \<Rightarrow> stCenterHead" where
  "dec_center_head bs =
     \<lparr>ch_src_type = un_le32 (take 4 bs), ch_src_id = un_le32 (take 4 (drop 4 bs)),
      ch_des_type = un_le32 (take 4 (drop 8 bs)), ch_des_id = un_le32 (take 4 (drop 12 bs)),
      ch_session_id = un_le32 (take 4 (drop 16 bs)),
      ch_route_type = route_of (un_le32 (take 4 (drop 20 bs))),
      ch_hash_key = un_le64 (take 8 (drop 24 bs)),
      ch_center_index = un_le32 (take 4 (drop 32 bs))\<rparr>"

definition enc_svr_info :: "stSvrInfo \<Rightarrow> byte list" where
  "enc_svr_info i = le32 (si_svr_type i) @ le32 (si_svr_id i)"

definition dec_svr_info :: "byte list \<Rightarrow> stSvrInfo" where
  "dec_svr_info bs = \<lparr>si_svr_type = un_le32 (take 4 bs), si_svr_id = un_le32 (take 4 (drop 4 bs))\<rparr>"

text \<open>\<^verbatim>\<open>stMsg\<close> occupies 4 bytes of type, 4096 of \<^verbatim>\<open>stPBMsg\<close>, 4 of padding and 40 of head.\<close>

definition enc_msg :: "stMsg \<Rightarrow> byte list" where
  "enc_msg m = le32 (msg_type_code (m_type m)) @ le32 (pm_data_len (m_pb_msg m))
     @ mem_read (pm_data (m_pb_msg m)) 0 MAX_PB_LEN @ [0, 0, 0, 0] @ m_head m"

definition dec_msg :: "byte list \<Rightarrow> stMsg" where
  "dec_msg bs =
     \<lparr>m_type = msg_type_of (un_le32 (take 4 bs)),
      m_pb_msg = \<lparr>pm_data_len = un_le32 (take 4 (drop 4 bs)),
                  pm_data = mem_write mem_zero 0 (take MAX_PB_LEN (drop 8 bs))\<rparr>,
      m_head = take 40 (drop 4104 bs)\<rparr>"

definition enc_auth_token :: "stAuthToken \<Rightarrow> byte list" where
  "enc_auth_token t = le64 (at_uid t) @ le32 (at_time t) @ [0, 0, 0, 0]"

definition dec_auth_token :: "byte list \<Rightarrow> stAuthToken" where
  "dec_auth_token bs = \<lparr>at_uid = un_le64 (take 8 bs), at_time = un_le32 (take 4 (drop 8 bs))\<rparr>"

definition wf_tcp_head :: "stTcpHead \<Rightarrow> bool" where
  "wf_tcp_head h \<longleftrightarrow> length (th_socket_addr h) = 16"

definition wf_route :: "RouteType \<Rightarrow> bool" where
  "wf_route r \<longleftrightarrow> (case r of route_other w \<Rightarrow> w \<noteq> 1 \<and> w \<noteq> 2 \<and> w \<noteq> 4 | _ \<Rightarrow> True)"

definition wf_msg :: "stMsg \<Rightarrow> bool" where
  "wf_msg m \<longleftrightarrow> length (m_head m) = 40 \<and>
     (case m_type m of EN_MSG_other w \<Rightarrow> w \<noteq> 1 \<and> w \<noteq> 2 \<and> w \<noteq> 3 | _ \<Rightarrow> True)"

text \<open>The bytes of a message that the handlers parse: \<^verbatim>\<open>ParseFromArray(msg.data, msg.data_len)\<close>.\<close>

definition payload :: "stPBMsg \<Rightarrow> byte list" where
  "payload m = mem_read (pm_data m) 0 (unat (pm_data_len m))"

subsection \<open>The cached clock\<close>

text \<open>\<^verbatim>\<open>g_cur_time\<close> is set from the seconds and microseconds \<^verbatim>\<open>gettimeofday\<close> delivers.\<close>

definition SetTimeMsec :: "uint32 \<Rightarrow> uint32 \<Rightarrow> uint64" where
  "SetTimeMsec sec usec = ucast sec * 1000 + ucast (usec div 1000)"

definition GetTimeMsec :: "uint64 \<Rightarrow> uint64" where
  "GetTimeMsec g_cur_time = g_cur_time"

definition GetTime :: "uint64 \<Rightarrow> uint32" where
  "GetTime g_cur_time = ucast (g_cur_time div 1000)"

subsection \<open>Sizes\<close>

lemmas size_defs [layout_simps] =
  TCPHEAD_LEN_def CENTERHEAD_LEN_def MAX_BUF_LEN_def MAX_PB_LEN_def TCP_BUF_LEN_def
  CENTER_BUF_LEN_def SIZEOF_stMsg_def SIZEOF_stSvrInfo_def SIZEOF_stAuthToken_def
  CS_PIPE_SIZE_def SC_PIPE_SIZE_def MSG_PIPE_SIZE_def

lemma length_enc_tcp_head [simp]: "wf_tcp_head h \<Longrightarrow> length (enc_tcp_head h) = 40"
  by (simp add: enc_tcp_head_def wf_tcp_head_def)

lemma length_enc_center_head [simp]: "length (enc_center_head h) = 40"
  by (simp add: enc_center_head_def)

lemma length_enc_svr_info [simp]: "length (enc_svr_info i) = 8"
  by (simp add: enc_svr_info_def)

lemma length_enc_msg [simp]: "length (m_head m) = 40 \<Longrightarrow> length (enc_msg m) = 4144"
  by (simp add: enc_msg_def layout_simps)

lemma length_enc_auth_token [simp]: "length (enc_auth_token t) = 16"
  by (simp add: enc_auth_token_def)

subsection \<open>Round trips\<close>

lemma route_of_code: "wf_route r \<Longrightarrow> route_of (route_code r) = r"
  by (cases r) (auto simp: route_of_def wf_route_def)

lemma route_code_of [simp]: "route_code (route_of w) = w"
  by (simp add: route_of_def)

lemma wf_route_of [simp]: "wf_route (route_of w)"
  by (simp add: route_of_def wf_route_def)

lemma msg_type_of_code:
  "(case t of EN_MSG_other w \<Rightarrow> w \<noteq> 1 \<and> w \<noteq> 2 \<and> w \<noteq> 3 | _ \<Rightarrow> True) \<Longrightarrow> msg_type_of (msg_type_code t) = t"
  by (cases t) (auto simp: msg_type_of_def)

lemma dec_enc_tcp_head:
  assumes "wf_tcp_head h"
  shows "dec_tcp_head (enc_tcp_head h @ rest) = h"
  using assms by (simp add: dec_tcp_head_def enc_tcp_head_def wf_tcp_head_def nth_append)

lemma dec_enc_center_head:
  assumes "wf_route (ch_route_type h)"
  shows "dec_center_head (enc_center_head h @ rest) = h"
  using assms by (simp add: dec_center_head_def enc_center_head_def route_of_code)

lemma dec_enc_svr_info: "dec_svr_info (enc_svr_info i @ rest) = i"
  by (simp add: dec_svr_info_def enc_svr_info_def)

lemma dec_enc_auth_token: "dec_auth_token (enc_auth_token t @ rest) = t"
  by (simp add: dec_auth_token_def enc_auth_token_def)

lemma dec_enc_msg:
  assumes "wf_msg m"
  shows "m_type (dec_msg (enc_msg m)) = m_type m"
    and "m_head (dec_msg (enc_msg m)) = m_head m"
    and "pm_data_len (m_pb_msg (dec_msg (enc_msg m))) = pm_data_len (m_pb_msg m)"
    and "i < MAX_PB_LEN \<Longrightarrow> pm_data (m_pb_msg (dec_msg (enc_msg m))) i = pm_data (m_pb_msg m) i"
  using assms
  by (auto simp: dec_msg_def enc_msg_def wf_msg_def msg_type_of_code layout_simps mem_write_def)

lemma GetTime_SetTimeMsec: "GetTime (SetTimeMsec sec usec) = sec" if "usec < 1000000"
proof -
  have "unat usec < 1000000"
    using that by (simp add: word_less_nat_alt)
  then have "unat (SetTimeMsec sec usec) = unat sec * 1000 + unat usec div 1000"
    using unat_le_max32 [of sec] by (simp add: SetTimeMsec_def unat_word_ariths unat_ucast unat_div)
  moreover have "unat usec div 1000 < 1000"
    using \<open>unat usec < 1000000\<close> by (simp add: less_mult_imp_div_less)
  ultimately have "unat (SetTimeMsec sec usec) div 1000 = unat sec"
    by simp
  then show ?thesis
    by (simp add: GetTime_def word_unat_eq_iff unat_ucast unat_div unat_le_max32 [simplified])
qed

end
