(* ===== verification/Messages.thy ===== *)
theory Messages
  imports Base
begin

text \<open>
  The protocol buffer messages of \<^verbatim>\<open>proto/*.proto\<close> that the modelled code reads and writes. A
  singular field is the value its getter returns; it is an \<open>option\<close> where the code asks
  whether it is set. A \<^verbatim>\<open>oneof\<close> is a datatype with one constructor per member and one for
  "not set"; \<^verbatim>\<open>msg_union_case()\<close> is its field number. The generated (de)serialisers are not part of the
  sources and appear as arguments of the definitions that call them.

  The generated code of \<^verbatim>\<open>PBDBMsg\<close> also keeps, for each player record, the flag that
  \<^verbatim>\<open>update_base_info()\<close> and \<^verbatim>\<open>update_money_info()\<close> read.
\<close>

subsection \<open>pb\_common.proto\<close>

definition EN_SVR_AUTH :: uint32 where "EN_SVR_AUTH = 1"
definition EN_SVR_HALL :: uint32 where "EN_SVR_HALL = 2"
definition EN_SVR_GAME :: uint32 where "EN_SVR_GAME = 3"
definition EN_SVR_DBPROXY :: uint32 where "EN_SVR_DBPROXY = 4"

definition EN_MAX_PB_DATA_BUF :: nat where "EN_MAX_PB_DATA_BUF = 65536"
definition EN_MAX_DB_PROC_REDO :: uint32 where "EN_MAX_DB_PROC_REDO = 10"
definition EN_SESSION_CHECK_SEC :: uint32 where "EN_SESSION_CHECK_SEC = 5"
definition EN_SESSION_TIMEOUT :: uint32 where "EN_SESSION_TIMEOUT = 5"
definition EN_MAX_RSA_TOKEN_LEN :: nat where "EN_MAX_RSA_TOKEN_LEN = 256"
definition EN_TOKEN_EXPIRE_SEC :: uint32 where "EN_TOKEN_EXPIRE_SEC = 86400"

datatype ENSessionSate = EN_SESSION_ON_MSG | EN_SESSION_WAIT_SVR_RSP | EN_SESSION_WAIT_GET_RSP | EN_SESSION_WAIT_SAVE_RSP

datatype ENHandlerResult =
  EN_HANDLER_DONE | EN_HANDLER_HUP | EN_HANDLER_NEXT | EN_HANDLER_FAILED | EN_HANDLER_GET | EN_HANDLER_SAVE

datatype ENMessageResult =
  EN_MESSAGE_OK | EN_MESSAGE_DB_ERR | EN_MESSAGE_SYS_ERR | EN_MESSAGE_ACCOUNT_NOT_FOUND | EN_MESSAGE_LOGIN_FAILED

definition EN_ACC_GEUST :: uint32 where "EN_ACC_GEUST = 0"

subsection \<open>pb\_cs\_msg.proto\<close>

record CSRequestAuth =
  ra_type :: uint32
  ra_account :: "byte list"
  ra_pwd :: "byte list"

record CSResponseAuth =
  rsa_result :: ENMessageResult
  rsa_uid :: uint64
  rsa_token :: "byte list"

record CSResponseLogin =
  rsl_result :: ENMessageResult
  rsl_money :: uint64

text \<open>\<open>cs_other n\<close> is any other member of the union, by its field number.\<close>

datatype cs_union =
    cs_not_set
  | cs_request_auth CSRequestAuth
  | cs_response_auth CSResponseAuth
  | cs_request_login "byte list"
  | cs_response_login CSResponseLogin
  | cs_request_logout
  | cs_response_logout
  | cs_other uint32

record PBCSMsg =
  cs_uid :: uint32
  cs_ver :: uint32
  cs_msg_union :: cs_union

definition PBCSMsg_new :: PBCSMsg where
  "PBCSMsg_new = \<lparr>cs_uid = 0, cs_ver = 0, cs_msg_union = cs_not_set\<rparr>"

fun cs_msg_union_case :: "cs_union \<Rightarrow> uint32" where
  "cs_msg_union_case cs_not_set = 0"
| "cs_msg_union_case (cs_request_auth _) = 10"
| "cs_msg_union_case (cs_response_auth _) = 11"
| "cs_msg_union_case (cs_request_login _) = 12"
| "cs_msg_union_case (cs_response_login _) = 13"
| "cs_msg_union_case cs_request_logout = 14"
| "cs_msg_union_case cs_response_logout = 15"
| "cs_msg_union_case (cs_other n) = n"

text \<open>\<^verbatim>\<open>cs_request_login()\<close> of a message holding another member is the default instance.\<close>

fun get_cs_request_login :: "cs_union \<Rightarrow> byte list" where
  "get_cs_request_login (cs_request_login token) = token"
| "get_cs_request_login _ = []"

fun has_cs_request_login :: "cs_union \<Rightarrow> bool" where
  "has_cs_request_login (cs_request_login _) = True"
| "has_cs_request_login _ = False"

fun get_cs_request_auth :: "cs_union \<Rightarrow> CSRequestAuth" where
  "get_cs_request_auth (cs_request_auth r) = r"
| "get_cs_request_auth _ = \<lparr>ra_type = 0, ra_account = [], ra_pwd = []\<rparr>"

text \<open>\<^verbatim>\<open>mutable_cs_response_login()\<close>: the message becomes a login response, keeping one that is
  already there.\<close>

fun mutable_cs_response_login :: "cs_union \<Rightarrow> CSResponseLogin" where
  "mutable_cs_response_login (cs_response_login r) = r"
| "mutable_cs_response_login _ = \<lparr>rsl_result = EN_MESSAGE_OK, rsl_money = 0\<rparr>"

subsection \<open>pb\_ss\_msg.proto and pb\_inter\_msg.proto\<close>

definition E_HANDLE_OK :: uint32 where "E_HANDLE_OK = 1"
definition E_HANDLE_ERROR :: uint32 where "E_HANDLE_ERROR = 2"
definition E_HANDLE_VER_DIFFER :: uint32 where "E_HANDLE_VER_DIFFER = 3"

record PBDBData =
  dd_key :: uint32
  dd_blob :: "byte list option"
  dd_ver :: "uint32 option"

record SSRequest =
  rq_uid :: uint64
  rq_datas :: "PBDBData list"

record SSResponse =
  rs_result :: uint32
  rs_uid :: uint64
  rs_datas :: "PBDBData list"

datatype ss_union =
    ss_not_set
  | ss_request_get SSRequest
  | ss_response_get SSResponse
  | ss_request_save SSRequest
  | ss_response_save SSResponse
  | ss_other uint32

datatype SSMsgType = SS_Request | SS_Response

record PBSSMsg =
  ss_type :: SSMsgType
  ss_uid :: uint64
  ss_msg_union :: ss_union

definition PBSSMsg_new :: PBSSMsg where
  "PBSSMsg_new = \<lparr>ss_type = SS_Request, ss_uid = 0, ss_msg_union = ss_not_set\<rparr>"

fun ss_msg_union_case :: "ss_union \<Rightarrow> uint32" where
  "ss_msg_union_case ss_not_set = 0"
| "ss_msg_union_case (ss_request_get _) = 10000"
| "ss_msg_union_case (ss_response_get _) = 10001"
| "ss_msg_union_case (ss_request_save _) = 10002"
| "ss_msg_union_case (ss_response_save _) = 10003"
| "ss_msg_union_case (ss_other n) = n"

definition SSResponse_new :: SSResponse where
  "SSResponse_new = \<lparr>rs_result = 0, rs_uid = 0, rs_datas = []\<rparr>"

fun get_ss_response_get :: "ss_union \<Rightarrow> SSResponse" where
  "get_ss_response_get (ss_response_get r) = r"
| "get_ss_response_get _ = SSResponse_new"

fun get_ss_response_save :: "ss_union \<Rightarrow> SSResponse" where
  "get_ss_response_save (ss_response_save r) = r"
| "get_ss_response_save _ = SSResponse_new"

datatype PBInterMsg = inter_not_set | inter_logout uint64

fun inter_msg_union_case :: "PBInterMsg \<Rightarrow> uint32" where
  "inter_msg_union_case inter_not_set = 0"
| "inter_msg_union_case (inter_logout _) = 5000"

subsection \<open>pb\_db\_data.proto\<close>

text \<open>The field \<^verbatim>\<open>head\<close> of a player record holds only its version.\<close>

record DBBaseInfo =
  bi_head :: "uint32 option"
  bi_is_init :: bool
  bi_is_online :: bool
  bi_hallsvr_id :: uint32

record DBMoneyInfo =
  mi_head :: "uint32 option"
  mi_money :: uint64

definition kBaseInfo :: uint32 where "kBaseInfo = 1"
definition kMoneyInfo :: uint32 where "kMoneyInfo = 2"

record PBDBMsg =
  dm_uid :: uint64
  dm_base_info :: "DBBaseInfo option"
  dm_money_info :: "DBMoneyInfo option"
  dm_update_base_info :: bool
  dm_update_money_info :: bool

definition DBBaseInfo_new :: DBBaseInfo where
  "DBBaseInfo_new = \<lparr>bi_head = None, bi_is_init = False, bi_is_online = False, bi_hallsvr_id = 0\<rparr>"

definition DBMoneyInfo_new :: DBMoneyInfo where
  "DBMoneyInfo_new = \<lparr>mi_head = None, mi_money = 0\<rparr>"

definition PBDBMsg_new :: PBDBMsg where
  "PBDBMsg_new = \<lparr>dm_uid = 0, dm_base_info = None, dm_money_info = None,
     dm_update_base_info = False, dm_update_money_info = False\<rparr>"

text \<open>The getters \<^verbatim>\<open>base_info()\<close> and \<^verbatim>\<open>money_info()\<close>.\<close>

definition get_base_info :: "PBDBMsg \<Rightarrow> DBBaseInfo" where
  "get_base_info p = (case dm_base_info p of None \<Rightarrow> DBBaseInfo_new | Some b \<Rightarrow> b)"

definition get_money_info :: "PBDBMsg \<Rightarrow> DBMoneyInfo" where
  "get_money_info p = (case dm_money_info p of None \<Rightarrow> DBMoneyInfo_new | Some b \<Rightarrow> b)"

subsection \<open>pb\_object.proto\<close>

record PBDBProcInfo =
  pi_uid :: uint64
  pi_keys :: "uint32 list"
  pi_player :: "PBDBMsg option"

record PBSession =
  se_uid :: uint32
  se_session_id :: uint32
  se_update_time :: uint32
  se_process_state :: ENSessionSate
  se_logic_state :: uint32
  se_msg_id :: uint32
  se_cs_msg :: PBCSMsg
  se_cs_response :: PBCSMsg
  se_ss_msg :: PBSSMsg
  se_ss_response :: PBSSMsg
  se_inter_msg :: PBInterMsg
  se_db_procs :: "PBDBProcInfo list"
  se_cur_proc_index :: uint64
  se_redo_count :: uint32

definition PBSession_new :: PBSession where
  "PBSession_new = \<lparr>se_uid = 0, se_session_id = 0, se_update_time = 0, se_process_state = EN_SESSION_ON_MSG,
     se_logic_state = 0, se_msg_id = 0, se_cs_msg = PBCSMsg_new, se_cs_response = PBCSMsg_new,
     se_ss_msg = PBSSMsg_new, se_ss_response = PBSSMsg_new, se_inter_msg = inter_not_set, se_db_procs = [],
     se_cur_proc_index = 0, se_redo_count = 0\<rparr>"

record PBTimer =
  tm_timer_id :: uint32
  tm_timeout_msec :: uint64
  tm_msg :: PBInterMsg

definition PBTimer_new :: PBTimer where
  "PBTimer_new = \<lparr>tm_timer_id = 0, tm_timeout_msec = 0, tm_msg = inter_not_set\<rparr>"

record PBPlayer =
  pl_uid :: uint64
  pl_table_id :: uint64

definition PBPlayer_new :: PBPlayer where
  "PBPlayer_new = \<lparr>pl_uid = 0, pl_table_id = 0\<rparr>"

lemmas message_ids [simp] = kBaseInfo_def kMoneyInfo_def

end
