(* ===== verification/Config.thy ===== *)
theory Config
  imports Messages
begin

text \<open>
  \<^verbatim>\<open>core/config.h\<close> with the messages of \<^verbatim>\<open>proto/pb_svr_config.proto\<close>: the configurations of the logic servers, the gateway
  and the center. Opening and parsing the text file is the argument \<open>read_conf\<close>.
\<close>

record PBAddr =
  addr_ip :: string
  addr_port :: uint32

record PBLogicConfig =
  lc_cs_shmkey :: uint32
  lc_sc_shmkey :: uint32
  lc_msg_shmkey :: uint32
  lc_center_addrs :: "PBAddr list"
  lc_max_session_num :: uint32
  lc_session_shmkey :: uint32
  lc_max_timer_num :: uint32
  lc_timer_shmkey :: uint32
  lc_max_player_num :: uint32
  lc_player_shmkey :: uint32
  lc_db_ip :: string
  lc_db_port :: uint32
  lc_db_name :: string
  lc_db_account :: string
  lc_db_password :: string

record PBTcpConfig =
  tc_cs_shmkey :: uint32
  tc_sc_shmkey :: uint32
  tc_port :: uint32
  tc_max_client_num :: uint32

record PBLogicSvr =
  ls_svr_type :: uint32
  ls_svr_num :: uint32

record PBCenterConfig =
  cc_msg_shmkey :: uint32
  cc_port :: uint32
  cc_ip :: string
  cc_max_svr_num :: uint32
  cc_ep_timeout :: uint32
  cc_svrs :: "PBLogicSvr list"

record CenterConfig = PBCenterConfig +
  cc_hash_index :: "uint32 \<rightharpoonup> nat"

definition SvrConfig_Init :: "(string \<Rightarrow> PBLogicConfig option) \<Rightarrow> string \<Rightarrow> PBLogicConfig \<Rightarrow> bool \<times> PBLogicConfig" where
  "SvrConfig_Init read_conf path conf = (case read_conf path of None \<Rightarrow> (False, conf) | Some config \<Rightarrow> (True, config))"

definition TcpConfig_Init :: "(string \<Rightarrow> PBTcpConfig option) \<Rightarrow> string \<Rightarrow> PBTcpConfig \<Rightarrow> bool \<times> PBTcpConfig" where
  "TcpConfig_Init read_conf path conf = (case read_conf path of None \<Rightarrow> (False, conf) | Some config \<Rightarrow> (True, config))"

text \<open>The loop that builds the index from server type to position: a later entry of the same type replaces an
  earlier one.\<close>

fun svr_hash_index :: "nat \<Rightarrow> PBLogicSvr list \<Rightarrow> (uint32 \<rightharpoonup> nat) \<Rightarrow> uint32 \<rightharpoonup> nat" where
  "svr_hash_index i [] idx = idx"
| "svr_hash_index i (s # ss) idx = svr_hash_index (Suc i) ss (idx(ls_svr_type s \<mapsto> i))"

definition CenterConfig_Init :: "(string \<Rightarrow> PBCenterConfig option) \<Rightarrow> string \<Rightarrow> CenterConfig \<Rightarrow> bool \<times> CenterConfig" where
  "CenterConfig_Init read_conf path conf =
     (case read_conf path of
        None \<Rightarrow> (False, conf)
      | Some config \<Rightarrow> (True, PBCenterConfig.extend config (CenterConfig.fields (svr_hash_index 0 (cc_svrs config) Map.empty))))"

definition CenterConfig_GetSvr :: "uint32 \<Rightarrow> CenterConfig \<Rightarrow> PBLogicSvr option" where
  "CenterConfig_GetSvr svr_type conf =
     (case cc_hash_index conf svr_type of None \<Rightarrow> None | Some i \<Rightarrow> Some (cc_svrs conf ! i))"

lemma svr_hash_index_range:
  "svr_hash_index i ss idx t = Some p \<Longrightarrow>
     idx t = Some p \<or> (i \<le> p \<and> p < i + length ss \<and> ls_svr_type (ss ! (p - i)) = t)"
proof (induction ss arbitrary: i idx)
  case Nil
  then show ?case by simp
next
  case (Cons s ss)
  have "svr_hash_index (Suc i) ss (idx(ls_svr_type s \<mapsto> i)) t = Some p" using Cons.prems by simp
  from Cons.IH [OF this] show ?case
  proof
    assume "(idx(ls_svr_type s \<mapsto> i)) t = Some p"
    then show ?thesis by (cases "t = ls_svr_type s") auto
  next
    assume a: "Suc i \<le> p \<and> p < Suc i + length ss \<and> ls_svr_type (ss ! (p - Suc i)) = t"
    then have "p - i = Suc (p - Suc i)" by auto
    with a show ?thesis by simp
  qed
qed

lemma svr_hash_index_keeps: "t \<in> dom idx \<Longrightarrow> t \<in> dom (svr_hash_index i ss idx)"
  by (induction ss arbitrary: i idx) auto

lemma svr_hash_index_covers: "t \<in> ls_svr_type ` set ss \<Longrightarrow> t \<in> dom (svr_hash_index i ss idx)"
proof (induction ss arbitrary: i idx)
  case Nil
  then show ?case by simp
next
  case (Cons s ss)
  show ?case
    using Cons.IH [of "Suc i" "idx(ls_svr_type s \<mapsto> i)"] Cons.prems
      svr_hash_index_keeps [of t "idx(ls_svr_type s \<mapsto> i)" "Suc i" ss]
    by (auto simp del: fun_upd_apply)
qed

text \<open>A type is found exactly when the configuration lists it, and the entry found has that type.\<close>

lemma GetSvr_Init:
  assumes "CenterConfig_Init read_conf path conf = (True, conf')"
  shows "CenterConfig_GetSvr t conf' \<noteq> None \<longleftrightarrow> t \<in> ls_svr_type ` set (cc_svrs conf')"
    and "CenterConfig_GetSvr t conf' = Some s \<Longrightarrow> s \<in> set (cc_svrs conf') \<and> ls_svr_type s = t"
proof -
  obtain config where c: "conf' = PBCenterConfig.extend config (CenterConfig.fields (svr_hash_index 0 (cc_svrs config) Map.empty))"
    using assms by (auto simp: CenterConfig_Init_def split: option.splits)
  have f: "cc_svrs conf' = cc_svrs config" "cc_hash_index conf' = svr_hash_index 0 (cc_svrs config) Map.empty"
    by (simp_all add: c PBCenterConfig.defs CenterConfig.defs)
  have r: "p < length (cc_svrs config) \<and> ls_svr_type (cc_svrs config ! p) = t"
    if "svr_hash_index 0 (cc_svrs config) Map.empty t = Some p" for p
    using svr_hash_index_range [OF that] by simp
  show "CenterConfig_GetSvr t conf' = Some s \<Longrightarrow> s \<in> set (cc_svrs conf') \<and> ls_svr_type s = t"
    using r by (auto simp: CenterConfig_GetSvr_def f split: option.splits)
  show "CenterConfig_GetSvr t conf' \<noteq> None \<longleftrightarrow> t \<in> ls_svr_type ` set (cc_svrs conf')"
    using r svr_hash_index_covers [of t "cc_svrs config" 0 Map.empty]
    by (auto simp: CenterConfig_GetSvr_def f split: option.splits)
qed

end
