(* ===== verification/Posix.thy ===== *)
theory Posix
  imports Prelude
begin

text \<open>
  The operating system is not part of the repository: its calls are the fields of a record
  \<open>posix\<close> over an abstract kernel state \<open>'os\<close>, and every operation that performs a
  system call takes that record as an argument. A result a call can return is a value of a
  datatype; the error numbers the sources tell apart are the constructors of \<open>errno\<close>.

  \<open>posix_recv\<close> builds the documented contract of \<^verbatim>\<open>recv(2)\<close> into the model: a call with
  room for \<open>n\<close> bytes delivers at most \<open>n\<close> bytes, and an empty delivery is the return value
  0, the orderly shutdown of the peer. \<open>posix_send\<close> does the same for \<^verbatim>\<open>send(2)\<close>: at most as
  many bytes as were offered are accepted, possibly fewer. \<open>sys_gettimeofday\<close> delivers seconds and
  microseconds; with a valid pointer and no time zone the call does not fail.
\<close>

datatype errno = EINTR | EAGAIN | EWOULDBLOCK | EOTHER

datatype send_result = SendOk nat | SendErr errno

datatype recv_result = RecvOk "byte list" | RecvErr errno

text \<open>The events \<^verbatim>\<open>epoll_wait\<close> reports: the user datum of the descriptor and the two event
  bits the servers look at.\<close>

record ep_event =
  ev_data :: int
  ev_in :: bool
  ev_err :: bool

record 'os posix =
  sys_socket :: "'os \<Rightarrow> int \<times> 'os"
  sys_setsockopt :: "int \<Rightarrow> 'os \<Rightarrow> bool \<times> 'os"
  sys_connect :: "int \<Rightarrow> string \<Rightarrow> uint32 \<Rightarrow> 'os \<Rightarrow> bool \<times> 'os"
  sys_bind :: "int \<Rightarrow> uint32 \<Rightarrow> 'os \<Rightarrow> bool \<times> 'os"
  sys_listen :: "int \<Rightarrow> 'os \<Rightarrow> bool \<times> 'os"
  sys_accept :: "int \<Rightarrow> 'os \<Rightarrow> (int \<times> uint32 \<times> byte list) \<times> 'os"
  sys_fcntl_getfl :: "int \<Rightarrow> 'os \<Rightarrow> bool \<times> 'os"
  sys_fcntl_nonblock :: "int \<Rightarrow> 'os \<Rightarrow> bool \<times> 'os"
  sys_close :: "int \<Rightarrow> 'os \<Rightarrow> 'os"
  sys_send :: "int \<Rightarrow> byte list \<Rightarrow> 'os \<Rightarrow> send_result \<times> 'os"
  sys_recv :: "int \<Rightarrow> nat \<Rightarrow> 'os \<Rightarrow> recv_result \<times> 'os"
  sys_select :: "int list \<Rightarrow> 'os \<Rightarrow> (int \<times> int list) \<times> 'os"
  sys_epoll_create :: "'os \<Rightarrow> int \<times> 'os"
  sys_epoll_add :: "int \<Rightarrow> int \<Rightarrow> int \<Rightarrow> 'os \<Rightarrow> bool \<times> 'os"
  sys_epoll_del :: "int \<Rightarrow> int \<Rightarrow> 'os \<Rightarrow> bool \<times> 'os"
  sys_epoll_wait :: "int \<Rightarrow> nat \<Rightarrow> 'os \<Rightarrow> ep_event list option \<times> 'os"
  sys_gettimeofday :: "'os \<Rightarrow> (uint32 \<times> uint32) \<times> 'os"

text \<open>The errors the sources treat as "try again".\<close>

definition try_again :: "errno \<Rightarrow> bool" where
  "try_again e \<longleftrightarrow> e = EINTR \<or> e = EAGAIN \<or> e = EWOULDBLOCK"

definition posix_recv :: "'os posix \<Rightarrow> int \<Rightarrow> nat \<Rightarrow> 'os \<Rightarrow> recv_result \<times> 'os" where
  "posix_recv P fd n os =
     (case sys_recv P fd n os of
        (RecvOk bs, os') \<Rightarrow> (RecvOk (take n bs), os')
      | (RecvErr e, os') \<Rightarrow> (RecvErr e, os'))"

definition posix_send :: "'os posix \<Rightarrow> int \<Rightarrow> byte list \<Rightarrow> 'os \<Rightarrow> send_result \<times> 'os" where
  "posix_send P fd bs os =
     (case sys_send P fd bs os of
        (SendOk k, os') \<Rightarrow> (SendOk (min k (length bs)), os')
      | (SendErr e, os') \<Rightarrow> (SendErr e, os'))"

lemma posix_recv_length: "posix_recv P fd n os = (RecvOk bs, os') \<Longrightarrow> length bs \<le> n"
  by (auto simp: posix_recv_def split: prod.splits recv_result.splits)

lemma posix_send_length: "posix_send P fd bs os = (SendOk k, os') \<Longrightarrow> k \<le> length bs"
  by (auto simp: posix_send_def split: prod.splits send_result.splits)

lemma try_again_simps [simp]:
  "try_again EINTR" "try_again EAGAIN" "try_again EWOULDBLOCK" "\<not> try_again EOTHER"
  by (simp_all add: try_again_def)

text \<open>An operating system without any input, for examples.\<close>

definition quiet_os :: "nat posix" where
  "quiet_os = \<lparr>sys_socket = (\<lambda>os. (3, os)), sys_setsockopt = (\<lambda>fd os. (True, os)), sys_connect = (\<lambda>fd ip port os. (True, os)),
     sys_bind = (\<lambda>fd port os. (True, os)), sys_listen = (\<lambda>fd os. (True, os)), sys_accept = (\<lambda>fd os. ((-1, 0, []), os)),
     sys_fcntl_getfl = (\<lambda>fd os. (True, os)), sys_fcntl_nonblock = (\<lambda>fd os. (True, os)), sys_close = (\<lambda>fd os. os),
     sys_send = (\<lambda>fd bs os. (SendOk (length bs), os)), sys_recv = (\<lambda>fd n os. (RecvErr EAGAIN, os)),
     sys_select = (\<lambda>fds os. ((0, []), os)), sys_epoll_create = (\<lambda>os. (4, os)), sys_epoll_add = (\<lambda>ep fd d os. (True, os)),
     sys_epoll_del = (\<lambda>ep fd os. (True, os)), sys_epoll_wait = (\<lambda>ep n os. (None, os)), sys_gettimeofday = (\<lambda>os. ((0, 0), os))\<rparr>"

end
