(* ===== verification/Framing.thy ===== *)
theory Framing
  imports Prelude
begin

text \<open>
  Messages on a byte stream: every message starts with four bytes that give its total length.
  Three components cut messages out of a receive buffer (\<^verbatim>\<open>CenterMng::GetOneData\<close>, the proxy's
  \<^verbatim>\<open>RecvServerData\<close> and the gateway's \<^verbatim>\<open>RecvClientData\<close>). The locale \<open>frame_reader\<close> is their contract, and its
  lemmas show that the messages delivered do not depend on how the network cuts the stream into
  chunks.
\<close>

text \<open>\<open>hdr\<close> reads the length field: little-endian between servers, network order for clients.\<close>

definition frame_ok :: "(byte list \<Rightarrow> uint32) \<Rightarrow> nat \<Rightarrow> byte list \<Rightarrow> bool" where
  "frame_ok hdr maxlen f \<longleftrightarrow> 4 < length f \<and> length f \<le> maxlen \<and> unat (hdr (take 4 f)) = length f"

definition frame_partial :: "(byte list \<Rightarrow> uint32) \<Rightarrow> nat \<Rightarrow> byte list \<Rightarrow> bool" where
  "frame_partial hdr maxlen p \<longleftrightarrow> (\<exists>f k. frame_ok hdr maxlen f \<and> k < length f \<and> p = take k f)"

lemma frame_partial_nil: "frame_ok hdr maxlen f \<Longrightarrow> frame_partial hdr maxlen []"
  unfolding frame_partial_def frame_ok_def by (intro exI [of _ f] exI [of _ 0]) auto

lemma frame_partial_append: "frame_partial hdr maxlen (xs @ ys) \<Longrightarrow> frame_partial hdr maxlen xs"
proof -
  assume "frame_partial hdr maxlen (xs @ ys)"
  then obtain f k where f: "frame_ok hdr maxlen f" "k < length f" "xs @ ys = take k f" by (auto simp: frame_partial_def)
  have "length xs \<le> k" using f(2,3) by (metis length_append length_take less_imp_le min.absorb2 le_add1)
  then have "xs = take (length xs) f" using f(3) by (metis append_eq_conv_conj min.absorb1 take_take)
  then show ?thesis using f(1,2) \<open>length xs \<le> k\<close> unfolding frame_partial_def by (intro exI [of _ f] exI [of _ "length xs"]) auto
qed

text \<open>Cutting a stream of messages at any point.\<close>

lemma stream_cut:
  assumes "\<forall>f\<in>set fs. frame_ok hdr maxlen f" and "frame_partial hdr maxlen p" and "xs @ ys = concat fs @ p"
  shows "\<exists>gs hs q. fs = gs @ hs \<and> xs = concat gs @ q \<and> frame_partial hdr maxlen q \<and> q @ ys = concat hs @ p"
  using assms
proof (induction fs arbitrary: xs)
  case Nil
  then have "frame_partial hdr maxlen (xs @ ys)" by simp
  then have "frame_partial hdr maxlen xs" by (rule frame_partial_append)
  then show ?case using Nil by (intro exI [of _ "[]"] exI [of _ xs]) auto
next
  case (Cons f fs)
  show ?case
  proof (cases "length f \<le> length xs")
    case True
    have cat: "xs @ ys = f @ concat fs @ p" using Cons.prems(3) by simp
    have "take (length f) (xs @ ys) = f" "drop (length f) (xs @ ys) = concat fs @ p" unfolding cat by simp_all
    then have "take (length f) xs = f" "drop (length f) xs @ ys = concat fs @ p" using True by simp_all
    then obtain xs' where xs: "xs = f @ xs'" "xs' @ ys = concat fs @ p" by (metis append_take_drop_id)
    from Cons.IH [OF _ Cons.prems(2) xs(2)] Cons.prems(1)
    obtain gs hs q where "fs = gs @ hs" "xs' = concat gs @ q" "frame_partial hdr maxlen q" "q @ ys = concat hs @ p" by auto
    then show ?thesis using xs(1) by (intro exI [of _ "f # gs"] exI [of _ hs] exI [of _ q]) auto
  next
    case False
    have cat: "xs @ ys = f @ concat fs @ p" using Cons.prems(3) by simp
    have "take (length xs) (xs @ ys) = take (length xs) f" unfolding cat using False by simp
    then have "xs = take (length xs) f" by simp
    then have "frame_partial hdr maxlen xs"
      using Cons.prems(1) False unfolding frame_partial_def by (intro exI [of _ f] exI [of _ "length xs"]) auto
    then show ?thesis using Cons.prems(3) by (intro exI [of _ "[]"] exI [of _ "f # fs"] exI [of _ xs]) auto
  qed
qed

lemma concat_length_bound: "\<forall>f\<in>set fs. frame_ok hdr maxlen f \<Longrightarrow> length fs \<le> length (concat fs)"
  by (induction fs) (auto simp: frame_ok_def)

text \<open>Take messages until none is complete; \<open>n\<close> bounds the number of attempts.\<close>

fun drain :: "('m \<Rightarrow> byte list option \<times> 'm) \<Rightarrow> nat \<Rightarrow> 'm \<Rightarrow> byte list list \<times> 'm" where
  "drain take_one 0 m = ([], m)"
| "drain take_one (Suc n) m =
     (case take_one m of
        (None, m') \<Rightarrow> ([], m')
      | (Some f, m') \<Rightarrow> (case drain take_one n m' of (fs, m'') \<Rightarrow> (f # fs, m'')))"

text \<open>A receiver fed with chunks, draining its buffer after each of them.\<close>

fun feed_all :: "(byte list \<Rightarrow> 'm \<Rightarrow> 'm) \<Rightarrow> ('m \<Rightarrow> byte list option \<times> 'm) \<Rightarrow> nat \<Rightarrow> byte list list \<Rightarrow> 'm \<Rightarrow> byte list list \<times> 'm" where
  "feed_all feed take_one n [] m = ([], m)"
| "feed_all feed take_one n (c # cs) m =
     (case drain take_one n (feed c m) of
        (fs, m') \<Rightarrow> (case feed_all feed take_one n cs m' of (gs, m'') \<Rightarrow> (fs @ gs, m'')))"

locale frame_reader =
  fixes invar :: "'m \<Rightarrow> bool"
    and input :: "'m \<Rightarrow> byte list"
    and take_one :: "'m \<Rightarrow> byte list option \<times> 'm"
    and feed :: "byte list \<Rightarrow> 'm \<Rightarrow> 'm"
    and hdr :: "byte list \<Rightarrow> uint32"
    and maxlen :: nat
    and capacity :: nat
  assumes take_frame: "invar m \<Longrightarrow> input m = f @ rest \<Longrightarrow> frame_ok hdr maxlen f \<Longrightarrow>
      fst (take_one m) = Some f \<and> input (snd (take_one m)) = rest \<and> invar (snd (take_one m))"
    and take_partial: "invar m \<Longrightarrow> frame_partial hdr maxlen (input m) \<Longrightarrow>
      fst (take_one m) = None \<and> input (snd (take_one m)) = input m \<and> invar (snd (take_one m))"
    and feed_input: "invar m \<Longrightarrow> length (input m) + length bs \<le> capacity \<Longrightarrow>
      input (feed bs m) = input m @ bs \<and> invar (feed bs m)"
begin

lemma drain_frames:
  assumes "invar m" and "\<forall>f\<in>set fs. frame_ok hdr maxlen f" and "frame_partial hdr maxlen p" and "input m = concat fs @ p"
    and "length fs < n"
  shows "fst (drain take_one n m) = fs \<and> input (snd (drain take_one n m)) = p \<and> invar (snd (drain take_one n m))"
  using assms
proof (induction fs arbitrary: m n)
  case Nil
  then obtain k where "n = Suc k" by (cases n) auto
  then show ?case using take_partial [of m] Nil by (auto split: prod.splits)
next
  case (Cons f fs)
  obtain k where n: "n = Suc k" "length fs < k" using Cons.prems(5) by (cases n) auto
  obtain m' where m': "take_one m = (Some f, m')" "input m' = concat fs @ p" "invar m'"
    using take_frame [OF Cons.prems(1), of f "concat fs @ p"] Cons.prems by (cases "take_one m") auto
  then show ?case using Cons.IH [OF m'(3) _ Cons.prems(3) m'(2) n(2)] Cons.prems(2) n by (auto split: prod.splits)
qed

lemma reassembly:
  assumes "invar m" and "\<forall>f\<in>set fs. frame_ok hdr maxlen f" and "frame_partial hdr maxlen p"
    and "input m @ concat cs = concat fs @ p" and "frame_partial hdr maxlen (input m)"
    and "\<forall>c\<in>set cs. length c + maxlen \<le> capacity" and "capacity < n"
  shows "fst (feed_all feed take_one n cs m) = fs \<and> input (snd (feed_all feed take_one n cs m)) = p
    \<and> invar (snd (feed_all feed take_one n cs m))"
  using assms
proof (induction cs arbitrary: m fs)
  case Nil
  have "fs = []"
  proof (cases fs)
    case (Cons f gs)
    obtain g k where g: "frame_ok hdr maxlen g" "k < length g" "input m = take k g"
      using Nil.prems(5) by (auto simp: frame_partial_def)
    have f: "frame_ok hdr maxlen f" using Nil.prems(2) Cons by simp
    have pre: "take k g = f @ concat gs @ p" using Nil.prems(4) Cons g(3) by simp
    then have "length f \<le> k" using g(2) by (metis length_append length_take less_imp_le min.absorb2 le_add1)
    moreover have "take 4 f = take 4 g"
      using pre f \<open>length f \<le> k\<close> by (metis (no_types, lifting) append_eq_conv_conj frame_ok_def less_imp_le min.absorb1 order_trans take_take)
    ultimately have "length f = length g" using f g(1) by (simp add: frame_ok_def)
    then show ?thesis using \<open>length f \<le> k\<close> g(2) by simp
  qed simp
  then show ?case using Nil by simp
next
  case (Cons c cs)
  have pl: "length (input m) \<le> maxlen" using Cons.prems(5) by (auto simp: frame_partial_def frame_ok_def)
  then have fi: "input (feed c m) = input m @ c" "invar (feed c m)"
    using feed_input [OF Cons.prems(1), of c] Cons.prems(6) by auto
  from stream_cut [OF Cons.prems(2,3), of "input m @ c" "concat cs"] Cons.prems(4)
  obtain gs hs q where g: "fs = gs @ hs" "input m @ c = concat gs @ q" "frame_partial hdr maxlen q" "q @ concat cs = concat hs @ p"
    by auto
  have gok: "\<forall>f\<in>set gs. frame_ok hdr maxlen f" "\<forall>f\<in>set hs. frame_ok hdr maxlen f" using Cons.prems(2) g(1) by auto
  have "length gs \<le> length (input m @ c)" unfolding g(2) using concat_length_bound [OF gok(1)] by simp
  then have "length gs < n" using pl Cons.prems(6,7) by auto
  then have d: "fst (drain take_one n (feed c m)) = gs" "input (snd (drain take_one n (feed c m))) = q"
      "invar (snd (drain take_one n (feed c m)))"
    using drain_frames [OF fi(2) gok(1) g(3)] fi(1) g(2) by auto
  have "fst (feed_all feed take_one n cs (snd (drain take_one n (feed c m)))) = hs
      \<and> input (snd (feed_all feed take_one n cs (snd (drain take_one n (feed c m))))) = p
      \<and> invar (snd (feed_all feed take_one n cs (snd (drain take_one n (feed c m)))))"
    using Cons.prems(6,7) d(2,3) g(3,4) by (intro Cons.IH [OF _ gok(2) Cons.prems(3)]) auto
  then show ?case using d(1) g(1) by (auto split: prod.splits)
qed

end

end
