(* ===== verification/CenterMng.thy ===== *)
theory CenterMng
  imports Config Posix Framing "HOL-Library.Monad_Syntax"
begin

text \<open>
  \<^verbatim>\<open>core/center_mng.h\<close> and \<^verbatim>\<open>center_mng.cpp\<close>: a logic server's connection to one center (proxy) server, with
  its receive and send buffers. The buffers are memories; that the code stays inside the arrays is a
  theorem. Loops that need not end are \<^verbatim>\<open>option\<close>-valued: \<open>None\<close> means that the call does not return.
\<close>

definition RECV_BUF_LEN :: nat where "RECV_BUF_LEN = CENTER_BUF_LEN * 100"
definition SEND_BUF_LEN :: nat where "SEND_BUF_LEN = CENTER_BUF_LEN * 100"
definition SOCK_CLOSED :: int where "SOCK_CLOSED = -1"

record CenterMng =
  cm_fd :: int
  cm_recv_buf :: mem
  cm_recv_offset :: uint32
  cm_send_buf :: mem
  cm_send_offset :: uint32
  cm_ip :: string
  cm_port :: uint32
  cm_svr_info :: stSvrInfo

definition CenterMng_Init :: "PBAddr \<Rightarrow> stSvrInfo \<Rightarrow> CenterMng \<Rightarrow> CenterMng" where
  "CenterMng_Init addr info m =
     m\<lparr>cm_ip := addr_ip addr, cm_port := addr_port addr, cm_svr_info := info, cm_recv_offset := 0, cm_send_offset := 0\<rparr>"

text \<open>\<^verbatim>\<open>Connect\<close>: the descriptor is stored only when every call has succeeded.\<close>

definition CenterMng_Connect :: "'os posix \<Rightarrow> CenterMng \<Rightarrow> 'os \<Rightarrow> bool \<times> CenterMng \<times> 'os" where
  "CenterMng_Connect P m os =
     (let (fd, os) = sys_socket P os
      in if fd = -1 then (False, m, os)
      else let (ok, os) = sys_connect P fd (cm_ip m) (cm_port m) os
      in if \<not> ok then (False, m, os)
      else let (ok, os) = sys_setsockopt P fd os
      in if \<not> ok then (False, m, os)
      else let (ok, os) = sys_setsockopt P fd os
      in if \<not> ok then (False, m, os)
      else let (ok, os) = sys_fcntl_getfl P fd os
      in if \<not> ok then (False, m, os)
      else let (ok, os) = sys_fcntl_nonblock P fd os
      in if \<not> ok then (False, m, os)
      else (True, m\<lparr>cm_fd := fd\<rparr>, os))"

partial_function (option) register_loop :: "'os posix \<Rightarrow> int \<Rightarrow> byte list \<Rightarrow> 'os \<Rightarrow> (bool \<times> 'os) option" where
  "register_loop P fd bs os =
     (case posix_send P fd bs os of
        (SendErr e, os) \<Rightarrow> if try_again e then register_loop P fd bs os else Some (False, os)
      | (SendOk k, os) \<Rightarrow> Some (True, os))"

definition CenterMng_Register :: "'os posix \<Rightarrow> CenterMng \<Rightarrow> 'os \<Rightarrow> (bool \<times> 'os) option" where
  "CenterMng_Register P m os = register_loop P (cm_fd m) (enc_svr_info (cm_svr_info m)) os"

definition cm_close :: "'os posix \<Rightarrow> CenterMng \<Rightarrow> 'os \<Rightarrow> CenterMng \<times> 'os" where
  "cm_close P m os = (m\<lparr>cm_fd := SOCK_CLOSED, cm_recv_offset := 0\<rparr>, sys_close P (cm_fd m) os)"

definition CenterMng_ReserveData :: "byte list \<Rightarrow> CenterMng \<Rightarrow> CenterMng" where
  "CenterMng_ReserveData buf m =
     (let len = word_of_nat (length buf);
          m = (if unat (cm_send_offset m + len) > SEND_BUF_LEN then m\<lparr>cm_send_offset := 0\<rparr> else m)
      in m\<lparr>cm_send_buf := mem_write (cm_send_buf m) (unat (cm_send_offset m)) buf, cm_send_offset := cm_send_offset m + len\<rparr>)"

definition CenterMng_SendBufData :: "'os posix \<Rightarrow> CenterMng \<Rightarrow> 'os \<Rightarrow> bool \<times> CenterMng \<times> 'os" where
  "CenterMng_SendBufData P m os =
     (case posix_send P (cm_fd m) (mem_read (cm_send_buf m) 0 (unat (cm_send_offset m))) os of
        (SendErr e, os) \<Rightarrow> (False, if \<not> try_again e then cm_close P m os else (m, os))
      | (SendOk ret, os) \<Rightarrow> (True, m\<lparr>cm_send_offset := 0\<rparr>, os))"

definition CenterMng_SendOneData :: "'os posix \<Rightarrow> byte list \<Rightarrow> CenterMng \<Rightarrow> 'os \<Rightarrow> bool \<times> CenterMng \<times> 'os" where
  "CenterMng_SendOneData P buf m os =
     (if cm_fd m = SOCK_CLOSED then (False, CenterMng_ReserveData buf m, os)
      else
        let (ok, m, os) = (if cm_send_offset m \<noteq> 0 then CenterMng_SendBufData P m os else (True, m, os))
        in if \<not> ok then (False, CenterMng_ReserveData buf m, os)
           else (case posix_send P (cm_fd m) buf os of
                   (SendErr e, os) \<Rightarrow>
                     let (m, os) = (if \<not> try_again e then cm_close P m os else (m, os))
                     in (False, CenterMng_ReserveData buf m, os)
                 | (SendOk ret, os) \<Rightarrow> (True, m, os)))"

definition CenterMng_CheckConnect :: "'os posix \<Rightarrow> CenterMng \<Rightarrow> 'os \<Rightarrow> (CenterMng \<times> 'os) option" where
  "CenterMng_CheckConnect P m os =
     (if cm_fd m \<noteq> SOCK_CLOSED then Some (m, os)
      else
        let (ok, m, os) = CenterMng_Connect P m os
        in if \<not> ok then Some (m, os)
           else do {
             (ok, os) \<leftarrow> CenterMng_Register P m os;
             (if \<not> ok then Some (m, os) else Some (snd (CenterMng_SendBufData P m os)))
           })"

text \<open>\<^verbatim>\<open>RecvData\<close>: reads until the socket would block, is closed, or the buffer is full.\<close>

partial_function (option) CenterMng_RecvData :: "'os posix \<Rightarrow> CenterMng \<Rightarrow> 'os \<Rightarrow> (CenterMng \<times> 'os) option" where
  "CenterMng_RecvData P m os =
     (if RECV_BUF_LEN = unat (cm_recv_offset m) then Some (m, os)
      else (case posix_recv P (cm_fd m) (RECV_BUF_LEN - unat (cm_recv_offset m)) os of
              (RecvErr e, os) \<Rightarrow> Some (if \<not> try_again e then cm_close P m os else (m, os))
            | (RecvOk bs, os) \<Rightarrow>
                if bs = [] then Some (cm_close P m os)
                else CenterMng_RecvData P (m\<lparr>cm_recv_buf := mem_write (cm_recv_buf m) (unat (cm_recv_offset m)) bs,
                                            cm_recv_offset := cm_recv_offset m + word_of_nat (length bs)\<rparr>) os))"

text \<open>\<^verbatim>\<open>GetOneData\<close> copies one frame to the caller's buffer \<open>buf\<close>.\<close>

definition CenterMng_GetOneData :: "'os posix \<Rightarrow> mem \<Rightarrow> uint32 \<Rightarrow> CenterMng \<Rightarrow> 'os \<Rightarrow> bool \<times> mem \<times> CenterMng \<times> 'os" where
  "CenterMng_GetOneData P buf buf_len m os =
     (if cm_recv_offset m \<le> 4 then (False, buf, m, os)
      else
        let len = un_le32 (mem_read (cm_recv_buf m) 0 4)
        in if len > cm_recv_offset m then (False, buf, m, os)
           else if len > buf_len then (False, buf, cm_close P m os)
           else
             let buf = mem_write buf 0 (mem_read (cm_recv_buf m) 0 (unat len));
                 m = m\<lparr>cm_recv_offset := cm_recv_offset m - len\<rparr>;
                 m = (if cm_recv_offset m \<noteq> 0
                      then m\<lparr>cm_recv_buf := mem_write (cm_recv_buf m) 0
                               (mem_read (cm_recv_buf m) (unat len) (unat (cm_recv_offset m)))\<rparr>
                      else m)
             in (True, buf, m, os))"

definition CenterMng_AddFd :: "CenterMng \<Rightarrow> int list \<Rightarrow> int list" where
  "CenterMng_AddFd m fds = (if cm_fd m \<noteq> SOCK_CLOSED then fds @ [cm_fd m] else fds)"

definition CenterMng_HasInput :: "CenterMng \<Rightarrow> int list \<Rightarrow> bool" where
  "CenterMng_HasInput m fds = (if cm_fd m = SOCK_CLOSED then False else List.member fds (cm_fd m))"

subsection \<open>Buffers as byte streams\<close>

definition cm_wf :: "CenterMng \<Rightarrow> bool" where
  "cm_wf m \<longleftrightarrow> unat (cm_recv_offset m) \<le> RECV_BUF_LEN \<and> unat (cm_send_offset m) \<le> SEND_BUF_LEN"

definition cm_input :: "CenterMng \<Rightarrow> byte list" where
  "cm_input m = mem_read (cm_recv_buf m) 0 (unat (cm_recv_offset m))"

definition cm_output :: "CenterMng \<Rightarrow> byte list" where
  "cm_output m = mem_read (cm_send_buf m) 0 (unat (cm_send_offset m))"

text \<open>One read of \<^verbatim>\<open>RecvData\<close>, and one message of \<^verbatim>\<open>GetOneData\<close>.\<close>

definition cm_feed :: "byte list \<Rightarrow> CenterMng \<Rightarrow> CenterMng" where
  "cm_feed bs m = m\<lparr>cm_recv_buf := mem_write (cm_recv_buf m) (unat (cm_recv_offset m)) bs,
                    cm_recv_offset := cm_recv_offset m + word_of_nat (length bs)\<rparr>"

definition cm_take :: "'os posix \<Rightarrow> CenterMng \<times> 'os \<Rightarrow> byte list option \<times> CenterMng \<times> 'os" where
  "cm_take P s =
     (case CenterMng_GetOneData P mem_zero (word_of_nat CENTER_BUF_LEN) (fst s) (snd s) of
        (ok, buf, s') \<Rightarrow> (if ok then Some (mem_read buf 0 (unat (un_le32 (mem_read buf 0 4)))) else None, s'))"

lemma buf_len_value [simp]: "RECV_BUF_LEN = 413600" "SEND_BUF_LEN = 413600"
  by (simp_all add: RECV_BUF_LEN_def SEND_BUF_LEN_def layout_simps)

lemma length_cm_input [simp]: "length (cm_input m) = unat (cm_recv_offset m)"
  by (simp add: cm_input_def)

lemma length_cm_output [simp]: "length (cm_output m) = unat (cm_send_offset m)"
  by (simp add: cm_output_def)

lemma cm_wf_close: "cm_wf m \<Longrightarrow> cm_wf (fst (cm_close P m os))"
  by (simp add: cm_wf_def cm_close_def)

lemma recv_step:
  assumes "cm_wf m" and "posix_recv P fd (RECV_BUF_LEN - unat (cm_recv_offset m)) os = (RecvOk bs, os')"
  defines "m' \<equiv> m\<lparr>cm_recv_buf := mem_write (cm_recv_buf m) (unat (cm_recv_offset m)) bs,
                   cm_recv_offset := cm_recv_offset m + word_of_nat (length bs)\<rparr>"
  shows "cm_wf m'" and "cm_input m' = cm_input m @ bs" and "unat (cm_recv_offset m') = unat (cm_recv_offset m) + length bs"
    and "\<forall>i\<ge>RECV_BUF_LEN. cm_recv_buf m' i = cm_recv_buf m i"
proof -
  have len: "unat (cm_recv_offset m) + length bs \<le> RECV_BUF_LEN"
    using posix_recv_length [OF assms(2)] assms(1) by (auto simp: cm_wf_def)
  then show o: "unat (cm_recv_offset m') = unat (cm_recv_offset m) + length bs"
    by (simp add: m'_def unat_word_ariths unat_of_nat mod_simps)
  show "cm_wf m'" using o len assms(1) by (simp add: cm_wf_def) (simp add: m'_def)
  have "cm_recv_buf m' = mem_write (cm_recv_buf m) (unat (cm_recv_offset m)) bs" by (simp add: m'_def)
  then show "cm_input m' = cm_input m @ bs"
    unfolding cm_input_def o by (simp add: mem_read_append mem_read_write_disjoint)
  show "\<forall>i\<ge>RECV_BUF_LEN. cm_recv_buf m' i = cm_recv_buf m i" using len by (simp add: m'_def)
qed

lemma RecvData_total:
  assumes "cm_wf m"
  shows "\<exists>m' os'. CenterMng_RecvData P m os = Some (m', os') \<and> cm_wf m'
    \<and> (\<forall>i\<ge>RECV_BUF_LEN. cm_recv_buf m' i = cm_recv_buf m i)
    \<and> (cm_fd m' = cm_fd m \<and> (\<exists>bs. cm_input m' = cm_input m @ bs) \<or> cm_fd m' = SOCK_CLOSED \<and> cm_input m' = [])"
  using assms
proof (induction "RECV_BUF_LEN - unat (cm_recv_offset m)" arbitrary: m os rule: less_induct)
  case less
  show ?case
  proof (cases "RECV_BUF_LEN = unat (cm_recv_offset m)")
    case True
    then show ?thesis using less.prems by (subst CenterMng_RecvData.simps) auto
  next
    case False
    obtain r os1 where r: "posix_recv P (cm_fd m) (RECV_BUF_LEN - unat (cm_recv_offset m)) os = (r, os1)" by force
    show ?thesis
    proof (cases r)
      case (RecvErr e)
      then show ?thesis
        using r False less.prems by (subst CenterMng_RecvData.simps) (auto simp: cm_close_def cm_wf_def cm_input_def)
    next
      case (RecvOk bs)
      show ?thesis
      proof (cases "bs = []")
        case True
        then show ?thesis
          using r RecvOk False less.prems by (subst CenterMng_RecvData.simps) (auto simp: cm_close_def cm_wf_def cm_input_def)
      next
        case bs: False
        let ?m = "m\<lparr>cm_recv_buf := mem_write (cm_recv_buf m) (unat (cm_recv_offset m)) bs,
                   cm_recv_offset := cm_recv_offset m + word_of_nat (length bs)\<rparr>"
        note S = recv_step [OF less.prems r [unfolded RecvOk]]
        have "RECV_BUF_LEN - unat (cm_recv_offset ?m) < RECV_BUF_LEN - unat (cm_recv_offset m)"
          unfolding S(3) using bs False less.prems by (cases bs) (auto simp: cm_wf_def)
        from less.hyps [OF this S(1), of os1] obtain m' os' bs' where
          "CenterMng_RecvData P ?m os1 = Some (m', os')" "cm_wf m'" "\<forall>i\<ge>RECV_BUF_LEN. cm_recv_buf m' i = cm_recv_buf ?m i"
          "cm_fd m' = cm_fd ?m \<and> (\<exists>bs. cm_input m' = cm_input ?m @ bs) \<or> cm_fd m' = SOCK_CLOSED \<and> cm_input m' = []"
          by blast
        then show ?thesis
          using r RecvOk bs False S(2,4) by (subst CenterMng_RecvData.simps) auto
      qed
    qed
  qed
qed

subsection \<open>Cutting messages out of the input\<close>

lemma center_GetOneData_frame:
  assumes "cm_wf m" and "cm_input m = f @ rest" and "4 < length f" and "un_le32 (take 4 f) = word_of_nat (length f)"
    and "length f \<le> unat buf_len"
  shows "\<exists>m'. CenterMng_GetOneData P buf buf_len m os = (True, mem_write buf 0 f, m', os)
    \<and> cm_input m' = rest \<and> cm_wf m' \<and> cm_fd m' = cm_fd m"
proof -
  let ?off = "cm_recv_offset m" and ?n = "length f"
  have off: "unat ?off = ?n + length rest" using length_cm_input [of m] assms(2) by simp
  have n32: "?n < 2 ^ 32" using off unat_le_max32 [of ?off] by simp
  have rd: "mem_read (cm_recv_buf m) 0 ?n = f" "mem_read (cm_recv_buf m) ?n (length rest) = rest"
    using assms(2) unfolding cm_input_def off mem_read_append by auto
  have "take 4 (mem_read (cm_recv_buf m) 0 ?n) = take 4 f" unfolding rd(1) ..
  then have "mem_read (cm_recv_buf m) 0 4 = take 4 f" using assms(3) by simp
  then have len: "un_le32 (mem_read (cm_recv_buf m) 0 4) = word_of_nat ?n" using assms(4) by simp
  have un: "unat (word_of_nat ?n :: uint32) = ?n" using n32 by (simp add: unat_of_nat)
  have c: "\<not> ?off \<le> 4" "\<not> word_of_nat ?n > ?off" "\<not> word_of_nat ?n > buf_len"
    using off assms(3,5) un by (auto simp: word_le_nat_alt word_less_nat_alt)
  have sub: "unat (?off - word_of_nat ?n) = length rest" using off un c(2) by (simp add: unat_sub_le)
  let ?m = "m\<lparr>cm_recv_offset := ?off - word_of_nat ?n\<rparr>"
  let ?m' = "if cm_recv_offset ?m \<noteq> 0 then ?m\<lparr>cm_recv_buf := mem_write (cm_recv_buf m) 0 rest\<rparr> else ?m"
  have "CenterMng_GetOneData P buf buf_len m os = (True, mem_write buf 0 f, ?m', os)"
    using c len un rd sub unfolding CenterMng_GetOneData_def Let_def by auto
  moreover have "cm_input ?m' = rest"
  proof (cases "cm_recv_offset ?m = 0")
    case True
    then have "rest = []" using sub by simp
    then show ?thesis using True by (simp add: cm_input_def)
  next
    case False
    then show ?thesis using sub by (simp add: cm_input_def)
  qed
  moreover have "cm_wf ?m'" using assms(1) sub off by (auto simp: cm_wf_def)
  ultimately show ?thesis by (intro exI [of _ ?m']) auto
qed

lemma center_GetOneData_partial:
  assumes "frame_partial un_le32 maxlen (cm_input m)"
  shows "CenterMng_GetOneData P buf buf_len m os = (False, buf, m, os)"
proof -
  obtain f k where f: "frame_ok un_le32 maxlen f" "k < length f" "cm_input m = take k f"
    using assms by (auto simp: frame_partial_def)
  have off: "unat (cm_recv_offset m) = k" using length_cm_input [of m] f by simp
  show ?thesis
  proof (cases "k \<le> 4")
    case True
    then show ?thesis using off by (simp add: CenterMng_GetOneData_def word_le_nat_alt)
  next
    case False
    then have "mem_read (cm_recv_buf m) 0 4 = take 4 (cm_input m)" using off by (simp add: cm_input_def)
    also have "\<dots> = take 4 f" using f(3) False by simp
    finally have "unat (un_le32 (mem_read (cm_recv_buf m) 0 4)) = length f" using f(1) by (simp add: frame_ok_def)
    then have "un_le32 (mem_read (cm_recv_buf m) 0 4) > cm_recv_offset m" using f(2) off by (simp add: word_less_nat_alt)
    then show ?thesis by (simp add: CenterMng_GetOneData_def Let_def)
  qed
qed

lemma feed_ok:
  assumes "cm_wf m" and "length (cm_input m) + length bs \<le> RECV_BUF_LEN"
  shows "cm_input (cm_feed bs m) = cm_input m @ bs" and "cm_wf (cm_feed bs m)"
proof -
  have o: "unat (cm_recv_offset (cm_feed bs m)) = unat (cm_recv_offset m) + length bs"
    using assms(2) by (simp add: cm_feed_def unat_word_ariths unat_of_nat mod_simps)
  have "cm_recv_buf (cm_feed bs m) = mem_write (cm_recv_buf m) (unat (cm_recv_offset m)) bs" by (simp add: cm_feed_def)
  then show "cm_input (cm_feed bs m) = cm_input m @ bs"
    unfolding cm_input_def o by (simp add: mem_read_append mem_read_write_disjoint)
  show "cm_wf (cm_feed bs m)" using o assms by (simp add: cm_wf_def) (simp add: cm_feed_def)
qed

interpretation center_frames: frame_reader "\<lambda>s. cm_wf (fst s)" "\<lambda>s. cm_input (fst s)" "cm_take P"
  "\<lambda>bs s. (cm_feed bs (fst s), snd s)" un_le32 CENTER_BUF_LEN RECV_BUF_LEN
proof
  fix s :: "CenterMng \<times> 'a" and f rest
  assume a: "cm_wf (fst s)" "cm_input (fst s) = f @ rest" "frame_ok un_le32 CENTER_BUF_LEN f"
  have f: "4 < length f" "length f \<le> 4136" "unat (un_le32 (take 4 f)) = length f"
    using a(3) by (simp_all add: frame_ok_def layout_simps)
  have h: "un_le32 (take 4 f) = word_of_nat (length f)" unfolding f(3) [symmetric] by simp
  have b: "length f \<le> unat (word_of_nat CENTER_BUF_LEN :: uint32)" using f(2) by (simp add: layout_simps)
  obtain m' where m': "CenterMng_GetOneData P mem_zero (word_of_nat CENTER_BUF_LEN) (fst s) (snd s) = (True, mem_write mem_zero 0 f, m', snd s)"
      "cm_input m' = rest" "cm_wf m'"
    using center_GetOneData_frame [OF a(1,2) f(1) h b, of P mem_zero "snd s"] by auto
  have "mem_read (mem_write mem_zero 0 f) 0 4 = take 4 f"
    using mem_read_write_part [of 0 0 4 f mem_zero] f(1) by simp
  then show "fst (cm_take P s) = Some f \<and> cm_input (fst (snd (cm_take P s))) = rest \<and> cm_wf (fst (snd (cm_take P s)))"
    using m' f(3) by (simp add: cm_take_def)
next
  fix s :: "CenterMng \<times> 'a"
  assume a: "cm_wf (fst s)" "frame_partial un_le32 CENTER_BUF_LEN (cm_input (fst s))"
  show "fst (cm_take P s) = None \<and> cm_input (fst (snd (cm_take P s))) = cm_input (fst s) \<and> cm_wf (fst (snd (cm_take P s)))"
    using a(1) by (simp add: cm_take_def center_GetOneData_partial [OF a(2)])
next
  fix s :: "CenterMng \<times> 'a" and bs :: "byte list"
  assume "cm_wf (fst s)" "length (cm_input (fst s)) + length bs \<le> RECV_BUF_LEN"
  then show "cm_input (fst (cm_feed bs (fst s), snd s)) = cm_input (fst s) @ bs \<and> cm_wf (fst (cm_feed bs (fst s), snd s))"
    using feed_ok by simp
qed

subsection \<open>Sending\<close>

lemma ReserveData_safe:
  assumes "cm_wf m" and "length bs \<le> SEND_BUF_LEN"
  shows "cm_wf (CenterMng_ReserveData bs m)" and "\<forall>i\<ge>SEND_BUF_LEN. cm_send_buf (CenterMng_ReserveData bs m) i = cm_send_buf m i"
    and "cm_output (CenterMng_ReserveData bs m) = (if length (cm_output m) + length bs > SEND_BUF_LEN then bs else cm_output m @ bs)"
proof -
  let ?o = "cm_send_offset m"
  have sum: "unat (?o + word_of_nat (length bs)) = unat ?o + length bs"
    using assms by (simp add: cm_wf_def unat_word_ariths unat_of_nat mod_simps)
  have n: "unat (word_of_nat (length bs) :: uint32) = length bs" using assms(2) by (simp add: unat_of_nat)
  show "cm_wf (CenterMng_ReserveData bs m)"
    using assms sum n by (simp add: CenterMng_ReserveData_def Let_def cm_wf_def)
  show "\<forall>i\<ge>SEND_BUF_LEN. cm_send_buf (CenterMng_ReserveData bs m) i = cm_send_buf m i"
    using assms sum by (simp add: CenterMng_ReserveData_def Let_def)
  show "cm_output (CenterMng_ReserveData bs m) = (if length (cm_output m) + length bs > SEND_BUF_LEN then bs else cm_output m @ bs)"
    using sum n by (simp add: CenterMng_ReserveData_def Let_def cm_output_def mem_read_append mem_read_write_disjoint)
qed

subsection \<open>Properties\<close>


definition center_idle :: CenterMng where
  "center_idle = \<lparr>cm_fd = 3, cm_recv_buf = mem_zero, cm_recv_offset = 0, cm_send_buf = mem_zero, cm_send_offset = 0,
     cm_ip = ''10.0.0.1'', cm_port = 80, cm_svr_info = \<lparr>si_svr_type = 2, si_svr_id = 1\<rparr>\<rparr>"


text \<open>C22. \<^verbatim>\<open>CenterMng::RecvData\<close> returns on every behaviour of the socket and stays inside the receive buffer: no byte
  beyond the array is written, and either the bytes read are appended to the pending input or the connection
  is closed and the input dropped.\<close>

theorem RecvData_returns_in_bounds:
  assumes "cm_wf m"
  shows "\<exists>m' os'. CenterMng_RecvData P m os = Some (m', os') \<and> cm_wf m'
    \<and> (\<forall>i\<ge>RECV_BUF_LEN. cm_recv_buf m' i = cm_recv_buf m i)
    \<and> (cm_fd m' = cm_fd m \<and> (\<exists>bs. cm_input m' = cm_input m @ bs) \<or> cm_fd m' = SOCK_CLOSED \<and> cm_input m' = [])"
  using RecvData_total [OF assms] .

theorem RecvData_returns_in_bounds_witness:
  "\<exists>m' os'. CenterMng_RecvData quiet_os center_idle 0 = Some (m', os') \<and> cm_wf m'
    \<and> cm_recv_buf m' RECV_BUF_LEN = cm_recv_buf center_idle RECV_BUF_LEN"
proof -
  have "cm_wf center_idle" by (simp add: center_idle_def cm_wf_def)
  from RecvData_returns_in_bounds [OF this, of quiet_os 0] show ?thesis by blast
qed

text \<open>A message whose length field exceeds the receive buffer wedges the connection: the length is compared
  with the bytes received before it is compared with the maximum, so once the buffer is full \<^verbatim>\<open>RecvData\<close> reads
  nothing more, \<^verbatim>\<open>GetOneData\<close> finds no message, and the connection is never closed.\<close>

lemma oversized_length_wedges_connection:
  assumes "unat (cm_recv_offset m) = RECV_BUF_LEN" and "unat (un_le32 (mem_read (cm_recv_buf m) 0 4)) > RECV_BUF_LEN"
  shows "CenterMng_RecvData P m os = Some (m, os) \<and> CenterMng_GetOneData P buf buf_len m os = (False, buf, m, os)"
  using assms by (subst CenterMng_RecvData.simps) (simp add: CenterMng_GetOneData_def Let_def word_le_nat_alt word_less_nat_alt)

text \<open>A message with length field 0 is delivered without being removed: \<^verbatim>\<open>GetOneData\<close> returns true, the caller's
  buffer and the pending input are unchanged, and every further call does the same.\<close>

lemma zero_length_message_not_consumed:
  assumes "unat (cm_recv_offset m) > 4" and "un_le32 (mem_read (cm_recv_buf m) 0 4) = 0"
  shows "\<exists>m'. CenterMng_GetOneData P buf buf_len m os = (True, buf, m', os)
    \<and> cm_recv_offset m' = cm_recv_offset m \<and> un_le32 (mem_read (cm_recv_buf m') 0 4) = 0"
proof -
  have gt: "\<not> cm_recv_offset m \<le> 4" "cm_recv_offset m \<noteq> 0" using assms(1) by (auto simp: word_le_nat_alt)
  let ?m' = "m\<lparr>cm_recv_buf := mem_write (cm_recv_buf m) 0 (mem_read (cm_recv_buf m) 0 (unat (cm_recv_offset m)))\<rparr>"
  have "mem_write (cm_recv_buf m) 0 (mem_read (cm_recv_buf m) 0 (unat (cm_recv_offset m))) = cm_recv_buf m"
    by (rule ext) (simp add: mem_write_def)
  then have "mem_read (cm_recv_buf ?m') 0 4 = mem_read (cm_recv_buf m) 0 4" by simp
  then show ?thesis
    using gt assms(2) by (intro exI [of _ ?m']) (simp add: CenterMng_GetOneData_def Let_def)
qed

text \<open>A short write loses data: when the socket takes only a part of a message, \<^verbatim>\<open>SendOneData\<close> reports success and
  keeps none of the rest, so the receiver's stream is cut in the middle of a message.\<close>

lemma short_send_loses_tail:
  assumes "cm_fd m \<noteq> SOCK_CLOSED" and "cm_send_offset m = 0" and "posix_send P (cm_fd m) buf os = (SendOk k, os')" and "k < length buf"
  shows "CenterMng_SendOneData P buf m os = (True, m, os') \<and> cm_output m = []"
  using assms by (simp add: CenterMng_SendOneData_def cm_output_def)

text \<open>\<^verbatim>\<open>ReserveData\<close> stays inside the send buffer: it appends the message to the pending output, or, when there is
  no room, drops all pending output and keeps only the new message.\<close>

lemma ReserveData_bounded:
  assumes "cm_wf m" and "length bs \<le> SEND_BUF_LEN"
  shows "cm_wf (CenterMng_ReserveData bs m)
    \<and> (\<forall>i\<ge>SEND_BUF_LEN. cm_send_buf (CenterMng_ReserveData bs m) i = cm_send_buf m i)
    \<and> cm_output (CenterMng_ReserveData bs m) = (if length (cm_output m) + length bs > SEND_BUF_LEN then bs else cm_output m @ bs)"
  using ReserveData_safe [OF assms] by blast

end
