(* ===== verification/ShmPipe.thy ===== *)
theory ShmPipe
  imports Base
begin

text \<open>
  \<^verbatim>\<open>core/shm_pipe.h\<close>, \<^verbatim>\<open>core/shm_pipe.cpp\<close>: the single-producer single-consumer ring buffer
  in shared memory through which the TCP front end and the logic servers exchange messages
  and in which every logic server keeps its message queue. The definitions keep the 32-bit
  indices of the code; \<open>pipe_holds p ms\<close> is the abstraction to the list of messages in
  transit, and the interface \<open>byte_fifo\<close> says what the servers may rely on.
\<close>

record ShmPipe =
  sp_begin :: uint32
  sp_end :: uint32
  sp_size :: uint32
  sp_buf :: mem

definition SIZEOF_ShmPipe :: nat where "SIZEOF_ShmPipe = 12"

definition ShmPipe_Initialize :: "nat \<Rightarrow> ShmPipe \<Rightarrow> ShmPipe" where
  "ShmPipe_Initialize byte_size seg =
     seg\<lparr>sp_begin := 0, sp_end := 0, sp_size := word_of_int (int byte_size - int SIZEOF_ShmPipe)\<rparr>"

definition ShmPipe_Reuse :: "nat \<Rightarrow> ShmPipe \<Rightarrow> ShmPipe" where
  "ShmPipe_Reuse byte_size seg = seg\<lparr>sp_size := word_of_int (int byte_size - int SIZEOF_ShmPipe)\<rparr>"

text \<open>\<^verbatim>\<open>operator new\<close> places the object at the start of the segment \<^verbatim>\<open>pshm\<close> (here its byte
  size and its contents) and the constructor initialises it or takes over what it finds.\<close>

definition ShmPipe_new :: "(nat \<times> ShmPipe) option \<Rightarrow> bool \<Rightarrow> ShmPipe option" where
  "ShmPipe_new pshm exist =
     (case pshm of
        None \<Rightarrow> None
      | Some (byte_size, seg) \<Rightarrow>
          if SIZEOF_ShmPipe > byte_size then None
          else if \<not> exist then Some (ShmPipe_Initialize byte_size seg)
          else Some (ShmPipe_Reuse byte_size seg))"

definition ShmPipe_GetIndex :: "ShmPipe \<Rightarrow> uint32 \<times> uint32" where
  "ShmPipe_GetIndex p = (sp_begin p, sp_end p)"

definition ShmPipe_SetIndex :: "ShmPipe \<Rightarrow> uint32 option \<Rightarrow> uint32 option \<Rightarrow> ShmPipe" where
  "ShmPipe_SetIndex p b e =
     (let p = (case b of Some v \<Rightarrow> if v < sp_size p then p\<lparr>sp_begin := v\<rparr> else p | None \<Rightarrow> p)
      in (case e of Some v \<Rightarrow> if v < sp_size p then p\<lparr>sp_end := v\<rparr> else p | None \<Rightarrow> p))"

definition ShmPipe_GetLeftSize :: "ShmPipe \<Rightarrow> uint32" where
  "ShmPipe_GetLeftSize p =
     (let (b, e) = ShmPipe_GetIndex p;
          size = (if b = e then sp_size p else if b > e then b - e else sp_size p - e + b)
      in size - 1)"

definition ShmPipe_GetUsedSize :: "ShmPipe \<Rightarrow> uint32" where
  "ShmPipe_GetUsedSize p =
     (let (b, e) = ShmPipe_GetIndex p
      in if b = e then 0 else if b < e then e - b else sp_size p + b - e)"

text \<open>The loop that stores the length byte by byte, wrapping at the end of the ring, and the
  one that reads it back.\<close>

fun put_ring :: "uint32 \<Rightarrow> mem \<Rightarrow> uint32 \<Rightarrow> byte list \<Rightarrow> mem \<times> uint32" where
  "put_ring sz m e [] = (m, e)"
| "put_ring sz m e (b # bs) = put_ring sz (m(unat e := b)) ((e + 1) mod sz) bs"

fun get_ring :: "uint32 \<Rightarrow> mem \<Rightarrow> uint32 \<Rightarrow> nat \<Rightarrow> byte list \<times> uint32" where
  "get_ring sz m b 0 = ([], b)"
| "get_ring sz m b (Suc k) =
     (let (bs, b') = get_ring sz m ((b + 1) mod sz) k in (m (unat b) # bs, b'))"

definition ShmPipe_AppendOneData :: "ShmPipe \<Rightarrow> byte list \<Rightarrow> bool \<times> ShmPipe" where
  "ShmPipe_AppendOneData p buf =
     (let buf_len = (word_of_nat (length buf) :: uint32);
          left = ShmPipe_GetLeftSize p
      in if unat buf_len + 4 > unat left then (False, p)
         else
           let (tmp_begin, tmp_end) = ShmPipe_GetIndex p;
               (tmp_buf, tmp_end) = put_ring (sp_size p) (sp_buf p) tmp_end (le32 buf_len);
               tmp_buf =
                 (if tmp_begin > tmp_end then mem_write tmp_buf (unat tmp_end) buf
                  else
                    let pipe_left = sp_size p - tmp_end
                    in if pipe_left \<ge> buf_len then mem_write tmp_buf (unat tmp_end) buf
                       else mem_write (mem_write tmp_buf (unat tmp_end) (take (unat pipe_left) buf))
                              0 (drop (unat pipe_left) buf));
               tmp_end = (tmp_end + buf_len) mod sp_size p
           in (True, ShmPipe_SetIndex (p\<lparr>sp_buf := tmp_buf\<rparr>) None (Some tmp_end)))"

text \<open>\<^verbatim>\<open>GetOneData\<close> returns the flag, the final value of the in/out parameter \<^verbatim>\<open>buf_len\<close>, the
  bytes copied to \<^verbatim>\<open>buf\<close> and the pipe.\<close>

definition ShmPipe_GetOneData :: "ShmPipe \<Rightarrow> uint32 \<Rightarrow> bool \<times> uint32 \<times> byte list \<times> ShmPipe" where
  "ShmPipe_GetOneData p max_buf_len =
     (let (tmp_begin, tmp_end) = ShmPipe_GetIndex p;
          used = ShmPipe_GetUsedSize p
      in if used = 0 then (False, max_buf_len, [], p)
         else if used < 4 then (False, max_buf_len, [], ShmPipe_SetIndex p (Some tmp_end) None)
         else
           let (len_bytes, tmp_begin) = get_ring (sp_size p) (sp_buf p) tmp_begin 4;
               buf_len = un_le32 len_bytes
           in if unat buf_len + 4 > unat used
              then (False, buf_len, [], ShmPipe_SetIndex p (Some tmp_end) None)
              else if buf_len > max_buf_len then (False, buf_len, [], p)
              else
                let buf =
                  (if tmp_begin < tmp_end then mem_read (sp_buf p) (unat tmp_begin) (unat buf_len)
                   else
                     let pipe_left = sp_size p - tmp_begin
                     in if pipe_left \<ge> buf_len then mem_read (sp_buf p) (unat tmp_begin) (unat buf_len)
                        else mem_read (sp_buf p) (unat tmp_begin) (unat pipe_left)
                             @ mem_read (sp_buf p) 0 (unat (buf_len - pipe_left)));
                    tmp_begin = (tmp_begin + buf_len) mod sp_size p
                in (True, buf_len, buf, ShmPipe_SetIndex p (Some tmp_begin) None))"

subsection \<open>Abstraction\<close>

definition frame :: "byte list \<Rightarrow> byte list" where
  "frame m = le32 (word_of_nat (length m)) @ m"

definition ring_read :: "nat \<Rightarrow> mem \<Rightarrow> nat \<Rightarrow> nat \<Rightarrow> byte list" where
  "ring_read n m b k = map (\<lambda>i. m ((b + i) mod n)) [0..<k]"

definition ring_write :: "nat \<Rightarrow> mem \<Rightarrow> nat \<Rightarrow> byte list \<Rightarrow> mem" where
  "ring_write n m e bs =
     (\<lambda>a. if a < n \<and> (a + n - e) mod n < length bs then bs ! ((a + n - e) mod n) else m a)"

definition pipe_used :: "ShmPipe \<Rightarrow> nat" where
  "pipe_used p = (unat (sp_end p) + unat (sp_size p) - unat (sp_begin p)) mod unat (sp_size p)"

definition pipe_content :: "ShmPipe \<Rightarrow> byte list" where
  "pipe_content p = ring_read (unat (sp_size p)) (sp_buf p) (unat (sp_begin p)) (pipe_used p)"

text \<open>A pipe is well formed when both indices lie in the ring and the ring is at most half the
  32-bit range (the largest one the program creates has \<^verbatim>\<open>SC_PIPE_SIZE * TCP_BUF_LEN\<close> bytes).\<close>

definition pipe_wf :: "ShmPipe \<Rightarrow> bool" where
  "pipe_wf p \<longleftrightarrow> unat (sp_size p) \<le> 2 ^ 31 \<and> unat (sp_begin p) < unat (sp_size p)
     \<and> unat (sp_end p) < unat (sp_size p)"

definition pipe_holds :: "ShmPipe \<Rightarrow> byte list list \<Rightarrow> bool" where
  "pipe_holds p ms \<longleftrightarrow> pipe_wf p \<and> pipe_content p = concat (map frame ms)
     \<and> (\<forall>m\<in>set ms. length m < 2 ^ 32)"

definition frames_len :: "byte list list \<Rightarrow> nat" where
  "frames_len ms = (\<Sum>m\<leftarrow>ms. length m + 4)"

subsection \<open>The queue a client sees\<close>

text \<open>\<open>pipe_get\<close> is \<^verbatim>\<open>GetOneData\<close> as a client uses it: the message, if there is one.\<close>

definition pipe_get :: "ShmPipe \<Rightarrow> uint32 \<Rightarrow> byte list option \<times> ShmPipe" where
  "pipe_get p k = (case ShmPipe_GetOneData p k of (ok, _, d, p') \<Rightarrow> (if ok then Some d else None, p'))"

datatype fifo_op = Put "byte list" | Get uint32

datatype fifo_res = Stored bool | Taken "byte list option"

fun fifo_run :: "('q \<Rightarrow> byte list \<Rightarrow> bool \<times> 'q) \<Rightarrow> ('q \<Rightarrow> uint32 \<Rightarrow> byte list option \<times> 'q)
    \<Rightarrow> 'q \<Rightarrow> fifo_op list \<Rightarrow> fifo_res list \<times> 'q" where
  "fifo_run put get q [] = ([], q)"
| "fifo_run put get q (Put m # ops) =
     (let (r, q') = put q m; (rs, q'') = fifo_run put get q' ops in (Stored r # rs, q''))"
| "fifo_run put get q (Get k # ops) =
     (let (r, q') = get q k; (rs, q'') = fifo_run put get q' ops in (Taken r # rs, q''))"

text \<open>The abstract bounded queue: the capacity counts four bytes of length per message.\<close>

definition aq_put :: "nat \<Rightarrow> byte list list \<Rightarrow> byte list \<Rightarrow> bool \<times> byte list list" where
  "aq_put cap ms m = (if frames_len ms + length m + 4 \<le> cap then (True, ms @ [m]) else (False, ms))"

definition aq_get :: "byte list list \<Rightarrow> uint32 \<Rightarrow> byte list option \<times> byte list list" where
  "aq_get ms k = (case ms of [] \<Rightarrow> (None, []) | m # ms' \<Rightarrow> if length m \<le> unat k then (Some m, ms') else (None, ms))"

definition op_ok :: "fifo_op \<Rightarrow> bool" where
  "op_ok x = (case x of Put m \<Rightarrow> length m < 2 ^ 32 | Get k \<Rightarrow> True)"

subsection \<open>Ring reads and writes\<close>

lemma length_frame [simp]: "length (frame m) = length m + 4"
  by (simp add: frame_def)

lemma length_ring_read [simp]: "length (ring_read n m b k) = k"
  by (simp add: ring_read_def)

lemma nth_ring_read [simp]: "i < k \<Longrightarrow> ring_read n m b k ! i = m ((b + i) mod n)"
  by (simp add: ring_read_def)

lemma ring_read_append:
  "ring_read n m b (i + j) = ring_read n m b i @ ring_read n m ((b + i) mod n) j"
proof (rule nth_equalityI)
  fix k
  assume "k < length (ring_read n m b (i + j))"
  then show "ring_read n m b (i + j) ! k = (ring_read n m b i @ ring_read n m ((b + i) mod n) j) ! k"
    using mod_shift [of i k b n] by (cases "k < i") (simp_all add: nth_append)
qed simp

lemma ring_read_straight: "b + k \<le> n \<Longrightarrow> ring_read n m b k = mem_read m b k"
  by (rule nth_equalityI) auto

lemma ring_read_wrap:
  assumes "b < n" and "n < b + k" and "k \<le> n"
  shows "ring_read n m b k = mem_read m b (n - b) @ mem_read m 0 (k - (n - b))"
proof -
  have "ring_read n m b ((n - b) + (k - (n - b)))
      = ring_read n m b (n - b) @ ring_read n m ((b + (n - b)) mod n) (k - (n - b))"
    by (rule ring_read_append)
  with assms show ?thesis
    by (simp add: ring_read_straight)
qed

lemma ring_pos: "e < n \<Longrightarrow> i < n \<Longrightarrow> ((e + i) mod n + n - e) mod n = (i::nat)"
  by (cases "e + i < n") (auto simp: mod_less_cases le_mod_geq)

lemma ring_dist:
  assumes "b < n" and "e < n" and "(e + n - b) mod n + k < (n::nat)"
  shows "((e + k) mod n + n - b) mod n = (e + n - b) mod n + k"
  using assms by (cases "b \<le> e"; cases "e + k < n") (auto simp: le_mod_geq)

lemma ring_write_at:
  assumes "e < n" and "i < length bs" and "length bs \<le> n"
  shows "ring_write n m e bs ((e + i) mod n) = bs ! i"
  using assms by (simp add: ring_write_def ring_pos)

lemma ring_write_other:
  assumes "e < n" and "length bs \<le> i" and "i < n"
  shows "ring_write n m e bs ((e + i) mod n) = m ((e + i) mod n)"
  using assms by (simp add: ring_write_def ring_pos)

lemma ring_write_outside [simp]: "n \<le> a \<Longrightarrow> ring_write n m e bs a = m a"
  by (simp add: ring_write_def)

lemma ring_cell:
  assumes "a < n" and "e < (n::nat)"
  obtains i where "i < n" and "a = (e + i) mod n"
proof
  show "(a + n - e) mod n < n" using assms by simp
  show "a = (e + (a + n - e) mod n) mod n"
    using assms by (cases "e \<le> a") (auto simp: mod_less_cases le_mod_geq)
qed

lemma ring_write_straight:
  assumes "e < n" and "e + length bs \<le> n"
  shows "ring_write n m e bs = mem_write m e bs"
proof
  fix a
  show "ring_write n m e bs a = mem_write m e bs a"
  proof (cases "a < n")
    case True
    with assms show ?thesis
      by (cases "e \<le> a") (auto simp: ring_write_def mem_write_def le_mod_geq)
  next
    case False
    with assms show ?thesis by (simp add: mem_write_def)
  qed
qed

lemma ring_write_append:
  assumes e: "e < n" and len: "length xs + length ys \<le> n"
  shows "ring_write n (ring_write n m e xs) ((e + length xs) mod n) ys = ring_write n m e (xs @ ys)"
    (is "?l = ?r")
proof
  fix a
  let ?e = "(e + length xs) mod n"
  have e': "?e < n" using e by simp
  show "?l a = ?r a"
  proof (cases "a < n")
    case False
    then show ?thesis by simp
  next
    case True
    then obtain i where i: "i < n" "a = (e + i) mod n"
      using e by (rule ring_cell)
    consider "i < length xs" | "length xs \<le> i" "i < length xs + length ys" | "length xs + length ys \<le> i"
      by linarith
    then show ?thesis
    proof cases
      case 1
      have "a = (?e + (n + i - length xs)) mod n"
        unfolding i(2) by (rule mod_shift_wrap [symmetric]) (use len in simp)
      then have "?l a = ring_write n m e xs a"
        using ring_write_other [OF e', of ys "n + i - length xs"] 1 len by simp
      then show ?thesis
        using 1 i e len by (simp add: ring_write_at nth_append)
    next
      case 2
      then have "a = (?e + (i - length xs)) mod n"
        unfolding i(2) by (intro mod_shift [symmetric])
      then have "?l a = ys ! (i - length xs)"
        using ring_write_at [OF e', of "i - length xs" ys] 2 len by simp
      then show ?thesis
        using 2 i e len by (simp add: ring_write_at nth_append)
    next
      case 3
      then have "length xs \<le> i" by simp
      then have "a = (?e + (i - length xs)) mod n"
        unfolding i(2) by (intro mod_shift [symmetric])
      then have "?l a = ring_write n m e xs a"
        using ring_write_other [OF e', of ys "i - length xs"] 3 i(1) by simp
      then show ?thesis
        using 3 i e by (simp add: ring_write_other)
    qed
  qed
qed

lemma ring_write_wrap:
  assumes "e < n" and "n < e + length bs" and "length bs \<le> n"
  shows "ring_write n m e bs = mem_write (mem_write m e (take (n - e) bs)) 0 (drop (n - e) bs)"
proof -
  have "ring_write n m e bs = ring_write n m e (take (n - e) bs @ drop (n - e) bs)"
    by simp
  also have "\<dots> = ring_write n (ring_write n m e (take (n - e) bs)) ((e + length (take (n - e) bs)) mod n) (drop (n - e) bs)"
    by (rule ring_write_append [symmetric]) (use assms in simp_all)
  also have "(e + length (take (n - e) bs)) mod n = 0"
    using assms by simp
  also have "ring_write n (ring_write n m e (take (n - e) bs)) 0 (drop (n - e) bs)
      = mem_write (ring_write n m e (take (n - e) bs)) 0 (drop (n - e) bs)"
    using assms by (intro ring_write_straight) simp_all
  also have "ring_write n m e (take (n - e) bs) = mem_write m e (take (n - e) bs)"
    using assms by (intro ring_write_straight) simp_all
  finally show ?thesis .
qed

lemma ring_read_write_same:
  assumes "e < n" and "length bs \<le> n"
  shows "ring_read n (ring_write n m e bs) e (length bs) = bs"
  using assms by (intro nth_equalityI) (auto simp: ring_write_at)

lemma ring_read_write_before:
  assumes "b < n" and "k + length bs \<le> n"
  shows "ring_read n (ring_write n m ((b + k) mod n) bs) b k = ring_read n m b k"
proof (rule nth_equalityI)
  fix i
  assume "i < length (ring_read n (ring_write n m ((b + k) mod n) bs) b k)"
  then have i: "i < k" by simp
  have e: "(b + k) mod n < n" using assms by simp
  have "(b + i) mod n = ((b + k) mod n + (n + i - k)) mod n"
    using assms by (intro mod_shift_wrap [symmetric]) simp
  then have "ring_write n m ((b + k) mod n) bs ((b + i) mod n) = m ((b + i) mod n)"
    using ring_write_other [OF e, of bs "n + i - k"] i assms by simp
  with i show "ring_read n (ring_write n m ((b + k) mod n) bs) b k ! i = ring_read n m b k ! i"
    by simp
qed simp

subsection \<open>The byte loops are ring accesses\<close>

lemma unat_of_nat32: "x < 2 ^ 32 \<Longrightarrow> unat (word_of_nat x :: uint32) = x"
  by (simp add: unat_of_nat)

lemma unat_of_mod32: "0 < n \<Longrightarrow> n \<le> 2 ^ 31 \<Longrightarrow> unat (word_of_nat (x mod n) :: uint32) = x mod n"
  by (rule unat_of_nat32) (rule less_le_trans [OF mod_less_divisor], auto)

lemma unat_succ_mod:
  assumes "unat e < unat sz"
  shows "unat ((e + 1) mod sz) = (unat e + 1) mod unat (sz :: uint32)"
proof -
  have "unat e + 1 < 2 ^ 32"
    using assms unat_le_max32 [of sz] by linarith
  then show ?thesis
    by (simp add: unat_mod unat_add_noov)
qed

lemma put_ring_eq:
  assumes "unat e < unat sz" and "length bs \<le> unat sz"
  shows "put_ring sz m e bs = (ring_write (unat sz) m (unat e) bs, word_of_nat ((unat e + length bs) mod unat sz))"
  using assms
proof (induction bs arbitrary: m e)
  case Nil
  then show ?case by (auto simp: ring_write_def)
next
  case (Cons b bs)
  let ?n = "unat sz" and ?e = "(e + 1) mod sz"
  have e': "unat ?e = (unat e + 1) mod ?n"
    using Cons.prems(1) by (rule unat_succ_mod)
  then have lt: "unat ?e < ?n"
    using Cons.prems(1) by simp
  have w: "m(unat e := b) = ring_write ?n m (unat e) [b]"
    using Cons.prems(1) by (auto simp: ring_write_straight mem_write_def fun_eq_iff)
  have "put_ring sz m e (b # bs) = (ring_write ?n (ring_write ?n m (unat e) [b]) (unat ?e) bs,
      word_of_nat ((unat ?e + length bs) mod ?n))"
    using Cons.IH [OF lt] Cons.prems(2) w by simp
  also have "ring_write ?n (ring_write ?n m (unat e) [b]) (unat ?e) bs = ring_write ?n m (unat e) (b # bs)"
    using ring_write_append [of "unat e" ?n "[b]" bs m] Cons.prems by (simp add: e')
  also have "(unat ?e + length bs) mod ?n = (unat e + length (b # bs)) mod ?n"
    by (simp add: e' mod_simps)
  finally show ?case .
qed

lemma get_ring_eq:
  assumes "unat b < unat sz"
  shows "get_ring sz m b k = (ring_read (unat sz) m (unat b) k, word_of_nat ((unat b + k) mod unat sz))"
  using assms
proof (induction k arbitrary: b)
  case 0
  then show ?case by (simp add: ring_read_def)
next
  case (Suc k)
  let ?n = "unat sz" and ?b = "(b + 1) mod sz"
  have b': "unat ?b = (unat b + 1) mod ?n"
    using Suc.prems by (rule unat_succ_mod)
  then have "unat ?b < ?n"
    using Suc.prems by simp
  moreover have "ring_read ?n m (unat b) (1 + k) = ring_read ?n m (unat b) 1 @ ring_read ?n m ((unat b + 1) mod ?n) k"
    by (rule ring_read_append)
  moreover have "ring_read ?n m (unat b) 1 = [m (unat b)]"
    using Suc.prems by (simp add: ring_read_def)
  ultimately show ?case
    using Suc.IH [of ?b] by (simp add: b' mod_simps)
qed

subsection \<open>Free and used space\<close>

lemma pipe_used_cases:
  assumes "pipe_wf p"
  shows "pipe_used p = (if sp_begin p \<le> sp_end p then unat (sp_end p) - unat (sp_begin p)
     else unat (sp_end p) + unat (sp_size p) - unat (sp_begin p))"
  using assms by (auto simp: pipe_used_def pipe_wf_def word_le_nat_alt le_mod_geq)

lemma pipe_used_less: "pipe_wf p \<Longrightarrow> pipe_used p < unat (sp_size p)"
  by (auto simp: pipe_used_def pipe_wf_def)

lemma unat_minus_1: "0 < unat w \<Longrightarrow> unat (w - 1 :: uint32) = unat w - 1"
  by (rule unat_minus_one) auto

lemma GetLeftSize_eq:
  assumes "pipe_wf p"
  shows "unat (ShmPipe_GetLeftSize p) = unat (sp_size p) - 1 - pipe_used p"
proof -
  let ?n = "unat (sp_size p)" and ?b = "unat (sp_begin p)" and ?e = "unat (sp_end p)"
  have wf: "?n \<le> 2 ^ 31" "?b < ?n" "?e < ?n"
    using assms by (auto simp: pipe_wf_def)
  consider "sp_begin p = sp_end p" | "sp_begin p > sp_end p" | "sp_begin p < sp_end p"
    by fastforce
  then show ?thesis
  proof cases
    case 1
    then show ?thesis
      using wf by (simp add: ShmPipe_GetLeftSize_def ShmPipe_GetIndex_def pipe_used_cases [OF assms] unat_minus_1)
  next
    case 2
    then have "?e < ?b" by (simp add: word_less_nat_alt)
    moreover from 2 have "unat (sp_begin p - sp_end p) = ?b - ?e"
      by (intro unat_sub_le) simp
    ultimately show ?thesis
      using 2 wf by (auto simp: ShmPipe_GetLeftSize_def ShmPipe_GetIndex_def pipe_used_cases [OF assms] unat_minus_1)
  next
    case 3
    then have "?b < ?e" by (simp add: word_less_nat_alt)
    moreover have "unat (sp_size p - sp_end p) = ?n - ?e"
      using wf by (intro unat_sub_le) (simp add: word_le_nat_alt)
    ultimately have "unat (sp_size p - sp_end p + sp_begin p) = ?n - ?e + ?b"
      using wf by (subst unat_add_noov) auto
    then show ?thesis
      using 3 wf \<open>?b < ?e\<close> by (auto simp: ShmPipe_GetLeftSize_def ShmPipe_GetIndex_def pipe_used_cases [OF assms] unat_minus_1)
  qed
qed

lemma GetUsedSize_eq:
  assumes "pipe_wf p"
  shows "unat (ShmPipe_GetUsedSize p) =
    (if sp_begin p \<le> sp_end p then pipe_used p
     else unat (sp_size p) + unat (sp_begin p) - unat (sp_end p))"
proof -
  let ?n = "unat (sp_size p)" and ?b = "unat (sp_begin p)" and ?e = "unat (sp_end p)"
  have wf: "?n \<le> 2 ^ 31" "?b < ?n" "?e < ?n"
    using assms by (auto simp: pipe_wf_def)
  have "unat (sp_size p + sp_begin p) = ?n + ?b"
    using wf by (intro unat_add_noov) auto
  moreover have "sp_end p \<le> sp_size p + sp_begin p"
    using wf calculation by (simp add: word_le_nat_alt)
  ultimately have "unat (sp_size p + sp_begin p - sp_end p) = ?n + ?b - ?e"
    by (simp add: unat_sub_le)
  then show ?thesis
    using assms by (auto simp: ShmPipe_GetUsedSize_def ShmPipe_GetIndex_def pipe_used_cases unat_sub_le)
qed

lemma GetUsedSize_ge: "pipe_wf p \<Longrightarrow> pipe_used p \<le> unat (ShmPipe_GetUsedSize p)"
  by (auto simp: GetUsedSize_eq pipe_used_cases word_le_nat_alt)

lemma GetUsedSize_0: "pipe_wf p \<Longrightarrow> ShmPipe_GetUsedSize p = 0 \<longleftrightarrow> pipe_used p = 0"
  by (auto simp: GetUsedSize_eq pipe_used_cases word_le_nat_alt unat_eq_0 [symmetric] pipe_wf_def simp del: unat_eq_0)

subsection \<open>Appending\<close>

lemma AppendOneData_full:
  assumes "pipe_wf p" and "length m < 2 ^ 32" and "unat (sp_size p) - 1 < pipe_used p + length m + 4"
  shows "ShmPipe_AppendOneData p m = (False, p)"
proof -
  have "unat (ShmPipe_GetLeftSize p) < length m + 4"
    using assms pipe_used_less [OF assms(1)] by (simp add: GetLeftSize_eq)
  then show ?thesis
    using assms(2) by (simp add: ShmPipe_AppendOneData_def unat_of_nat32)
qed

lemma append_copy_eq:
  fixes sz e b :: uint32
  assumes n: "unat sz \<le> 2 ^ 31" "unat e < unat sz" and len: "length m \<le> unat sz"
    and str: "e < b \<Longrightarrow> unat e + length m \<le> unat sz"
  shows "(if b > e then mem_write buf (unat e) m
     else let pipe_left = sz - e
          in if pipe_left \<ge> word_of_nat (length m) then mem_write buf (unat e) m
             else mem_write (mem_write buf (unat e) (take (unat pipe_left) m)) 0 (drop (unat pipe_left) m))
   = ring_write (unat sz) buf (unat e) m"
proof -
  have l: "unat (word_of_nat (length m) :: uint32) = length m"
    using len n(1) by (intro unat_of_nat32) simp
  have pl: "unat (sz - e) = unat sz - unat e"
    using n(2) by (intro unat_sub_le) (simp add: word_le_nat_alt)
  consider "e < b" | "\<not> e < b" "unat e + length m \<le> unat sz" | "\<not> e < b" "unat sz < unat e + length m"
    by linarith
  then show ?thesis
  proof cases
    case 1
    then show ?thesis using n str by (simp add: ring_write_straight)
  next
    case 2
    then show ?thesis using n by (auto simp: ring_write_straight word_le_nat_alt l pl Let_def)
  next
    case 3
    then show ?thesis using n len by (auto simp: ring_write_wrap word_le_nat_alt l pl Let_def)
  qed
qed

lemma append_straight:
  assumes "pipe_wf p" and "pipe_used p + k + 4 \<le> unat (sp_size p) - 1"
    and "(unat (sp_end p) + 4) mod unat (sp_size p) < unat (sp_begin p)"
  shows "(unat (sp_end p) + 4) mod unat (sp_size p) + k \<le> unat (sp_size p)"
  using assms pipe_used_cases [OF assms(1)]
  by (auto simp: pipe_wf_def word_le_nat_alt mod_less_cases split: if_splits)

lemma AppendOneData_room:
  assumes wf: "pipe_wf p" and room: "pipe_used p + length m + 4 \<le> unat (sp_size p) - 1"
  shows "ShmPipe_AppendOneData p m =
    (True, p\<lparr>sp_buf := ring_write (unat (sp_size p)) (sp_buf p) (unat (sp_end p)) (frame m),
             sp_end := word_of_nat ((unat (sp_end p) + (length m + 4)) mod unat (sp_size p))\<rparr>)"
proof -
  let ?n = "unat (sp_size p)" and ?b = "unat (sp_begin p)" and ?e = "unat (sp_end p)"
  let ?l = "word_of_nat (length m) :: uint32"
  let ?e1 = "word_of_nat ((?e + 4) mod ?n) :: uint32"
  let ?m1 = "ring_write ?n (sp_buf p) ?e (le32 ?l)"
  have n: "?n \<le> 2 ^ 31" "?b < ?n" "?e < ?n"
    using wf by (auto simp: pipe_wf_def)
  have l: "unat ?l = length m" using room n by (intro unat_of_nat32) simp
  have e1: "unat ?e1 = (?e + 4) mod ?n"
    using n by (intro unat_of_mod32) auto
  have put: "put_ring (sp_size p) (sp_buf p) (sp_end p) (le32 ?l) = (?m1, ?e1)"
    using put_ring_eq [of "sp_end p" "sp_size p" "le32 ?l" "sp_buf p"] n room by simp
  have copy: "(if sp_begin p > ?e1 then mem_write ?m1 (unat ?e1) m
     else let pipe_left = sp_size p - ?e1
          in if pipe_left \<ge> ?l then mem_write ?m1 (unat ?e1) m
             else mem_write (mem_write ?m1 (unat ?e1) (take (unat pipe_left) m)) 0 (drop (unat pipe_left) m))
     = ring_write ?n (sp_buf p) ?e (frame m)"
  proof -
    have "?e1 < sp_begin p \<Longrightarrow> unat ?e1 + length m \<le> ?n"
      using append_straight [OF wf room] by (simp add: word_less_nat_alt e1)
    moreover have "ring_write ?n ?m1 ((?e + 4) mod ?n) m = ring_write ?n (sp_buf p) ?e (le32 ?l @ m)"
      using ring_write_append [of ?e ?n "le32 ?l" m "sp_buf p"] n room by simp
    ultimately show ?thesis
      using append_copy_eq [of "sp_size p" ?e1 m "sp_begin p" ?m1] n room by (simp add: e1 frame_def)
  qed
  have end': "(?e1 + ?l) mod sp_size p = word_of_nat ((?e + (length m + 4)) mod ?n)"
  proof -
    have "(?e + 4) mod ?n < ?n"
      using n by simp
    then have "(?e + 4) mod ?n + length m < 2 ^ 31 + 2 ^ 31"
      using n(1) room by linarith
    then have "unat (?e1 + ?l) = (?e + 4) mod ?n + length m"
      by (subst unat_add_noov) (simp_all only: e1 l, simp)
    then have "unat ((?e1 + ?l) mod sp_size p) = (?e + (length m + 4)) mod ?n"
      by (simp add: unat_mod mod_simps ac_simps)
    then show ?thesis
      using n by (simp add: word_unat_eq_iff unat_of_mod32)
  qed
  have lt: "word_of_nat ((?e + (length m + 4)) mod ?n) < sp_size p"
    using n unat_of_mod32 [of ?n "?e + (length m + 4)"] by (simp add: word_less_nat_alt)
  have "\<not> unat (ShmPipe_GetLeftSize p) < length m + 4"
    using room by (simp add: GetLeftSize_eq [OF wf])
  then show ?thesis
    using l lt by (simp add: ShmPipe_AppendOneData_def ShmPipe_GetIndex_def put copy end'
      ShmPipe_SetIndex_def Let_def)
qed

subsection \<open>Taking\<close>

lemma get_copy_eq:
  fixes sz b e :: uint32
  assumes n: "unat b < unat sz" and len: "unat l \<le> unat sz"
    and str: "b < e \<Longrightarrow> unat b + unat l \<le> unat sz"
  shows "(if b < e then mem_read buf (unat b) (unat l)
     else let pipe_left = sz - b
          in if pipe_left \<ge> l then mem_read buf (unat b) (unat l)
             else mem_read buf (unat b) (unat pipe_left) @ mem_read buf 0 (unat (l - pipe_left)))
   = ring_read (unat sz) buf (unat b) (unat l)"
proof -
  have pl: "unat (sz - b) = unat sz - unat b"
    using n by (intro unat_sub_le) (simp add: word_le_nat_alt)
  have l: "\<not> l \<le> sz - b \<Longrightarrow> unat (l - (sz - b)) = unat l - (unat sz - unat b)"
    by (simp add: unat_sub_le pl)
  consider "b < e" | "\<not> b < e" "unat b + unat l \<le> unat sz" | "\<not> b < e" "unat sz < unat b + unat l"
    by linarith
  then show ?thesis
  proof cases
    case 1
    then show ?thesis using str by (simp add: ring_read_straight)
  next
    case 2
    then show ?thesis by (auto simp: ring_read_straight word_le_nat_alt pl Let_def)
  next
    case 3
    then have "\<not> l \<le> sz - b" using n by (auto simp: word_le_nat_alt pl)
    with 3 show ?thesis using n len l by (simp add: ring_read_wrap pl Let_def)
  qed
qed

lemma get_straight:
  assumes "pipe_wf p" and "k + 4 \<le> pipe_used p"
    and "(unat (sp_begin p) + 4) mod unat (sp_size p) < unat (sp_end p)"
  shows "(unat (sp_begin p) + 4) mod unat (sp_size p) + k \<le> unat (sp_size p)"
  using assms pipe_used_cases [OF assms(1)] pipe_used_less [OF assms(1)]
  by (auto simp: pipe_wf_def word_le_nat_alt mod_less_cases split: if_splits)

lemma pipe_used_advance:
  assumes "pipe_wf p" and "k \<le> pipe_used p"
  shows "pipe_used (p\<lparr>sp_begin := word_of_nat ((unat (sp_begin p) + k) mod unat (sp_size p))\<rparr>) = pipe_used p - k"
proof -
  have "unat (sp_begin p) < unat (sp_size p)" "unat (sp_size p) \<le> 2 ^ 31"
    using assms(1) by (auto simp: pipe_wf_def)
  then have "unat (word_of_nat ((unat (sp_begin p) + k) mod unat (sp_size p)) :: uint32)
      = (unat (sp_begin p) + k) mod unat (sp_size p)"
    by (intro unat_of_mod32) auto
  then show ?thesis
    using assms pipe_used_cases [OF assms(1)] pipe_used_less [OF assms(1)]
    by (auto simp: pipe_used_def pipe_wf_def word_le_nat_alt mod_less_cases le_mod_geq split: if_splits)
qed

lemma GetOneData_ok:
  assumes wf: "pipe_wf p" and content: "take (length m + 4) (pipe_content p) = frame m"
    and used: "length m + 4 \<le> pipe_used p" and max: "length m \<le> unat max_len"
  shows "ShmPipe_GetOneData p max_len = (True, word_of_nat (length m), m,
     p\<lparr>sp_begin := word_of_nat ((unat (sp_begin p) + (length m + 4)) mod unat (sp_size p))\<rparr>)"
proof -
  let ?n = "unat (sp_size p)" and ?b = "unat (sp_begin p)"
  let ?l = "word_of_nat (length m) :: uint32"
  let ?b1 = "word_of_nat ((?b + 4) mod ?n) :: uint32"
  have n: "?n \<le> 2 ^ 31" "?b < ?n"
    using wf by (auto simp: pipe_wf_def)
  have lt: "length m + 4 < ?n"
    using used pipe_used_less [OF wf] by simp
  then have l: "unat ?l = length m" using n by (intro unat_of_nat32) simp
  have b1: "unat ?b1 = (?b + 4) mod ?n"
    using n by (intro unat_of_mod32) auto
  have "take (length m + 4) (pipe_content p) = ring_read ?n (sp_buf p) ?b (length m + 4)"
    using used by (intro nth_equalityI) (auto simp: pipe_content_def)
  also have "\<dots> = ring_read ?n (sp_buf p) ?b 4 @ ring_read ?n (sp_buf p) ((?b + 4) mod ?n) (length m)"
    by (subst add.commute) (rule ring_read_append)
  finally have "ring_read ?n (sp_buf p) ?b 4 = le32 ?l" and data: "ring_read ?n (sp_buf p) ((?b + 4) mod ?n) (length m) = m"
    using content by (auto simp: frame_def)
  then have get: "get_ring (sp_size p) (sp_buf p) (sp_begin p) 4 = (le32 ?l, ?b1)"
    using get_ring_eq [of "sp_begin p" "sp_size p" "sp_buf p" 4] n by simp
  have copy: "(if ?b1 < sp_end p then mem_read (sp_buf p) (unat ?b1) (unat ?l)
     else let pipe_left = sp_size p - ?b1
          in if pipe_left \<ge> ?l then mem_read (sp_buf p) (unat ?b1) (unat ?l)
             else mem_read (sp_buf p) (unat ?b1) (unat pipe_left) @ mem_read (sp_buf p) 0 (unat (?l - pipe_left)))
     = m"
  proof -
    have "?b1 < sp_end p \<Longrightarrow> unat ?b1 + unat ?l \<le> ?n"
      using get_straight [OF wf used] by (simp add: word_less_nat_alt b1 l)
    then show ?thesis
      using get_copy_eq [of ?b1 "sp_size p" ?l "sp_end p" "sp_buf p"] n lt l b1 data by simp
  qed
  have bgn: "(?b1 + ?l) mod sp_size p = word_of_nat ((?b + (length m + 4)) mod ?n)"
  proof -
    have "(?b + 4) mod ?n < ?n" using n by simp
    then have "(?b + 4) mod ?n + length m < 2 ^ 31 + 2 ^ 31"
      using n(1) lt by linarith
    then have "unat (?b1 + ?l) = (?b + 4) mod ?n + length m"
      by (subst unat_add_noov) (simp_all only: b1 l, simp)
    then have "unat ((?b1 + ?l) mod sp_size p) = (?b + (length m + 4)) mod ?n"
      by (simp add: unat_mod mod_simps ac_simps)
    then show ?thesis
      using n by (simp add: word_unat_eq_iff unat_of_mod32)
  qed
  have lt': "word_of_nat ((?b + (length m + 4)) mod ?n) < sp_size p"
    using n unat_of_mod32 [of ?n "?b + (length m + 4)"] by (simp add: word_less_nat_alt)
  have u: "length m + 4 \<le> unat (ShmPipe_GetUsedSize p)"
    using used GetUsedSize_ge [OF wf] by simp
  then have "ShmPipe_GetUsedSize p \<noteq> 0" "\<not> ShmPipe_GetUsedSize p < 4"
    by (auto simp: word_less_nat_alt)
  moreover have "\<not> ?l > max_len"
    using max l by (simp add: word_less_nat_alt)
  ultimately show ?thesis
    using l u lt'
    by (simp add: ShmPipe_GetOneData_def ShmPipe_GetIndex_def get bgn ShmPipe_SetIndex_def Let_def)
      (use copy in \<open>auto simp: Let_def split: if_splits\<close>)
qed

lemma GetOneData_empty:
  assumes "pipe_wf p" and "pipe_used p = 0"
  shows "ShmPipe_GetOneData p max_len = (False, max_len, [], p)"
  using assms by (simp add: ShmPipe_GetOneData_def ShmPipe_GetIndex_def GetUsedSize_0)

lemma GetOneData_too_long:
  assumes wf: "pipe_wf p" and content: "take 4 (pipe_content p) = le32 l"
    and used: "unat l + 4 \<le> pipe_used p" and max: "max_len < l"
  shows "ShmPipe_GetOneData p max_len = (False, l, [], p)"
proof -
  have "ring_read (unat (sp_size p)) (sp_buf p) (unat (sp_begin p)) 4 = take 4 (pipe_content p)"
    using used by (intro nth_equalityI) (auto simp: pipe_content_def)
  then obtain b1 where get: "get_ring (sp_size p) (sp_buf p) (sp_begin p) 4 = (le32 l, b1)"
    using wf content by (simp add: get_ring_eq pipe_wf_def)
  have u: "unat l + 4 \<le> unat (ShmPipe_GetUsedSize p)"
    using used GetUsedSize_ge [OF wf] by simp
  then have "ShmPipe_GetUsedSize p \<noteq> 0" "\<not> ShmPipe_GetUsedSize p < 4"
    by (auto simp: word_less_nat_alt)
  then show ?thesis
    using u max by (simp add: ShmPipe_GetOneData_def ShmPipe_GetIndex_def Let_def get)
qed

subsection \<open>Messages in transit\<close>

lemma length_concat_frames: "length (concat (map frame ms)) = frames_len ms"
  by (induction ms) (simp_all add: frames_len_def)

lemma frames_len_simps [simp]:
  "frames_len [] = 0" "frames_len (m # ms) = length m + 4 + frames_len ms"
  "frames_len (xs @ ys) = frames_len xs + frames_len ys"
  by (simp_all add: frames_len_def)

lemma pipe_holds_wf: "pipe_holds p ms \<Longrightarrow> pipe_wf p"
  by (simp add: pipe_holds_def)

lemma pipe_holds_used:
  assumes "pipe_holds p ms"
  shows "pipe_used p = frames_len ms"
proof -
  have "length (pipe_content p) = frames_len ms"
    using assms by (simp add: pipe_holds_def length_concat_frames)
  then show ?thesis by (simp add: pipe_content_def)
qed

lemma append_content:
  assumes wf: "pipe_wf p" and room: "pipe_used p + length m + 4 \<le> unat (sp_size p) - 1"
  shows "pipe_wf (snd (ShmPipe_AppendOneData p m))"
    and "pipe_content (snd (ShmPipe_AppendOneData p m)) = pipe_content p @ frame m"
proof -
  let ?n = "unat (sp_size p)" and ?b = "unat (sp_begin p)" and ?e = "unat (sp_end p)"
  let ?e' = "word_of_nat ((?e + (length m + 4)) mod ?n) :: uint32"
  let ?p = "p\<lparr>sp_buf := ring_write ?n (sp_buf p) ?e (frame m), sp_end := ?e'\<rparr>"
  have n: "?n \<le> 2 ^ 31" "?b < ?n" "?e < ?n"
    using wf by (auto simp: pipe_wf_def)
  have ue: "unat ?e' = (?e + (length m + 4)) mod ?n"
    using n by (intro unat_of_mod32) auto
  have app: "ShmPipe_AppendOneData p m = (True, ?p)"
    using AppendOneData_room [OF wf room] .
  show "pipe_wf (snd (ShmPipe_AppendOneData p m))"
    using wf ue app by (simp add: pipe_wf_def)
  have be: "(?b + pipe_used p) mod ?n = ?e"
    using n pipe_used_cases [OF wf] by (auto simp: word_le_nat_alt)
  have used': "pipe_used ?p = pipe_used p + length (frame m)"
    using ring_dist [of ?b ?n ?e "length m + 4"] n room ue by (simp add: pipe_used_def)
  have "pipe_content ?p = ring_read ?n (ring_write ?n (sp_buf p) ?e (frame m)) ?b (pipe_used p)
      @ ring_read ?n (ring_write ?n (sp_buf p) ?e (frame m)) ((?b + pipe_used p) mod ?n) (length (frame m))"
    unfolding pipe_content_def used' by (simp add: ring_read_append)
  also have "ring_read ?n (ring_write ?n (sp_buf p) ?e (frame m)) ?b (pipe_used p) = pipe_content p"
    using ring_read_write_before [of ?b ?n "pipe_used p" "frame m" "sp_buf p", unfolded be] n room
    by (simp add: pipe_content_def)
  also have "ring_read ?n (ring_write ?n (sp_buf p) ?e (frame m)) ((?b + pipe_used p) mod ?n) (length (frame m)) = frame m"
    using n room unfolding be by (intro ring_read_write_same) simp_all
  finally show "pipe_content (snd (ShmPipe_AppendOneData p m)) = pipe_content p @ frame m"
    using app by simp
qed

lemma append_keeps_content:
  assumes "pipe_wf p" and "pipe_used p + length m + 4 \<le> unat (sp_size p) - 1"
  shows "take (pipe_used p) (pipe_content (snd (ShmPipe_AppendOneData p m))) = pipe_content p"
  using append_content [OF assms] by (simp add: pipe_content_def)

lemma aq_run_puts_head: "\<exists>zs. snd (fifo_run (aq_put c) aq_get (m # ms) (map Put xs)) = m # zs"
  by (induction xs arbitrary: ms) (simp_all add: aq_put_def Let_def case_prod_unfold)

lemma pipe_holds_append:
  assumes holds: "pipe_holds p ms" and room: "frames_len ms + length m + 4 \<le> unat (sp_size p) - 1"
  shows "\<exists>p'. ShmPipe_AppendOneData p m = (True, p') \<and> pipe_holds p' (ms @ [m]) \<and> sp_size p' = sp_size p"
proof -
  note wf = pipe_holds_wf [OF holds]
  have room': "pipe_used p + length m + 4 \<le> unat (sp_size p) - 1"
    using room by (simp add: pipe_holds_used [OF holds])
  have "length m < 2 ^ 32"
    using wf room by (auto simp: pipe_wf_def)
  then show ?thesis
    using append_content [OF wf room'] AppendOneData_room [OF wf room'] holds by (auto simp: pipe_holds_def)
qed

lemma pipe_holds_get:
  assumes holds: "pipe_holds p (m # ms)" and max: "length m \<le> unat max_len"
  shows "\<exists>p'. ShmPipe_GetOneData p max_len = (True, word_of_nat (length m), m, p') \<and> pipe_holds p' ms
    \<and> sp_size p' = sp_size p"
proof -
  let ?n = "unat (sp_size p)" and ?b = "unat (sp_begin p)" and ?k = "length m + 4"
  let ?b' = "word_of_nat ((?b + ?k) mod ?n) :: uint32"
  let ?p = "p\<lparr>sp_begin := ?b'\<rparr>"
  note wf = pipe_holds_wf [OF holds] and used = pipe_holds_used [OF holds]
  have n: "?n \<le> 2 ^ 31" "?b < ?n"
    using wf by (auto simp: pipe_wf_def)
  have content: "pipe_content p = frame m @ concat (map frame ms)"
    using holds by (simp add: pipe_holds_def)
  have get: "ShmPipe_GetOneData p max_len = (True, word_of_nat (length m), m, ?p)"
    using content used max by (intro GetOneData_ok [OF wf]) simp_all
  have ub: "unat ?b' = (?b + ?k) mod ?n"
    using n by (intro unat_of_mod32) auto
  have used': "pipe_used ?p = pipe_used p - ?k"
    using used by (intro pipe_used_advance [OF wf]) simp
  have "pipe_content p = ring_read ?n (sp_buf p) ?b ?k @ pipe_content ?p"
    using ring_read_append [of ?n "sp_buf p" ?b ?k "pipe_used p - ?k"] used
    by (simp add: pipe_content_def used' ub)
  then have "pipe_content ?p = concat (map frame ms)"
    using content by (simp add: append_eq_append_conv)
  moreover have "pipe_wf ?p"
    using wf ub by (simp add: pipe_wf_def)
  ultimately have "pipe_holds ?p ms"
    using holds by (simp add: pipe_holds_def)
  with get show ?thesis by auto
qed

lemma pipe_holds_block:
  assumes holds: "pipe_holds p (m # ms)" and max: "unat max_len < length m"
  shows "ShmPipe_GetOneData p max_len = (False, word_of_nat (length m), [], p)"
proof (rule GetOneData_too_long [OF pipe_holds_wf [OF holds]])
  have "length m < 2 ^ 32"
    using holds by (simp add: pipe_holds_def)
  then have l: "unat (word_of_nat (length m) :: uint32) = length m"
    by (rule unat_of_nat32)
  show "take 4 (pipe_content p) = le32 (word_of_nat (length m))"
    using holds by (simp add: pipe_holds_def frame_def)
  show "unat (word_of_nat (length m) :: uint32) + 4 \<le> pipe_used p"
    using pipe_holds_used [OF holds] by (simp add: l)
  show "max_len < word_of_nat (length m)"
    using max by (simp add: word_less_nat_alt l)
qed

lemma pipe_holds_empty: "pipe_holds p [] \<Longrightarrow> ShmPipe_GetOneData p k = (False, k, [], p)"
  using GetOneData_empty [of p] pipe_holds_used [of p "[]"] by (simp add: pipe_holds_def)

lemma pipe_holds_full:
  assumes "pipe_holds p ms" and "length m < 2 ^ 32" and "unat (sp_size p) - 1 < frames_len ms + length m + 4"
  shows "ShmPipe_AppendOneData p m = (False, p)"
  using assms AppendOneData_full [OF pipe_holds_wf [OF assms(1)]] by (simp add: pipe_holds_used)

subsection \<open>The interface of a bounded message queue\<close>

locale byte_fifo =
  fixes put :: "'q \<Rightarrow> byte list \<Rightarrow> bool \<times> 'q"
    and get :: "'q \<Rightarrow> uint32 \<Rightarrow> byte list option \<times> 'q"
    and holds :: "'q \<Rightarrow> byte list list \<Rightarrow> bool"
    and cap :: "'q \<Rightarrow> nat"
  assumes put_room: "holds q ms \<Longrightarrow> frames_len ms + length m + 4 \<le> cap q \<Longrightarrow>
      \<exists>q'. put q m = (True, q') \<and> holds q' (ms @ [m]) \<and> cap q' = cap q"
    and put_full: "holds q ms \<Longrightarrow> length m < 2 ^ 32 \<Longrightarrow> cap q < frames_len ms + length m + 4 \<Longrightarrow>
      put q m = (False, q)"
    and get_hit: "holds q (m # ms) \<Longrightarrow> length m \<le> unat k \<Longrightarrow>
      \<exists>q'. get q k = (Some m, q') \<and> holds q' ms \<and> cap q' = cap q"
    and get_block: "holds q (m # ms) \<Longrightarrow> unat k < length m \<Longrightarrow> get q k = (None, q)"
    and get_none: "holds q [] \<Longrightarrow> get q k = (None, q)"
begin

lemma put_refines:
  assumes "holds q ms" and "length m < 2 ^ 32"
  shows "\<exists>q'. put q m = (fst (aq_put (cap q) ms m), q') \<and> holds q' (snd (aq_put (cap q) ms m)) \<and> cap q' = cap q"
  using put_room [OF assms(1), of m] put_full [OF assms] assms(1) by (auto simp: aq_put_def)

lemma get_refines:
  assumes "holds q ms"
  shows "\<exists>q'. get q k = (fst (aq_get ms k), q') \<and> holds q' (snd (aq_get ms k)) \<and> cap q' = cap q"
proof (cases ms)
  case Nil
  with assms get_none show ?thesis by (simp add: aq_get_def)
next
  case (Cons m ms')
  with assms get_hit [of q m ms' k] get_block [of q m ms' k] show ?thesis
    by (auto simp: aq_get_def)
qed

lemma run_refines:
  assumes "holds q ms" and "list_all op_ok ops"
  shows "fst (fifo_run put get q ops) = fst (fifo_run (aq_put (cap q)) aq_get ms ops)
    \<and> holds (snd (fifo_run put get q ops)) (snd (fifo_run (aq_put (cap q)) aq_get ms ops))
    \<and> cap (snd (fifo_run put get q ops)) = cap q"
  using assms
proof (induction ops arbitrary: q ms)
  case Nil
  then show ?case by simp
next
  case (Cons x ops)
  show ?case
  proof (cases x)
    case (Put m)
    with Cons.prems obtain q' where q': "put q m = (fst (aq_put (cap q) ms m), q')"
        "holds q' (snd (aq_put (cap q) ms m))" "cap q' = cap q"
      using put_refines [of q ms m] by (auto simp: op_ok_def)
    with Cons.IH [OF q'(2)] Cons.prems Put show ?thesis
      by (simp add: Let_def case_prod_unfold)
  next
    case (Get k)
    obtain q' where q': "get q k = (fst (aq_get ms k), q')" "holds q' (snd (aq_get ms k))" "cap q' = cap q"
      using get_refines [OF Cons.prems(1)] by auto
    with Cons.IH [OF q'(2)] Cons.prems Get show ?thesis
      by (simp add: Let_def case_prod_unfold)
  qed
qed

end

interpretation pipe: byte_fifo ShmPipe_AppendOneData pipe_get pipe_holds "\<lambda>p. unat (sp_size p) - 1"
proof
  fix p ms m k
  show "pipe_holds p ms \<Longrightarrow> frames_len ms + length m + 4 \<le> unat (sp_size p) - 1 \<Longrightarrow>
      \<exists>p'. ShmPipe_AppendOneData p m = (True, p') \<and> pipe_holds p' (ms @ [m]) \<and>
        unat (sp_size p') - 1 = unat (sp_size p) - 1"
    using pipe_holds_append [of p ms m] by auto
  show "pipe_holds p ms \<Longrightarrow> length m < 2 ^ 32 \<Longrightarrow> unat (sp_size p) - 1 < frames_len ms + length m + 4 \<Longrightarrow>
      ShmPipe_AppendOneData p m = (False, p)"
    by (rule pipe_holds_full)
  show "pipe_holds p (m # ms) \<Longrightarrow> length m \<le> unat k \<Longrightarrow>
      \<exists>p'. pipe_get p k = (Some m, p') \<and> pipe_holds p' ms \<and> unat (sp_size p') - 1 = unat (sp_size p) - 1"
    using pipe_holds_get [of p m ms k] by (auto simp: pipe_get_def)
  show "pipe_holds p (m # ms) \<Longrightarrow> unat k < length m \<Longrightarrow> pipe_get p k = (None, p)"
    using pipe_holds_block [of p m ms k] by (simp add: pipe_get_def)
  show "pipe_holds p [] \<Longrightarrow> pipe_get p k = (None, p)"
    by (simp add: pipe_get_def pipe_holds_empty)
qed

subsection \<open>Well-formedness for any contents\<close>

lemma SetIndex_simps [simp]:
  "sp_size (ShmPipe_SetIndex p b e) = sp_size p" "sp_buf (ShmPipe_SetIndex p b e) = sp_buf p"
  by (auto simp: ShmPipe_SetIndex_def Let_def split: option.splits)

lemma pipe_wf_SetIndex: "pipe_wf p \<Longrightarrow> pipe_wf (ShmPipe_SetIndex p b e)"
  by (auto simp: ShmPipe_SetIndex_def pipe_wf_def Let_def word_less_nat_alt split: option.splits)

lemma GetOneData_frame:
  assumes "ShmPipe_GetOneData p k = (ok, l, d, p')"
  shows "sp_buf p' = sp_buf p" and "sp_size p' = sp_size p" and "pipe_wf p \<Longrightarrow> pipe_wf p'"
  using assms
  by (auto simp: ShmPipe_GetOneData_def Let_def pipe_wf_SetIndex split: prod.splits if_splits)

lemma AppendOneData_wf:
  assumes "pipe_wf p" and "length m < 2 ^ 32" and "ShmPipe_AppendOneData p m = (ok, p')"
  shows "pipe_wf p' \<and> sp_size p' = sp_size p \<and> sp_begin p' = sp_begin p
    \<and> (\<forall>a \<ge> unat (sp_size p). sp_buf p' a = sp_buf p a)"
proof (cases "pipe_used p + length m + 4 \<le> unat (sp_size p) - 1")
  case True
  have "unat (word_of_nat ((unat (sp_end p) + (length m + 4)) mod unat (sp_size p)) :: uint32) < unat (sp_size p)"
    using assms(1) by (subst unat_of_mod32) (auto simp: pipe_wf_def)
  then show ?thesis
    using AppendOneData_room [OF assms(1) True] assms(1,3) by (auto simp: pipe_wf_def)
next
  case False
  then show ?thesis
    using AppendOneData_full [OF assms(1,2)] assms(1,3) by auto
qed

lemma Initialize_holds:
  assumes "SIZEOF_ShmPipe < byte_size" and "byte_size \<le> 2 ^ 31"
  shows "pipe_holds (ShmPipe_Initialize byte_size seg) []
    \<and> unat (sp_size (ShmPipe_Initialize byte_size seg)) = byte_size - SIZEOF_ShmPipe"
proof -
  have "word_of_int (int byte_size - int SIZEOF_ShmPipe) = (word_of_nat (byte_size - SIZEOF_ShmPipe) :: uint32)"
    using assms by (simp add: of_nat_diff)
  then have "unat (sp_size (ShmPipe_Initialize byte_size seg)) = byte_size - SIZEOF_ShmPipe"
    using assms unat_of_nat32 [of "byte_size - SIZEOF_ShmPipe"] by (simp add: ShmPipe_Initialize_def)
  then show ?thesis
    using assms by (simp add: pipe_holds_def pipe_wf_def pipe_content_def pipe_used_def ring_read_def
      ShmPipe_Initialize_def)
qed

subsection \<open>Properties\<close>

text \<open>C1. The ring buffer implements a bounded FIFO queue: on every sequence of
  \<^verbatim>\<open>AppendOneData\<close> and \<^verbatim>\<open>GetOneData\<close> calls the pipe returns what the abstract queue of
  capacity \<^verbatim>\<open>_size - 1\<close> returns (success or failure of each append, the message or the
  refusal of each read), and still holds that queue's messages afterwards, wherever in the
  ring the indices stand.\<close>

theorem shm_pipe_refines_fifo:
  assumes "pipe_holds p ms" and "list_all op_ok ops"
  shows "fst (fifo_run ShmPipe_AppendOneData pipe_get p ops)
      = fst (fifo_run (aq_put (unat (sp_size p) - 1)) aq_get ms ops)
    \<and> pipe_holds (snd (fifo_run ShmPipe_AppendOneData pipe_get p ops))
        (snd (fifo_run (aq_put (unat (sp_size p) - 1)) aq_get ms ops))"
  using pipe.run_refines [OF assms] by blast

theorem shm_pipe_refines_fifo_witness:
  "fst (fifo_run ShmPipe_AppendOneData pipe_get (ShmPipe_Initialize 32 \<lparr>sp_begin = 9, sp_end = 9, sp_size = 9, sp_buf = mem_zero\<rparr>)
     [Put [1, 2, 3], Put [4, 5], Get 16, Put [6, 7, 8, 9], Put [1, 2, 3, 4, 5], Get 16, Get 16, Get 16])
   = [Stored True, Stored True, Taken (Some [1, 2, 3]), Stored True, Stored False, Taken (Some [4, 5]),
      Taken (Some [6, 7, 8, 9]), Taken None]"
proof -
  let ?p = "ShmPipe_Initialize 32 \<lparr>sp_begin = 9, sp_end = 9, sp_size = 9, sp_buf = mem_zero\<rparr>"
  have "pipe_holds ?p []"
    using Initialize_holds [of 32 "\<lparr>sp_begin = 9, sp_end = 9, sp_size = 9, sp_buf = mem_zero\<rparr>"]
    by (simp add: SIZEOF_ShmPipe_def)
  moreover have "list_all op_ok [Put [1, 2, 3], Put [4, 5], Get 16, Put [6, 7, 8, 9], Put [1, 2, 3, 4, 5], Get 16, Get 16, Get 16]"
    by (simp add: op_ok_def)
  moreover have "unat (sp_size ?p) - 1 = 19"
    by (simp add: ShmPipe_Initialize_def SIZEOF_ShmPipe_def)
  ultimately show ?thesis
    using shm_pipe_refines_fifo [of ?p "[]" "[Put [1, 2, 3], Put [4, 5], Get 16, Put [6, 7, 8, 9], Put [1, 2, 3, 4, 5], Get 16, Get 16, Get 16]"]
    by (simp add: aq_put_def aq_get_def)
qed

text \<open>C16. Memory safety of \<^verbatim>\<open>AppendOneData\<close>: on a well-formed pipe with any contents, every
  byte outside the ring keeps its value, the reader's index is not touched, the pipe stays
  well formed, and the bytes in transit are still readable unchanged.\<close>

theorem AppendOneData_memory_safe:
  assumes "pipe_wf p" and "length m < 2 ^ 32" and "ShmPipe_AppendOneData p m = (ok, p')"
  shows "pipe_wf p' \<and> sp_size p' = sp_size p \<and> sp_begin p' = sp_begin p
    \<and> (\<forall>a \<ge> unat (sp_size p). sp_buf p' a = sp_buf p a)
    \<and> take (pipe_used p) (pipe_content p') = pipe_content p"
proof -
  have "take (pipe_used p) (pipe_content p') = pipe_content p"
  proof (cases "pipe_used p + length m + 4 \<le> unat (sp_size p) - 1")
    case True
    show ?thesis using append_keeps_content [OF assms(1) True] assms(3) by simp
  next
    case False
    then show ?thesis
      using AppendOneData_full [OF assms(1,2)] assms(3) by (auto simp: pipe_content_def)
  qed
  with AppendOneData_wf [OF assms] show ?thesis by blast
qed

theorem AppendOneData_memory_safe_witness:
  "pipe_wf (snd (ShmPipe_AppendOneData \<lparr>sp_begin = 14, sp_end = 14, sp_size = 16, sp_buf = mem_zero\<rparr> [7, 8]))"
proof -
  let ?p = "\<lparr>sp_begin = 14, sp_end = 14, sp_size = 16, sp_buf = mem_zero\<rparr> :: ShmPipe"
  have "pipe_wf ?p" by (simp add: pipe_wf_def)
  then show ?thesis
    using AppendOneData_memory_safe [of ?p "[7, 8]" "fst (ShmPipe_AppendOneData ?p [7, 8])" "snd (ShmPipe_AppendOneData ?p [7, 8])"]
    by simp
qed

text \<open>A message longer than the reader's buffer blocks the pipe: \<^verbatim>\<open>GetOneData\<close> refuses it,
  leaves the pipe as it is, and so refuses every later read with that buffer, whatever is
  appended behind the message in the meantime.\<close>

lemma oversized_message_blocks_reader:
  assumes "pipe_holds p (m # ms)" and "unat k < length m" and "list_all op_ok (map Put xs)"
  shows "fst (pipe_get (snd (fifo_run ShmPipe_AppendOneData pipe_get p (map Put xs))) k) = None"
proof -
  let ?q = "snd (fifo_run ShmPipe_AppendOneData pipe_get p (map Put xs))"
  have "pipe_holds ?q (snd (fifo_run (aq_put (unat (sp_size p) - 1)) aq_get (m # ms) (map Put xs)))"
    using pipe.run_refines [OF assms(1,3)] by blast
  moreover have "\<exists>zs. snd (fifo_run (aq_put (unat (sp_size p) - 1)) aq_get (m # ms) (map Put xs)) = m # zs"
    by (rule aq_run_puts_head)
  ultimately obtain zs where "pipe_holds ?q (m # zs)" by auto
  then show ?thesis
    using assms(2) by (simp add: pipe_get_def pipe_holds_block)
qed

text \<open>\<^verbatim>\<open>GetUsedSize\<close> is the number of bytes in transit exactly when the data does not wrap;
  when it does, the function returns \<^verbatim>\<open>_size + begin - end\<close>, which exceeds the number of bytes
  in transit and even the size of the ring (the distance is subtracted with the wrong
  sign).\<close>

lemma GetUsedSize_wrong_when_wrapped:
  assumes "pipe_wf p"
  shows "(sp_begin p \<le> sp_end p \<longrightarrow> unat (ShmPipe_GetUsedSize p) = pipe_used p)
    \<and> (sp_end p < sp_begin p \<longrightarrow> pipe_used p < unat (sp_size p) \<and> unat (sp_size p) < unat (ShmPipe_GetUsedSize p))"
  using GetUsedSize_eq [OF assms] pipe_used_less [OF assms] assms
  by (auto simp: word_less_nat_alt word_le_nat_alt pipe_wf_def)

end
