(* ===== verification/ShareMem.thy ===== *)
theory ShareMem
  imports Base
begin

text \<open>
  \<^verbatim>\<open>include/share_mem.hpp\<close>: System V shared memory. The kernel's segments are a table from
  keys to segments; whether a creation, an attachment or a removal is granted (memory limits,
  permissions) is up to the system and given by the record \<open>shm_os\<close>. As in the interface of
  \<^verbatim>\<open>shmget(2)\<close>, key 0 is \<^verbatim>\<open>IPC_PRIVATE\<close>: it never names an existing segment, and a segment
  created with it cannot be found again.
\<close>

record shm_seg =
  seg_size :: nat
  seg_mem :: mem

type_synonym shm_tab = "uint32 \<rightharpoonup> shm_seg"

record shm_os =
  create_ok :: "nat \<Rightarrow> bool"
  attach_ok :: "uint32 \<Rightarrow> bool"
  rmid_ok :: "uint32 \<Rightarrow> bool"

text \<open>\<^verbatim>\<open>shmget(key, 0, 0)\<close>: does the key name a segment?\<close>

definition shmget_existing :: "shm_tab \<Rightarrow> uint32 \<Rightarrow> bool" where
  "shmget_existing tab key \<longleftrightarrow> key \<noteq> 0 \<and> tab key \<noteq> None"

text \<open>\<^verbatim>\<open>shmget(key, bsize, flags | IPC_CREAT)\<close>.\<close>

definition ShareMem_Create :: "shm_os \<Rightarrow> shm_tab \<Rightarrow> uint32 \<Rightarrow> nat \<Rightarrow> bool \<times> shm_tab" where
  "ShareMem_Create K tab key bsize =
     (if key = 0 then (0 < bsize \<and> create_ok K bsize, tab)
      else (case tab key of
              Some seg \<Rightarrow> (bsize \<le> seg_size seg, tab)
            | None \<Rightarrow> if 0 < bsize \<and> create_ok K bsize
                      then (True, tab(key \<mapsto> \<lparr>seg_size = bsize, seg_mem = mem_zero\<rparr>)) else (False, tab)))"

definition ShareMem_IsExist :: "shm_tab \<Rightarrow> uint32 \<Rightarrow> bool" where
  "ShareMem_IsExist tab key = shmget_existing tab key"

text \<open>\<^verbatim>\<open>shmctl\<close> returns 0 when the segment has been removed; the code returns false then.\<close>

definition ShareMem_Delete :: "shm_os \<Rightarrow> shm_tab \<Rightarrow> uint32 \<Rightarrow> bool \<times> shm_tab" where
  "ShareMem_Delete K tab key =
     (if \<not> shmget_existing tab key then (False, tab)
      else
        let (ret, tab') = (if rmid_ok K key then (0 :: int, tab(key := None)) else (-1, tab))
        in if ret = 0 then (False, tab') else (True, tab'))"

text \<open>The object holds the key it is attached under; the memory it points to is the
  segment's.\<close>

record ShareMem =
  sm_key :: uint32
  sm_mem :: "uint32 option"

definition ShareMem_IsAttached :: "ShareMem \<Rightarrow> bool" where
  "ShareMem_IsAttached s \<longleftrightarrow> sm_key s \<noteq> 0 \<and> sm_mem s \<noteq> None"

definition ShareMem_Detach :: "ShareMem \<Rightarrow> ShareMem" where
  "ShareMem_Detach s = (if \<not> ShareMem_IsAttached s then s else s\<lparr>sm_key := 0, sm_mem := None\<rparr>)"

definition ShareMem_Attach :: "shm_os \<Rightarrow> shm_tab \<Rightarrow> ShareMem \<Rightarrow> uint32 \<Rightarrow> ShareMem" where
  "ShareMem_Attach K tab s key =
     (let s = (if ShareMem_IsAttached s then ShareMem_Detach s else s)
      in if \<not> shmget_existing tab key then s
         else if \<not> attach_ok K key then s
         else s\<lparr>sm_key := key, sm_mem := Some key\<rparr>)"

definition ShareMem_new :: "shm_os \<Rightarrow> shm_tab \<Rightarrow> uint32 \<Rightarrow> ShareMem" where
  "ShareMem_new K tab key = ShareMem_Attach K tab \<lparr>sm_key = 0, sm_mem = None\<rparr> key"

definition ShareMem_copy :: "shm_os \<Rightarrow> shm_tab \<Rightarrow> ShareMem \<Rightarrow> ShareMem" where
  "ShareMem_copy K tab rhs =
     (let s = \<lparr>sm_key = 0, sm_mem = None\<rparr>
      in if ShareMem_IsAttached rhs then ShareMem_Attach K tab s (sm_key rhs) else s)"

definition ShareMem_GetPtr :: "ShareMem \<Rightarrow> uint32 option" where
  "ShareMem_GetPtr s = sm_mem s"

definition ShareMem_GetByteSize :: "shm_tab \<Rightarrow> ShareMem \<Rightarrow> nat" where
  "ShareMem_GetByteSize tab s =
     (if \<not> shmget_existing tab (sm_key s) then 0
      else (case tab (sm_key s) of Some seg \<Rightarrow> seg_size seg | None \<Rightarrow> 0))"

subsection \<open>Lemmas\<close>

lemma ShareMem_Create_new:
  assumes "key \<noteq> 0" and "tab key = None" and "0 < bsize" and "create_ok K bsize"
  shows "ShareMem_Create K tab key bsize = (True, tab(key \<mapsto> \<lparr>seg_size = bsize, seg_mem = mem_zero\<rparr>))"
  using assms by (simp add: ShareMem_Create_def)

lemma ShareMem_new_attached:
  assumes "key \<noteq> 0" and "tab key = Some seg" and "attach_ok K key"
  shows "ShareMem_new K tab key = \<lparr>sm_key = key, sm_mem = Some key\<rparr>"
  using assms by (simp add: ShareMem_new_def ShareMem_Attach_def ShareMem_IsAttached_def shmget_existing_def)

lemma ShareMem_new_detached:
  assumes "key = 0 \<or> tab key = None \<or> \<not> attach_ok K key"
  shows "ShareMem_new K tab key = \<lparr>sm_key = 0, sm_mem = None\<rparr>"
  using assms by (auto simp: ShareMem_new_def ShareMem_Attach_def ShareMem_IsAttached_def shmget_existing_def Let_def)

lemma ShareMem_IsAttached_new:
  "ShareMem_IsAttached (ShareMem_new K tab key) \<longleftrightarrow> key \<noteq> 0 \<and> tab key \<noteq> None \<and> attach_ok K key"
  by (auto simp: ShareMem_new_def ShareMem_Attach_def ShareMem_IsAttached_def shmget_existing_def Let_def)

subsection \<open>Properties\<close>

text \<open>\<^verbatim>\<open>ShareMem::Delete\<close> reports the opposite of what it did: it returns true exactly
  when the segment exists and is still there afterwards, and false after every successful
  removal.\<close>

lemma Delete_result_inverted:
  "fst (ShareMem_Delete K tab key) \<longleftrightarrow> shmget_existing tab key \<and> shmget_existing (snd (ShareMem_Delete K tab key)) key"
  by (auto simp: ShareMem_Delete_def shmget_existing_def)

end
