(* ===== verification/Startup.thy ===== *)
theory Startup
  imports ShmPipe ShareMem Posix
begin

text \<open>
  What the start-up code of the logic servers, of the gateway and of the proxy has in common: the command line options, the
  options of a listening socket, and the pipes that are created in or attached to shared memory segments.
\<close>

text \<open>The options as \<^verbatim>\<open>getopt\<close> delivers them. \<^verbatim>\<open>Daemonize\<close> forks and is not part of the model's state. The
  array \<^verbatim>\<open>conf\<close> of \<^verbatim>\<open>Initialize\<close> is a memory into which \<^verbatim>\<open>strcpy\<close> writes the path and its terminator.\<close>

datatype cmd_opt = Opt_d | Opt_c "byte list" | Opt_i uint32 | Opt_other

text \<open>The kinds of socket in a table of sockets.\<close>

definition LISTEN_SOCKET :: uint32 where "LISTEN_SOCKET = 1"
definition CLINET_SOCKET :: uint32 where "CLINET_SOCKET = 2"

text \<open>A sequence of \<open>n\<close> socket options, up to the first failure.\<close>

fun set_options :: "'os posix \<Rightarrow> nat \<Rightarrow> int \<Rightarrow> 'os \<Rightarrow> bool \<times> 'os" where
  "set_options P 0 fd os = (True, os)"
| "set_options P (Suc n) fd os =
     (case sys_setsockopt P fd os of (ok, os) \<Rightarrow> if ok then set_options P n fd os else (False, os))"

text \<open>The pipe object at the start of a segment.\<close>

definition pipe_of_seg :: "shm_seg \<Rightarrow> nat \<times> ShmPipe" where
  "pipe_of_seg seg =
     (seg_size seg, \<lparr>sp_begin = un_le32 (mem_read (seg_mem seg) 0 4), sp_end = un_le32 (mem_read (seg_mem seg) 4 4),
                     sp_size = un_le32 (mem_read (seg_mem seg) 8 4), sp_buf = (\<lambda>i. seg_mem seg (SIZEOF_ShmPipe + i))\<rparr>)"

definition pshm_of :: "shm_tab \<Rightarrow> ShareMem \<Rightarrow> (nat \<times> ShmPipe) option" where
  "pshm_of tab shm =
     (case ShareMem_GetPtr shm of None \<Rightarrow> None | Some k \<Rightarrow> map_option pipe_of_seg (tab k))"

text \<open>Create the segment unless it is there, and attach to it.\<close>

definition create_or_attach :: "shm_os \<Rightarrow> shm_tab \<Rightarrow> uint32 \<Rightarrow> nat \<Rightarrow> bool \<times> ShareMem \<times> shm_tab" where
  "create_or_attach K tab key bsize =
     (let exist = ShareMem_IsExist tab key;
          tab = (if \<not> exist then snd (ShareMem_Create K tab key bsize) else tab)
      in (exist, ShareMem_new K tab key, tab))"

text \<open>An empty pipe, for examples.\<close>

definition demo_pipe :: "nat \<Rightarrow> ShmPipe" where
  "demo_pipe n = ShmPipe_Initialize (n + 12) \<lparr>sp_begin = 0, sp_end = 0, sp_size = 0, sp_buf = mem_zero\<rparr>"

lemma demo_pipe_holds: "0 < n \<Longrightarrow> n \<le> 100000 \<Longrightarrow> pipe_holds (demo_pipe n) [] \<and> unat (sp_size (demo_pipe n)) = n"
  using Initialize_holds [of "n + 12" "\<lparr>sp_begin = 0, sp_end = 0, sp_size = 0, sp_buf = mem_zero\<rparr>"]
  by (simp add: demo_pipe_def SIZEOF_ShmPipe_def)

end
