(* ===== verification/Server.thy ===== *)
theory Server
  imports CenterMng Startup
begin

text \<open>
  \<^verbatim>\<open>core/server.h\<close> and \<^verbatim>\<open>server.cpp\<close>: the frame of every logic server. It moves messages from the center
  connections and from the gateway's pipe into its own message queue (a shared-memory pipe, so that queued
  messages survive a restart), dispatches them to the virtual handlers of the concrete server, and
  offers the sending operations those handlers use.

  The class is a record; a concrete server extends it, and its virtual functions are the fields of
  \<open>logic\<close>. The static variables of functions (\<^verbatim>\<open>check_time\<close>, \<^verbatim>\<open>send_count\<close>), the flags set by the signal handlers, the
  cached clock, the table of shared memory segments and the rest of the operating system are fields as well. An operation that may
  never return is \<open>option\<close>-valued, \<open>None\<close> meaning that it does not.
\<close>

definition MAX_CENTER_NUM :: nat where "MAX_CENTER_NUM = 16"

definition EN_Flag_Exit :: uint32 where "EN_Flag_Exit = 1"
definition EN_Flag_Reload :: uint32 where "EN_Flag_Reload = 2"

record 'os Server =
  sv_info :: stSvrInfo
  sv_conf :: PBLogicConfig
  sv_cs_pipe :: "ShmPipe option"
  sv_sc_pipe :: "ShmPipe option"
  sv_msg_pipe :: ShmPipe
  sv_tcp_buf :: mem
  sv_tcp_len :: uint32
  sv_msg :: stMsg
  sv_msg_len :: uint32
  sv_center_num :: uint32
  sv_center_mng :: "CenterMng list"
  sv_center_buf :: mem
  sv_center_len :: uint32
  sv_run_flag :: uint32
  sv_check_time :: uint32
  sv_send_count :: uint32
  sv_cur_time :: uint64
  sv_shm :: shm_tab
  sv_os :: 'os

record 's logic =
  InitLogic :: "'s \<Rightarrow> bool \<times> 's"
  Reload :: "'s \<Rightarrow> 's option"
  Exit :: "'s \<Rightarrow> 's option"
  OnClientMessage :: "stTcpHead \<Rightarrow> stPBMsg \<Rightarrow> 's \<Rightarrow> 's option"
  OnClientOffline :: "uint64 \<Rightarrow> 's \<Rightarrow> 's option"
  OnServerMessage :: "stCenterHead \<Rightarrow> stPBMsg \<Rightarrow> 's \<Rightarrow> 's option"
  OnInteralMessage :: "stPBMsg \<Rightarrow> 's \<Rightarrow> 's option"
  OnRoutineCheck :: "'s \<Rightarrow> 's option"

definition SignalExit :: "('os, 'a) Server_scheme \<Rightarrow> ('os, 'a) Server_scheme" where
  "SignalExit s = s\<lparr>sv_run_flag := or (sv_run_flag s) EN_Flag_Exit\<rparr>"

definition SignalReload :: "('os, 'a) Server_scheme \<Rightarrow> ('os, 'a) Server_scheme" where
  "SignalReload s = s\<lparr>sv_run_flag := or (sv_run_flag s) EN_Flag_Reload\<rparr>"

subsection \<open>Start-up\<close>

fun Server_ParseArgs :: "cmd_opt list \<Rightarrow> stSvrInfo \<Rightarrow> mem \<Rightarrow> stSvrInfo \<times> mem" where
  "Server_ParseArgs [] info conf = (info, conf)"
| "Server_ParseArgs (Opt_d # os) info conf = Server_ParseArgs os info conf"
| "Server_ParseArgs (Opt_c path # os) info conf = Server_ParseArgs os info (mem_write conf 0 (path @ [0]))"
| "Server_ParseArgs (Opt_i i # os) info conf = Server_ParseArgs os (info\<lparr>si_svr_id := i\<rparr>) conf"
| "Server_ParseArgs (Opt_other # os) info conf = Server_ParseArgs os info conf"

definition Server_LoadConfig :: "(string \<Rightarrow> PBLogicConfig option) \<Rightarrow> string \<Rightarrow> ('os, 'a) Server_scheme \<Rightarrow> bool \<times> ('os, 'a) Server_scheme" where
  "Server_LoadConfig read_conf path s =
     (case SvrConfig_Init read_conf path (sv_conf s) of (ok, conf) \<Rightarrow> (ok, s\<lparr>sv_conf := conf\<rparr>))"

definition Server_InitMsgPipe :: "shm_os \<Rightarrow> ('os, 'a) Server_scheme \<Rightarrow> bool \<times> ('os, 'a) Server_scheme" where
  "Server_InitMsgPipe K s =
     (let key = lc_msg_shmkey (sv_conf s)
      in if key = 0 then (False, s)
      else let (exist, shm, tab) = create_or_attach K (sv_shm s) key (SIZEOF_ShmPipe + MSG_PIPE_SIZE * SIZEOF_stMsg + 1)
      in if \<not> ShareMem_IsAttached shm then (False, s\<lparr>sv_shm := snd (ShareMem_Delete K tab key)\<rparr>)
      else (case ShmPipe_new (pshm_of tab shm) exist of
              None \<Rightarrow> (False, s\<lparr>sv_shm := snd (ShareMem_Delete K tab key)\<rparr>)
            | Some p \<Rightarrow> (True, s\<lparr>sv_msg_pipe := p, sv_shm := tab\<rparr>)))"

definition Server_InitCsPipe :: "shm_os \<Rightarrow> ('os, 'a) Server_scheme \<Rightarrow> bool \<times> ('os, 'a) Server_scheme" where
  "Server_InitCsPipe K s =
     (let cs_key = lc_cs_shmkey (sv_conf s); sc_key = lc_sc_shmkey (sv_conf s)
      in if cs_key = 0 \<or> sc_key = 0 then (True, s)
      else
        let (cs_exist, cs_shm, tab) = create_or_attach K (sv_shm s) cs_key (SIZEOF_ShmPipe + CS_PIPE_SIZE * TCP_BUF_LEN);
            (sc_exist, sc_shm, tab) = create_or_attach K tab sc_key (SIZEOF_ShmPipe + SC_PIPE_SIZE * TCP_BUF_LEN);
            removed = snd (ShareMem_Delete K (snd (ShareMem_Delete K tab cs_key)) sc_key)
        in if \<not> ShareMem_IsAttached cs_shm \<or> \<not> ShareMem_IsAttached sc_shm then (False, s\<lparr>sv_shm := removed\<rparr>)
           else (case (ShmPipe_new (pshm_of tab cs_shm) cs_exist, ShmPipe_new (pshm_of tab sc_shm) sc_exist) of
                   (Some cs, Some sc) \<Rightarrow> (True, s\<lparr>sv_cs_pipe := Some cs, sv_sc_pipe := Some sc, sv_shm := tab\<rparr>)
                 | (cs, sc) \<Rightarrow> (False, s\<lparr>sv_cs_pipe := cs, sv_sc_pipe := sc, sv_shm := removed\<rparr>)))"

text \<open>The loop of \<^verbatim>\<open>InitCenter\<close> over the configured addresses.\<close>

fun init_centers :: "'os posix \<Rightarrow> nat \<Rightarrow> PBAddr list \<Rightarrow> stSvrInfo \<Rightarrow> CenterMng list \<Rightarrow> 'os \<Rightarrow> (bool \<times> CenterMng list \<times> 'os) option" where
  "init_centers P i [] info cms os = Some (True, cms, os)"
| "init_centers P i (a # as) info cms os =
     (let (ok, m, os) = CenterMng_Connect P (CenterMng_Init a info (cms ! i)) os;
          cms = cms[i := m]
      in if \<not> ok then Some (False, cms, os)
         else do {
           (ok, os) \<leftarrow> CenterMng_Register P m os;
           (if \<not> ok then Some (False, cms, os) else init_centers P (Suc i) as info cms os)
         })"

definition Server_InitCenter :: "'os posix \<Rightarrow> ('os, 'a) Server_scheme \<Rightarrow> (bool \<times> ('os, 'a) Server_scheme) option" where
  "Server_InitCenter P s =
     (let addrs = lc_center_addrs (sv_conf s)
      in if length addrs = 0 then Some (False, s)
         else if length addrs > MAX_CENTER_NUM then Some (False, s)
         else do {
           (ok, cms, os) \<leftarrow> init_centers P 0 addrs (sv_info s) (sv_center_mng s) (sv_os s);
           Some (ok, s\<lparr>sv_center_num := word_of_nat (length addrs), sv_center_mng := cms, sv_os := os\<rparr>)
         })"

text \<open>\<^verbatim>\<open>Initialize\<close>: the result codes of the code; installing the signal handlers has no effect on the state.\<close>

definition Server_Initialize :: "'os posix \<Rightarrow> shm_os \<Rightarrow> ('os, 'a) Server_scheme logic \<Rightarrow> (string \<Rightarrow> PBLogicConfig option) \<Rightarrow> (mem \<Rightarrow> string)
    \<Rightarrow> cmd_opt list \<Rightarrow> uint32 \<Rightarrow> ('os, 'a) Server_scheme \<Rightarrow> (int \<times> ('os, 'a) Server_scheme) option" where
  "Server_Initialize P K L read_conf c_str opts ty s =
     (let s = s\<lparr>sv_info := (sv_info s)\<lparr>si_svr_type := ty\<rparr>\<rparr>;
          (info, conf) = Server_ParseArgs opts (sv_info s) mem_zero;
          (ok, s) = Server_LoadConfig read_conf (c_str conf) (s\<lparr>sv_info := info\<rparr>)
      in if \<not> ok then Some (-1, s)
      else let (ok, s) = Server_InitMsgPipe K s
      in if \<not> ok then Some (-2, s)
      else do {
        (ok, s) \<leftarrow> Server_InitCenter P s;
        (if \<not> ok then Some (-5, s)
         else let (ok, s) = Server_InitCsPipe K s
         in if \<not> ok then Some (-3, s)
         else let (ok, s) = InitLogic L s
         in if \<not> ok then Some (-4, s) else Some (0, s))
      })"

subsection \<open>The message queue\<close>

definition post_msg :: "EN_MSG_TYPE \<Rightarrow> byte list \<Rightarrow> byte list \<Rightarrow> ('os, 'a) Server_scheme \<Rightarrow> bool \<times> ('os, 'a) Server_scheme" where
  "post_msg ty head buf s =
     (let m = \<lparr>m_type = ty, m_pb_msg = \<lparr>pm_data_len = word_of_nat (length buf),
                                          pm_data = mem_write (pm_data (m_pb_msg (sv_msg s))) 0 buf\<rparr>, m_head = head\<rparr>;
          (ok, p) = ShmPipe_AppendOneData (sv_msg_pipe s) (enc_msg m)
      in (ok, s\<lparr>sv_msg := m, sv_msg_pipe := p\<rparr>))"

definition Server_PostMessage_tcp :: "stTcpHead \<Rightarrow> byte list \<Rightarrow> ('os, 'a) Server_scheme \<Rightarrow> bool \<times> ('os, 'a) Server_scheme" where
  "Server_PostMessage_tcp head buf s = post_msg EN_MSG_CLIENT (enc_tcp_head head) buf s"

definition Server_PostMessage_center :: "stCenterHead \<Rightarrow> byte list \<Rightarrow> ('os, 'a) Server_scheme \<Rightarrow> bool \<times> ('os, 'a) Server_scheme" where
  "Server_PostMessage_center head buf s = post_msg EN_MSG_SERVER (enc_center_head head) buf s"

text \<open>An internal message leaves the head union as the previous message left it.\<close>

definition Server_PostMessage :: "byte list \<Rightarrow> ('os, 'a) Server_scheme \<Rightarrow> bool \<times> ('os, 'a) Server_scheme" where
  "Server_PostMessage buf s = post_msg EN_MSG_INTERNAL (m_head (sv_msg s)) buf s"

text \<open>\<^verbatim>\<open>DispatchMessage\<close>: at most 1024 messages per round.\<close>

definition dispatch_one :: "('os, 'a) Server_scheme logic \<Rightarrow> ('os, 'a) Server_scheme \<Rightarrow> ('os, 'a) Server_scheme option" where
  "dispatch_one L s =
     (case m_type (sv_msg s) of
        EN_MSG_CLIENT \<Rightarrow> OnClientMessage L (dec_tcp_head (m_head (sv_msg s))) (m_pb_msg (sv_msg s)) s
      | EN_MSG_SERVER \<Rightarrow> OnServerMessage L (dec_center_head (m_head (sv_msg s))) (m_pb_msg (sv_msg s)) s
      | EN_MSG_INTERNAL \<Rightarrow> OnInteralMessage L (m_pb_msg (sv_msg s)) s
      | EN_MSG_other _ \<Rightarrow> Some s)"

fun dispatch_loop :: "('os, 'a) Server_scheme logic \<Rightarrow> nat \<Rightarrow> ('os, 'a) Server_scheme \<Rightarrow> ('os, 'a) Server_scheme option" where
  "dispatch_loop L 0 s = Some s"
| "dispatch_loop L (Suc n) s =
     (case ShmPipe_GetOneData (sv_msg_pipe s) (word_of_nat SIZEOF_stMsg) of
        (False, len, _, p) \<Rightarrow> Some (s\<lparr>sv_msg_pipe := p, sv_msg_len := len\<rparr>)
      | (True, len, data, p) \<Rightarrow>
          let s = s\<lparr>sv_msg_pipe := p, sv_msg_len := len, sv_msg := dec_msg (data @ drop (length data) (enc_msg (sv_msg s)))\<rparr>
          in if unat len \<noteq> SIZEOF_stMsg then dispatch_loop L n s
             else do { s \<leftarrow> dispatch_one L s; dispatch_loop L n s })"

definition Server_DispatchMessage :: "('os, 'a) Server_scheme logic \<Rightarrow> ('os, 'a) Server_scheme \<Rightarrow> ('os, 'a) Server_scheme option" where
  "Server_DispatchMessage L s = dispatch_loop L 1024 s"

subsection \<open>Input from the gateway\<close>

fun client_loop :: "('os, 'a) Server_scheme logic \<Rightarrow> nat \<Rightarrow> ('os, 'a) Server_scheme \<Rightarrow> ('os, 'a) Server_scheme option" where
  "client_loop L 0 s = Some s"
| "client_loop L (Suc n) s =
     (case sv_cs_pipe s of
        None \<Rightarrow> Some s
      | Some p \<Rightarrow>
          (case ShmPipe_GetOneData p (word_of_nat TCP_BUF_LEN) of
             (False, len, _, p) \<Rightarrow> Some (s\<lparr>sv_cs_pipe := Some p, sv_tcp_len := len\<rparr>)
           | (True, len, data, p) \<Rightarrow>
               let s = s\<lparr>sv_cs_pipe := Some p, sv_tcp_len := len, sv_tcp_buf := mem_write (sv_tcp_buf s) 0 data\<rparr>
               in if unat len \<le> TCPHEAD_LEN + 4 then client_loop L n s
                  else
                    let len = len - word_of_nat TCPHEAD_LEN;
                        s = s\<lparr>sv_tcp_len := len\<rparr>;
                        head = dec_tcp_head (mem_read (sv_tcp_buf s) 0 TCPHEAD_LEN)
                    in if th_msg_type head = CLI_DISCON
                       then (if unat len \<noteq> 8 then client_loop L n s
                             else do { s \<leftarrow> OnClientOffline L (un_le64 (mem_read (sv_tcp_buf s) TCPHEAD_LEN 8)) s; client_loop L n s })
                       else if len \<le> 4 then client_loop L n s
                       else
                         let pb_len = ntohl (un_le32 (mem_read (sv_tcp_buf s) TCPHEAD_LEN 4))
                         in if pb_len \<noteq> len then client_loop L n s
                            else (case Server_PostMessage_tcp head (mem_read (sv_tcp_buf s) (TCPHEAD_LEN + 4) (unat (len - 4))) s of
                                    (False, s) \<Rightarrow> Some s
                                  | (True, s) \<Rightarrow> client_loop L n s)))"

definition Server_GetClientMessage :: "('os, 'a) Server_scheme logic \<Rightarrow> ('os, 'a) Server_scheme \<Rightarrow> ('os, 'a) Server_scheme option" where
  "Server_GetClientMessage L s = (if sv_cs_pipe s = None then Some s else client_loop L 1024 s)"

subsection \<open>The center connections\<close>

fun check_conns :: "'os posix \<Rightarrow> nat list \<Rightarrow> CenterMng list \<Rightarrow> 'os \<Rightarrow> (CenterMng list \<times> 'os) option" where
  "check_conns P [] cms os = Some (cms, os)"
| "check_conns P (i # is) cms os =
     do { (m, os) \<leftarrow> CenterMng_CheckConnect P (cms ! i) os; check_conns P is (cms[i := m]) os }"

definition Server_CheckCenterConn :: "'os posix \<Rightarrow> ('os, 'a) Server_scheme \<Rightarrow> ('os, 'a) Server_scheme option" where
  "Server_CheckCenterConn P s =
     (if sv_check_time s + 1 \<le> GetTime (sv_cur_time s)
      then do {
        (cms, os) \<leftarrow> check_conns P [0..<unat (sv_center_num s)] (sv_center_mng s) (sv_os s);
        Some (s\<lparr>sv_check_time := GetTime (sv_cur_time s), sv_center_mng := cms, sv_os := os\<rparr>)
      }
      else Some s)"

fun recv_centers :: "'os posix \<Rightarrow> int list \<Rightarrow> nat list \<Rightarrow> CenterMng list \<Rightarrow> 'os \<Rightarrow> (CenterMng list \<times> 'os) option" where
  "recv_centers P fds [] cms os = Some (cms, os)"
| "recv_centers P fds (i # is) cms os =
     (if \<not> CenterMng_HasInput (cms ! i) fds then recv_centers P fds is cms os
      else do { (m, os) \<leftarrow> CenterMng_RecvData P (cms ! i) os; recv_centers P fds is (cms[i := m]) os })"

text \<open>The inner loop of \<^verbatim>\<open>GetCenterMessage\<close> for connection \<open>i\<close>. The result tells whether the function returns at once
  because the message queue is full.\<close>

partial_function (option) post_center :: "'os posix \<Rightarrow> nat \<Rightarrow> nat \<Rightarrow> ('os, 'a) Server_scheme \<Rightarrow> (bool \<times> nat \<times> ('os, 'a) Server_scheme) option" where
  "post_center P i count s =
     (case CenterMng_GetOneData P (sv_center_buf s) (word_of_nat CENTER_BUF_LEN) (sv_center_mng s ! i) (sv_os s) of
        (ok, buf, m, os) \<Rightarrow>
          let s = s\<lparr>sv_center_buf := buf, sv_center_mng := (sv_center_mng s)[i := m], sv_os := os\<rparr>
          in if \<not> ok then Some (False, count, s)
             else
               let len = un_le32 (mem_read buf 0 4)
               in if unat len \<le> 4 + CENTERHEAD_LEN then post_center P i count s
                  else
                    let head = dec_center_head (mem_read buf 4 CENTERHEAD_LEN);
                        pb = mem_read buf (4 + CENTERHEAD_LEN) (unat len - 4 - CENTERHEAD_LEN)
                    in (case Server_PostMessage_center head pb s of
                          (ok, s) \<Rightarrow> if \<not> ok then Some (True, count, s) else post_center P i (count + 1) s))"

fun post_centers :: "'os posix \<Rightarrow> nat list \<Rightarrow> nat \<Rightarrow> ('os, 'a) Server_scheme \<Rightarrow> ('os, 'a) Server_scheme option" where
  "post_centers P [] count s = Some s"
| "post_centers P (i # is) count s =
     (if count \<ge> 512 then Some s
      else do {
        (full, count, s) \<leftarrow> post_center P i count s;
        (if full then Some s else post_centers P is count s)
      })"

definition Server_GetCenterMessage :: "'os posix \<Rightarrow> ('os, 'a) Server_scheme \<Rightarrow> ('os, 'a) Server_scheme option" where
  "Server_GetCenterMessage P s =
     (let is = [0..<unat (sv_center_num s)];
          fds = fold (\<lambda>i fds. CenterMng_AddFd (sv_center_mng s ! i) fds) is [];
          ((fd_num, ready), os) = sys_select P fds (sv_os s)
      in if fd_num \<le> 0 then Some (s\<lparr>sv_os := os\<rparr>)
         else do {
           (cms, os) \<leftarrow> recv_centers P ready is (sv_center_mng s) os;
           post_centers P is 0 (s\<lparr>sv_center_mng := cms, sv_os := os\<rparr>)
         })"

subsection \<open>Sending\<close>

definition Server_SendMessageToInternal :: "byte list \<Rightarrow> ('os, 'a) Server_scheme \<Rightarrow> bool \<times> ('os, 'a) Server_scheme" where
  "Server_SendMessageToInternal buf s = Server_PostMessage buf s"

text \<open>Both client operations build the record in \<^verbatim>\<open>_tcp_buf\<close> and append its first \<^verbatim>\<open>_tcp_len\<close> bytes.\<close>

definition append_tcp :: "byte list \<Rightarrow> ('os, 'a) Server_scheme \<Rightarrow> bool \<times> ('os, 'a) Server_scheme" where
  "append_tcp bs s =
     (case sv_sc_pipe s of
        None \<Rightarrow> (False, s)
      | Some p \<Rightarrow>
          let s = s\<lparr>sv_tcp_buf := mem_write (sv_tcp_buf s) 0 bs, sv_tcp_len := word_of_nat (length bs)\<rparr>;
              (ok, p) = ShmPipe_AppendOneData p (mem_read (sv_tcp_buf s) 0 (unat (sv_tcp_len s)))
          in (ok, s\<lparr>sv_sc_pipe := Some p\<rparr>))"

definition Server_SendMessageToClient :: "stTcpHead \<Rightarrow> byte list \<Rightarrow> ('os, 'a) Server_scheme \<Rightarrow> bool \<times> ('os, 'a) Server_scheme" where
  "Server_SendMessageToClient head buf s =
     append_tcp (enc_tcp_head head @ le32 (htonl (word_of_nat (length buf) + 4)) @ buf) s"

definition Server_NotifyTcpLogicIndex :: "stTcpHead \<Rightarrow> uint64 \<Rightarrow> ('os, 'a) Server_scheme \<Rightarrow> bool \<times> ('os, 'a) Server_scheme" where
  "Server_NotifyTcpLogicIndex head logic_index s =
     append_tcp (enc_tcp_head (head\<lparr>th_msg_type := LOGIC_INDEX\<rparr>) @ le64 logic_index) s"

text \<open>The choice of the center: the given one, the one of the hash key, or the next one in turn.\<close>

definition route_center :: "stCenterHead \<Rightarrow> int \<Rightarrow> uint32 \<Rightarrow> uint32 \<Rightarrow> int \<times> uint32" where
  "route_center head center_index center_num send_count =
     (if center_index = -1
      then (case ch_route_type head of
              route_hash \<Rightarrow> (uint (ch_hash_key head mod ucast center_num), send_count)
            | route_p2p \<Rightarrow> (uint (send_count mod center_num), send_count + 1)
            | route_broadcast \<Rightarrow> (uint (send_count mod center_num), send_count + 1)
            | route_other _ \<Rightarrow> (center_index, send_count))
      else (center_index, send_count))"

definition Server_SendMessageToCenter :: "'os posix \<Rightarrow> stCenterHead \<Rightarrow> byte list \<Rightarrow> int \<Rightarrow> ('os, 'a) Server_scheme \<Rightarrow> bool \<times> ('os, 'a) Server_scheme" where
  "Server_SendMessageToCenter P head buf center_index s =
     (let (ci, cnt) = route_center head center_index (sv_center_num s) (sv_send_count s);
          s = s\<lparr>sv_send_count := cnt\<rparr>
      in if ci = -1 \<or> word_of_int ci \<ge> sv_center_num s then (False, s)
         else
           let head = head\<lparr>ch_center_index := word_of_int ci\<rparr>;
               total_len = 4 + word_of_nat CENTERHEAD_LEN + word_of_nat (length buf) :: uint32;
               s = s\<lparr>sv_center_buf := mem_write (sv_center_buf s) 0 (le32 total_len @ enc_center_head head @ buf), sv_center_len := total_len\<rparr>;
               (ok, m, os) = CenterMng_SendOneData P (mem_read (sv_center_buf s) 0 (unat (sv_center_len s))) (sv_center_mng s ! nat ci) (sv_os s)
           in (ok, s\<lparr>sv_center_mng := (sv_center_mng s)[nat ci := m], sv_os := os\<rparr>))"

subsection \<open>The main loop\<close>

text \<open>\<^verbatim>\<open>CheckRunFlag\<close>: the first component is false when the server shall stop.\<close>

definition Server_CheckRunFlag :: "('os, 'a) Server_scheme logic \<Rightarrow> ('os, 'a) Server_scheme \<Rightarrow> (bool \<times> ('os, 'a) Server_scheme) option" where
  "Server_CheckRunFlag L s =
     (if and (sv_run_flag s) EN_Flag_Exit \<noteq> 0 then do { s \<leftarrow> Exit L s; Some (False, s) }
      else if and (sv_run_flag s) EN_Flag_Reload \<noteq> 0
      then do { s \<leftarrow> Reload L s; Some (True, s\<lparr>sv_run_flag := and (sv_run_flag s) (not EN_Flag_Reload)\<rparr>) }
      else Some (True, s))"

definition update_time :: "'os posix \<Rightarrow> ('os, 'a) Server_scheme \<Rightarrow> ('os, 'a) Server_scheme" where
  "update_time P s = (case sys_gettimeofday P (sv_os s) of ((sec, usec), os) \<Rightarrow> s\<lparr>sv_cur_time := SetTimeMsec sec usec, sv_os := os\<rparr>)"

definition server_round :: "'os posix \<Rightarrow> ('os, 'a) Server_scheme logic \<Rightarrow> ('os, 'a) Server_scheme \<Rightarrow> (bool \<times> ('os, 'a) Server_scheme) option" where
  "server_round P L s = do {
     (go, s) \<leftarrow> Server_CheckRunFlag L s;
     (if \<not> go then Some (False, s)
      else do {
        s \<leftarrow> Server_CheckCenterConn P (update_time P s);
        s \<leftarrow> Server_GetCenterMessage P s;
        s \<leftarrow> Server_GetClientMessage L s;
        s \<leftarrow> Server_DispatchMessage L s;
        s \<leftarrow> OnRoutineCheck L s;
        Some (True, s)
      })
   }"

text \<open>\<^verbatim>\<open>Run\<close>, as long as it is observed: \<open>sigs\<close> lists, round by round, the flags that signal handlers have raised.
  The result tells whether the loop is still running.\<close>

fun Server_Run :: "'os posix \<Rightarrow> ('os, 'a) Server_scheme logic \<Rightarrow> uint32 list \<Rightarrow> ('os, 'a) Server_scheme \<Rightarrow> (bool \<times> ('os, 'a) Server_scheme) option" where
  "Server_Run P L [] s = Some (True, s)"
| "Server_Run P L (sig # sigs) s = do {
     (go, s) \<leftarrow> server_round P L (s\<lparr>sv_run_flag := or (sv_run_flag s) sig\<rparr>);
     (if \<not> go then Some (False, s) else Server_Run P L sigs s)
   }"

end
