(* ===== verification/Serialize.thy ===== *)
theory Serialize
  imports Base
begin

text \<open>
  \<^verbatim>\<open>include/serialize.hpp\<close>: writing and reading values at a running offset of a byte buffer,
  with the 64-bit \<^verbatim>\<open>size_t\<close> arithmetic of the bounds checks. A trivially copyable value is
  given by its bytes. Protocol buffer messages are generated code outside the repository's
  sources: their encoder (\<open>pb_ser\<close>, whose length is \<^verbatim>\<open>ByteSize()\<close>) and parser (\<open>pb_parse\<close>)
  are arguments, and \<open>pb_codec\<close> states the documented round trip between them, for
  messages below the 2 GB limit of the wire format.
\<close>

definition SerializeBase :: "mem \<Rightarrow> uint64 \<Rightarrow> uint64 \<Rightarrow> byte list \<Rightarrow> bool \<times> mem \<times> uint64" where
  "SerializeBase buf bsize offset elem =
     (let elem_size = word_of_nat (length elem)
      in if elem_size + offset > bsize then (False, buf, offset)
         else (True, mem_write buf (unat offset) elem, offset + elem_size))"

definition SerializePB :: "('m \<Rightarrow> byte list) \<Rightarrow> mem \<Rightarrow> uint64 \<Rightarrow> uint64 \<Rightarrow> 'm \<Rightarrow> bool \<times> mem \<times> uint64" where
  "SerializePB pb_ser buf bsize offset elem =
     (let elem_size = (word_of_nat (length (pb_ser elem)) :: uint64)
      in case SerializeBase buf bsize offset (le64 elem_size) of
           (False, buf, offset) \<Rightarrow> (False, buf, offset)
         | (True, buf, offset) \<Rightarrow>
             if elem_size + offset > bsize then (False, buf, offset)
             else (True, mem_write buf (unat offset) (pb_ser elem), offset + elem_size))"

definition UnSerializeBase :: "mem \<Rightarrow> uint64 \<Rightarrow> uint64 \<Rightarrow> nat \<Rightarrow> (byte list \<times> uint64) option" where
  "UnSerializeBase buf bsize offset n =
     (let elem_size = word_of_nat n
      in if elem_size + offset > bsize then None
         else Some (mem_read buf (unat offset) n, offset + elem_size))"

definition UnSerializePB :: "(byte list \<Rightarrow> 'm option) \<Rightarrow> mem \<Rightarrow> uint64 \<Rightarrow> uint64 \<Rightarrow> ('m \<times> uint64) option" where
  "UnSerializePB pb_parse buf bsize offset =
     (case UnSerializeBase buf bsize offset 8 of
        None \<Rightarrow> None
      | Some (bs, offset) \<Rightarrow>
          let elem_size = un_le64 bs
          in if elem_size + offset > bsize then None
             else (case pb_parse (mem_read buf (unat offset) (unat elem_size)) of
                     None \<Rightarrow> None
                   | Some m \<Rightarrow> Some (m, offset + elem_size)))"

definition pb_codec :: "('m \<Rightarrow> byte list) \<Rightarrow> (byte list \<Rightarrow> 'm option) \<Rightarrow> bool" where
  "pb_codec pb_ser pb_parse \<longleftrightarrow> (\<forall>m. length (pb_ser m) < 2 ^ 31 \<longrightarrow> pb_parse (pb_ser m) = Some m)"

text \<open>A stored object: its bytes, and what its \<^verbatim>\<open>Serialize\<close>/\<^verbatim>\<open>UnSerialize\<close> methods promise at an
  offset where the bytes fit, for objects whose fields have their declared sizes (\<open>valid\<close>).\<close>

definition serial_law :: "('a \<Rightarrow> bool) \<Rightarrow> ('a \<Rightarrow> byte list) \<Rightarrow> ('a \<Rightarrow> mem \<Rightarrow> uint64 \<Rightarrow> uint64 \<Rightarrow> bool \<times> mem \<times> uint64)
    \<Rightarrow> (mem \<Rightarrow> uint64 \<Rightarrow> uint64 \<Rightarrow> ('a \<times> uint64) option) \<Rightarrow> bool" where
  "serial_law valid bytes ser unser \<longleftrightarrow>
     (\<forall>x m bsize off. valid x \<longrightarrow> unat off + length (bytes x) \<le> unat bsize \<longrightarrow>
        ser x m bsize off = (True, mem_write m (unat off) (bytes x), off + word_of_nat (length (bytes x)))) \<and>
     (\<forall>x m bsize off. valid x \<longrightarrow> unat off + length (bytes x) \<le> unat bsize \<longrightarrow>
        mem_read m (unat off) (length (bytes x)) = bytes x \<longrightarrow>
        unser m bsize off = Some (x, off + word_of_nat (length (bytes x))))"

definition pb_bytes :: "('m \<Rightarrow> byte list) \<Rightarrow> 'm \<Rightarrow> byte list" where
  "pb_bytes pb_ser m = le64 (word_of_nat (length (pb_ser m))) @ pb_ser m"

subsection \<open>In-range behaviour\<close>

lemma unat_of_nat64: "x < 2 ^ 64 \<Longrightarrow> unat (word_of_nat x :: uint64) = x"
  by (simp add: unat_of_nat)

lemma unat_add64:
  assumes "n + unat b < 2 ^ 64"
  shows "unat (word_of_nat n + b :: uint64) = n + unat b"
  using assms by (simp add: unat_word_ariths unat_of_nat mod_simps)

lemma fits_offset:
  assumes "unat off + n \<le> unat (bsize :: uint64)"
  shows "unat (word_of_nat n + off) = n + unat off" and "\<not> word_of_nat n + off > bsize"
    and "unat (off + word_of_nat n) = unat off + n"
proof -
  have lt: "n + unat off < 2 ^ 64"
    using assms unat_bound [of bsize] by simp
  then show e: "unat (word_of_nat n + off) = n + unat off"
    by (rule unat_add64)
  then show "\<not> word_of_nat n + off > bsize"
    using assms by (simp add: word_less_nat_alt)
  show "unat (off + word_of_nat n) = unat off + n"
    using e by (simp add: add.commute)
qed

lemma SerializeBase_fits:
  assumes "unat off + length bs \<le> unat bsize"
  shows "SerializeBase m bsize off bs = (True, mem_write m (unat off) bs, off + word_of_nat (length bs))"
  using fits_offset [OF assms] by (simp add: SerializeBase_def)

lemma UnSerializeBase_fits:
  assumes "unat off + n \<le> unat bsize"
  shows "UnSerializeBase m bsize off n = Some (mem_read m (unat off) n, off + word_of_nat n)"
  using fits_offset [OF assms] by (simp add: UnSerializeBase_def)

lemma SerializePB_fits:
  assumes "unat off + length (pb_bytes pb_ser x) \<le> unat bsize" and "length (pb_ser x) < 2 ^ 31"
  shows "SerializePB pb_ser m bsize off x
    = (True, mem_write m (unat off) (pb_bytes pb_ser x), off + word_of_nat (length (pb_bytes pb_ser x)))"
proof -
  let ?n = "length (pb_ser x)" and ?h = "le64 (word_of_nat (length (pb_ser x)))"
  have h: "SerializeBase m bsize off ?h = (True, mem_write m (unat off) ?h, off + 8)"
    using SerializeBase_fits [of off ?h bsize m] assms(1) by (simp add: pb_bytes_def)
  have o8: "unat (off + 8) = unat off + 8"
    using fits_offset(3) [of off 8 bsize] assms(1) by (simp add: pb_bytes_def)
  have "unat (off + 8) + ?n \<le> unat bsize"
    using o8 assms(1) by (simp add: pb_bytes_def)
  then have "\<not> word_of_nat ?n + (off + 8) > bsize"
    by (rule fits_offset(2))
  then show ?thesis
    using h o8 mem_write_write_append [of m "unat off" ?h "pb_ser x"]
    by (simp add: SerializePB_def pb_bytes_def Let_def add.assoc [symmetric])
qed

lemma UnSerializePB_fits:
  assumes fit: "unat off + length (pb_bytes pb_ser x) \<le> unat bsize"
    and bytes: "mem_read m (unat off) (length (pb_bytes pb_ser x)) = pb_bytes pb_ser x"
    and codec: "pb_codec pb_ser pb_parse" and small: "length (pb_ser x) < 2 ^ 31"
  shows "UnSerializePB pb_parse m bsize off = Some (x, off + word_of_nat (length (pb_bytes pb_ser x)))"
proof -
  let ?n = "length (pb_ser x)" and ?w = "word_of_nat (length (pb_ser x)) :: uint64"
  have n: "unat ?w = ?n" using small by (intro unat_of_nat64) simp
  have len: "length (pb_bytes pb_ser x) = 8 + ?n" by (simp add: pb_bytes_def)
  have rd: "mem_read m (unat off) 8 = le64 ?w" "mem_read m (unat off + 8) ?n = pb_ser x"
    using bytes by (simp_all add: len mem_read_append) (simp_all add: pb_bytes_def)
  have h: "UnSerializeBase m bsize off 8 = Some (le64 ?w, off + 8)"
    using UnSerializeBase_fits [of off 8 bsize m] fit rd by (simp add: len)
  have o8: "unat (off + 8) = unat off + 8"
    using fits_offset(3) [of off 8 bsize] fit by (simp add: len)
  have "unat (off + 8) + ?n \<le> unat bsize"
    using o8 fit by (simp add: len)
  then have "\<not> ?w + (off + 8) > bsize"
    by (rule fits_offset(2))
  then show ?thesis
    using h o8 rd n codec small by (simp add: UnSerializePB_def pb_codec_def len Let_def add.assoc [symmetric])
qed

text \<open>A protocol buffer followed by a trailer of fixed size, the layout of players and sessions;
  a trailer of size 0 is the layout of timers.\<close>

lemma pb_then_base_write:
  assumes "unat off + length (pb_bytes pb_ser x @ bs) \<le> unat bsize" and "length (pb_ser x) < 2 ^ 31"
  shows "\<exists>m1 off1. SerializePB pb_ser m bsize off x = (True, m1, off1)
    \<and> SerializeBase m1 bsize off1 bs
        = (True, mem_write m (unat off) (pb_bytes pb_ser x @ bs), off + word_of_nat (length (pb_bytes pb_ser x @ bs)))"
proof -
  let ?n = "length (pb_bytes pb_ser x)"
  have o: "unat (off + word_of_nat ?n) = unat off + ?n"
    using assms(1) by (intro fits_offset(3) [of off _ bsize]) simp
  then have "SerializeBase (mem_write m (unat off) (pb_bytes pb_ser x)) bsize (off + word_of_nat ?n) bs
      = (True, mem_write m (unat off) (pb_bytes pb_ser x @ bs), off + word_of_nat ?n + word_of_nat (length bs))"
    using SerializeBase_fits [of "off + word_of_nat ?n" bs bsize] assms(1) by (simp add: mem_write_write_append)
  then show ?thesis
    using SerializePB_fits [of off pb_ser x bsize m] assms by (simp add: add.assoc)
qed

lemma pb_then_base_read:
  assumes fit: "unat off + length (pb_bytes pb_ser x @ bs) \<le> unat bsize" and codec: "pb_codec pb_ser pb_parse"
    and small: "length (pb_ser x) < 2 ^ 31"
    and rd: "mem_read m (unat off) (length (pb_bytes pb_ser x @ bs)) = pb_bytes pb_ser x @ bs"
  shows "UnSerializePB pb_parse m bsize off = Some (x, off + word_of_nat (length (pb_bytes pb_ser x)))"
    and "UnSerializeBase m bsize (off + word_of_nat (length (pb_bytes pb_ser x))) (length bs)
      = Some (bs, off + word_of_nat (length (pb_bytes pb_ser x @ bs)))"
proof -
  let ?n = "length (pb_bytes pb_ser x)"
  have r: "mem_read m (unat off) ?n = pb_bytes pb_ser x" "mem_read m (unat off + ?n) (length bs) = bs"
    using rd by (simp_all add: mem_read_append)
  then show "UnSerializePB pb_parse m bsize off = Some (x, off + word_of_nat ?n)"
    using fit codec small by (intro UnSerializePB_fits) auto
  have o: "unat (off + word_of_nat ?n) = unat off + ?n"
    using fit by (intro fits_offset(3) [of off _ bsize]) simp
  then show "UnSerializeBase m bsize (off + word_of_nat ?n) (length bs)
      = Some (bs, off + word_of_nat (length (pb_bytes pb_ser x @ bs)))"
    using UnSerializeBase_fits [of "off + word_of_nat ?n" "length bs" bsize m] fit r(2) by (simp add: add.assoc)
qed

end
