(* ===== verification/ObjectMng.thy ===== *)
theory ObjectMng
  imports ShareMem Serialize "HOL-Library.Multiset"
begin

text \<open>
  \<^verbatim>\<open>include/object_mng.hpp\<close>: the pool of fixed capacity in which players, sessions and timers
  live, with its free list, its set of used positions, and the hand-over of all objects
  through shared memory when a process stops (\<^verbatim>\<open>Release\<close>) and starts again (\<^verbatim>\<open>Init\<close>).

  A pointer into the pool is its position. The order in which \<^verbatim>\<open>std::unordered_set\<close> is
  traversed is unspecified: it is the argument \<open>ord\<close>, of which \<open>iter_order\<close> asks only that
  every element is visited once. The object's constructor (\<open>dflt\<close>) and its serialisation
  methods are arguments as well; the components that use the pool supply theirs.
\<close>

record 'a ObjectMng =
  om_size :: nat
  om_shmkey :: uint32
  om_pool :: "nat \<Rightarrow> 'a"
  om_used :: "nat set"
  om_free :: "nat list"

definition iter_order :: "(nat set \<Rightarrow> nat list) \<Rightarrow> bool" where
  "iter_order ord \<longleftrightarrow> (\<forall>S. finite S \<longrightarrow> set (ord S) = S \<and> distinct (ord S))"

text \<open>\<^verbatim>\<open>Malloc\<close>: \<open>None\<close> is the return value -1.\<close>

definition ObjectMng_Malloc :: "'a \<Rightarrow> 'a ObjectMng \<Rightarrow> nat option \<times> 'a ObjectMng" where
  "ObjectMng_Malloc dflt om =
     (case om_free om of
        [] \<Rightarrow> (None, om)
      | pos # rest \<Rightarrow>
          (Some pos, om\<lparr>om_free := rest, om_used := insert pos (om_used om),
                        om_pool := (om_pool om)(pos := dflt)\<rparr>))"

definition ObjectMng_Free :: "nat \<Rightarrow> 'a ObjectMng \<Rightarrow> bool \<times> 'a ObjectMng" where
  "ObjectMng_Free pos om =
     (if pos \<ge> om_size om then (False, om)
      else (True, om\<lparr>om_free := pos # om_free om, om_used := om_used om - {pos}\<rparr>))"

definition ObjectMng_Get :: "nat \<Rightarrow> 'a ObjectMng \<Rightarrow> nat option" where
  "ObjectMng_Get pos om = (if pos \<ge> om_size om then None else Some pos)"

definition ObjectMng_Size :: "'a ObjectMng \<Rightarrow> nat" where
  "ObjectMng_Size om = card (om_used om)"

definition ObjectMng_MaxSize :: "'a ObjectMng \<Rightarrow> nat" where
  "ObjectMng_MaxSize om = om_size om"

definition ObjectMng_IsFull :: "'a ObjectMng \<Rightarrow> bool" where
  "ObjectMng_IsFull om \<longleftrightarrow> om_free om = []"

text \<open>Storing through a pointer obtained from \<^verbatim>\<open>Get\<close>.\<close>

definition om_store :: "nat \<Rightarrow> 'a \<Rightarrow> 'a ObjectMng \<Rightarrow> 'a ObjectMng" where
  "om_store pos x om = om\<lparr>om_pool := (om_pool om)(pos := x)\<rparr>"

text \<open>The loop of \<^verbatim>\<open>Init\<close> that fills the pool; the counter runs while it is below the capacity
  and the number of stored objects.\<close>

fun om_load :: "'a \<Rightarrow> (mem \<Rightarrow> uint64 \<Rightarrow> uint64 \<Rightarrow> ('a \<times> uint64) option) \<Rightarrow> mem \<Rightarrow> uint64 \<Rightarrow> nat
    \<Rightarrow> uint64 \<Rightarrow> 'a ObjectMng \<Rightarrow> bool \<times> 'a ObjectMng" where
  "om_load dflt unser buff bsize 0 offset om = (True, om)"
| "om_load dflt unser buff bsize (Suc n) offset om =
     (case ObjectMng_Malloc dflt om of
        (None, om) \<Rightarrow> (False, om)
      | (Some pos, om) \<Rightarrow>
          (case unser buff bsize offset of
             None \<Rightarrow> (False, om)
           | Some (x, offset) \<Rightarrow> om_load dflt unser buff bsize n offset (om_store pos x om)))"

definition om_fresh :: "nat \<Rightarrow> uint32 \<Rightarrow> (nat \<Rightarrow> 'a) \<Rightarrow> 'a ObjectMng" where
  "om_fresh n shmkey raw =
     \<lparr>om_size = n, om_shmkey = shmkey, om_pool = raw, om_used = {}, om_free = rev [0..<n]\<rparr>"

definition ObjectMng_Init :: "shm_os \<Rightarrow> 'a \<Rightarrow> (mem \<Rightarrow> uint64 \<Rightarrow> uint64 \<Rightarrow> ('a \<times> uint64) option) \<Rightarrow> nat \<Rightarrow> uint32
    \<Rightarrow> shm_tab \<Rightarrow> bool \<times> 'a ObjectMng \<times> shm_tab" where
  "ObjectMng_Init K dflt unser n shmkey tab =
     (let om = om_fresh n shmkey (\<lambda>_. dflt);
          shm = ShareMem_new K tab shmkey
      in if \<not> ShareMem_IsAttached shm then (True, om, tab)
         else
           let buff = (case tab shmkey of Some seg \<Rightarrow> seg_mem seg | None \<Rightarrow> mem_zero);
               bsize = word_of_nat (ShareMem_GetByteSize tab shm)
           in case UnSerializeBase buff bsize 0 4 of
                None \<Rightarrow> (False, om, tab)
              | Some (bs, offset) \<Rightarrow>
                  let obj_size = unat (un_le32 bs)
                  in case om_load dflt unser buff bsize (min n obj_size) offset om of
                       (False, om) \<Rightarrow> (False, om, tab)
                     | (True, om) \<Rightarrow> (True, om, snd (ShareMem_Delete K tab shmkey)))"

text \<open>The two loops of \<^verbatim>\<open>Release\<close>: the total size and the serialisation of every used object.\<close>

definition om_total_size :: "('a \<Rightarrow> nat) \<Rightarrow> (nat set \<Rightarrow> nat list) \<Rightarrow> 'a ObjectMng \<Rightarrow> nat" where
  "om_total_size bsize_of ord om = 4 + (\<Sum>pos\<leftarrow>ord (om_used om). bsize_of (om_pool om pos))"

fun om_save :: "('a \<Rightarrow> mem \<Rightarrow> uint64 \<Rightarrow> uint64 \<Rightarrow> bool \<times> mem \<times> uint64) \<Rightarrow> uint64 \<Rightarrow> 'a list \<Rightarrow> mem \<Rightarrow> uint64
    \<Rightarrow> bool \<times> mem" where
  "om_save ser bsize [] buff offset = (True, buff)"
| "om_save ser bsize (x # xs) buff offset =
     (case ser x buff bsize offset of
        (False, buff, offset) \<Rightarrow> (False, buff)
      | (True, buff, offset) \<Rightarrow> om_save ser bsize xs buff offset)"

datatype release_result = Released bool | NullDeref

text \<open>\<^verbatim>\<open>Release\<close>. When the segment cannot be attached, \<^verbatim>\<open>GetPtr()\<close> is NULL and the first
  \<^verbatim>\<open>SerializeBase\<close> stores through it: the result \<open>NullDeref\<close>.\<close>

definition ObjectMng_Release :: "shm_os \<Rightarrow> ('a \<Rightarrow> nat) \<Rightarrow> ('a \<Rightarrow> mem \<Rightarrow> uint64 \<Rightarrow> uint64 \<Rightarrow> bool \<times> mem \<times> uint64)
    \<Rightarrow> (nat set \<Rightarrow> nat list) \<Rightarrow> 'a ObjectMng \<Rightarrow> shm_tab \<Rightarrow> release_result \<times> shm_tab" where
  "ObjectMng_Release K bsize_of ser ord om tab =
     (let key = om_shmkey om;
          (deleted, tab1) = (if ShareMem_IsExist tab key then ShareMem_Delete K tab key else (True, tab))
      in if ShareMem_IsExist tab key \<and> \<not> deleted then (Released False, tab1)
         else
           let byte_size = om_total_size bsize_of ord om;
               (created, tab2) = ShareMem_Create K tab1 key byte_size
           in if \<not> created then (Released False, tab2)
              else
                let shm = ShareMem_new K tab2 key
                in case ShareMem_GetPtr shm of
                     None \<Rightarrow> (NullDeref, tab2)
                   | Some k \<Rightarrow>
                       (case tab2 k of
                          None \<Rightarrow> (NullDeref, tab2)
                        | Some seg \<Rightarrow>
                            (case SerializeBase (seg_mem seg) (word_of_nat byte_size) 0 (le32 (word_of_nat (ObjectMng_Size om))) of
                               (False, buff, offset) \<Rightarrow> (Released False, tab2(k \<mapsto> seg\<lparr>seg_mem := buff\<rparr>))
                             | (True, buff, offset) \<Rightarrow>
                                 (case om_save ser (word_of_nat byte_size) (map (om_pool om) (ord (om_used om))) buff offset of
                                    (ok, buff) \<Rightarrow> (Released ok, tab2(k \<mapsto> seg\<lparr>seg_mem := buff\<rparr>))))))"

subsection \<open>Well-formed pools\<close>

text \<open>Every position below the capacity is either free, once, or used.\<close>

definition om_wf :: "'a ObjectMng \<Rightarrow> bool" where
  "om_wf om \<longleftrightarrow> distinct (om_free om) \<and> set (om_free om) \<inter> om_used om = {}
     \<and> set (om_free om) \<union> om_used om = {0..<om_size om}"

lemma om_wf_fresh [simp]: "om_wf (om_fresh n key raw)"
  by (auto simp: om_wf_def om_fresh_def)

lemma om_wf_store [simp]: "om_wf (om_store pos x om) = om_wf om"
  by (simp add: om_wf_def om_store_def)

lemma om_store_simps [simp]:
  "om_size (om_store pos x om) = om_size om" "om_used (om_store pos x om) = om_used om"
  "om_free (om_store pos x om) = om_free om" "om_shmkey (om_store pos x om) = om_shmkey om"
  "om_pool (om_store pos x om) = (om_pool om)(pos := x)"
  by (simp_all add: om_store_def)

lemma om_finite: "om_wf om \<Longrightarrow> finite (om_used om)"
  by (rule finite_subset [of _ "{0..<om_size om}"]) (auto simp: om_wf_def)

lemma om_used_bound: "om_wf om \<Longrightarrow> pos \<in> om_used om \<Longrightarrow> pos < om_size om"
  by (auto simp: om_wf_def)

lemma Malloc_cases:
  assumes "ObjectMng_Malloc dflt om = (r, om')"
  obtains "r = None" "om' = om" "om_free om = []"
  | pos rest where "r = Some pos" "om_free om = pos # rest"
      "om' = om\<lparr>om_free := rest, om_used := insert pos (om_used om), om_pool := (om_pool om)(pos := dflt)\<rparr>"
  using assms by (auto simp: ObjectMng_Malloc_def split: list.splits)

lemma om_wf_Malloc:
  assumes "om_wf om" and "ObjectMng_Malloc dflt om = (r, om')"
  shows "om_wf om'"
  using assms(2)
proof (cases rule: Malloc_cases)
  case 1
  with assms(1) show ?thesis by simp
next
  case (2 pos rest)
  with assms(1) show ?thesis by (auto simp: om_wf_def)
qed

lemma om_wf_Free:
  assumes "om_wf om" and "pos \<in> om_used om"
  shows "om_wf (snd (ObjectMng_Free pos om)) \<and> fst (ObjectMng_Free pos om)"
  using assms by (auto simp: om_wf_def ObjectMng_Free_def)

lemma Malloc_fresh_position:
  assumes "om_wf om" and "ObjectMng_Malloc dflt om = (Some pos, om')"
  shows "pos \<notin> om_used om" and "pos < om_size om" and "om_used om' = insert pos (om_used om)"
    and "om_pool om' = (om_pool om)(pos := dflt)" and "om_size om' = om_size om" and "om_shmkey om' = om_shmkey om"
proof -
  obtain rest where "om_free om = pos # rest"
      "om' = om\<lparr>om_free := rest, om_used := insert pos (om_used om), om_pool := (om_pool om)(pos := dflt)\<rparr>"
    using assms(2) by (auto simp: ObjectMng_Malloc_def split: list.splits)
  with assms(1) show "pos \<notin> om_used om" "pos < om_size om" "om_used om' = insert pos (om_used om)"
    "om_pool om' = (om_pool om)(pos := dflt)" "om_size om' = om_size om" "om_shmkey om' = om_shmkey om"
    by (auto simp: om_wf_def)
qed

lemma Malloc_None_iff:
  assumes "om_wf om"
  shows "fst (ObjectMng_Malloc dflt om) = None \<longleftrightarrow> om_used om = {0..<om_size om}"
  using assms by (auto simp: ObjectMng_Malloc_def om_wf_def split: list.splits)

subsection \<open>The hand-over through shared memory\<close>

lemma om_save_fits:
  assumes "serial_law valid bytes ser unser" and "\<forall>x\<in>set xs. valid x"
    and "unat off + length (concat (map bytes xs)) \<le> unat bsize"
  shows "om_save ser bsize xs m off = (True, mem_write m (unat off) (concat (map bytes xs)))"
  using assms(2,3)
proof (induction xs arbitrary: m off)
  case Nil
  then show ?case by simp
next
  case (Cons x xs)
  have "ser x m bsize off = (True, mem_write m (unat off) (bytes x), off + word_of_nat (length (bytes x)))"
    using assms(1) Cons.prems by (simp add: serial_law_def)
  moreover have "unat (off + word_of_nat (length (bytes x))) = unat off + length (bytes x)"
    using Cons.prems by (intro fits_offset(3) [of off _ bsize]) simp
  ultimately show ?case
    using Cons.prems Cons.IH [of "off + word_of_nat (length (bytes x))"]
    by (simp add: mem_write_write_append)
qed

definition om_objects :: "'a ObjectMng \<Rightarrow> 'a multiset" where
  "om_objects om = image_mset (om_pool om) (mset_set (om_used om))"

lemma om_objects_Malloc_store:
  assumes "om_wf om" and "ObjectMng_Malloc dflt om = (Some pos, om')"
  shows "om_objects (om_store pos x om') = add_mset x (om_objects om)"
proof -
  note M = Malloc_fresh_position [OF assms]
  have "image_mset ((om_pool om)(pos := x)) (mset_set (om_used om)) = image_mset (om_pool om) (mset_set (om_used om))"
    using M(1) om_finite [OF assms(1)] by (intro image_mset_cong) auto
  then show ?thesis
    using M om_finite [OF assms(1)] by (simp add: om_objects_def)
qed

lemma om_load_fits:
  assumes "serial_law valid bytes ser unser" and "om_wf om" and "length xs \<le> length (om_free om)"
    and "unat off + length (concat (map bytes xs)) \<le> unat bsize"
    and "mem_read m (unat off) (length (concat (map bytes xs))) = concat (map bytes xs)"
    and "\<forall>x\<in>set xs. valid x"
  shows "\<exists>om'. om_load dflt unser m bsize (length xs) off om = (True, om') \<and> om_wf om'
    \<and> om_size om' = om_size om \<and> om_shmkey om' = om_shmkey om \<and> om_objects om' = om_objects om + mset xs"
  using assms(2-6)
proof (induction xs arbitrary: om off)
  case Nil
  then show ?case by simp
next
  case (Cons x xs)
  let ?n = "length (bytes x)"
  obtain pos rest where free: "om_free om = pos # rest" using Cons.prems(2) by (cases "om_free om") auto
  obtain om1 where M: "ObjectMng_Malloc dflt om = (Some pos, om1)" and free1: "om_free om1 = rest"
    using free by (simp add: ObjectMng_Malloc_def)
  have rd: "mem_read m (unat off) ?n = bytes x"
      "mem_read m (unat off + ?n) (length (concat (map bytes xs))) = concat (map bytes xs)"
    using Cons.prems(4) by (simp_all add: mem_read_append)
  have un: "unser m bsize off = Some (x, off + word_of_nat ?n)"
    using assms(1) Cons.prems(3,5) rd by (simp add: serial_law_def)
  have off: "unat (off + word_of_nat ?n) = unat off + ?n"
    using Cons.prems(3) by (intro fits_offset(3) [of off _ bsize]) simp
  have "om_wf (om_store pos x om1)" "length xs \<le> length (om_free (om_store pos x om1))"
    using om_wf_Malloc [OF Cons.prems(1) M] Cons.prems(2) free free1 by simp_all
  from Cons.IH [OF this, of "off + word_of_nat ?n"] Cons.prems(3,5) rd(2) off
  obtain om' where "om_load dflt unser m bsize (length xs) (off + word_of_nat ?n) (om_store pos x om1) = (True, om')"
    "om_wf om'" "om_size om' = om_size om1" "om_shmkey om' = om_shmkey om1"
    "om_objects om' = om_objects (om_store pos x om1) + mset xs"
    by auto
  then show ?case
    using M un om_objects_Malloc_store [OF Cons.prems(1) M, of x] Malloc_fresh_position [OF Cons.prems(1) M]
    by simp
qed

lemma set_ord: "iter_order ord \<Longrightarrow> om_wf om \<Longrightarrow> set (ord (om_used om)) = om_used om"
  using om_finite unfolding iter_order_def by blast

lemma mset_map_ord:
  assumes "iter_order ord" and "om_wf om"
  shows "mset (map (om_pool om) (ord (om_used om))) = om_objects om" and "length (ord (om_used om)) = card (om_used om)"
proof -
  have o: "set (ord (om_used om)) = om_used om" "distinct (ord (om_used om))"
    using assms om_finite by (auto simp: iter_order_def)
  then show "length (ord (om_used om)) = card (om_used om)" using distinct_card by fastforce
  show "mset (map (om_pool om) (ord (om_used om))) = om_objects om"
    using o mset_set_set [of "ord (om_used om)"] by (simp add: om_objects_def)
qed

definition om_image :: "('a \<Rightarrow> byte list) \<Rightarrow> (nat set \<Rightarrow> nat list) \<Rightarrow> 'a ObjectMng \<Rightarrow> byte list" where
  "om_image bytes ord om = le32 (word_of_nat (card (om_used om))) @ concat (map bytes (map (om_pool om) (ord (om_used om))))"

lemma length_om_image: "length (om_image bytes ord om) = om_total_size (\<lambda>x. length (bytes x)) ord om"
  by (simp add: om_image_def om_total_size_def length_concat comp_def)

lemma Release_image:
  assumes law: "serial_law valid bytes ser unser" and wf: "om_wf om" "iter_order ord"
    and valid: "\<forall>p\<in>om_used om. valid (om_pool om p)"
    and key: "om_shmkey om = key" "key \<noteq> 0" "tab key = None"
    and ok: "create_ok K (length (om_image bytes ord om))" "attach_ok K key"
    and small: "length (om_image bytes ord om) < 2 ^ 64"
  shows "ObjectMng_Release K (\<lambda>x. length (bytes x)) ser ord om tab
    = (Released True, tab(key \<mapsto> \<lparr>seg_size = length (om_image bytes ord om),
                                 seg_mem = mem_write mem_zero 0 (om_image bytes ord om)\<rparr>))"
proof -
  let ?N = "length (om_image bytes ord om)" and ?h = "le32 (word_of_nat (card (om_used om)))"
  let ?xs = "map (om_pool om) (ord (om_used om))"
  let ?tab = "tab(key \<mapsto> \<lparr>seg_size = ?N, seg_mem = mem_zero\<rparr>)"
  have N: "?N = 4 + length (concat (map bytes ?xs))" by (simp add: om_image_def)
  have vs: "\<forall>x\<in>set ?xs. valid x" using valid set_ord [OF wf(2,1)] by simp
  have un: "unat (word_of_nat ?N :: uint64) = ?N" by (rule unat_of_nat64 [OF small])
  have create: "ShareMem_Create K tab key ?N = (True, ?tab)"
    using key ok N by (intro ShareMem_Create_new) auto
  have att: "ShareMem_new K ?tab key = \<lparr>sm_key = key, sm_mem = Some key\<rparr>"
    using key ok by (intro ShareMem_new_attached) auto
  have base: "SerializeBase mem_zero (word_of_nat ?N) 0 ?h = (True, mem_write mem_zero 0 ?h, 4)"
    using SerializeBase_fits [of 0 ?h "word_of_nat ?N" mem_zero] un N by simp
  have save: "om_save ser (word_of_nat ?N) ?xs (mem_write mem_zero 0 ?h) 4
      = (True, mem_write mem_zero 0 (om_image bytes ord om))"
    using om_save_fits [OF law, of ?xs 4 "word_of_nat ?N" "mem_write mem_zero 0 ?h"] un N vs
      mem_write_write_append [of mem_zero 0 ?h "concat (map bytes ?xs)"]
    by (simp add: om_image_def)
  have ex: "\<not> ShareMem_IsExist tab key" using key by (simp add: ShareMem_IsExist_def shmget_existing_def)
  show ?thesis
    using create att base save ex key(1)
    by (simp add: ObjectMng_Release_def Let_def ShareMem_GetPtr_def ObjectMng_Size_def length_om_image [symmetric])
qed

lemma Init_image:
  assumes law: "serial_law valid bytes ser unser" and wf: "om_wf om" "iter_order ord"
    and valid: "\<forall>p\<in>om_used om. valid (om_pool om p)"
    and key: "key \<noteq> 0" and ok: "attach_ok K key" "rmid_ok K key"
    and small: "length (om_image bytes ord om) < 2 ^ 64" "card (om_used om) < 2 ^ 32" and room: "card (om_used om) \<le> n"
    and seg: "tab key = Some \<lparr>seg_size = length (om_image bytes ord om),
                              seg_mem = mem_write mem_zero 0 (om_image bytes ord om)\<rparr>"
  shows "\<exists>om'. ObjectMng_Init K dflt unser n key tab = (True, om', tab(key := None)) \<and> om_wf om'
    \<and> om_size om' = n \<and> om_shmkey om' = key \<and> om_objects om' = om_objects om"
proof -
  let ?N = "length (om_image bytes ord om)" and ?h = "le32 (word_of_nat (card (om_used om)))"
  let ?xs = "map (om_pool om) (ord (om_used om))" and ?m = "mem_write mem_zero 0 (om_image bytes ord om)"
  note mo = mset_map_ord [OF wf(2,1)]
  have N: "?N = 4 + length (concat (map bytes ?xs))" by (simp add: om_image_def)
  have vs: "\<forall>x\<in>set ?xs. valid x" using valid set_ord [OF wf(2,1)] by simp
  have un: "unat (word_of_nat ?N :: uint64) = ?N" by (rule unat_of_nat64 [OF small(1)])
  have att: "ShareMem_new K tab key = \<lparr>sm_key = key, sm_mem = Some key\<rparr>"
    using key ok seg by (intro ShareMem_new_attached) auto
  have rd: "mem_read ?m 0 4 = ?h"
      "mem_read ?m 4 (length (concat (map bytes ?xs))) = concat (map bytes ?xs)"
    using mem_read_write_part [of 0 0 4 "om_image bytes ord om" mem_zero]
      mem_read_write_part [of 0 4 "length (concat (map bytes ?xs))" "om_image bytes ord om" mem_zero]
    by (simp_all add: om_image_def)
  have base: "UnSerializeBase ?m (word_of_nat ?N) 0 4 = Some (?h, 4)"
    using UnSerializeBase_fits [of 0 4 "word_of_nat ?N" ?m] un N rd by simp
  have cnt: "unat (word_of_nat (card (om_used om)) :: uint32) = card (om_used om)" "min n (card (om_used om)) = card (om_used om)"
    using small(2) room by (simp_all add: unat_of_nat)
  obtain om' where "om_load dflt unser ?m (word_of_nat ?N) (card (om_used om)) 4 (om_fresh n key (\<lambda>_. dflt)) = (True, om')"
    "om_wf om'" "om_size om' = n" "om_shmkey om' = key" "om_objects om' = mset ?xs"
    using om_load_fits [OF law om_wf_fresh, of ?xs n key "\<lambda>_. dflt" 4 "word_of_nat ?N" ?m dflt] un N rd room mo(2) vs
    by (auto simp: om_fresh_def om_objects_def)
  then show ?thesis
    using att base cnt mo seg ok key room
    by (simp add: ObjectMng_Init_def Let_def ShareMem_IsAttached_def ShareMem_GetByteSize_def ShareMem_Delete_def
        shmget_existing_def)
qed

text \<open>Hot restart: the objects that a process saves in \<^verbatim>\<open>ObjectMng::Release\<close> are exactly the
  ones the next process finds in its pool after \<^verbatim>\<open>ObjectMng::Init\<close>, whatever order the set of
  used positions is traversed in; the segment is gone afterwards, and the new pool is well
  formed. The system must grant the segment, its key must be unused and not \<^verbatim>\<open>IPC_PRIVATE\<close>,
  and the new pool must be large enough.\<close>

lemma Release_Init:
  assumes "serial_law valid bytes ser unser" and "iter_order ord" and "om_wf om"
    and "\<forall>p\<in>om_used om. valid (om_pool om p)"
    and "om_shmkey om = key" and "key \<noteq> 0" and "tab key = None"
    and "create_ok K (om_total_size (\<lambda>x. length (bytes x)) ord om)" and "attach_ok K key" and "rmid_ok K key"
    and "om_total_size (\<lambda>x. length (bytes x)) ord om < 2 ^ 64" and "ObjectMng_Size om < 2 ^ 32" and "ObjectMng_Size om \<le> n"
  shows "\<exists>tab1 om'. ObjectMng_Release K (\<lambda>x. length (bytes x)) ser ord om tab = (Released True, tab1)
    \<and> ObjectMng_Init K dflt unser n key tab1 = (True, om', tab)
    \<and> om_wf om' \<and> om_size om' = n \<and> om_objects om' = om_objects om"
proof -
  let ?seg = "\<lparr>seg_size = length (om_image bytes ord om), seg_mem = mem_write mem_zero 0 (om_image bytes ord om)\<rparr>"
  have rel: "ObjectMng_Release K (\<lambda>x. length (bytes x)) ser ord om tab = (Released True, tab(key \<mapsto> ?seg))"
    using assms by (intro Release_image) (auto simp: length_om_image)
  have "\<exists>om'. ObjectMng_Init K dflt unser n key (tab(key \<mapsto> ?seg)) = (True, om', (tab(key \<mapsto> ?seg))(key := None)) \<and> om_wf om'
    \<and> om_size om' = n \<and> om_shmkey om' = key \<and> om_objects om' = om_objects om"
    using assms by (intro Init_image) (auto simp: length_om_image ObjectMng_Size_def)
  then show ?thesis
    using rel assms(7) by (auto simp: fun_upd_idem)
qed

lemma iter_order_sorted: "iter_order sorted_list_of_set"
  by (simp add: iter_order_def)

subsection \<open>Properties\<close>

definition pool_example :: "uint32 ObjectMng" where
  "pool_example = om_store 1 7 (snd (ObjectMng_Malloc 0 (om_fresh 2 5 (\<lambda>_. 0))))"

lemma pool_example_wf: "om_wf pool_example" "om_shmkey pool_example = 5" "ObjectMng_Size pool_example = 1"
    "om_total_size (\<lambda>x. length (le32 x)) sorted_list_of_set pool_example = 8" "om_objects pool_example = {#7#}"
proof -
  have ex: "pool_example = \<lparr>om_size = 2, om_shmkey = 5, om_pool = (\<lambda>_. 0)(1 := 0, 1 := 7), om_used = {1}, om_free = [0]\<rparr>"
    by (simp add: pool_example_def om_fresh_def ObjectMng_Malloc_def om_store_def upt_rec numeral_2_eq_2)
  show "om_wf pool_example" by (auto simp: ex om_wf_def)
  show "om_shmkey pool_example = 5" "ObjectMng_Size pool_example = 1"
    "om_total_size (\<lambda>x. length (le32 x)) sorted_list_of_set pool_example = 8" "om_objects pool_example = {#7#}"
    by (simp_all add: ex ObjectMng_Size_def om_total_size_def om_objects_def)
qed

text \<open>When a segment with the pool's key is left over, \<^verbatim>\<open>Release\<close> removes it and then gives up:
  the inverted result of \<^verbatim>\<open>ShareMem::Delete\<close> makes it return false, and no object is saved.\<close>

lemma Release_loses_objects_on_leftover_segment:
  assumes "key \<noteq> 0" and "tab key \<noteq> None" and "rmid_ok K key" and "om_shmkey om = key"
  shows "ObjectMng_Release K bsize_of ser ord om tab = (Released False, tab(key := None))"
  using assms by (simp add: ObjectMng_Release_def ShareMem_IsExist_def shmget_existing_def ShareMem_Delete_def)

text \<open>A pool with shared memory key 0 (no key configured) crashes when it is released: the segment
  is created as \<^verbatim>\<open>IPC_PRIVATE\<close> and cannot be attached, and \<^verbatim>\<open>Release\<close> stores through NULL.\<close>

lemma Release_without_key_crashes:
  assumes "om_shmkey om = 0" and "create_ok K (om_total_size bsize_of ord om)"
  shows "fst (ObjectMng_Release K bsize_of ser ord om tab) = NullDeref"
proof -
  have "0 < om_total_size bsize_of ord om" by (simp add: om_total_size_def)
  moreover have "ShareMem_new K tab 0 = \<lparr>sm_key = 0, sm_mem = None\<rparr>" by (simp add: ShareMem_new_detached)
  ultimately show ?thesis
    using assms by (simp add: ObjectMng_Release_def ShareMem_IsExist_def shmget_existing_def ShareMem_Create_def
        ShareMem_GetPtr_def Let_def)
qed

end
