(* ===== verification/IndexedPool.thy ===== *)
theory IndexedPool
  imports ObjectMng
begin

text \<open>
  What \<^verbatim>\<open>PlayerManager\<close>, \<^verbatim>\<open>SessionManager\<close> and \<^verbatim>\<open>TimerManager\<close> have in common: an object pool and an
  \<^verbatim>\<open>unordered_map\<close> from the key stored in each object to its position. \<open>idx_ok\<close> says that
  the index only leads to used objects with the right key, \<open>idx_full\<close> that it leads to every used
  object. The locale \<open>keyed_pool\<close> is the contract of such a manager towards its clients: a
  partial map from keys to objects with lookup and removal.
\<close>

definition idx_ok :: "('a \<Rightarrow> 'k) \<Rightarrow> 'a ObjectMng \<Rightarrow> ('k \<rightharpoonup> nat) \<Rightarrow> bool" where
  "idx_ok key om idx \<longleftrightarrow> om_wf om \<and> (\<forall>k p. idx k = Some p \<longrightarrow> p \<in> om_used om \<and> key (om_pool om p) = k)"

definition idx_full :: "('a \<Rightarrow> 'k) \<Rightarrow> 'a ObjectMng \<Rightarrow> ('k \<rightharpoonup> nat) \<Rightarrow> bool" where
  "idx_full key om idx \<longleftrightarrow> (\<forall>p\<in>om_used om. idx (key (om_pool om p)) = Some p)"

text \<open>The objects a client reaches.\<close>

definition idx_map :: "'a ObjectMng \<Rightarrow> ('k \<rightharpoonup> nat) \<Rightarrow> 'k \<rightharpoonup> 'a" where
  "idx_map om idx k = map_option (om_pool om) (idx k)"

text \<open>The loop that rebuilds the index from the used positions after a restart.\<close>

fun rebuild_index :: "('a \<Rightarrow> 'k) \<Rightarrow> (nat \<Rightarrow> 'a) \<Rightarrow> nat list \<Rightarrow> ('k \<rightharpoonup> nat) \<Rightarrow> 'k \<rightharpoonup> nat" where
  "rebuild_index key pool [] idx = idx"
| "rebuild_index key pool (p # ps) idx = rebuild_index key pool ps (idx(key (pool p) \<mapsto> p))"

text \<open>The loop that looks for an unused session or timer id: at most \<open>n\<close> candidates, each one
  more than the last, with wrap-around. The second component is the counter afterwards.\<close>

fun next_id :: "(uint32 \<Rightarrow> bool) \<Rightarrow> nat \<Rightarrow> uint32 \<Rightarrow> uint32 option \<times> uint32" where
  "next_id taken 0 cur = (None, cur)"
| "next_id taken (Suc n) cur =
     (let i = cur + 1 in if \<not> taken i then (Some i, i) else next_id taken n i)"

subsection \<open>The operations on pool and index\<close>

lemma idx_okD: "idx_ok key om idx \<Longrightarrow> idx k = Some p \<Longrightarrow> p \<in> om_used om \<and> key (om_pool om p) = k"
  by (simp add: idx_ok_def)

lemma idx_ok_wf: "idx_ok key om idx \<Longrightarrow> om_wf om"
  by (simp add: idx_ok_def)

lemma idx_ok_bound: "idx_ok key om idx \<Longrightarrow> idx k = Some p \<Longrightarrow> p < om_size om"
  using idx_okD idx_ok_wf om_used_bound by metis

lemma idx_ok_inj: "idx_ok key om idx \<Longrightarrow> idx k = Some p \<Longrightarrow> idx k' = Some p \<Longrightarrow> k = k'"
  by (metis idx_okD)

lemma idx_ok_Get: "idx_ok key om idx \<Longrightarrow> idx k = Some p \<Longrightarrow> ObjectMng_Get p om = Some p"
  using idx_ok_bound by (fastforce simp: ObjectMng_Get_def)

lemma idx_ok_Free:
  assumes "idx_ok key om idx" and "idx k = Some p"
  shows "idx_ok key (snd (ObjectMng_Free p om)) (idx(k := None))"
    and "idx_map (snd (ObjectMng_Free p om)) (idx(k := None)) = (idx_map om idx)(k := None)"
    and "om_used (snd (ObjectMng_Free p om)) = om_used om - {p}"
    and "om_size (snd (ObjectMng_Free p om)) = om_size om"
    and "om_shmkey (snd (ObjectMng_Free p om)) = om_shmkey om"
proof -
  have p: "p \<in> om_used om" "p < om_size om"
    using idx_okD [OF assms] idx_ok_bound [OF assms] by simp_all
  then show u: "om_used (snd (ObjectMng_Free p om)) = om_used om - {p}"
    "om_size (snd (ObjectMng_Free p om)) = om_size om" "om_shmkey (snd (ObjectMng_Free p om)) = om_shmkey om"
    by (simp_all add: ObjectMng_Free_def)
  have pool: "om_pool (snd (ObjectMng_Free p om)) = om_pool om" using p by (simp add: ObjectMng_Free_def)
  show "idx_ok key (snd (ObjectMng_Free p om)) (idx(k := None))"
    unfolding idx_ok_def
  proof (intro conjI allI impI)
    show "om_wf (snd (ObjectMng_Free p om))" using om_wf_Free [OF idx_ok_wf [OF assms(1)] p(1)] by simp
    fix k' q assume q: "(idx(k := None)) k' = Some q"
    then have "k' \<noteq> k" "idx k' = Some q" by (auto split: if_splits)
    then show "q \<in> om_used (snd (ObjectMng_Free p om))" "key (om_pool (snd (ObjectMng_Free p om)) q) = k'"
      using idx_okD [OF assms(1), of k' q] idx_ok_inj [OF assms, of k'] u pool by auto
  qed
  show "idx_map (snd (ObjectMng_Free p om)) (idx(k := None)) = (idx_map om idx)(k := None)"
    by (rule ext) (simp add: idx_map_def pool)
qed

lemma idx_full_Free:
  assumes "idx_ok key om idx" and "idx_full key om idx" and "idx k = Some p"
  shows "idx_full key (snd (ObjectMng_Free p om)) (idx(k := None))"
proof -
  have "p < om_size om" "key (om_pool om p) = k"
    using idx_ok_bound [OF assms(1,3)] idx_okD [OF assms(1,3)] by simp_all
  then show ?thesis using assms(2,3) by (auto simp: idx_full_def ObjectMng_Free_def)
qed

lemma idx_ok_insert:
  assumes "idx_ok key om idx" and "ObjectMng_Malloc dflt om = (Some p, om')" and "key x = k" and "idx k = None"
  shows "idx_ok key (om_store p x om') (idx(k \<mapsto> p))"
    and "idx_map (om_store p x om') (idx(k \<mapsto> p)) = (idx_map om idx)(k \<mapsto> x)"
    and "idx_full key om idx \<Longrightarrow> idx_full key (om_store p x om') (idx(k \<mapsto> p))"
proof -
  note M = Malloc_fresh_position [OF idx_ok_wf [OF assms(1)] assms(2)]
  have other: "idx k' = Some q \<Longrightarrow> q \<noteq> p" for k' q using idx_okD [OF assms(1)] M(1) by metis
  show "idx_ok key (om_store p x om') (idx(k \<mapsto> p))"
    unfolding idx_ok_def
  proof (intro conjI allI impI)
    show "om_wf (om_store p x om')" using om_wf_Malloc [OF idx_ok_wf [OF assms(1)] assms(2)] by simp
    fix k' q assume "(idx(k \<mapsto> p)) k' = Some q"
    then consider "k' = k" "q = p" | "idx k' = Some q" by (cases "k' = k") simp_all
    then show "q \<in> om_used (om_store p x om')" "key (om_pool (om_store p x om') q) = k'"
      using idx_okD [OF assms(1), of k' q] M other [of k' q] assms(3) by (cases; simp)+
  qed
  show "idx_map (om_store p x om') (idx(k \<mapsto> p)) = (idx_map om idx)(k \<mapsto> x)"
  proof
    fix k'
    show "idx_map (om_store p x om') (idx(k \<mapsto> p)) k' = ((idx_map om idx)(k \<mapsto> x)) k'"
      using M other [of k'] by (cases "idx k'") (simp_all add: idx_map_def)
  qed
  show "idx_full key (om_store p x om') (idx(k \<mapsto> p))" if "idx_full key om idx"
    using that M assms(3,4) unfolding idx_full_def by auto
qed

text \<open>Changing an object through its pointer, without touching its key.\<close>

lemma idx_ok_store:
  assumes "idx_ok key om idx" and "idx k = Some p" and "key x = k"
  shows "idx_ok key (om_store p x om) idx"
    and "idx_map (om_store p x om) idx = (idx_map om idx)(k \<mapsto> x)"
    and "idx_full key om idx \<Longrightarrow> idx_full key (om_store p x om) idx"
proof -
  show "idx_ok key (om_store p x om) idx"
    unfolding idx_ok_def
  proof (intro conjI allI impI)
    show "om_wf (om_store p x om)" using idx_ok_wf [OF assms(1)] by simp
    fix k' q assume q: "idx k' = Some q"
    then show "q \<in> om_used (om_store p x om)" "key (om_pool (om_store p x om) q) = k'"
      using idx_okD [OF assms(1) q] idx_ok_inj [OF assms(1,2), of k'] assms(3) by auto
  qed
  show "idx_map (om_store p x om) idx = (idx_map om idx)(k \<mapsto> x)"
  proof
    fix k'
    show "idx_map (om_store p x om) idx k' = ((idx_map om idx)(k \<mapsto> x)) k'"
      using assms(2) idx_ok_inj [OF assms(1,2), of k'] by (cases "idx k'") (auto simp: idx_map_def)
  qed
  show "idx_full key (om_store p x om) idx" if "idx_full key om idx"
    using that assms(2,3) unfolding idx_full_def by auto
qed

lemma rebuild_index_sound:
  "rebuild_index key pool ps idx k = Some p \<Longrightarrow> idx k = Some p \<or> (p \<in> set ps \<and> key (pool p) = k)"
proof (induction ps arbitrary: idx)
  case Nil
  then show ?case by simp
next
  case (Cons q ps)
  have "(idx(key (pool q) \<mapsto> q)) k = Some p \<or> (p \<in> set ps \<and> key (pool p) = k)"
    using Cons.prems Cons.IH [of "idx(key (pool q) \<mapsto> q)"] by (simp del: fun_upd_apply)
  then show ?case by (auto split: if_splits)
qed

lemma rebuild_index_other: "k \<notin> (\<lambda>p. key (pool p)) ` set ps \<Longrightarrow> rebuild_index key pool ps idx k = idx k"
  by (induction ps arbitrary: idx) auto

lemma rebuild_index_full:
  "distinct ps \<Longrightarrow> inj_on (\<lambda>p. key (pool p)) (set ps) \<Longrightarrow> p \<in> set ps \<Longrightarrow>
     rebuild_index key pool ps idx (key (pool p)) = Some p"
proof (induction ps arbitrary: idx)
  case Nil
  then show ?case by simp
next
  case (Cons q ps)
  show ?case
  proof (cases "p = q")
    case True
    with Cons.prems have "key (pool p) \<notin> (\<lambda>p. key (pool p)) ` set ps" by (auto simp: inj_on_def)
    with True show ?thesis by (simp add: rebuild_index_other)
  next
    case False
    with Cons show ?thesis by (simp add: inj_on_def)
  qed
qed

lemma rebuild_idx_ok:
  assumes "om_wf om" and "iter_order ord"
  shows "idx_ok key om (rebuild_index key (om_pool om) (ord (om_used om)) Map.empty)"
  using assms rebuild_index_sound [of key "om_pool om" "ord (om_used om)" Map.empty] set_ord [OF assms(2,1)]
  unfolding idx_ok_def by auto

lemma rebuild_idx_full:
  assumes "om_wf om" and "iter_order ord" and "inj_on (\<lambda>p. key (om_pool om p)) (om_used om)"
  shows "idx_full key om (rebuild_index key (om_pool om) (ord (om_used om)) Map.empty)"
proof -
  have "distinct (ord (om_used om))" using assms(1,2) om_finite unfolding iter_order_def by blast
  then show ?thesis
    using rebuild_index_full [of "ord (om_used om)" key "om_pool om"] assms(3) set_ord [OF assms(2,1)]
    by (auto simp: idx_full_def)
qed

lemma next_id_Some: "next_id taken n cur = (Some i, cur') \<Longrightarrow> \<not> taken i \<and> cur' = i"
  by (induction n arbitrary: cur) (auto simp: Let_def split: if_splits)

lemma next_id_range: "next_id taken n cur = (Some i, cur') \<Longrightarrow> \<exists>j\<in>{1..n}. i = cur + word_of_nat j"
proof (induction n arbitrary: cur)
  case (Suc n)
  show ?case
  proof (cases "taken (cur + 1)")
    case True
    then obtain j where "j \<in> {1..n}" "i = cur + 1 + word_of_nat j"
      using Suc.IH [of "cur + 1"] Suc.prems by (auto simp: Let_def)
    then show ?thesis by (intro bexI [of _ "Suc j"]) (simp_all add: add.assoc)
  next
    case False
    with Suc.prems show ?thesis by (intro bexI [of _ 1]) (auto simp: Let_def)
  qed
qed simp

lemma next_id_nonzero:
  assumes "next_id taken 10 cur = (Some i, cur')" and "cur \<le> 0xfffffff"
  shows "i \<noteq> 0"
proof -
  obtain j where j: "j \<in> {1..10}" "i = cur + word_of_nat j" using next_id_range [OF assms(1)] by blast
  have "unat cur \<le> 0xfffffff" using assms(2) by (simp add: word_le_nat_alt)
  then have "unat i = unat cur + j" using j by (simp add: unat_word_ariths unat_of_nat)
  then show ?thesis using j by auto
qed

lemma mask28: "and (w :: uint32) 0xfffffff \<le> 0xfffffff"
  by (rule word_and_le1)

lemma next_id_None: "fst (next_id taken n cur) = None \<longleftrightarrow> (\<forall>j\<in>{1..n}. taken (cur + word_of_nat j))"
proof (induction n arbitrary: cur)
  case 0
  then show ?case by simp
next
  case (Suc n)
  have shift: "(\<forall>j\<in>{1..Suc n}. taken (cur + word_of_nat j)) \<longleftrightarrow>
      taken (cur + 1) \<and> (\<forall>j\<in>{1..n}. taken (cur + 1 + word_of_nat j))" (is "?L = ?R")
  proof
    assume L: ?L
    have "taken (cur + 1 + word_of_nat j)" if "j \<in> {1..n}" for j
      using L [rule_format, of "Suc j"] that by (simp add: add.assoc)
    with L [rule_format, of 1] show ?R by simp
  next
    assume R: ?R
    have "taken (cur + word_of_nat j)" if j: "j \<in> {1..Suc n}" for j
      using R j by (cases "j = 1") (auto dest!: bspec [of _ _ "j - 1"] simp: add.assoc of_nat_diff)
    then show ?L by blast
  qed
  show ?case using Suc.IH [of "cur + 1"] unfolding shift by (simp add: Let_def)
qed

text \<open>With index and pool in step, the reachable objects are the stored ones; so two pools with the
  same objects give their clients the same map.\<close>

lemma idx_map_iff:
  assumes "idx_ok key om idx" and "idx_full key om idx"
  shows "idx_map om idx k = Some x \<longleftrightarrow> x \<in># om_objects om \<and> key x = k"
proof -
  have "finite (om_used om)" using om_finite [OF idx_ok_wf [OF assms(1)]] .
  then have obj: "x \<in># om_objects om \<longleftrightarrow> (\<exists>p\<in>om_used om. x = om_pool om p)"
    by (auto simp: om_objects_def)
  show ?thesis
  proof
    assume "idx_map om idx k = Some x"
    then obtain p where "idx k = Some p" "x = om_pool om p" by (auto simp: idx_map_def)
    then show "x \<in># om_objects om \<and> key x = k" using idx_okD [OF assms(1)] obj by blast
  next
    assume "x \<in># om_objects om \<and> key x = k"
    then obtain p where "p \<in> om_used om" "x = om_pool om p" "key x = k" using obj by blast
    then show "idx_map om idx k = Some x" using assms(2) by (auto simp: idx_full_def idx_map_def)
  qed
qed

lemma idx_full_inj: "idx_full key om idx \<Longrightarrow> inj_on (\<lambda>p. key (om_pool om p)) (om_used om)"
  unfolding idx_full_def by (rule inj_onI) (metis option.inject)

lemma inj_objects:
  assumes "om_wf om"
  shows "inj_on (\<lambda>p. key (om_pool om p)) (om_used om) \<longleftrightarrow> card (key ` set_mset (om_objects om)) = size (om_objects om)"
proof -
  have fin: "finite (om_used om)" by (rule om_finite [OF assms])
  have "key ` set_mset (om_objects om) = (\<lambda>p. key (om_pool om p)) ` om_used om"
    using fin by (auto simp: om_objects_def image_image)
  moreover have "size (om_objects om) = card (om_used om)" by (simp add: om_objects_def)
  ultimately show ?thesis using fin card_image eq_card_imp_inj_on by metis
qed

lemma rebuild_same_map:
  assumes "idx_ok key om idx" and "idx_full key om idx" and "om_wf om'" and "iter_order ord"
    and "om_objects om' = om_objects om"
  defines "idx' \<equiv> rebuild_index key (om_pool om') (ord (om_used om')) Map.empty"
  shows "idx_ok key om' idx'" and "idx_full key om' idx'" and "idx_map om' idx' = idx_map om idx"
proof -
  show ok: "idx_ok key om' idx'" unfolding idx'_def by (rule rebuild_idx_ok [OF assms(3,4)])
  have "inj_on (\<lambda>p. key (om_pool om' p)) (om_used om')"
    using inj_objects [OF assms(3), of key] inj_objects [OF idx_ok_wf [OF assms(1)], of key] idx_full_inj [OF assms(2)] assms(5)
    by simp
  then show full: "idx_full key om' idx'" unfolding idx'_def by (rule rebuild_idx_full [OF assms(3,4)])
  have "idx_map om' idx' k = Some x \<longleftrightarrow> idx_map om idx k = Some x" for k x
    using idx_map_iff [OF ok full] idx_map_iff [OF assms(1,2)] assms(5) by simp
  then show "idx_map om' idx' = idx_map om idx" by (intro ext option.expand) (metis option.collapse option.distinct(1))+
qed

subsection \<open>Restart\<close>

text \<open>The conditions under which the hand-over can work: the pool has a key of its own that is not in
  use, the system grants and removes the segment, and the next process has room for the objects.\<close>

definition restart_ok :: "shm_os \<Rightarrow> ('a \<Rightarrow> nat) \<Rightarrow> (nat set \<Rightarrow> nat list) \<Rightarrow> nat \<Rightarrow> 'a ObjectMng \<Rightarrow> shm_tab \<Rightarrow> bool" where
  "restart_ok K bsize_of ord n om tab \<longleftrightarrow> om_shmkey om \<noteq> 0 \<and> tab (om_shmkey om) = None
     \<and> create_ok K (om_total_size bsize_of ord om) \<and> attach_ok K (om_shmkey om) \<and> rmid_ok K (om_shmkey om)
     \<and> om_total_size bsize_of ord om < 2 ^ 64 \<and> ObjectMng_Size om < 2 ^ 32 \<and> ObjectMng_Size om \<le> n"

lemma pool_restart:
  assumes law: "serial_law valid bytes ser unser" and it: "iter_order ord"
    and ok: "idx_ok key om idx" "idx_full key om idx"
    and valid: "\<forall>p\<in>om_used om. valid (om_pool om p)"
    and sizes: "\<And>x. valid x \<Longrightarrow> bsize_of x = length (bytes x)"
    and restart: "restart_ok K bsize_of ord n om tab"
  shows "\<exists>tab1 om'. ObjectMng_Release K bsize_of ser ord om tab = (Released True, tab1)
    \<and> ObjectMng_Init K dflt unser n (om_shmkey om) tab1 = (True, om', tab) \<and> om_size om' = n
    \<and> om_objects om' = om_objects om
    \<and> idx_ok key om' (rebuild_index key (om_pool om') (ord (om_used om')) Map.empty)
    \<and> idx_full key om' (rebuild_index key (om_pool om') (ord (om_used om')) Map.empty)
    \<and> idx_map om' (rebuild_index key (om_pool om') (ord (om_used om')) Map.empty) = idx_map om idx"
proof -
  note wf = idx_ok_wf [OF ok(1)]
  have "\<forall>p\<in>set (ord (om_used om)). bsize_of (om_pool om p) = length (bytes (om_pool om p))"
    using valid sizes set_ord [OF it wf] by simp
  then have tot: "om_total_size bsize_of ord om = om_total_size (\<lambda>x. length (bytes x)) ord om"
    by (simp add: om_total_size_def cong: map_cong)
  then have rel: "ObjectMng_Release K bsize_of ser ord om tab = ObjectMng_Release K (\<lambda>x. length (bytes x)) ser ord om tab"
    unfolding ObjectMng_Release_def by (simp only:)
  obtain tab1 om' where "ObjectMng_Release K (\<lambda>x. length (bytes x)) ser ord om tab = (Released True, tab1)"
      "ObjectMng_Init K dflt unser n (om_shmkey om) tab1 = (True, om', tab)"
      "om_wf om'" "om_size om' = n" "om_objects om' = om_objects om"
    using Release_Init [OF law it wf valid, of "om_shmkey om" tab K n dflt] restart tot by (auto simp: restart_ok_def)
  with rebuild_same_map [OF ok this(3) it this(5)] rel show ?thesis by auto
qed

subsection \<open>The contract of a manager\<close>

locale keyed_pool =
  fixes invar :: "'m \<Rightarrow> bool"
    and objs :: "'m \<Rightarrow> 'k \<rightharpoonup> 'a"
    and lookup_pos :: "'k \<Rightarrow> 'm \<Rightarrow> nat option"
    and at :: "'m \<Rightarrow> nat \<Rightarrow> 'a"
    and release :: "'k \<Rightarrow> 'm \<Rightarrow> bool \<times> 'm"
  assumes lookup_objs: "invar m \<Longrightarrow> map_option (at m) (lookup_pos k m) = objs m k"
    and release_invar: "invar m \<Longrightarrow> invar (snd (release k m))"
    and release_objs: "invar m \<Longrightarrow> objs (snd (release k m)) = (objs m)(k := None)"
    and release_result: "invar m \<Longrightarrow> fst (release k m) \<longleftrightarrow> k \<in> dom (objs m)"
begin

text \<open>Releasing a list of keys, as the time-out loops do.\<close>

lemma release_all_invar: "invar m \<Longrightarrow> invar (fold (\<lambda>k m. snd (release k m)) ks m)"
  by (induction ks arbitrary: m) (auto simp: release_invar)

lemma release_all_objs:
  "invar m \<Longrightarrow> objs (fold (\<lambda>k m. snd (release k m)) ks m) = objs m |` (- set ks)"
proof (induction ks arbitrary: m)
  case Nil
  then show ?case by (simp add: restrict_map_def)
next
  case (Cons k ks)
  then show ?case by (auto simp: release_invar release_objs restrict_map_def fun_eq_iff)
qed

lemma released_gone: "invar m \<Longrightarrow> lookup_pos k (snd (release k m)) = None"
  using lookup_objs [of "snd (release k m)" k] by (simp add: release_invar release_objs)

lemma release_twice: "invar m \<Longrightarrow> \<not> fst (release k (snd (release k m)))"
  by (simp add: release_result release_invar release_objs)

lemma lookup_iff: "invar m \<Longrightarrow> lookup_pos k m \<noteq> None \<longleftrightarrow> k \<in> dom (objs m)"
  using lookup_objs [of m k, symmetric] by (cases "lookup_pos k m") (simp_all add: domIff)

lemma lookup_obj: "invar m \<Longrightarrow> lookup_pos k m = Some p \<Longrightarrow> objs m k = Some (at m p)"
  using lookup_objs [of m k] by auto

end

end
