(* ===== verification/PlayerMng.thy ===== *)
theory PlayerMng
  imports IndexedPool Messages
begin

text \<open>
  \<^verbatim>\<open>src/common/player_mng.h\<close> and \<^verbatim>\<open>player_mng.cpp\<close>: the online players, found by uid. A \<open>Player\<close> extends the
  protocol buffer \<open>PBPlayer\<close> by the head of the connection it is logged in on; both are
  saved through shared memory.
\<close>

record Player = PBPlayer +
  pl_tcp_head :: stTcpHead

text \<open>\<^verbatim>\<open>new(&data) DataType()\<close> value-initialises: the connection head is zero.\<close>

definition stTcpHead_zero :: stTcpHead where
  "stTcpHead_zero = \<lparr>th_create_time = 0, th_socket_pos = 0, th_socket_port = 0, th_socket_addr = replicate 16 0,
     th_msg_type = 0, th_need_close = False\<rparr>"

definition Player_new :: Player where
  "Player_new = PBPlayer.extend PBPlayer_new (Player.fields stTcpHead_zero)"

definition Player_GetTcpHead :: "Player \<Rightarrow> stTcpHead" where
  "Player_GetTcpHead p = pl_tcp_head p"

definition Player_SetTcpHead :: "stTcpHead \<Rightarrow> Player \<Rightarrow> Player" where
  "Player_SetTcpHead head p = p\<lparr>pl_tcp_head := head\<rparr>"

definition Player_GetByteSize :: "(PBPlayer \<Rightarrow> byte list) \<Rightarrow> Player \<Rightarrow> nat" where
  "Player_GetByteSize pb_ser p = 8 + length (pb_ser (PBPlayer.truncate p)) + 40"

definition Player_Serialize :: "(PBPlayer \<Rightarrow> byte list) \<Rightarrow> Player \<Rightarrow> mem \<Rightarrow> uint64 \<Rightarrow> uint64 \<Rightarrow> bool \<times> mem \<times> uint64" where
  "Player_Serialize pb_ser p buf bsize offset =
     (case SerializePB pb_ser buf bsize offset (PBPlayer.truncate p) of
        (False, buf, offset) \<Rightarrow> (False, buf, offset)
      | (True, buf, offset) \<Rightarrow> SerializeBase buf bsize offset (enc_tcp_head (pl_tcp_head p)))"

definition Player_UnSerialize :: "(byte list \<Rightarrow> PBPlayer option) \<Rightarrow> mem \<Rightarrow> uint64 \<Rightarrow> uint64 \<Rightarrow> (Player \<times> uint64) option" where
  "Player_UnSerialize pb_parse buf bsize offset =
     (case UnSerializePB pb_parse buf bsize offset of
        None \<Rightarrow> None
      | Some (pb, offset) \<Rightarrow>
          (case UnSerializeBase buf bsize offset 40 of
             None \<Rightarrow> None
           | Some (bs, offset) \<Rightarrow> Some (PBPlayer.extend pb (Player.fields (dec_tcp_head bs)), offset)))"

record PlayerManager =
  pm_base :: "Player ObjectMng"
  pm_index :: "uint64 \<rightharpoonup> nat"

definition PlayerManager_Init :: "shm_os \<Rightarrow> (byte list \<Rightarrow> PBPlayer option) \<Rightarrow> (nat set \<Rightarrow> nat list) \<Rightarrow> nat \<Rightarrow> uint32 \<Rightarrow> shm_tab
    \<Rightarrow> bool \<times> PlayerManager \<times> shm_tab" where
  "PlayerManager_Init K pb_parse ord n shmkey tab =
     (case ObjectMng_Init K Player_new (Player_UnSerialize pb_parse) n shmkey tab of
        (False, om, tab) \<Rightarrow> (False, \<lparr>pm_base = om, pm_index = Map.empty\<rparr>, tab)
      | (True, om, tab) \<Rightarrow>
          (True, \<lparr>pm_base = om, pm_index = rebuild_index pl_uid (om_pool om) (ord (om_used om)) Map.empty\<rparr>, tab))"

definition PlayerManager_CreatePlayer :: "uint64 \<Rightarrow> PlayerManager \<Rightarrow> nat option \<times> PlayerManager" where
  "PlayerManager_CreatePlayer uid m =
     (case ObjectMng_Malloc Player_new (pm_base m) of
        (None, om) \<Rightarrow> (None, m\<lparr>pm_base := om\<rparr>)
      | (Some pos, om) \<Rightarrow>
          (Some pos, m\<lparr>pm_base := om_store pos ((om_pool om pos)\<lparr>pl_uid := uid\<rparr>) om,
                       pm_index := (pm_index m)(uid \<mapsto> pos)\<rparr>))"

definition PlayerManager_GetPlayer :: "uint64 \<Rightarrow> PlayerManager \<Rightarrow> nat option" where
  "PlayerManager_GetPlayer uid m =
     (case pm_index m uid of None \<Rightarrow> None | Some pos \<Rightarrow> ObjectMng_Get pos (pm_base m))"

definition PlayerManager_ReleasePlayer :: "uint64 \<Rightarrow> PlayerManager \<Rightarrow> bool \<times> PlayerManager" where
  "PlayerManager_ReleasePlayer uid m =
     (case pm_index m uid of
        None \<Rightarrow> (False, m)
      | Some pos \<Rightarrow> (True, m\<lparr>pm_base := snd (ObjectMng_Free pos (pm_base m)), pm_index := (pm_index m)(uid := None)\<rparr>))"

text \<open>\<^verbatim>\<open>Release\<close> is inherited.\<close>

definition PlayerManager_Release :: "shm_os \<Rightarrow> (PBPlayer \<Rightarrow> byte list) \<Rightarrow> (nat set \<Rightarrow> nat list) \<Rightarrow> PlayerManager \<Rightarrow> shm_tab
    \<Rightarrow> release_result \<times> shm_tab" where
  "PlayerManager_Release K pb_ser ord m tab =
     ObjectMng_Release K (Player_GetByteSize pb_ser) (Player_Serialize pb_ser) ord (pm_base m) tab"

subsection \<open>Invariant and abstraction\<close>

definition pm_inv :: "PlayerManager \<Rightarrow> bool" where
  "pm_inv m \<longleftrightarrow> idx_ok pl_uid (pm_base m) (pm_index m) \<and> idx_full pl_uid (pm_base m) (pm_index m)"

definition pm_objs :: "PlayerManager \<Rightarrow> uint64 \<rightharpoonup> Player" where
  "pm_objs m = idx_map (pm_base m) (pm_index m)"

lemma pm_lookup:
  assumes "pm_inv m"
  shows "map_option (om_pool (pm_base m)) (PlayerManager_GetPlayer uid m) = pm_objs m uid"
  using assms idx_ok_Get by (fastforce simp: pm_inv_def PlayerManager_GetPlayer_def pm_objs_def idx_map_def split: option.splits)

lemma pm_release:
  assumes "pm_inv m"
  shows "pm_inv (snd (PlayerManager_ReleasePlayer uid m))"
    and "pm_objs (snd (PlayerManager_ReleasePlayer uid m)) = (pm_objs m)(uid := None)"
    and "fst (PlayerManager_ReleasePlayer uid m) \<longleftrightarrow> uid \<in> dom (pm_objs m)"
proof -
  have ok: "idx_ok pl_uid (pm_base m) (pm_index m)" and full: "idx_full pl_uid (pm_base m) (pm_index m)"
    using assms by (simp_all add: pm_inv_def)
  show "fst (PlayerManager_ReleasePlayer uid m) \<longleftrightarrow> uid \<in> dom (pm_objs m)"
    by (simp add: PlayerManager_ReleasePlayer_def pm_objs_def idx_map_def domIff split: option.splits)
  show "pm_inv (snd (PlayerManager_ReleasePlayer uid m))"
    using idx_ok_Free(1) [OF ok] idx_full_Free [OF ok full] assms
    by (auto simp: PlayerManager_ReleasePlayer_def pm_inv_def split: option.splits)
  show "pm_objs (snd (PlayerManager_ReleasePlayer uid m)) = (pm_objs m)(uid := None)"
    using idx_ok_Free(2) [OF ok]
    by (auto simp: PlayerManager_ReleasePlayer_def pm_objs_def idx_map_def fun_upd_idem_iff split: option.splits)
qed

interpretation players: keyed_pool pm_inv pm_objs PlayerManager_GetPlayer "\<lambda>m. om_pool (pm_base m)" PlayerManager_ReleasePlayer
  by unfold_locales (simp_all add: pm_lookup pm_release)

lemma CreatePlayer_new:
  assumes "pm_inv m" and "uid \<notin> dom (pm_objs m)" and "PlayerManager_CreatePlayer uid m = (Some pos, m')"
  shows "pm_inv m'" and "pm_objs m' = (pm_objs m)(uid \<mapsto> Player_new\<lparr>pl_uid := uid\<rparr>)"
    and "PlayerManager_GetPlayer uid m' = Some pos"
proof -
  have ok: "idx_ok pl_uid (pm_base m) (pm_index m)" "idx_full pl_uid (pm_base m) (pm_index m)"
    using assms(1) by (simp_all add: pm_inv_def)
  obtain om where M: "ObjectMng_Malloc Player_new (pm_base m) = (Some pos, om)"
    and m': "m' = m\<lparr>pm_base := om_store pos ((om_pool om pos)\<lparr>pl_uid := uid\<rparr>) om, pm_index := (pm_index m)(uid \<mapsto> pos)\<rparr>"
    using assms(3) by (auto simp: PlayerManager_CreatePlayer_def split: prod.splits option.splits)
  have new: "om_pool om pos = Player_new" using Malloc_fresh_position(4) [OF idx_ok_wf [OF ok(1)] M] by simp
  have none: "pm_index m uid = None" using assms(2) by (auto simp: pm_objs_def idx_map_def domIff)
  note I = idx_ok_insert [OF ok(1) M, of "Player_new\<lparr>pl_uid := uid\<rparr>" uid, OF _ none, simplified]
  show inv: "pm_inv m'" using I ok(2) by (simp add: pm_inv_def m' new)
  show "pm_objs m' = (pm_objs m)(uid \<mapsto> Player_new\<lparr>pl_uid := uid\<rparr>)" using I(2) by (simp add: pm_objs_def m' new)
  show "PlayerManager_GetPlayer uid m' = Some pos"
    using inv idx_ok_Get [of pl_uid "pm_base m'" "pm_index m'" uid pos] by (simp add: PlayerManager_GetPlayer_def pm_inv_def m')
qed

text \<open>Changing a player in place.\<close>

definition pm_set :: "nat \<Rightarrow> Player \<Rightarrow> PlayerManager \<Rightarrow> PlayerManager" where
  "pm_set pos x m = m\<lparr>pm_base := om_store pos x (pm_base m)\<rparr>"

lemma pm_set_ok:
  assumes "pm_inv m" and "PlayerManager_GetPlayer uid m = Some pos" and "pl_uid x = uid"
  shows "pm_inv (pm_set pos x m)" and "pm_objs (pm_set pos x m) = (pm_objs m)(uid \<mapsto> x)"
proof -
  have ok: "idx_ok pl_uid (pm_base m) (pm_index m)" "idx_full pl_uid (pm_base m) (pm_index m)"
    using assms(1) by (simp_all add: pm_inv_def)
  have "pm_index m uid = Some pos"
    using assms(2) by (auto simp: PlayerManager_GetPlayer_def ObjectMng_Get_def split: option.splits if_splits)
  note S = idx_ok_store [OF ok(1) this assms(3)]
  show "pm_inv (pm_set pos x m)" using S ok(2) by (simp add: pm_inv_def pm_set_def)
  show "pm_objs (pm_set pos x m) = (pm_objs m)(uid \<mapsto> x)" using S by (simp add: pm_objs_def pm_set_def)
qed

subsection \<open>Serialisation\<close>

definition Player_bytes :: "(PBPlayer \<Rightarrow> byte list) \<Rightarrow> Player \<Rightarrow> byte list" where
  "Player_bytes pb_ser p = pb_bytes pb_ser (PBPlayer.truncate p) @ enc_tcp_head (pl_tcp_head p)"

definition Player_valid :: "(PBPlayer \<Rightarrow> byte list) \<Rightarrow> Player \<Rightarrow> bool" where
  "Player_valid pb_ser p \<longleftrightarrow> wf_tcp_head (pl_tcp_head p) \<and> length (pb_ser (PBPlayer.truncate p)) < 2 ^ 31"

lemma extend_truncate_player: "PBPlayer.extend (PBPlayer.truncate p) (Player.fields (pl_tcp_head p)) = p"
  by (cases p) (simp add: PBPlayer.defs Player.defs)

lemma Player_serial_law:
  assumes "pb_codec pb_ser pb_parse"
  shows "serial_law (Player_valid pb_ser) (Player_bytes pb_ser) (Player_Serialize pb_ser) (Player_UnSerialize pb_parse)"
proof -
  have ser: "Player_Serialize pb_ser x m bsize off
      = (True, mem_write m (unat off) (Player_bytes pb_ser x), off + word_of_nat (length (Player_bytes pb_ser x)))"
    if "Player_valid pb_ser x" "unat off + length (Player_bytes pb_ser x) \<le> unat bsize" for x m bsize off
    using pb_then_base_write [OF that(2) [unfolded Player_bytes_def], of m] that(1)
    unfolding Player_Serialize_def Player_bytes_def Player_valid_def by force
  have unser: "Player_UnSerialize pb_parse m bsize off = Some (x, off + word_of_nat (length (Player_bytes pb_ser x)))"
    if "Player_valid pb_ser x" "unat off + length (Player_bytes pb_ser x) \<le> unat bsize"
      "mem_read m (unat off) (length (Player_bytes pb_ser x)) = Player_bytes pb_ser x" for x m bsize off
    using pb_then_base_read [OF that(2) [unfolded Player_bytes_def] assms _ that(3) [unfolded Player_bytes_def]] that(1)
      dec_enc_tcp_head [of "pl_tcp_head x" "[]"]
    by (simp add: Player_UnSerialize_def Player_bytes_def Player_valid_def extend_truncate_player)
  show ?thesis unfolding serial_law_def using ser unser by blast
qed

lemma Player_byte_size: "Player_valid pb_ser p \<Longrightarrow> Player_GetByteSize pb_ser p = length (Player_bytes pb_ser p)"
  by (simp add: Player_GetByteSize_def Player_bytes_def Player_valid_def pb_bytes_def)

subsection \<open>Properties\<close>

text \<open>C17. Players survive a restart: when \<^verbatim>\<open>PlayerManager::Release\<close> hands the players over and the next process
  calls \<^verbatim>\<open>PlayerManager::Init\<close>, every uid leads to the same player, connection head included, and the index
  and the pool agree again. This holds for every order in which the set of used positions is
  traversed and for every protocol buffer codec that can read what it wrote.\<close>

theorem players_survive_restart:
  assumes "pb_codec pb_ser pb_parse" and "iter_order ord" and "pm_inv m"
    and "\<forall>p\<in>om_used (pm_base m). Player_valid pb_ser (om_pool (pm_base m) p)"
    and "restart_ok K (Player_GetByteSize pb_ser) ord n (pm_base m) tab"
  shows "\<exists>tab1 m'. PlayerManager_Release K pb_ser ord m tab = (Released True, tab1)
    \<and> PlayerManager_Init K pb_parse ord n (om_shmkey (pm_base m)) tab1 = (True, m', tab)
    \<and> pm_inv m' \<and> om_size (pm_base m') = n \<and> pm_objs m' = pm_objs m"
proof -
  obtain tab1 om' where r: "ObjectMng_Release K (Player_GetByteSize pb_ser) (Player_Serialize pb_ser) ord (pm_base m) tab = (Released True, tab1)"
    "ObjectMng_Init K Player_new (Player_UnSerialize pb_parse) n (om_shmkey (pm_base m)) tab1 = (True, om', tab)" "om_size om' = n"
    "idx_ok pl_uid om' (rebuild_index pl_uid (om_pool om') (ord (om_used om')) Map.empty)"
    "idx_full pl_uid om' (rebuild_index pl_uid (om_pool om') (ord (om_used om')) Map.empty)"
    "idx_map om' (rebuild_index pl_uid (om_pool om') (ord (om_used om')) Map.empty) = pm_objs m"
    using pool_restart [OF Player_serial_law [OF assms(1)] assms(2) _ _ assms(4) Player_byte_size assms(5)] assms(3)
    unfolding pm_inv_def pm_objs_def by blast
  then show ?thesis by (simp add: PlayerManager_Release_def PlayerManager_Init_def pm_inv_def pm_objs_def)
qed

definition player_codec_ser :: "PBPlayer \<Rightarrow> byte list" where
  "player_codec_ser p = le64 (pl_uid p) @ le64 (pl_table_id p)"

definition player_codec_parse :: "byte list \<Rightarrow> PBPlayer option" where
  "player_codec_parse bs = Some \<lparr>pl_uid = un_le64 (take 8 bs), pl_table_id = un_le64 (drop 8 bs)\<rparr>"

definition one_player :: PlayerManager where
  "one_player = snd (PlayerManager_CreatePlayer 42 \<lparr>pm_base = om_fresh 2 5 (\<lambda>_. Player_new), pm_index = Map.empty\<rparr>)"

lemma one_player_eq:
  "one_player = \<lparr>pm_base = \<lparr>om_size = 2, om_shmkey = 5, om_pool = (\<lambda>_. Player_new)(1 := Player_new, 1 := Player_new\<lparr>pl_uid := 42\<rparr>),
      om_used = {1}, om_free = [0]\<rparr>, pm_index = [42 \<mapsto> 1]\<rparr>"
  by (simp add: one_player_def PlayerManager_CreatePlayer_def ObjectMng_Malloc_def om_fresh_def om_store_def upt_rec numeral_2_eq_2)

theorem players_survive_restart_witness:
  "\<exists>tab1 m'. PlayerManager_Release \<lparr>create_ok = (\<lambda>_. True), attach_ok = (\<lambda>_. True), rmid_ok = (\<lambda>_. True)\<rparr> player_codec_ser
        sorted_list_of_set one_player Map.empty = (Released True, tab1)
    \<and> PlayerManager_Init \<lparr>create_ok = (\<lambda>_. True), attach_ok = (\<lambda>_. True), rmid_ok = (\<lambda>_. True)\<rparr> player_codec_parse
        sorted_list_of_set 3 5 tab1 = (True, m', Map.empty)
    \<and> pm_inv m' \<and> om_size (pm_base m') = 3 \<and> pm_objs m' = [42 \<mapsto> Player_new\<lparr>pl_uid := 42\<rparr>]"
proof -
  have c: "pb_codec player_codec_ser player_codec_parse"
    by (simp add: pb_codec_def player_codec_ser_def player_codec_parse_def)
  have i: "pm_inv one_player" by (auto simp: one_player_eq pm_inv_def idx_ok_def idx_full_def om_wf_def split: if_splits)
  have v: "\<forall>p\<in>om_used (pm_base one_player). Player_valid player_codec_ser (om_pool (pm_base one_player) p)"
    by (simp add: one_player_eq Player_valid_def Player_new_def PBPlayer.defs Player.defs stTcpHead_zero_def wf_tcp_head_def PBPlayer_new_def player_codec_ser_def)
  have r: "restart_ok \<lparr>create_ok = (\<lambda>_. True), attach_ok = (\<lambda>_. True), rmid_ok = (\<lambda>_. True)\<rparr>
      (Player_GetByteSize player_codec_ser) sorted_list_of_set 3 (pm_base one_player) Map.empty"
    by (simp add: restart_ok_def one_player_eq om_total_size_def Player_GetByteSize_def player_codec_ser_def ObjectMng_Size_def)
  have o: "pm_objs one_player = [42 \<mapsto> Player_new\<lparr>pl_uid := 42\<rparr>]" "om_shmkey (pm_base one_player) = 5"
    by (auto simp: one_player_eq pm_objs_def idx_map_def fun_eq_iff)
  show ?thesis
    using players_survive_restart [OF c iter_order_sorted i v r] by (simp add: o)
qed

text \<open>\<^verbatim>\<open>PlayerManager::CreatePlayer\<close> does not look whether the uid already has a player: a second call for the same
  uid takes another position and overwrites the index entry, and the first object stays allocated
  but no uid leads to it any more.\<close>

lemma CreatePlayer_again_leaks:
  assumes "pm_inv m" and "PlayerManager_GetPlayer uid m = Some old" and "PlayerManager_CreatePlayer uid m = (Some pos, m')"
  shows "PlayerManager_GetPlayer uid m' = Some pos \<and> pos \<noteq> old \<and> old \<in> om_used (pm_base m')
    \<and> (\<forall>k. PlayerManager_GetPlayer k m' \<noteq> Some old)"
proof -
  have ok: "idx_ok pl_uid (pm_base m) (pm_index m)" using assms(1) by (simp add: pm_inv_def)
  obtain om where M: "ObjectMng_Malloc Player_new (pm_base m) = (Some pos, om)"
    and m': "m' = m\<lparr>pm_base := om_store pos ((om_pool om pos)\<lparr>pl_uid := uid\<rparr>) om, pm_index := (pm_index m)(uid \<mapsto> pos)\<rparr>"
    using assms(3) by (auto simp: PlayerManager_CreatePlayer_def split: prod.splits option.splits)
  have old: "pm_index m uid = Some old"
    using assms(2) by (auto simp: PlayerManager_GetPlayer_def ObjectMng_Get_def split: option.splits if_splits)
  note F = Malloc_fresh_position [OF idx_ok_wf [OF ok] M]
  have ne: "pos \<noteq> old" using idx_okD [OF ok old] F(1) by metis
  have "pm_index m k \<noteq> Some old" if "k \<noteq> uid" for k using idx_ok_inj [OF ok old] that by metis
  then have "PlayerManager_GetPlayer k m' \<noteq> Some old" for k
    using ne by (cases "k = uid") (auto simp: PlayerManager_GetPlayer_def ObjectMng_Get_def m' split: option.splits)
  moreover have "PlayerManager_GetPlayer uid m' = Some pos"
    using F by (simp add: PlayerManager_GetPlayer_def ObjectMng_Get_def m')
  ultimately show ?thesis using ne idx_okD [OF ok old] F(3) by (simp add: m')
qed

end
