(* ===== verification/SessionMng.thy ===== *)
theory SessionMng
  imports IndexedPool Messages
begin

text \<open>
  \<^verbatim>\<open>src/common/session_mng.h\<close> and \<^verbatim>\<open>session_mng.cpp\<close>: a session is the state of one request while the
  server waits for answers of other servers; it is found by its id, which travels in the
  message heads. A \<open>Session\<close> extends the protocol buffer \<open>PBSession\<close> by the 40 bytes of
  the union \<^verbatim>\<open>uMsgHead\<close>.
\<close>

record Session = PBSession +
  se_msg_head :: "byte list"

definition Session_new :: Session where
  "Session_new = PBSession.extend PBSession_new (Session.fields (replicate 40 0))"

definition Session_GetTcpHead :: "Session \<Rightarrow> stTcpHead" where
  "Session_GetTcpHead s = dec_tcp_head (se_msg_head s)"

definition Session_GetCenterHead :: "Session \<Rightarrow> stCenterHead" where
  "Session_GetCenterHead s = dec_center_head (se_msg_head s)"

definition Session_SetTcpHead :: "stTcpHead \<Rightarrow> Session \<Rightarrow> Session" where
  "Session_SetTcpHead head s = s\<lparr>se_msg_head := enc_tcp_head head\<rparr>"

definition Session_SetCenterHead :: "stCenterHead \<Rightarrow> Session \<Rightarrow> Session" where
  "Session_SetCenterHead head s = s\<lparr>se_msg_head := enc_center_head head\<rparr>"

definition Session_SetCSMsg :: "PBCSMsg \<Rightarrow> Session \<Rightarrow> Session" where
  "Session_SetCSMsg msg s = s\<lparr>se_cs_msg := msg\<rparr>"

definition Session_SetSSMsg :: "PBSSMsg \<Rightarrow> Session \<Rightarrow> Session" where
  "Session_SetSSMsg msg s = s\<lparr>se_ss_msg := msg\<rparr>"

definition Session_SetInterMsg :: "PBInterMsg \<Rightarrow> Session \<Rightarrow> Session" where
  "Session_SetInterMsg msg s = s\<lparr>se_inter_msg := msg\<rparr>"

definition Session_GetByteSize :: "(PBSession \<Rightarrow> byte list) \<Rightarrow> Session \<Rightarrow> nat" where
  "Session_GetByteSize pb_ser s = 8 + length (pb_ser (PBSession.truncate s)) + 40"

definition Session_Serialize :: "(PBSession \<Rightarrow> byte list) \<Rightarrow> Session \<Rightarrow> mem \<Rightarrow> uint64 \<Rightarrow> uint64 \<Rightarrow> bool \<times> mem \<times> uint64" where
  "Session_Serialize pb_ser s buf bsize offset =
     (case SerializePB pb_ser buf bsize offset (PBSession.truncate s) of
        (False, buf, offset) \<Rightarrow> (False, buf, offset)
      | (True, buf, offset) \<Rightarrow> SerializeBase buf bsize offset (se_msg_head s))"

definition Session_UnSerialize :: "(byte list \<Rightarrow> PBSession option) \<Rightarrow> mem \<Rightarrow> uint64 \<Rightarrow> uint64 \<Rightarrow> (Session \<times> uint64) option" where
  "Session_UnSerialize pb_parse buf bsize offset =
     (case UnSerializePB pb_parse buf bsize offset of
        None \<Rightarrow> None
      | Some (pb, offset) \<Rightarrow>
          (case UnSerializeBase buf bsize offset 40 of
             None \<Rightarrow> None
           | Some (bs, offset) \<Rightarrow> Some (PBSession.extend pb (Session.fields bs), offset)))"

text \<open>\<^verbatim>\<open>AddDBGetKey\<close>: uids and the keys of a uid are kept without duplicates.\<close>

fun add_db_get_key :: "uint64 \<Rightarrow> uint32 \<Rightarrow> PBDBProcInfo list \<Rightarrow> PBDBProcInfo list" where
  "add_db_get_key uid key [] = [\<lparr>pi_uid = uid, pi_keys = [key], pi_player = None\<rparr>]"
| "add_db_get_key uid key (proc # procs) =
     (if pi_uid proc = uid
      then (if List.member (pi_keys proc) key then proc else proc\<lparr>pi_keys := pi_keys proc @ [key]\<rparr>) # procs
      else proc # add_db_get_key uid key procs)"

definition Session_AddDBGetKey :: "uint64 \<Rightarrow> uint32 \<Rightarrow> Session \<Rightarrow> Session" where
  "Session_AddDBGetKey uid key s = s\<lparr>se_db_procs := add_db_get_key uid key (se_db_procs s)\<rparr>"

fun db_proc_index :: "uint64 \<Rightarrow> nat \<Rightarrow> PBDBProcInfo list \<Rightarrow> nat option" where
  "db_proc_index uid i [] = None"
| "db_proc_index uid i (proc # procs) = (if uid = pi_uid proc then Some i else db_proc_index uid (Suc i) procs)"

text \<open>\<open>None\<close> is the return value -1.\<close>

definition Session_GetDBProcIndex :: "uint64 \<Rightarrow> Session \<Rightarrow> nat option" where
  "Session_GetDBProcIndex uid s = db_proc_index uid 0 (se_db_procs s)"

definition Session_GetAllDBData :: "Session \<Rightarrow> bool" where
  "Session_GetAllDBData s \<longleftrightarrow> list_all (\<lambda>proc. pi_player proc \<noteq> None) (se_db_procs s)"

record SessionManager =
  sn_base :: "Session ObjectMng"
  sn_index :: "uint32 \<rightharpoonup> nat"
  sn_cur_max_id :: uint32

definition SessionManager_Init :: "shm_os \<Rightarrow> (byte list \<Rightarrow> PBSession option) \<Rightarrow> (nat set \<Rightarrow> nat list) \<Rightarrow> nat \<Rightarrow> uint32 \<Rightarrow> shm_tab
    \<Rightarrow> bool \<times> SessionManager \<times> shm_tab" where
  "SessionManager_Init K pb_parse ord n shmkey tab =
     (case ObjectMng_Init K Session_new (Session_UnSerialize pb_parse) n shmkey tab of
        (False, om, tab) \<Rightarrow> (False, \<lparr>sn_base = om, sn_index = Map.empty, sn_cur_max_id = 0\<rparr>, tab)
      | (True, om, tab) \<Rightarrow>
          (True, \<lparr>sn_base = om, sn_index = rebuild_index se_session_id (om_pool om) (ord (om_used om)) Map.empty,
                  sn_cur_max_id = fold (\<lambda>p cur. max cur (se_session_id (om_pool om p))) (ord (om_used om)) 0\<rparr>, tab))"

text \<open>\<^verbatim>\<open>CreateSession\<close>; \<open>now\<close> is the cached clock. When ten ids in a row are taken, the function returns
  NULL with the position still allocated.\<close>

definition SessionManager_CreateSession :: "uint64 \<Rightarrow> uint32 \<Rightarrow> SessionManager \<Rightarrow> nat option \<times> SessionManager" where
  "SessionManager_CreateSession now msg_id m =
     (case ObjectMng_Malloc Session_new (sn_base m) of
        (None, om) \<Rightarrow> (None, m\<lparr>sn_base := om\<rparr>)
      | (Some pos, om) \<Rightarrow>
          (case next_id (\<lambda>i. sn_index m i \<noteq> None) 10 (sn_cur_max_id m) of
             (None, cur) \<Rightarrow> (None, m\<lparr>sn_base := om, sn_cur_max_id := cur\<rparr>)
           | (Some session_id, cur) \<Rightarrow>
               let s = (om_pool om pos)\<lparr>se_session_id := session_id, se_msg_id := msg_id, se_update_time := GetTime now\<rparr>
               in (Some pos, m\<lparr>sn_base := om_store pos s om, sn_index := (sn_index m)(session_id \<mapsto> pos),
                               sn_cur_max_id := and cur 0xfffffff\<rparr>)))"

definition SessionManager_GetSession :: "uint32 \<Rightarrow> SessionManager \<Rightarrow> nat option" where
  "SessionManager_GetSession session_id m =
     (case sn_index m session_id of None \<Rightarrow> None | Some pos \<Rightarrow> ObjectMng_Get pos (sn_base m))"

definition SessionManager_ReleaseSession :: "uint32 \<Rightarrow> SessionManager \<Rightarrow> bool \<times> SessionManager" where
  "SessionManager_ReleaseSession session_id m =
     (case sn_index m session_id of
        None \<Rightarrow> (False, m)
      | Some pos \<Rightarrow> (True, m\<lparr>sn_base := snd (ObjectMng_Free pos (sn_base m)), sn_index := (sn_index m)(session_id := None)\<rparr>))"

definition session_expired :: "uint64 \<Rightarrow> Session \<Rightarrow> bool" where
  "session_expired now s \<longleftrightarrow> se_update_time s + EN_SESSION_TIMEOUT \<le> GetTime now"

definition SessionManager_CheckTimeOut :: "uint64 \<Rightarrow> (nat set \<Rightarrow> nat list) \<Rightarrow> SessionManager \<Rightarrow> SessionManager" where
  "SessionManager_CheckTimeOut now ord m =
     (let ids = map se_session_id (filter (session_expired now) (map (om_pool (sn_base m)) (ord (om_used (sn_base m)))))
      in fold (\<lambda>i m. snd (SessionManager_ReleaseSession i m)) ids m)"

definition SessionManager_Release :: "shm_os \<Rightarrow> (PBSession \<Rightarrow> byte list) \<Rightarrow> (nat set \<Rightarrow> nat list) \<Rightarrow> SessionManager \<Rightarrow> shm_tab
    \<Rightarrow> release_result \<times> shm_tab" where
  "SessionManager_Release K pb_ser ord m tab =
     ObjectMng_Release K (Session_GetByteSize pb_ser) (Session_Serialize pb_ser) ord (sn_base m) tab"

subsection \<open>Invariant and abstraction\<close>

text \<open>\<open>sn_ok\<close> is what every operation keeps; \<open>sn_inv\<close> says further that the index leads to every used session, which a
  failing \<^verbatim>\<open>CreateSession\<close> may end.\<close>

definition sn_ok :: "SessionManager \<Rightarrow> bool" where
  "sn_ok m \<longleftrightarrow> idx_ok se_session_id (sn_base m) (sn_index m)"

definition sn_inv :: "SessionManager \<Rightarrow> bool" where
  "sn_inv m \<longleftrightarrow> idx_ok se_session_id (sn_base m) (sn_index m) \<and> idx_full se_session_id (sn_base m) (sn_index m)"

lemma sn_inv_ok: "sn_inv m \<Longrightarrow> sn_ok m"
  by (simp add: sn_inv_def sn_ok_def)

definition sn_objs :: "SessionManager \<Rightarrow> uint32 \<rightharpoonup> Session" where
  "sn_objs m = idx_map (sn_base m) (sn_index m)"

lemma sn_lookup:
  assumes "sn_ok m"
  shows "map_option (om_pool (sn_base m)) (SessionManager_GetSession i m) = sn_objs m i"
  using assms idx_ok_Get by (fastforce simp: sn_ok_def SessionManager_GetSession_def sn_objs_def idx_map_def split: option.splits)

lemma sn_release:
  assumes "sn_ok m"
  shows "sn_ok (snd (SessionManager_ReleaseSession i m))"
    and "sn_objs (snd (SessionManager_ReleaseSession i m)) = (sn_objs m)(i := None)"
    and "fst (SessionManager_ReleaseSession i m) \<longleftrightarrow> i \<in> dom (sn_objs m)"
proof -
  have ok: "idx_ok se_session_id (sn_base m) (sn_index m)" using assms by (simp add: sn_ok_def)
  show "fst (SessionManager_ReleaseSession i m) \<longleftrightarrow> i \<in> dom (sn_objs m)"
    by (simp add: SessionManager_ReleaseSession_def sn_objs_def idx_map_def domIff split: option.splits)
  show "sn_ok (snd (SessionManager_ReleaseSession i m))"
    using idx_ok_Free(1) [OF ok] assms by (auto simp: SessionManager_ReleaseSession_def sn_ok_def split: option.splits)
  show "sn_objs (snd (SessionManager_ReleaseSession i m)) = (sn_objs m)(i := None)"
    using idx_ok_Free(2) [OF ok]
    by (auto simp: SessionManager_ReleaseSession_def sn_objs_def idx_map_def fun_upd_idem_iff split: option.splits)
qed

lemma sn_release_full:
  assumes "sn_inv m"
  shows "sn_inv (snd (SessionManager_ReleaseSession i m))"
  using assms sn_release(1) [OF sn_inv_ok [OF assms], of i] idx_full_Free [of se_session_id "sn_base m" "sn_index m" i]
  by (auto simp: SessionManager_ReleaseSession_def sn_inv_def sn_ok_def split: option.splits)

interpretation open_sessions: keyed_pool sn_ok sn_objs SessionManager_GetSession "\<lambda>m. om_pool (sn_base m)" SessionManager_ReleaseSession
  by unfold_locales (simp_all add: sn_lookup sn_release)

interpretation sessions: keyed_pool sn_inv sn_objs SessionManager_GetSession "\<lambda>m. om_pool (sn_base m)" SessionManager_ReleaseSession
  by unfold_locales (simp_all add: sn_lookup sn_release sn_release_full sn_inv_ok)

definition sn_set :: "nat \<Rightarrow> Session \<Rightarrow> SessionManager \<Rightarrow> SessionManager" where
  "sn_set pos x m = m\<lparr>sn_base := om_store pos x (sn_base m)\<rparr>"

lemma sn_set_ok:
  assumes "sn_ok m" and "SessionManager_GetSession i m = Some pos" and "se_session_id x = i"
  shows "sn_ok (sn_set pos x m)" and "sn_objs (sn_set pos x m) = (sn_objs m)(i \<mapsto> x)"
    and "SessionManager_GetSession i (sn_set pos x m) = Some pos"
proof -
  have ok: "idx_ok se_session_id (sn_base m) (sn_index m)" using assms(1) by (simp add: sn_ok_def)
  have "sn_index m i = Some pos"
    using assms(2) by (auto simp: SessionManager_GetSession_def ObjectMng_Get_def split: option.splits if_splits)
  note S = idx_ok_store [OF ok this assms(3)]
  show "sn_ok (sn_set pos x m)" using S by (simp add: sn_ok_def sn_set_def)
  show "sn_objs (sn_set pos x m) = (sn_objs m)(i \<mapsto> x)" using S by (simp add: sn_objs_def sn_set_def)
  show "SessionManager_GetSession i (sn_set pos x m) = Some pos"
    using assms(2) by (simp add: SessionManager_GetSession_def sn_set_def ObjectMng_Get_def split: option.splits if_splits)
qed

text \<open>The session a successful \<^verbatim>\<open>CreateSession\<close> returns.\<close>

definition created_session :: "uint64 \<Rightarrow> uint32 \<Rightarrow> uint32 \<Rightarrow> Session" where
  "created_session now msg_id i =
     Session_new\<lparr>se_session_id := i, se_msg_id := msg_id, se_update_time := GetTime now\<rparr>"

lemma CreateSession_Some:
  assumes "sn_ok m" and "SessionManager_CreateSession now msg_id m = (Some pos, m')"
  obtains i where "i \<notin> dom (sn_objs m)" "sn_ok m'" "sn_inv m \<Longrightarrow> sn_inv m'" "sn_objs m' = (sn_objs m)(i \<mapsto> created_session now msg_id i)"
    "SessionManager_GetSession i m' = Some pos" "om_pool (sn_base m') pos = created_session now msg_id i"
    "sn_cur_max_id m' = and i 0xfffffff" "fst (next_id (\<lambda>i. sn_index m i \<noteq> None) 10 (sn_cur_max_id m)) = Some i"
proof -
  have ok: "idx_ok se_session_id (sn_base m) (sn_index m)" using assms(1) by (simp add: sn_ok_def)
  obtain om i cur where M: "ObjectMng_Malloc Session_new (sn_base m) = (Some pos, om)"
    and nx: "next_id (\<lambda>i. sn_index m i \<noteq> None) 10 (sn_cur_max_id m) = (Some i, cur)"
    and m'0: "m' = m\<lparr>sn_base := om_store pos ((om_pool om pos)\<lparr>se_session_id := i, se_msg_id := msg_id, se_update_time := GetTime now\<rparr>) om,
                sn_index := (sn_index m)(i \<mapsto> pos), sn_cur_max_id := and cur 0xfffffff\<rparr>"
    using assms(2) by (auto simp: SessionManager_CreateSession_def Let_def split: prod.splits option.splits)
  have new: "om_pool om pos = Session_new" using Malloc_fresh_position(4) [OF idx_ok_wf [OF ok] M] by simp
  have m': "m' = m\<lparr>sn_base := om_store pos (created_session now msg_id i) om, sn_index := (sn_index m)(i \<mapsto> pos), sn_cur_max_id := and cur 0xfffffff\<rparr>"
    using m'0 by (simp add: new created_session_def)
  have none: "sn_index m i = None" "cur = i" using next_id_Some [OF nx] by simp_all
  have key: "se_session_id (created_session now msg_id i) = i" by (simp add: created_session_def)
  note I = idx_ok_insert [OF ok M key none(1)]
  have inv: "sn_ok m'" using I by (simp add: sn_ok_def m')
  moreover have "sn_inv m'" if "sn_inv m" using I that by (simp add: sn_inv_def m')
  moreover have "SessionManager_GetSession i m' = Some pos"
    using inv idx_ok_Get [of se_session_id "sn_base m'" "sn_index m'" i pos] by (simp add: SessionManager_GetSession_def sn_ok_def m')
  moreover have "sn_objs m' = (sn_objs m)(i \<mapsto> created_session now msg_id i)" using I(2) by (simp add: sn_objs_def m')
  moreover have "i \<notin> dom (sn_objs m)" using none by (simp add: sn_objs_def idx_map_def domIff)
  ultimately show ?thesis using that none nx by (simp add: m')
qed

lemma CreateSession_None:
  assumes "om_wf (sn_base m)" and "SessionManager_CreateSession now msg_id m = (None, m')"
  obtains "om_free (sn_base m) = []" "m' = m"
  | pos om cur where "ObjectMng_Malloc Session_new (sn_base m) = (Some pos, om)"
      "next_id (\<lambda>i. sn_index m i \<noteq> None) 10 (sn_cur_max_id m) = (None, cur)"
      "m' = m\<lparr>sn_base := om, sn_cur_max_id := cur\<rparr>"
  using assms by (auto simp: SessionManager_CreateSession_def ObjectMng_Malloc_def Let_def split: prod.splits option.splits list.splits)

lemma CreateSession_ok:
  assumes "sn_ok m"
  shows "sn_ok (snd (SessionManager_CreateSession now msg_id m))"
proof (cases "fst (SessionManager_CreateSession now msg_id m)")
  case None
  have wf: "om_wf (sn_base m)" using assms idx_ok_wf by (auto simp: sn_ok_def)
  obtain m' where m': "SessionManager_CreateSession now msg_id m = (None, m')" using None by (metis prod.collapse)
  show ?thesis
    using CreateSession_None [OF wf m']
  proof cases
    case (2 pos om cur)
    note M = Malloc_fresh_position [OF wf 2(1)] and W = om_wf_Malloc [OF wf 2(1)]
    have "idx_ok se_session_id om (sn_index m)"
      unfolding idx_ok_def
    proof (intro conjI allI impI)
      fix k p assume "sn_index m k = Some p"
      then have p: "p \<in> om_used (sn_base m)" "se_session_id (om_pool (sn_base m) p) = k"
        using assms idx_okD [of se_session_id "sn_base m" "sn_index m" k p] by (simp_all add: sn_ok_def)
      with M(1) have "p \<noteq> pos" by blast
      then show "p \<in> om_used om" "se_session_id (om_pool om p) = k" using p by (simp_all add: M(3,4))
    qed (rule W)
    then show ?thesis using m' 2 by (simp add: sn_ok_def)
  qed (use assms m' in simp)
next
  case (Some pos)
  then obtain m' where "SessionManager_CreateSession now msg_id m = (Some pos, m')" by (metis prod.collapse)
  then show ?thesis using CreateSession_Some [OF assms] by (metis snd_conv)
qed

subsection \<open>Time-outs\<close>

text \<open>A position the index does not lead to is never freed.\<close>

lemma unindexed_stays:
  assumes "pos \<in> om_used (sn_base m)" and "pos \<notin> ran (sn_index m)"
  shows "pos \<in> om_used (sn_base (fold (\<lambda>i m. snd (SessionManager_ReleaseSession i m)) ids m))"
  using assms
proof (induction ids arbitrary: m)
  case Nil
  then show ?case by simp
next
  case (Cons i ids)
  let ?m = "snd (SessionManager_ReleaseSession i m)"
  have "pos \<in> om_used (sn_base ?m) \<and> pos \<notin> ran (sn_index ?m)"
    using Cons.prems by (auto simp: SessionManager_ReleaseSession_def ObjectMng_Free_def ran_def split: option.splits)
  then show ?case using Cons.IH [of ?m] by simp
qed

lemma expired_ids:
  assumes "sn_inv m" and "iter_order ord"
  shows "i \<in> set (map se_session_id (filter (session_expired now) (map (om_pool (sn_base m)) (ord (om_used (sn_base m))))))
    \<longleftrightarrow> (\<exists>s. sn_objs m i = Some s \<and> session_expired now s)"
proof -
  have ok: "idx_ok se_session_id (sn_base m) (sn_index m)" "idx_full se_session_id (sn_base m) (sn_index m)"
    using assms(1) by (simp_all add: sn_inv_def)
  have "sn_objs m i = Some s \<longleftrightarrow> (\<exists>p\<in>om_used (sn_base m). s = om_pool (sn_base m) p) \<and> se_session_id s = i" for s
    using idx_map_iff [OF ok] om_finite [OF idx_ok_wf [OF ok(1)]] by (auto simp: sn_objs_def om_objects_def)
  then show ?thesis using set_ord [OF assms(2) idx_ok_wf [OF ok(1)]] by auto
qed

subsection \<open>Serialisation\<close>

definition Session_bytes :: "(PBSession \<Rightarrow> byte list) \<Rightarrow> Session \<Rightarrow> byte list" where
  "Session_bytes pb_ser s = pb_bytes pb_ser (PBSession.truncate s) @ se_msg_head s"

definition Session_valid :: "(PBSession \<Rightarrow> byte list) \<Rightarrow> Session \<Rightarrow> bool" where
  "Session_valid pb_ser s \<longleftrightarrow> length (se_msg_head s) = 40 \<and> length (pb_ser (PBSession.truncate s)) < 2 ^ 31"

lemma extend_truncate_session: "PBSession.extend (PBSession.truncate s) (Session.fields (se_msg_head s)) = s"
  by (cases s) (simp add: PBSession.defs Session.defs)

lemma Session_serial_law:
  assumes "pb_codec pb_ser pb_parse"
  shows "serial_law (Session_valid pb_ser) (Session_bytes pb_ser) (Session_Serialize pb_ser) (Session_UnSerialize pb_parse)"
proof -
  have ser: "Session_Serialize pb_ser x m bsize off
      = (True, mem_write m (unat off) (Session_bytes pb_ser x), off + word_of_nat (length (Session_bytes pb_ser x)))"
    if "Session_valid pb_ser x" "unat off + length (Session_bytes pb_ser x) \<le> unat bsize" for x m bsize off
    using pb_then_base_write [OF that(2) [unfolded Session_bytes_def], of m] that(1)
    unfolding Session_Serialize_def Session_bytes_def Session_valid_def by force
  have unser: "Session_UnSerialize pb_parse m bsize off = Some (x, off + word_of_nat (length (Session_bytes pb_ser x)))"
    if "Session_valid pb_ser x" "unat off + length (Session_bytes pb_ser x) \<le> unat bsize"
      "mem_read m (unat off) (length (Session_bytes pb_ser x)) = Session_bytes pb_ser x" for x m bsize off
    using pb_then_base_read [OF that(2) [unfolded Session_bytes_def] assms _ that(3) [unfolded Session_bytes_def]] that(1)
    by (simp add: Session_UnSerialize_def Session_bytes_def Session_valid_def extend_truncate_session)
  show ?thesis unfolding serial_law_def using ser unser by blast
qed

lemma Session_byte_size: "Session_valid pb_ser s \<Longrightarrow> Session_GetByteSize pb_ser s = length (Session_bytes pb_ser s)"
  by (simp add: Session_GetByteSize_def Session_bytes_def Session_valid_def pb_bytes_def)

lemma fold_max_ge: "x \<in> set xs \<Longrightarrow> (f x :: uint32) \<le> fold (\<lambda>p cur. max cur (f p)) xs c"
proof -
  have ge: "c \<le> fold (\<lambda>p cur. max cur (f p)) xs c" for c xs
    by (induction xs arbitrary: c) (auto intro: order_trans [OF max.cobounded1])
  show "x \<in> set xs \<Longrightarrow> f x \<le> fold (\<lambda>p cur. max cur (f p)) xs c"
    by (induction xs arbitrary: c) (auto intro: order_trans [OF max.cobounded2 ge])
qed

subsection \<open>Properties\<close>

text \<open>C19. \<^verbatim>\<open>SessionManager::CheckTimeOut\<close> removes exactly the sessions that have not been updated for
  \<^verbatim>\<open>EN_SESSION_TIMEOUT\<close> seconds, in whatever order the used positions are traversed, and keeps index
  and pool in step.\<close>

theorem CheckTimeOut_removes_expired:
  assumes "sn_inv m" and "iter_order ord"
  shows "sn_inv (SessionManager_CheckTimeOut now ord m)
    \<and> sn_objs (SessionManager_CheckTimeOut now ord m)
        = (\<lambda>i. case sn_objs m i of None \<Rightarrow> None | Some s \<Rightarrow> if session_expired now s then None else Some s)"
proof -
  let ?ids = "map se_session_id (filter (session_expired now) (map (om_pool (sn_base m)) (ord (om_used (sn_base m)))))"
  have "sn_objs m |` (- set ?ids) = (\<lambda>i. case sn_objs m i of None \<Rightarrow> None | Some s \<Rightarrow> if session_expired now s then None else Some s)"
    using expired_ids [OF assms, of _ now] by (auto simp: restrict_map_def fun_eq_iff split: option.split)
  then show ?thesis
    using sessions.release_all_invar [OF assms(1), of ?ids] sessions.release_all_objs [OF assms(1), of ?ids]
    by (simp add: SessionManager_CheckTimeOut_def Let_def)
qed

definition one_session :: SessionManager where
  "one_session = snd (SessionManager_CreateSession 1000 12
     \<lparr>sn_base = om_fresh 2 6 (\<lambda>_. Session_new), sn_index = Map.empty, sn_cur_max_id = 0\<rparr>)"

lemma one_session_eq:
  "one_session = \<lparr>sn_base = \<lparr>om_size = 2, om_shmkey = 6, om_pool = (\<lambda>_. Session_new)(1 := Session_new, 1 := created_session 1000 12 1),
      om_used = {1}, om_free = [0]\<rparr>, sn_index = [1 \<mapsto> 1], sn_cur_max_id = 1\<rparr>"
  by (simp add: one_session_def SessionManager_CreateSession_def ObjectMng_Malloc_def om_fresh_def om_store_def upt_rec
      numeral_2_eq_2 numeral_eq_Suc created_session_def)

lemma one_session_id: "se_session_id (created_session now msg i) = i"
  by (simp add: created_session_def)

lemma one_session_ok: "sn_inv one_session" "sn_objs one_session = [1 \<mapsto> created_session 1000 12 1]"
proof -
  show "sn_inv one_session"
    by (auto simp: one_session_eq sn_inv_def idx_ok_def idx_full_def om_wf_def one_session_id split: if_splits)
  show "sn_objs one_session = [1 \<mapsto> created_session 1000 12 1]"
    by (auto simp: one_session_eq sn_objs_def idx_map_def fun_eq_iff)
qed

theorem CheckTimeOut_removes_expired_witness:
  "sn_objs one_session 1 \<noteq> None \<and> sn_inv (SessionManager_CheckTimeOut 6000 sorted_list_of_set one_session)
    \<and> sn_objs (SessionManager_CheckTimeOut 6000 sorted_list_of_set one_session) = Map.empty"
proof -
  have "GetTime 1000 = 1" "GetTime 6000 = 6" by (simp_all add: GetTime_def)
  then have "session_expired 6000 (created_session 1000 12 1)"
    by (simp add: session_expired_def created_session_def EN_SESSION_TIMEOUT_def)
  then show ?thesis
    using CheckTimeOut_removes_expired [OF one_session_ok(1) iter_order_sorted, of 6000]
    by (auto simp: one_session_ok(2) fun_eq_iff)
qed

text \<open>C20. A new session gets an id that no other session has and that is not 0; it is found under that id,
  and all other sessions are as before. The counter stays below \<^verbatim>\<open>0x10000000\<close>.\<close>

theorem CreateSession_fresh_id:
  assumes "sn_inv m" and "sn_cur_max_id m \<le> 0xfffffff" and "SessionManager_CreateSession now msg_id m = (Some pos, m')"
  shows "\<exists>i. i \<noteq> 0 \<and> i \<notin> dom (sn_objs m) \<and> SessionManager_GetSession i m' = Some pos
    \<and> sn_objs m' = (sn_objs m)(i \<mapsto> created_session now msg_id i) \<and> sn_inv m' \<and> sn_cur_max_id m' \<le> 0xfffffff"
proof -
  obtain i where i: "i \<notin> dom (sn_objs m)" "sn_inv m'" "sn_objs m' = (sn_objs m)(i \<mapsto> created_session now msg_id i)"
    "SessionManager_GetSession i m' = Some pos" "sn_cur_max_id m' = and i 0xfffffff"
    "fst (next_id (\<lambda>i. sn_index m i \<noteq> None) 10 (sn_cur_max_id m)) = Some i"
    using CreateSession_Some [OF sn_inv_ok [OF assms(1)] assms(3)] assms(1) by metis
  have "i \<noteq> 0" using next_id_nonzero [OF _ assms(2)] i(6) by (metis prod.collapse)
  then show ?thesis using i mask28 [of i] by auto
qed

theorem CreateSession_fresh_id_witness:
  "\<exists>i. i \<noteq> 0 \<and> i \<notin> dom (sn_objs one_session)
    \<and> SessionManager_GetSession i (snd (SessionManager_CreateSession 2000 13 one_session)) = Some 0
    \<and> sn_objs (snd (SessionManager_CreateSession 2000 13 one_session)) = (sn_objs one_session)(i \<mapsto> created_session 2000 13 i)
    \<and> sn_inv (snd (SessionManager_CreateSession 2000 13 one_session))
    \<and> sn_cur_max_id (snd (SessionManager_CreateSession 2000 13 one_session)) \<le> 0xfffffff"
proof -
  have "SessionManager_CreateSession 2000 13 one_session = (Some 0, snd (SessionManager_CreateSession 2000 13 one_session))"
    by (simp add: one_session_eq SessionManager_CreateSession_def ObjectMng_Malloc_def numeral_eq_Suc Let_def)
  moreover have "sn_cur_max_id one_session \<le> 0xfffffff" by (simp add: one_session_eq)
  ultimately show ?thesis using CreateSession_fresh_id [OF one_session_ok(1)] by blast
qed

text \<open>When the ten ids after the counter are all taken, \<^verbatim>\<open>CreateSession\<close> returns NULL after it has taken a
  position from the pool: the position is never given back, neither by \<^verbatim>\<open>CheckTimeOut\<close> nor by any sequence of
  releases, and no id leads to it.\<close>

lemma CreateSession_collision_leaks:
  assumes "sn_inv m" and "om_free (sn_base m) \<noteq> []" and "\<forall>j\<in>{1..10}. sn_cur_max_id m + word_of_nat j \<in> dom (sn_objs m)"
  shows "\<exists>pos m'. SessionManager_CreateSession now msg_id m = (None, m') \<and> pos \<notin> om_used (sn_base m) \<and> pos \<in> om_used (sn_base m')
    \<and> (\<forall>i. SessionManager_GetSession i m' \<noteq> Some pos)
    \<and> (\<forall>ids. pos \<in> om_used (sn_base (fold (\<lambda>i m. snd (SessionManager_ReleaseSession i m)) ids m')))
    \<and> (\<forall>t ord. pos \<in> om_used (sn_base (SessionManager_CheckTimeOut t ord m')))"
proof -
  have ok: "idx_ok se_session_id (sn_base m) (sn_index m)" using assms(1) by (simp add: sn_inv_def)
  obtain pos om where M: "ObjectMng_Malloc Session_new (sn_base m) = (Some pos, om)"
    using assms(2) by (cases "om_free (sn_base m)") (auto simp: ObjectMng_Malloc_def)
  note F = Malloc_fresh_position [OF idx_ok_wf [OF ok] M]
  have "fst (next_id (\<lambda>i. sn_index m i \<noteq> None) 10 (sn_cur_max_id m)) = None"
    unfolding next_id_None using assms(3) by (auto simp: sn_objs_def idx_map_def domIff)
  then obtain cur where nx: "next_id (\<lambda>i. sn_index m i \<noteq> None) 10 (sn_cur_max_id m) = (None, cur)"
    by (cases "next_id (\<lambda>i. sn_index m i \<noteq> None) 10 (sn_cur_max_id m)") simp
  let ?m' = "m\<lparr>sn_base := om, sn_cur_max_id := cur\<rparr>"
  have ran: "pos \<notin> ran (sn_index m)" using F(1) idx_okD [OF ok] by (auto simp: ran_def)
  have used: "pos \<in> om_used (sn_base ?m')" using F(3) by simp
  have "SessionManager_CreateSession now msg_id m = (None, ?m')"
    using M nx by (simp add: SessionManager_CreateSession_def)
  moreover have "SessionManager_GetSession i ?m' \<noteq> Some pos" for i
    using ran by (auto simp: SessionManager_GetSession_def ObjectMng_Get_def ran_def split: option.splits)
  ultimately show ?thesis
    using F(1) used unindexed_stays [OF used] ran
    by (intro exI [of _ pos] exI [of _ ?m']) (auto simp: SessionManager_CheckTimeOut_def Let_def)
qed


text \<open>A codec for sessions that have only an id, a message id and a time.\<close>

definition plain_session :: "byte list \<Rightarrow> PBSession" where
  "plain_session bs = PBSession_new\<lparr>se_session_id := un_le32 (take 4 bs), se_msg_id := un_le32 (take 4 (drop 4 bs)),
     se_update_time := un_le32 (drop 8 bs)\<rparr>"

definition session_codec_ser :: "PBSession \<Rightarrow> byte list" where
  "session_codec_ser s =
     (let bs = le32 (se_session_id s) @ le32 (se_msg_id s) @ le32 (se_update_time s)
      in if plain_session bs = s then bs else replicate (2 ^ 31) 0)"

definition session_codec_parse :: "byte list \<Rightarrow> PBSession option" where
  "session_codec_parse bs = Some (plain_session bs)"

lemma session_codec_law: "pb_codec session_codec_ser session_codec_parse"
  by (auto simp: pb_codec_def session_codec_ser_def session_codec_parse_def Let_def)

lemma plain_created_session:
  "session_codec_ser (PBSession.truncate (created_session now msg i)) = le32 i @ le32 msg @ le32 (GetTime now)"
  by (simp add: session_codec_ser_def plain_session_def created_session_def Session_new_def PBSession_new_def
      PBSession.defs Session.defs)


text \<open>\<^verbatim>\<open>Session::AddDBGetKey\<close> records a request for a key of a uid once: afterwards the uid is found by
  \<^verbatim>\<open>GetDBProcIndex\<close> and its entry has the key; no uid and no key of a uid is listed twice if none was before; the
  other uids, and the player data already fetched, are untouched.\<close>

lemma AddDBGetKey_records_once:
  fixes s :: Session and uid :: uint64 and key :: uint32
  assumes "distinct (map pi_uid (se_db_procs s))" and "\<forall>p\<in>set (se_db_procs s). distinct (pi_keys p)"
  defines "s' \<equiv> Session_AddDBGetKey uid key s"
  shows "distinct (map pi_uid (se_db_procs s')) \<and> (\<forall>p\<in>set (se_db_procs s'). distinct (pi_keys p))
    \<and> (\<exists>i. Session_GetDBProcIndex uid s' = Some i \<and> i < length (se_db_procs s')
          \<and> pi_uid (se_db_procs s' ! i) = uid \<and> key \<in> set (pi_keys (se_db_procs s' ! i)))
    \<and> filter (\<lambda>p. pi_uid p \<noteq> uid) (se_db_procs s') = filter (\<lambda>p. pi_uid p \<noteq> uid) (se_db_procs s)"
proof -
  let ?ps = "se_db_procs s"
  have uids: "set (map pi_uid (add_db_get_key uid key ps)) = insert uid (set (map pi_uid ps))" for ps
    by (induction ps) auto
  have d: "distinct (map pi_uid ps) \<Longrightarrow> distinct (map pi_uid (add_db_get_key uid key ps))" for ps
    using uids by (induction ps) auto
  have k: "\<forall>p\<in>set ps. distinct (pi_keys p) \<Longrightarrow> \<forall>p\<in>set (add_db_get_key uid key ps). distinct (pi_keys p)" for ps
    by (induction ps) auto
  have f: "filter (\<lambda>p. pi_uid p \<noteq> uid) (add_db_get_key uid key ps) = filter (\<lambda>p. pi_uid p \<noteq> uid) ps" for ps
    by (induction ps) auto
  have i: "\<exists>i. db_proc_index uid n (add_db_get_key uid key ps) = Some (n + i) \<and> i < length (add_db_get_key uid key ps)
      \<and> pi_uid (add_db_get_key uid key ps ! i) = uid \<and> key \<in> set (pi_keys (add_db_get_key uid key ps ! i))" for n ps
  proof (induction ps arbitrary: n)
    case Nil
    then show ?case by simp
  next
    case (Cons p ps)
    show ?case
    proof (cases "pi_uid p = uid")
      case True
      then show ?thesis by (intro exI [of _ 0]) auto
    next
      case False
      obtain i where "db_proc_index uid (Suc n) (add_db_get_key uid key ps) = Some (Suc n + i)"
        "i < length (add_db_get_key uid key ps)" "pi_uid (add_db_get_key uid key ps ! i) = uid"
        "key \<in> set (pi_keys (add_db_get_key uid key ps ! i))"
        using Cons.IH [of "Suc n"] by blast
      with False show ?thesis by (intro exI [of _ "Suc i"]) auto
    qed
  qed
  show ?thesis
    using d [OF assms(1)] k [OF assms(2)] f [of ?ps] i [of 0 ?ps]
    by (simp add: s'_def Session_AddDBGetKey_def Session_GetDBProcIndex_def)
qed

end
