(* ===== verification/TimerMng.thy ===== *)
theory TimerMng
  imports IndexedPool Messages
begin

text \<open>
  \<^verbatim>\<open>src/common/timer_mng.h\<close> and \<^verbatim>\<open>timer_mng.cpp\<close>: timers that post an internal message when they are due. The
  call \<^verbatim>\<open>MsgBasic::SendMsgToInternal\<close> of \<^verbatim>\<open>Tick\<close> is the argument \<open>send\<close> on the rest of the
  server's state; its result is ignored, as in the code.
\<close>

type_synonym Timer = PBTimer

definition Timer_GetByteSize :: "(Timer \<Rightarrow> byte list) \<Rightarrow> Timer \<Rightarrow> nat" where
  "Timer_GetByteSize pb_ser t = 8 + length (pb_ser t)"

definition Timer_Serialize :: "(Timer \<Rightarrow> byte list) \<Rightarrow> Timer \<Rightarrow> mem \<Rightarrow> uint64 \<Rightarrow> uint64 \<Rightarrow> bool \<times> mem \<times> uint64" where
  "Timer_Serialize pb_ser t buf bsize offset = SerializePB pb_ser buf bsize offset t"

definition Timer_UnSerialize :: "(byte list \<Rightarrow> Timer option) \<Rightarrow> mem \<Rightarrow> uint64 \<Rightarrow> uint64 \<Rightarrow> (Timer \<times> uint64) option" where
  "Timer_UnSerialize pb_parse buf bsize offset = UnSerializePB pb_parse buf bsize offset"

record TimerManager =
  tn_base :: "Timer ObjectMng"
  tn_index :: "uint32 \<rightharpoonup> nat"
  tn_cur_max_id :: uint32

definition TimerManager_Init :: "shm_os \<Rightarrow> (byte list \<Rightarrow> Timer option) \<Rightarrow> (nat set \<Rightarrow> nat list) \<Rightarrow> nat \<Rightarrow> uint32 \<Rightarrow> shm_tab
    \<Rightarrow> bool \<times> TimerManager \<times> shm_tab" where
  "TimerManager_Init K pb_parse ord n shmkey tab =
     (case ObjectMng_Init K PBTimer_new (Timer_UnSerialize pb_parse) n shmkey tab of
        (False, om, tab) \<Rightarrow> (False, \<lparr>tn_base = om, tn_index = Map.empty, tn_cur_max_id = 0\<rparr>, tab)
      | (True, om, tab) \<Rightarrow>
          (True, \<lparr>tn_base = om, tn_index = rebuild_index tm_timer_id (om_pool om) (ord (om_used om)) Map.empty,
                  tn_cur_max_id = fold (\<lambda>p cur. max cur (tm_timer_id (om_pool om p))) (ord (om_used om)) 0\<rparr>, tab))"

text \<open>\<^verbatim>\<open>CreateTimer\<close>: \<open>None\<close> is the return value -1.\<close>

definition TimerManager_CreateTimer :: "uint64 \<Rightarrow> uint32 \<Rightarrow> PBInterMsg \<Rightarrow> TimerManager \<Rightarrow> uint32 option \<times> TimerManager" where
  "TimerManager_CreateTimer now msec imsg m =
     (case ObjectMng_Malloc PBTimer_new (tn_base m) of
        (None, om) \<Rightarrow> (None, m\<lparr>tn_base := om\<rparr>)
      | (Some pos, om) \<Rightarrow>
          (case next_id (\<lambda>i. tn_index m i \<noteq> None) 10 (tn_cur_max_id m) of
             (None, cur) \<Rightarrow> (None, m\<lparr>tn_base := om, tn_cur_max_id := cur\<rparr>)
           | (Some timer_id, cur) \<Rightarrow>
               let t = (om_pool om pos)\<lparr>tm_timer_id := timer_id, tm_timeout_msec := GetTimeMsec now + ucast msec, tm_msg := imsg\<rparr>
               in (Some timer_id, m\<lparr>tn_base := om_store pos t om, tn_index := (tn_index m)(timer_id \<mapsto> pos),
                                    tn_cur_max_id := and cur 0xfffffff\<rparr>)))"

definition TimerManager_ReleaseTimer :: "uint32 \<Rightarrow> TimerManager \<Rightarrow> bool \<times> TimerManager" where
  "TimerManager_ReleaseTimer timer_id m =
     (case tn_index m timer_id of
        None \<Rightarrow> (False, m)
      | Some pos \<Rightarrow> (True, m\<lparr>tn_base := snd (ObjectMng_Free pos (tn_base m)), tn_index := (tn_index m)(timer_id := None)\<rparr>))"

definition timer_due :: "uint64 \<Rightarrow> Timer \<Rightarrow> bool" where
  "timer_due now t \<longleftrightarrow> tm_timeout_msec t \<le> GetTimeMsec now"

text \<open>\<^verbatim>\<open>Tick\<close>: the first loop sends the messages of the timers that are due, in the order of traversal, the
  second releases those timers.\<close>

definition TimerManager_Tick :: "uint64 \<Rightarrow> (nat set \<Rightarrow> nat list) \<Rightarrow> (PBInterMsg \<Rightarrow> 'w \<Rightarrow> 'w) \<Rightarrow> TimerManager \<Rightarrow> 'w \<Rightarrow> TimerManager \<times> 'w" where
  "TimerManager_Tick now ord send m w =
     (let due = filter (timer_due now) (map (om_pool (tn_base m)) (ord (om_used (tn_base m))));
          w = fold send (map tm_msg due) w
      in (fold (\<lambda>i m. snd (TimerManager_ReleaseTimer i m)) (map tm_timer_id due) m, w))"

definition TimerManager_Release :: "shm_os \<Rightarrow> (Timer \<Rightarrow> byte list) \<Rightarrow> (nat set \<Rightarrow> nat list) \<Rightarrow> TimerManager \<Rightarrow> shm_tab
    \<Rightarrow> release_result \<times> shm_tab" where
  "TimerManager_Release K pb_ser ord m tab =
     ObjectMng_Release K (Timer_GetByteSize pb_ser) (Timer_Serialize pb_ser) ord (tn_base m) tab"

subsection \<open>Invariant and abstraction\<close>

definition tn_inv :: "TimerManager \<Rightarrow> bool" where
  "tn_inv m \<longleftrightarrow> idx_ok tm_timer_id (tn_base m) (tn_index m) \<and> idx_full tm_timer_id (tn_base m) (tn_index m)"

definition tn_objs :: "TimerManager \<Rightarrow> uint32 \<rightharpoonup> Timer" where
  "tn_objs m = idx_map (tn_base m) (tn_index m)"

definition tn_lookup :: "uint32 \<Rightarrow> TimerManager \<Rightarrow> nat option" where
  "tn_lookup i m = tn_index m i"

lemma tn_release:
  assumes "tn_inv m"
  shows "tn_inv (snd (TimerManager_ReleaseTimer i m))"
    and "tn_objs (snd (TimerManager_ReleaseTimer i m)) = (tn_objs m)(i := None)"
    and "fst (TimerManager_ReleaseTimer i m) \<longleftrightarrow> i \<in> dom (tn_objs m)"
proof -
  have ok: "idx_ok tm_timer_id (tn_base m) (tn_index m)" and full: "idx_full tm_timer_id (tn_base m) (tn_index m)"
    using assms by (simp_all add: tn_inv_def)
  show "fst (TimerManager_ReleaseTimer i m) \<longleftrightarrow> i \<in> dom (tn_objs m)"
    by (simp add: TimerManager_ReleaseTimer_def tn_objs_def idx_map_def domIff split: option.splits)
  show "tn_inv (snd (TimerManager_ReleaseTimer i m))"
    using idx_ok_Free(1) [OF ok] idx_full_Free [OF ok full] assms
    by (auto simp: TimerManager_ReleaseTimer_def tn_inv_def split: option.splits)
  show "tn_objs (snd (TimerManager_ReleaseTimer i m)) = (tn_objs m)(i := None)"
    using idx_ok_Free(2) [OF ok]
    by (auto simp: TimerManager_ReleaseTimer_def tn_objs_def idx_map_def fun_upd_idem_iff split: option.splits)
qed

interpretation timers: keyed_pool tn_inv tn_objs tn_lookup "\<lambda>m. om_pool (tn_base m)" TimerManager_ReleaseTimer
proof
  fix m k
  show "map_option (om_pool (tn_base m)) (tn_lookup k m) = tn_objs m k" by (simp add: tn_lookup_def tn_objs_def idx_map_def)
qed (rule tn_release, assumption)+

lemma CreateTimer_Some:
  assumes "tn_inv m" and "TimerManager_CreateTimer now msec imsg m = (Some i, m')"
  shows "i \<notin> dom (tn_objs m)" and "tn_inv m'"
    and "tn_objs m' = (tn_objs m)(i \<mapsto> \<lparr>tm_timer_id = i, tm_timeout_msec = now + ucast msec, tm_msg = imsg\<rparr>)"
proof -
  have ok: "idx_ok tm_timer_id (tn_base m) (tn_index m)" "idx_full tm_timer_id (tn_base m) (tn_index m)"
    using assms(1) by (simp_all add: tn_inv_def)
  let ?t = "\<lparr>tm_timer_id = i, tm_timeout_msec = now + ucast msec, tm_msg = imsg\<rparr>"
  obtain pos om cur where M: "ObjectMng_Malloc PBTimer_new (tn_base m) = (Some pos, om)"
    and nx: "next_id (\<lambda>i. tn_index m i \<noteq> None) 10 (tn_cur_max_id m) = (Some i, cur)"
    and m'0: "m' = m\<lparr>tn_base := om_store pos ((om_pool om pos)\<lparr>tm_timer_id := i, tm_timeout_msec := GetTimeMsec now + ucast msec, tm_msg := imsg\<rparr>) om,
                tn_index := (tn_index m)(i \<mapsto> pos), tn_cur_max_id := and cur 0xfffffff\<rparr>"
    using assms(2) by (auto simp: TimerManager_CreateTimer_def Let_def split: prod.splits option.splits)
  have "om_pool om pos = PBTimer_new" using Malloc_fresh_position(4) [OF idx_ok_wf [OF ok(1)] M] by simp
  then have m': "m' = m\<lparr>tn_base := om_store pos ?t om, tn_index := (tn_index m)(i \<mapsto> pos), tn_cur_max_id := and cur 0xfffffff\<rparr>"
    using m'0 by (simp add: PBTimer_new_def GetTimeMsec_def)
  have none: "tn_index m i = None" using next_id_Some [OF nx] by simp
  note I = idx_ok_insert [OF ok(1) M, of ?t i, OF _ none, simplified]
  show "i \<notin> dom (tn_objs m)" using none by (simp add: tn_objs_def idx_map_def domIff)
  show "tn_inv m'" using I ok(2) by (simp add: tn_inv_def m')
  show "tn_objs m' = (tn_objs m)(i \<mapsto> ?t)" using I(2) by (simp add: tn_objs_def m')
qed

lemma Timer_serial_law:
  assumes "pb_codec pb_ser pb_parse"
  shows "serial_law (\<lambda>t. length (pb_ser t) < 2 ^ 31) (pb_bytes pb_ser) (Timer_Serialize pb_ser) (Timer_UnSerialize pb_parse)"
  unfolding serial_law_def Timer_Serialize_def Timer_UnSerialize_def
  using SerializePB_fits UnSerializePB_fits [OF _ _ assms] by (metis (no_types, lifting))

subsection \<open>Due timers\<close>

definition due_timers :: "uint64 \<Rightarrow> TimerManager \<Rightarrow> Timer multiset" where
  "due_timers now m = filter_mset (timer_due now) (om_objects (tn_base m))"

lemma tn_objects:
  assumes "tn_inv m"
  shows "t \<in># om_objects (tn_base m) \<longleftrightarrow> tn_objs m (tm_timer_id t) = Some t"
  using assms idx_map_iff [of tm_timer_id "tn_base m" "tn_index m"] by (auto simp: tn_inv_def tn_objs_def)

lemma due_list:
  assumes "tn_inv m" and "iter_order ord"
  shows "mset (filter (timer_due now) (map (om_pool (tn_base m)) (ord (om_used (tn_base m))))) = due_timers now m"
  using mset_map_ord(1) [OF assms(2)] assms(1) idx_ok_wf unfolding due_timers_def tn_inv_def by (metis mset_filter)

lemma Tick_objs:
  assumes "tn_inv m" and "iter_order ord"
  shows "tn_inv (fst (TimerManager_Tick now ord send m w))"
    and "tn_objs (fst (TimerManager_Tick now ord send m w))
      = (\<lambda>i. case tn_objs m i of None \<Rightarrow> None | Some t \<Rightarrow> if timer_due now t then None else Some t)"
proof -
  let ?due = "filter (timer_due now) (map (om_pool (tn_base m)) (ord (om_used (tn_base m))))"
  have fst: "fst (TimerManager_Tick now ord send m w) = fold (\<lambda>i m. snd (TimerManager_ReleaseTimer i m)) (map tm_timer_id ?due) m"
    by (simp add: TimerManager_Tick_def Let_def)
  show "tn_inv (fst (TimerManager_Tick now ord send m w))"
    unfolding fst by (rule timers.release_all_invar [OF assms(1)])
  have mem: "t \<in> set ?due \<longleftrightarrow> timer_due now t \<and> tn_objs m (tm_timer_id t) = Some t" for t
  proof -
    have "t \<in> set ?due \<longleftrightarrow> t \<in># mset ?due" by simp
    then show ?thesis using tn_objects [OF assms(1)] unfolding due_list [OF assms] due_timers_def by auto
  qed
  have key: "tn_objs m i = Some t \<Longrightarrow> tm_timer_id t = i" for i t
    using idx_map_iff [of tm_timer_id "tn_base m" "tn_index m" i t] assms(1) by (simp add: tn_inv_def tn_objs_def)
  have ids: "i \<in> set (map tm_timer_id ?due) \<longleftrightarrow> (\<exists>t. tn_objs m i = Some t \<and> timer_due now t)" for i
    unfolding set_map using mem key by (metis (no_types, lifting) image_iff)
  have "tn_objs m |` (- set (map tm_timer_id ?due))
      = (\<lambda>i. case tn_objs m i of None \<Rightarrow> None | Some t \<Rightarrow> if timer_due now t then None else Some t)"
    using ids by (auto simp: restrict_map_def fun_eq_iff split: option.split)
  then show "tn_objs (fst (TimerManager_Tick now ord send m w))
      = (\<lambda>i. case tn_objs m i of None \<Rightarrow> None | Some t \<Rightarrow> if timer_due now t then None else Some t)"
    unfolding fst timers.release_all_objs [OF assms(1)] .
qed

lemma no_due_after:
  assumes "tn_inv m" and "\<And>i t. tn_objs m i = Some t \<Longrightarrow> \<not> timer_due now t"
  shows "due_timers now m = {#}"
  using tn_objects [OF assms(1)] assms(2) unfolding due_timers_def by (simp add: filter_mset_eq_conv)

subsection \<open>Properties\<close>

text \<open>C21. \<^verbatim>\<open>TimerManager::Tick\<close> fires every due timer exactly once and no other: the messages it sends are those of
  the due timers, with multiplicity; afterwards exactly the due timers are gone, and a second tick at the
  same time sends nothing.\<close>

theorem Tick_fires_due_timers_once:
  assumes "tn_inv m" and "iter_order ord"
  shows "mset (snd (TimerManager_Tick now ord (\<lambda>x ms. ms @ [x]) m [])) = image_mset tm_msg (due_timers now m)
    \<and> tn_inv (fst (TimerManager_Tick now ord (\<lambda>x ms. ms @ [x]) m []))
    \<and> tn_objs (fst (TimerManager_Tick now ord (\<lambda>x ms. ms @ [x]) m []))
        = (\<lambda>i. case tn_objs m i of None \<Rightarrow> None | Some t \<Rightarrow> if timer_due now t then None else Some t)
    \<and> snd (TimerManager_Tick now ord (\<lambda>x ms. ms @ [x]) (fst (TimerManager_Tick now ord (\<lambda>x ms. ms @ [x]) m [])) []) = []"
proof -
  have log: "fold (\<lambda>x ms. ms @ [x]) xs ys = ys @ xs" for xs ys :: "PBInterMsg list"
    by (induction xs arbitrary: ys) auto
  have sent: "mset (snd (TimerManager_Tick now ord (\<lambda>x ms. ms @ [x]) m [])) = image_mset tm_msg (due_timers now m)"
    if "tn_inv m" for m
  proof -
    have "mset (snd (TimerManager_Tick now ord (\<lambda>x ms. ms @ [x]) m []))
        = image_mset tm_msg (mset (filter (timer_due now) (map (om_pool (tn_base m)) (ord (om_used (tn_base m))))))"
      by (simp add: TimerManager_Tick_def Let_def log)
    then show ?thesis unfolding due_list [OF that assms(2)] .
  qed
  let ?m = "fst (TimerManager_Tick now ord (\<lambda>x ms. ms @ [x]) m [])"
  note T = Tick_objs [OF assms, of now "\<lambda>x ms. ms @ [x]" "[]"]
  have "due_timers now ?m = {#}"
    using T(2) by (intro no_due_after [OF T(1)]) (auto split: option.splits if_splits)
  then show ?thesis using sent [OF assms(1)] sent [OF T(1)] T by simp
qed

definition two_timers :: TimerManager where
  "two_timers = snd (TimerManager_CreateTimer 1000 500 (inter_logout 8) (snd (TimerManager_CreateTimer 1000 50 (inter_logout 7)
     \<lparr>tn_base = om_fresh 3 9 (\<lambda>_. PBTimer_new), tn_index = Map.empty, tn_cur_max_id = 0\<rparr>)))"

lemma two_timers_ok: "tn_inv two_timers"
    "tn_objs two_timers = [1 \<mapsto> \<lparr>tm_timer_id = 1, tm_timeout_msec = 1050, tm_msg = inter_logout 7\<rparr>,
       2 \<mapsto> \<lparr>tm_timer_id = 2, tm_timeout_msec = 1500, tm_msg = inter_logout 8\<rparr>]"
proof -
  let ?m0 = "\<lparr>tn_base = om_fresh 3 9 (\<lambda>_. PBTimer_new), tn_index = Map.empty, tn_cur_max_id = 0\<rparr>"
  let ?m1 = "snd (TimerManager_CreateTimer 1000 50 (inter_logout 7) ?m0)"
  have i0: "tn_inv ?m0" "tn_objs ?m0 = Map.empty"
    by (auto simp: tn_inv_def idx_ok_def idx_full_def om_fresh_def om_wf_def tn_objs_def idx_map_def)
  have c1: "TimerManager_CreateTimer 1000 50 (inter_logout 7) ?m0 = (Some 1, ?m1)"
    by (simp add: TimerManager_CreateTimer_def ObjectMng_Malloc_def om_fresh_def upt_rec numeral_eq_Suc Let_def)
  note C1 = CreateTimer_Some [OF i0(1) c1]
  have c2: "TimerManager_CreateTimer 1000 500 (inter_logout 8) ?m1 = (Some 2, two_timers)"
    by (simp add: two_timers_def)
      (simp add: TimerManager_CreateTimer_def ObjectMng_Malloc_def om_fresh_def om_store_def upt_rec numeral_eq_Suc Let_def)
  note C2 = CreateTimer_Some [OF C1(2) c2]
  show "tn_inv two_timers" by (rule C2(2))
  show "tn_objs two_timers = [1 \<mapsto> \<lparr>tm_timer_id = 1, tm_timeout_msec = 1050, tm_msg = inter_logout 7\<rparr>,
       2 \<mapsto> \<lparr>tm_timer_id = 2, tm_timeout_msec = 1500, tm_msg = inter_logout 8\<rparr>]"
    using C2(3) C1(3) i0(2) by simp
qed

theorem Tick_fires_due_timers_once_witness:
  "tn_objs (fst (TimerManager_Tick 1200 sorted_list_of_set (\<lambda>x ms. ms @ [x]) two_timers []))
     = [2 \<mapsto> \<lparr>tm_timer_id = 2, tm_timeout_msec = 1500, tm_msg = inter_logout 8\<rparr>]
   \<and> mset (snd (TimerManager_Tick 1200 sorted_list_of_set (\<lambda>x ms. ms @ [x]) two_timers [])) = image_mset tm_msg (due_timers 1200 two_timers)"
  using Tick_fires_due_timers_once [OF two_timers_ok(1) iter_order_sorted, of 1200]
  by (auto simp: two_timers_ok(2) timer_due_def GetTimeMsec_def fun_eq_iff)

end
