(* ===== verification/MsgBasic.thy ===== *)
theory MsgBasic
  imports Server PlayerMng SessionMng TimerMng
begin

text \<open>
  \<^verbatim>\<open>src/common/msg_basic.h\<close> and \<^verbatim>\<open>msg_basic.cpp\<close>: parsing and sending of messages on behalf of a session, and the requests to the
  database proxy. A \<^verbatim>\<open>Session*\<close> is the session's position in the pool. The state of a logic server extends the
  server frame by the singletons \<^verbatim>\<open>SessionManager\<close>, \<^verbatim>\<open>PlayerManager\<close> and \<^verbatim>\<open>TimerManager\<close>.

  The record \<open>lib\<close> collects what is generated or left open outside the sources: the protocol buffer
  (de)serialisers; \<open>touch\<close>, what \<^verbatim>\<open>mutable_x()\<close> of a player record does to the flag that \<^verbatim>\<open>update_x()\<close> reads;
  \<open>db_copy\<close>, the \<^verbatim>\<open>CopyFrom\<close> of \<^verbatim>\<open>PBDBMsg\<close>; and \<open>junk\<close>, the contents of an uninitialised \<^verbatim>\<open>stCenterHead\<close> on the stack.
\<close>

record 'os LogicState = "'os Server" +
  lg_sessions :: SessionManager
  lg_players :: PlayerManager
  lg_timers :: TimerManager
  lg_session_check :: uint32

record lib =
  ser_cs :: "PBCSMsg \<Rightarrow> byte list"
  parse_cs :: "byte list \<Rightarrow> PBCSMsg option"
  ser_ss :: "PBSSMsg \<Rightarrow> byte list"
  parse_ss :: "byte list \<Rightarrow> PBSSMsg option"
  ser_inter :: "PBInterMsg \<Rightarrow> byte list"
  parse_inter :: "byte list \<Rightarrow> PBInterMsg option"
  ser_base :: "DBBaseInfo \<Rightarrow> byte list"
  parse_base :: "byte list \<Rightarrow> DBBaseInfo option"
  ser_money :: "DBMoneyInfo \<Rightarrow> byte list"
  parse_money :: "byte list \<Rightarrow> DBMoneyInfo option"
  touch :: "bool \<Rightarrow> bool"
  db_copy :: "PBDBMsg \<Rightarrow> PBDBMsg"
  junk :: stCenterHead

subsection \<open>Sessions and players by pointer\<close>

definition ses :: "('os, 'a) LogicState_scheme \<Rightarrow> nat \<Rightarrow> Session" where
  "ses s pos = om_pool (sn_base (lg_sessions s)) pos"

definition upd_ses :: "nat \<Rightarrow> (Session \<Rightarrow> Session) \<Rightarrow> ('os, 'a) LogicState_scheme \<Rightarrow> ('os, 'a) LogicState_scheme" where
  "upd_ses pos f s = s\<lparr>lg_sessions := sn_set pos (f (ses s pos)) (lg_sessions s)\<rparr>"

definition ply :: "('os, 'a) LogicState_scheme \<Rightarrow> nat \<Rightarrow> Player" where
  "ply s pos = om_pool (pm_base (lg_players s)) pos"

definition upd_ply :: "nat \<Rightarrow> (Player \<Rightarrow> Player) \<Rightarrow> ('os, 'a) LogicState_scheme \<Rightarrow> ('os, 'a) LogicState_scheme" where
  "upd_ply pos f s = s\<lparr>lg_players := pm_set pos (f (ply s pos)) (lg_players s)\<rparr>"

text \<open>\<^verbatim>\<open>GetDBMsg\<close>: the player data of a database request. \<^verbatim>\<open>mutable_player()\<close> creates it when it is not there. The
  index must be in range; otherwise the library aborts, which the model does not follow.\<close>

definition Session_GetDBMsg :: "nat \<Rightarrow> Session \<Rightarrow> PBDBMsg" where
  "Session_GetDBMsg i s =
     (if i < length (se_db_procs s)
      then (case pi_player (se_db_procs s ! i) of None \<Rightarrow> PBDBMsg_new | Some p \<Rightarrow> p) else PBDBMsg_new)"

definition set_db_msg :: "nat \<Rightarrow> PBDBMsg \<Rightarrow> Session \<Rightarrow> Session" where
  "set_db_msg i p s = s\<lparr>se_db_procs := (se_db_procs s)[i := (se_db_procs s ! i)\<lparr>pi_player := Some p\<rparr>]\<rparr>"

definition cur_proc :: "Session \<Rightarrow> nat" where
  "cur_proc s = unat (se_cur_proc_index s)"

text \<open>\<^verbatim>\<open>mutable_base_info()\<close> and \<^verbatim>\<open>mutable_money_info()\<close> followed by a change of the record.\<close>

definition mutable_base_info :: "lib \<Rightarrow> (DBBaseInfo \<Rightarrow> DBBaseInfo) \<Rightarrow> PBDBMsg \<Rightarrow> PBDBMsg" where
  "mutable_base_info B f p =
     p\<lparr>dm_base_info := Some (f (get_base_info p)), dm_update_base_info := touch B (dm_update_base_info p)\<rparr>"

definition mutable_money_info :: "lib \<Rightarrow> (DBMoneyInfo \<Rightarrow> DBMoneyInfo) \<Rightarrow> PBDBMsg \<Rightarrow> PBDBMsg" where
  "mutable_money_info B f p =
     p\<lparr>dm_money_info := Some (f (get_money_info p)), dm_update_money_info := touch B (dm_update_money_info p)\<rparr>"

subsection \<open>Parsing\<close>

definition MsgBasic_ParseMsgFromClient :: "lib \<Rightarrow> stPBMsg \<Rightarrow> PBCSMsg option" where
  "MsgBasic_ParseMsgFromClient B msg = parse_cs B (payload msg)"

definition MsgBasic_ParseMsgFromServer :: "lib \<Rightarrow> stPBMsg \<Rightarrow> PBSSMsg option" where
  "MsgBasic_ParseMsgFromServer B msg = parse_ss B (payload msg)"

definition MsgBasic_ParseMsgFromInternal :: "lib \<Rightarrow> stPBMsg \<Rightarrow> PBInterMsg option" where
  "MsgBasic_ParseMsgFromInternal B msg = parse_inter B (payload msg)"

subsection \<open>Sending\<close>

text \<open>The head is a reference parameter: the result contains its new value.\<close>

definition MsgBasic_SendMsgToClient :: "lib \<Rightarrow> stTcpHead \<Rightarrow> PBCSMsg \<Rightarrow> bool \<Rightarrow> ('os, 'a) Server_scheme \<Rightarrow> bool \<times> stTcpHead \<times> ('os, 'a) Server_scheme" where
  "MsgBasic_SendMsgToClient B head cs_msg close s =
     (let buf = ser_cs B cs_msg
      in if length buf > MAX_PB_LEN then (False, head, s)
         else
           let head = head\<lparr>th_msg_type := TCP_NORMAL, th_need_close := close\<rparr>;
               (ok, s) = Server_SendMessageToClient head buf s
           in (ok, head, s))"

definition MsgBasic_SendMsgToClient_session :: "lib \<Rightarrow> nat \<Rightarrow> bool \<Rightarrow> ('os, 'a) LogicState_scheme \<Rightarrow> bool \<times> ('os, 'a) LogicState_scheme" where
  "MsgBasic_SendMsgToClient_session B pos close s =
     (case MsgBasic_SendMsgToClient B (Session_GetTcpHead (ses s pos)) (se_cs_response (ses s pos)) close s of
        (ok, head, s) \<Rightarrow> (ok, upd_ses pos (Session_SetTcpHead head) s))"

definition MsgBasic_SendMsgToResponse :: "'os posix \<Rightarrow> lib \<Rightarrow> stCenterHead \<Rightarrow> PBSSMsg \<Rightarrow> ('os, 'a) Server_scheme \<Rightarrow> bool \<times> PBSSMsg \<times> ('os, 'a) Server_scheme" where
  "MsgBasic_SendMsgToResponse P B src_head ss_msg s =
     (let ss_msg = ss_msg\<lparr>ss_type := SS_Response\<rparr>;
          buf = ser_ss B ss_msg
      in if length buf > MAX_PB_LEN then (False, ss_msg, s)
         else
           let head = (junk B)\<lparr>ch_src_type := si_svr_type (sv_info s), ch_src_id := si_svr_id (sv_info s),
                               ch_des_type := ch_src_type src_head, ch_des_id := ch_src_id src_head,
                               ch_session_id := ch_session_id src_head, ch_route_type := route_p2p\<rparr>;
               (ok, s) = Server_SendMessageToCenter P head buf (sint (ch_center_index src_head)) s
           in (ok, ss_msg, s))"

definition MsgBasic_SendMsgToResponse_session :: "'os posix \<Rightarrow> lib \<Rightarrow> nat \<Rightarrow> ('os, 'a) LogicState_scheme \<Rightarrow> bool \<times> ('os, 'a) LogicState_scheme" where
  "MsgBasic_SendMsgToResponse_session P B pos s =
     (case MsgBasic_SendMsgToResponse P B (Session_GetCenterHead (ses s pos)) (se_ss_response (ses s pos)) s of
        (ok, ss_msg, s) \<Rightarrow> (ok, upd_ses pos (\<lambda>x. x\<lparr>se_ss_response := ss_msg\<rparr>) s))"

definition MsgBasic_SendMsgToInternal :: "lib \<Rightarrow> PBInterMsg \<Rightarrow> ('os, 'a) Server_scheme \<Rightarrow> bool \<times> ('os, 'a) Server_scheme" where
  "MsgBasic_SendMsgToInternal B inter_msg s =
     (let buf = ser_inter B inter_msg
      in if length buf > MAX_PB_LEN then (False, s) else Server_SendMessageToInternal buf s)"

definition MsgBasic_SendMsgToHallById :: "'os posix \<Rightarrow> lib \<Rightarrow> nat \<Rightarrow> PBSSMsg \<Rightarrow> uint32 \<Rightarrow> ('os, 'a) LogicState_scheme \<Rightarrow> bool \<times> ('os, 'a) LogicState_scheme" where
  "MsgBasic_SendMsgToHallById P B pos ss_msg svr_id s =
     (let ss_msg = ss_msg\<lparr>ss_type := SS_Request\<rparr>;
          buf = ser_ss B ss_msg
      in if length buf > MAX_PB_LEN then (False, s)
         else
           let head = (junk B)\<lparr>ch_src_type := si_svr_type (sv_info s), ch_src_id := si_svr_id (sv_info s),
                               ch_des_type := EN_SVR_HALL, ch_des_id := svr_id,
                               ch_session_id := se_session_id (ses s pos), ch_route_type := route_p2p\<rparr>;
               s = upd_ses pos (\<lambda>x. x\<lparr>se_update_time := GetTime (sv_cur_time s), se_process_state := EN_SESSION_WAIT_SVR_RSP\<rparr>) s
           in Server_SendMessageToCenter P head buf (-1) s)"

definition MsgBasic_SendMsgToDBProxy :: "'os posix \<Rightarrow> lib \<Rightarrow> nat \<Rightarrow> PBSSMsg \<Rightarrow> ('os, 'a) LogicState_scheme \<Rightarrow> bool \<times> ('os, 'a) LogicState_scheme" where
  "MsgBasic_SendMsgToDBProxy P B pos ss_msg s =
     (let ss_msg = ss_msg\<lparr>ss_type := SS_Request\<rparr>;
          buf = ser_ss B ss_msg
      in if length buf > MAX_PB_LEN then (False, s)
         else
           let head = (junk B)\<lparr>ch_src_type := si_svr_type (sv_info s), ch_src_id := si_svr_id (sv_info s),
                               ch_des_type := EN_SVR_DBPROXY, ch_session_id := se_session_id (ses s pos),
                               ch_route_type := route_hash, ch_hash_key := ss_uid ss_msg\<rparr>;
               s = upd_ses pos (\<lambda>x. x\<lparr>se_update_time := GetTime (sv_cur_time s)\<rparr>) s
           in Server_SendMessageToCenter P head buf (-1) s)"

subsection \<open>Timers\<close>

definition MsgBasic_SetTimerMsec :: "uint32 \<Rightarrow> PBInterMsg \<Rightarrow> ('os, 'a) LogicState_scheme \<Rightarrow> uint32 option \<times> ('os, 'a) LogicState_scheme" where
  "MsgBasic_SetTimerMsec msec imsg s =
     (case TimerManager_CreateTimer (sv_cur_time s) msec imsg (lg_timers s) of (r, tm) \<Rightarrow> (r, s\<lparr>lg_timers := tm\<rparr>))"

definition MsgBasic_SetTimer :: "uint32 \<Rightarrow> PBInterMsg \<Rightarrow> ('os, 'a) LogicState_scheme \<Rightarrow> uint32 option \<times> ('os, 'a) LogicState_scheme" where
  "MsgBasic_SetTimer sec imsg s = MsgBasic_SetTimerMsec (sec * 1000) imsg s"

definition MsgBasic_ClearTimer :: "int \<Rightarrow> ('os, 'a) LogicState_scheme \<Rightarrow> ('os, 'a) LogicState_scheme" where
  "MsgBasic_ClearTimer timer_id s =
     (if timer_id < 0 then s else s\<lparr>lg_timers := snd (TimerManager_ReleaseTimer (word_of_int timer_id) (lg_timers s))\<rparr>)"

subsection \<open>Database requests\<close>

text \<open>The template \<^verbatim>\<open>AddSaveData\<close>: the blob is the record without its head; the version sent is one more than the one
  held, and the held one is advanced. \<open>None\<close> when the blob is too large.\<close>

definition AddSaveData :: "('p \<Rightarrow> byte list) \<Rightarrow> ('p \<Rightarrow> uint32 option) \<Rightarrow> (uint32 option \<Rightarrow> 'p \<Rightarrow> 'p) \<Rightarrow> uint32 \<Rightarrow> 'p \<Rightarrow> ('p \<times> PBDBData) option" where
  "AddSaveData ser head set_head key pb =
     (let buf = ser (set_head None pb)
      in if length buf > EN_MAX_PB_DATA_BUF then None
         else
           let ver = (case head pb of None \<Rightarrow> 0 | Some v \<Rightarrow> v) + 1
           in Some (set_head (Some ver) pb, \<lparr>dd_key = key, dd_blob = Some buf, dd_ver = Some ver\<rparr>))"

definition ConstructDBMsg :: "(byte list \<Rightarrow> 'p option) \<Rightarrow> (uint32 option \<Rightarrow> 'p \<Rightarrow> 'p) \<Rightarrow> 'p \<Rightarrow> PBDBData \<Rightarrow> 'p option" where
  "ConstructDBMsg parse set_head pb data =
     (case (case dd_blob data of None \<Rightarrow> Some pb | Some blob \<Rightarrow> parse blob) of
        None \<Rightarrow> None
      | Some pb \<Rightarrow> (case dd_ver data of None \<Rightarrow> Some pb | Some v \<Rightarrow> Some (set_head (Some v) pb)))"

definition set_base_head :: "uint32 option \<Rightarrow> DBBaseInfo \<Rightarrow> DBBaseInfo" where
  "set_base_head h b = b\<lparr>bi_head := h\<rparr>"

definition set_money_head :: "uint32 option \<Rightarrow> DBMoneyInfo \<Rightarrow> DBMoneyInfo" where
  "set_money_head h b = b\<lparr>mi_head := h\<rparr>"

text \<open>The loop of \<^verbatim>\<open>SendGetToDBHandle\<close> over the positions of the database requests; each request that still lacks its
  player data is sent to the proxy.\<close>

definition get_request :: "PBDBProcInfo \<Rightarrow> PBSSMsg" where
  "get_request proc = PBSSMsg_new\<lparr>ss_uid := pi_uid proc,
     ss_msg_union := ss_request_get \<lparr>rq_uid = pi_uid proc, rq_datas = map (\<lambda>k. \<lparr>dd_key = k, dd_blob = None, dd_ver = None\<rparr>) (pi_keys proc)\<rparr>\<rparr>"

fun send_gets :: "'os posix \<Rightarrow> lib \<Rightarrow> nat \<Rightarrow> PBDBProcInfo list \<Rightarrow> bool \<Rightarrow> ('os, 'a) LogicState_scheme \<Rightarrow> bool \<times> ('os, 'a) LogicState_scheme" where
  "send_gets P B pos [] got s = (got, s)"
| "send_gets P B pos (proc # procs) got s =
     (if pi_player proc \<noteq> None then send_gets P B pos procs got s
      else send_gets P B pos procs True (snd (MsgBasic_SendMsgToDBProxy P B pos (get_request proc) s)))"

definition MsgBasic_SendGetToDBHandle :: "'os posix \<Rightarrow> lib \<Rightarrow> nat \<Rightarrow> ('os, 'a) LogicState_scheme \<Rightarrow> bool \<times> ('os, 'a) LogicState_scheme" where
  "MsgBasic_SendGetToDBHandle P B pos s =
     (case send_gets P B pos (se_db_procs (ses s pos)) False s of
        (got, s) \<Rightarrow> (got, if got then upd_ses pos (\<lambda>x. x\<lparr>se_process_state := EN_SESSION_WAIT_GET_RSP\<rparr>) s else s))"

text \<open>The loop of \<^verbatim>\<open>SendSaveToDBHandle\<close> over the keys of the current request: changed records are added to the save
  request. The last component is false when a key is unknown and the function returns at once.\<close>

fun collect_saves :: "lib \<Rightarrow> uint32 list \<Rightarrow> PBDBMsg \<Rightarrow> PBDBData list \<Rightarrow> PBDBMsg \<times> PBDBData list \<times> bool" where
  "collect_saves B [] p ds = (p, ds, True)"
| "collect_saves B (k # ks) p ds =
     (if k = kBaseInfo then
        (if dm_update_base_info p then
           (case AddSaveData (ser_base B) bi_head set_base_head k (get_base_info p) of
              None \<Rightarrow> collect_saves B ks (mutable_base_info B id p) ds
            | Some (b, d) \<Rightarrow> collect_saves B ks ((mutable_base_info B (\<lambda>_. b) p)\<lparr>dm_update_base_info := False\<rparr>) (ds @ [d]))
         else collect_saves B ks p ds)
      else if k = kMoneyInfo then
        (if dm_update_money_info p then
           (case AddSaveData (ser_money B) mi_head set_money_head k (get_money_info p) of
              None \<Rightarrow> collect_saves B ks (mutable_money_info B id p) ds
            | Some (b, d) \<Rightarrow> collect_saves B ks ((mutable_money_info B (\<lambda>_. b) p)\<lparr>dm_update_money_info := False\<rparr>) (ds @ [d]))
         else collect_saves B ks p ds)
      else (p, ds, False))"

definition save_request :: "uint64 \<Rightarrow> PBDBData list \<Rightarrow> PBSSMsg" where
  "save_request uid ds = PBSSMsg_new\<lparr>ss_uid := uid, ss_msg_union := ss_request_save \<lparr>rq_uid = uid, rq_datas = ds\<rparr>\<rparr>"

definition MsgBasic_SendSaveToDBHandle :: "'os posix \<Rightarrow> lib \<Rightarrow> nat \<Rightarrow> ('os, 'a) LogicState_scheme \<Rightarrow> bool \<times> ('os, 'a) LogicState_scheme" where
  "MsgBasic_SendSaveToDBHandle P B pos s =
     (let se = ses s pos; i = cur_proc se
      in if i \<ge> length (se_db_procs se) then (False, s)
         else
           let player = Session_GetDBMsg i se;
               (player', ds, known) = collect_saves B (pi_keys (se_db_procs se ! i)) player [];
               s = upd_ses pos (set_db_msg i player') s
           in if \<not> known then (False, s)
              else if ds = [] then (False, s)
              else
                let s = snd (MsgBasic_SendMsgToDBProxy P B pos (save_request (dm_uid player) ds) s)
                in (True, upd_ses pos (\<lambda>x. x\<lparr>se_process_state := EN_SESSION_WAIT_SAVE_RSP\<rparr>) s))"

fun MsgBasic_ParseDBData :: "lib \<Rightarrow> PBDBMsg \<Rightarrow> PBDBData list \<Rightarrow> bool \<times> PBDBMsg" where
  "MsgBasic_ParseDBData B p [] = (True, p)"
| "MsgBasic_ParseDBData B p (d # ds) =
     (if dd_key d = kBaseInfo then
        (case ConstructDBMsg (parse_base B) set_base_head (get_base_info p) d of
           None \<Rightarrow> (False, mutable_base_info B id p)
         | Some b \<Rightarrow> MsgBasic_ParseDBData B ((mutable_base_info B (\<lambda>_. b) p)\<lparr>dm_update_base_info := False\<rparr>) ds)
      else if dd_key d = kMoneyInfo then
        (case ConstructDBMsg (parse_money B) set_money_head (get_money_info p) d of
           None \<Rightarrow> (False, mutable_money_info B id p)
         | Some b \<Rightarrow> MsgBasic_ParseDBData B ((mutable_money_info B (\<lambda>_. b) p)\<lparr>dm_update_money_info := False\<rparr>) ds)
      else (False, p))"

definition init_db_data :: "lib \<Rightarrow> PBDBMsg \<Rightarrow> PBDBMsg" where
  "init_db_data B p = mutable_money_info B (\<lambda>m. m\<lparr>mi_money := 1000000\<rparr>) (mutable_base_info B (\<lambda>b. b\<lparr>bi_is_init := True\<rparr>) p)"

definition MsgBasic_InitDBData :: "lib \<Rightarrow> nat \<Rightarrow> ('os, 'a) LogicState_scheme \<Rightarrow> ('os, 'a) LogicState_scheme" where
  "MsgBasic_InitDBData B pos s =
     upd_ses pos (\<lambda>x. set_db_msg (cur_proc x) (init_db_data B (Session_GetDBMsg (cur_proc x) x)) x) s"

end
