(* ===== verification/MsgHandler.thy ===== *)
theory MsgHandler
  imports MsgBasic
begin

text \<open>
  \<^verbatim>\<open>src/common/msg_handler_basic.h\<close> and \<^verbatim>\<open>msg_handler_basic.cpp\<close>: the asynchronous processing of a message. A handler class is a record of its virtual
  functions; \<open>basic_handler\<close> has the default implementations, and the concrete handlers of a server update some of the fields.
  \<^verbatim>\<open>Process\<close> runs the state machine of a session: it starts according to the state the session waits in and goes on
  until the handler is done, has failed, or waits for another answer.
\<close>

record 's handler =
  OnMessage :: "nat \<Rightarrow> 's \<Rightarrow> ENHandlerResult \<times> 's"
  OnSvrResponse :: "nat \<Rightarrow> 's \<Rightarrow> ENHandlerResult \<times> 's"
  OnProcessData :: "nat \<Rightarrow> 's \<Rightarrow> ENHandlerResult \<times> 's"
  OnSaveSuccess :: "nat \<Rightarrow> 's \<Rightarrow> ENHandlerResult \<times> 's"
  OnGetFailed :: "nat \<Rightarrow> 's \<Rightarrow> ENHandlerResult \<times> 's"
  OnSaveFailed :: "nat \<Rightarrow> 's \<Rightarrow> ENHandlerResult \<times> 's"

subsection \<open>The default implementations\<close>

definition MsgHandlerBasic_OnMessage :: "nat \<Rightarrow> ('os, 'a) LogicState_scheme \<Rightarrow> ENHandlerResult \<times> ('os, 'a) LogicState_scheme" where
  "MsgHandlerBasic_OnMessage pos s =
     (EN_HANDLER_GET,
      upd_ses pos (\<lambda>x. Session_AddDBGetKey (ucast (se_uid x)) kMoneyInfo (Session_AddDBGetKey (ucast (se_uid x)) kBaseInfo x)) s)"

definition MsgHandlerBasic_OnSvrResponse :: "nat \<Rightarrow> ('os, 'a) LogicState_scheme \<Rightarrow> ENHandlerResult \<times> ('os, 'a) LogicState_scheme" where
  "MsgHandlerBasic_OnSvrResponse pos s = (EN_HANDLER_DONE, s)"

definition MsgHandlerBasic_OnProcessData :: "nat \<Rightarrow> ('os, 'a) LogicState_scheme \<Rightarrow> ENHandlerResult \<times> ('os, 'a) LogicState_scheme" where
  "MsgHandlerBasic_OnProcessData pos s = (EN_HANDLER_DONE, s)"

definition MsgHandlerBasic_OnSaveSuccess :: "lib \<Rightarrow> nat \<Rightarrow> ('os, 'a) LogicState_scheme \<Rightarrow> ENHandlerResult \<times> ('os, 'a) LogicState_scheme" where
  "MsgHandlerBasic_OnSaveSuccess B pos s = (EN_HANDLER_DONE, snd (MsgBasic_SendMsgToClient_session B pos False s))"

definition MsgHandlerBasic_OnGetFailed :: "nat \<Rightarrow> ('os, 'a) LogicState_scheme \<Rightarrow> ENHandlerResult \<times> ('os, 'a) LogicState_scheme" where
  "MsgHandlerBasic_OnGetFailed pos s = (EN_HANDLER_FAILED, s)"

definition MsgHandlerBasic_OnSaveFailed :: "nat \<Rightarrow> ('os, 'a) LogicState_scheme \<Rightarrow> ENHandlerResult \<times> ('os, 'a) LogicState_scheme" where
  "MsgHandlerBasic_OnSaveFailed pos s = (EN_HANDLER_FAILED, s)"

definition basic_handler :: "lib \<Rightarrow> ('os, 'a) LogicState_scheme handler" where
  "basic_handler B = \<lparr>OnMessage = MsgHandlerBasic_OnMessage, OnSvrResponse = MsgHandlerBasic_OnSvrResponse,
     OnProcessData = MsgHandlerBasic_OnProcessData, OnSaveSuccess = MsgHandlerBasic_OnSaveSuccess B,
     OnGetFailed = MsgHandlerBasic_OnGetFailed, OnSaveFailed = MsgHandlerBasic_OnSaveFailed\<rparr>"

subsection \<open>The steps of the state machine\<close>

definition MsgHandlerBasic_ProcessNext :: "('os, 'a) LogicState_scheme handler \<Rightarrow> nat \<Rightarrow> ('os, 'a) LogicState_scheme \<Rightarrow> ENHandlerResult \<times> ('os, 'a) LogicState_scheme" where
  "MsgHandlerBasic_ProcessNext H pos s =
     (let s = upd_ses pos (\<lambda>x. x\<lparr>se_cur_proc_index := se_cur_proc_index x + 1\<rparr>) s
      in if cur_proc (ses s pos) < length (se_db_procs (ses s pos)) then OnProcessData H pos s else (EN_HANDLER_DONE, s))"

definition MsgHandlerBasic_ProcessDone :: "nat \<Rightarrow> ('os, 'a) LogicState_scheme \<Rightarrow> ('os, 'a) LogicState_scheme" where
  "MsgHandlerBasic_ProcessDone pos s =
     s\<lparr>lg_sessions := snd (SessionManager_ReleaseSession (se_session_id (ses s pos)) (lg_sessions s))\<rparr>"

definition MsgHandlerBasic_ProcessFailed :: "nat \<Rightarrow> ('os, 'a) LogicState_scheme \<Rightarrow> ('os, 'a) LogicState_scheme" where
  "MsgHandlerBasic_ProcessFailed pos s =
     s\<lparr>lg_sessions := snd (SessionManager_ReleaseSession (se_session_id (ses s pos)) (lg_sessions s))\<rparr>"

text \<open>The player data of a response, stored in the session's request for that uid.\<close>

definition store_response :: "lib \<Rightarrow> SSResponse \<Rightarrow> Session \<Rightarrow> Session option" where
  "store_response B response x =
     (case MsgBasic_ParseDBData B (PBDBMsg_new\<lparr>dm_uid := rs_uid response\<rparr>) (rs_datas response) of
        (False, player) \<Rightarrow> None
      | (True, player) \<Rightarrow>
          (case Session_GetDBProcIndex (rs_uid response) x of
             None \<Rightarrow> None
           | Some i \<Rightarrow> Some (set_db_msg i (db_copy B player) x)))"

definition MsgHandlerBasic_GetResponse :: "lib \<Rightarrow> ('os, 'a) LogicState_scheme handler \<Rightarrow> nat \<Rightarrow> ('os, 'a) LogicState_scheme \<Rightarrow> ENHandlerResult \<times> ('os, 'a) LogicState_scheme" where
  "MsgHandlerBasic_GetResponse B H pos s =
     (let response = get_ss_response_get (ss_msg_union (se_ss_msg (ses s pos)))
      in if rs_result response = E_HANDLE_OK
         then (case store_response B response (ses s pos) of
                 None \<Rightarrow> OnGetFailed H pos s
               | Some x \<Rightarrow>
                   let s = upd_ses pos (\<lambda>_. x) s
                   in if Session_GetAllDBData (ses s pos) then OnProcessData H pos s else (EN_HANDLER_HUP, s))
         else OnGetFailed H pos s)"

definition MsgHandlerBasic_SaveResponse :: "lib \<Rightarrow> ('os, 'a) LogicState_scheme handler \<Rightarrow> nat \<Rightarrow> ('os, 'a) LogicState_scheme \<Rightarrow> ENHandlerResult \<times> ('os, 'a) LogicState_scheme" where
  "MsgHandlerBasic_SaveResponse B H pos s =
     (let response = get_ss_response_save (ss_msg_union (se_ss_msg (ses s pos)))
      in if rs_result response = E_HANDLE_OK then OnSaveSuccess H pos s
         else if rs_result response = E_HANDLE_VER_DIFFER
         then
           let s = upd_ses pos (\<lambda>x. x\<lparr>se_redo_count := se_redo_count x + 1\<rparr>) s
           in if se_redo_count (ses s pos) \<ge> EN_MAX_DB_PROC_REDO then OnSaveFailed H pos s
              else (case store_response B response (ses s pos) of
                      None \<Rightarrow> OnSaveFailed H pos s
                    | Some x \<Rightarrow> OnProcessData H pos (upd_ses pos (\<lambda>_. x) s))
         else OnSaveFailed H pos s)"

definition MsgHandlerBasic_GetAllData :: "'os posix \<Rightarrow> lib \<Rightarrow> nat \<Rightarrow> ('os, 'a) LogicState_scheme \<Rightarrow> ENHandlerResult \<times> ('os, 'a) LogicState_scheme" where
  "MsgHandlerBasic_GetAllData P B pos s =
     (case MsgBasic_SendGetToDBHandle P B pos s of (got, s) \<Rightarrow> (if got then EN_HANDLER_HUP else EN_HANDLER_FAILED, s))"

definition MsgHandlerBasic_SaveOneData :: "'os posix \<Rightarrow> lib \<Rightarrow> nat \<Rightarrow> ('os, 'a) LogicState_scheme \<Rightarrow> ENHandlerResult \<times> ('os, 'a) LogicState_scheme" where
  "MsgHandlerBasic_SaveOneData P B pos s =
     (case MsgBasic_SendSaveToDBHandle P B pos s of (saved, s) \<Rightarrow> (if saved then EN_HANDLER_HUP else EN_HANDLER_FAILED, s))"

text \<open>The loop of \<^verbatim>\<open>Process\<close>.\<close>

partial_function (option) process_loop :: "'os posix \<Rightarrow> lib \<Rightarrow> ('os, 'a) LogicState_scheme handler \<Rightarrow> nat \<Rightarrow> ENHandlerResult
    \<Rightarrow> ('os, 'a) LogicState_scheme \<Rightarrow> ('os, 'a) LogicState_scheme option" where
  "process_loop P B H pos result s =
     (case result of
        EN_HANDLER_GET \<Rightarrow> (case MsgHandlerBasic_GetAllData P B pos s of (r, s) \<Rightarrow> process_loop P B H pos r s)
      | EN_HANDLER_SAVE \<Rightarrow> (case MsgHandlerBasic_SaveOneData P B pos s of (r, s) \<Rightarrow> process_loop P B H pos r s)
      | EN_HANDLER_NEXT \<Rightarrow> (case MsgHandlerBasic_ProcessNext H pos s of (r, s) \<Rightarrow> process_loop P B H pos r s)
      | EN_HANDLER_DONE \<Rightarrow> Some (MsgHandlerBasic_ProcessDone pos s)
      | EN_HANDLER_FAILED \<Rightarrow> Some (MsgHandlerBasic_ProcessFailed pos s)
      | EN_HANDLER_HUP \<Rightarrow> Some s)"

definition MsgHandlerBasic_Process :: "'os posix \<Rightarrow> lib \<Rightarrow> ('os, 'a) LogicState_scheme handler \<Rightarrow> nat
    \<Rightarrow> ('os, 'a) LogicState_scheme \<Rightarrow> ('os, 'a) LogicState_scheme option" where
  "MsgHandlerBasic_Process P B H pos s =
     (let (result, s) = (case se_process_state (ses s pos) of
            EN_SESSION_ON_MSG \<Rightarrow> OnMessage H pos s
          | EN_SESSION_WAIT_SVR_RSP \<Rightarrow> OnSvrResponse H pos s
          | EN_SESSION_WAIT_GET_RSP \<Rightarrow> MsgHandlerBasic_GetResponse B H pos s
          | EN_SESSION_WAIT_SAVE_RSP \<Rightarrow> MsgHandlerBasic_SaveResponse B H pos s)
      in process_loop P B H pos result s)"

text \<open>\<^verbatim>\<open>MsgHandlerMng::Process\<close> of the hall and game servers: a session whose message has no handler is left alone.\<close>

definition MsgHandlerMng_Process :: "'os posix \<Rightarrow> lib \<Rightarrow> (uint32 \<rightharpoonup> ('os, 'a) LogicState_scheme handler) \<Rightarrow> nat
    \<Rightarrow> ('os, 'a) LogicState_scheme \<Rightarrow> ('os, 'a) LogicState_scheme option" where
  "MsgHandlerMng_Process P B handlers pos s =
     (case handlers (se_msg_id (ses s pos)) of
        None \<Rightarrow> Some s
      | Some H \<Rightarrow> MsgHandlerBasic_Process P B H pos s)"

subsection \<open>Frame lemmas\<close>

lemma ses_upd [simp]: "ses (upd_ses pos f s) pos = f (ses s pos)"
  by (simp add: ses_def upd_ses_def sn_set_def)

lemma ses_upd_other: "q \<noteq> pos \<Longrightarrow> ses (upd_ses pos f s) q = ses s q"
  by (simp add: ses_def upd_ses_def sn_set_def)

lemma ses_cong: "lg_sessions s = lg_sessions t \<Longrightarrow> ses s = ses t"
  by (simp add: ses_def fun_eq_iff)

text \<open>The sending operations of the server frame do not touch the managers.\<close>

lemma SendMessageToCenter_managers [simp]:
  fixes s :: "('os, 'a) LogicState_scheme"
  shows "lg_sessions (snd (Server_SendMessageToCenter P head buf ci s)) = lg_sessions s"
    and "lg_players (snd (Server_SendMessageToCenter P head buf ci s)) = lg_players s"
    and "lg_timers (snd (Server_SendMessageToCenter P head buf ci s)) = lg_timers s"
  by (simp_all add: Server_SendMessageToCenter_def Let_def split: prod.split)

lemma append_tcp_managers [simp]:
  fixes s :: "('os, 'a) LogicState_scheme"
  shows "lg_sessions (snd (append_tcp bs s)) = lg_sessions s" and "lg_players (snd (append_tcp bs s)) = lg_players s"
    and "lg_timers (snd (append_tcp bs s)) = lg_timers s"
  by (simp_all add: append_tcp_def Let_def split: prod.split option.split)

lemma SendMsgToClient_managers [simp]:
  fixes s :: "('os, 'a) LogicState_scheme"
  shows "lg_sessions (snd (snd (MsgBasic_SendMsgToClient B head m close s))) = lg_sessions s"
    and "lg_players (snd (snd (MsgBasic_SendMsgToClient B head m close s))) = lg_players s"
  by (simp_all add: MsgBasic_SendMsgToClient_def Server_SendMessageToClient_def Let_def split: prod.split)
    (metis append_tcp_managers snd_conv)+

lemma SendMsgToDBProxy_session:
  "\<exists>t. ses (snd (MsgBasic_SendMsgToDBProxy P B pos m s)) pos = (ses s pos)\<lparr>se_update_time := t\<rparr>"
proof (cases "length (ser_ss B (m\<lparr>ss_type := SS_Request\<rparr>)) > MAX_PB_LEN")
  case True
  then have "ses (snd (MsgBasic_SendMsgToDBProxy P B pos m s)) pos = (ses s pos)\<lparr>se_update_time := se_update_time (ses s pos)\<rparr>"
    by (simp add: MsgBasic_SendMsgToDBProxy_def Let_def)
  then show ?thesis by blast
next
  case False
  let ?s = "upd_ses pos (\<lambda>x. x\<lparr>se_update_time := GetTime (sv_cur_time s)\<rparr>) s"
  have "ses (snd (MsgBasic_SendMsgToDBProxy P B pos m s)) = ses ?s"
    using False by (intro ses_cong) (simp add: MsgBasic_SendMsgToDBProxy_def Let_def)
  then show ?thesis by auto
qed

lemma send_gets_session:
  "\<exists>t. ses (snd (send_gets P B pos procs got s)) pos = (ses s pos)\<lparr>se_update_time := t\<rparr>"
proof (induction procs arbitrary: got s)
  case Nil
  have "ses s pos = (ses s pos)\<lparr>se_update_time := se_update_time (ses s pos)\<rparr>" by simp
  then show ?case by (simp only: send_gets.simps snd_conv) blast
next
  case (Cons proc procs)
  show ?case
  proof (cases "pi_player proc")
    case None
    obtain t where t: "ses (snd (MsgBasic_SendMsgToDBProxy P B pos (get_request proc) s)) pos = (ses s pos)\<lparr>se_update_time := t\<rparr>"
      using SendMsgToDBProxy_session by blast
    show ?thesis
      using Cons.IH [of True "snd (MsgBasic_SendMsgToDBProxy P B pos (get_request proc) s)"] None t by auto
  next
    case (Some a)
    then show ?thesis using Cons.IH by simp
  qed
qed

lemma send_gets_got: "fst (send_gets P B pos procs got s) \<longleftrightarrow> got \<or> (\<exists>p\<in>set procs. pi_player p = None)"
  by (induction procs arbitrary: got s) auto

text \<open>Fetching and saving end in "wait" or "failed".\<close>

lemma GetAllData_result: "fst (MsgHandlerBasic_GetAllData P B pos s) \<in> {EN_HANDLER_HUP, EN_HANDLER_FAILED}"
  by (simp add: MsgHandlerBasic_GetAllData_def split: prod.split)

lemma SaveOneData_result: "fst (MsgHandlerBasic_SaveOneData P B pos s) \<in> {EN_HANDLER_HUP, EN_HANDLER_FAILED}"
  by (simp add: MsgHandlerBasic_SaveOneData_def split: prod.split)

lemma process_loop_end:
  "process_loop P B H pos EN_HANDLER_DONE s = Some (MsgHandlerBasic_ProcessDone pos s)"
  "process_loop P B H pos EN_HANDLER_FAILED s = Some (MsgHandlerBasic_ProcessFailed pos s)"
  "process_loop P B H pos EN_HANDLER_HUP s = Some s"
  by (simp_all add: process_loop.simps)

lemma process_loop_get:
  "process_loop P B H pos EN_HANDLER_GET s =
     (case MsgHandlerBasic_GetAllData P B pos s of (r, s') \<Rightarrow> if r = EN_HANDLER_HUP then Some s' else Some (MsgHandlerBasic_ProcessFailed pos s'))"
  using GetAllData_result [of P B pos s] by (subst process_loop.simps) (auto simp: process_loop_end split: prod.split)

lemma process_loop_save:
  "process_loop P B H pos EN_HANDLER_SAVE s =
     (case MsgHandlerBasic_SaveOneData P B pos s of (r, s') \<Rightarrow> if r = EN_HANDLER_HUP then Some s' else Some (MsgHandlerBasic_ProcessFailed pos s'))"
  using SaveOneData_result [of P B pos s] by (subst process_loop.simps) (auto simp: process_loop_end split: prod.split)

text \<open>A handler that leaves the list of requests and the position in it alone.\<close>

definition keeps_position :: "('os, 'a) LogicState_scheme handler \<Rightarrow> bool" where
  "keeps_position H \<longleftrightarrow> (\<forall>pos s. length (se_db_procs (ses (snd (OnProcessData H pos s)) pos)) = length (se_db_procs (ses s pos))
     \<and> se_cur_proc_index (ses (snd (OnProcessData H pos s)) pos) = se_cur_proc_index (ses s pos))"

lemma process_loop_returns:
  assumes "keeps_position H" and "length (se_db_procs (ses s pos)) < 2 ^ 64"
  shows "\<exists>s'. process_loop P B H pos r s = Some s'"
  using assms(2)
proof (induction "if cur_proc (ses s pos) < length (se_db_procs (ses s pos)) then length (se_db_procs (ses s pos)) - cur_proc (ses s pos)
        else length (se_db_procs (ses s pos)) + 1" arbitrary: r s rule: less_induct)
  case less
  note IH = less.hyps and len = less.prems
  show ?case
  proof (cases r)
    case EN_HANDLER_NEXT
    let ?n = "length (se_db_procs (ses s pos))"
    let ?s = "upd_ses pos (\<lambda>x. x\<lparr>se_cur_proc_index := se_cur_proc_index x + 1\<rparr>) s"
    show ?thesis
    proof (cases "cur_proc (ses ?s pos) < ?n")
      case False
      then show ?thesis
        using EN_HANDLER_NEXT by (subst process_loop.simps) (simp add: MsgHandlerBasic_ProcessNext_def Let_def process_loop_end)
    next
      case True
      obtain r1 s1 where o: "OnProcessData H pos ?s = (r1, s1)" by force
      then have k: "length (se_db_procs (ses s1 pos)) = ?n" "se_cur_proc_index (ses s1 pos) = se_cur_proc_index (ses s pos) + 1"
        using assms(1) by (auto simp: keeps_position_def dest!: spec [of _ pos] spec [of _ ?s])
      have step: "process_loop P B H pos r s = process_loop P B H pos r1 s1"
        using EN_HANDLER_NEXT True o by (subst process_loop.simps) (simp add: MsgHandlerBasic_ProcessNext_def Let_def)
      have "cur_proc (ses s1 pos) = (if cur_proc (ses s pos) = 2 ^ 64 - 1 then 0 else cur_proc (ses s pos) + 1)"
        unfolding cur_proc_def k(2) using unat_bound [of "se_cur_proc_index (ses s pos)"] by (auto simp: unat_word_ariths)
      moreover have "cur_proc (ses s1 pos) < ?n" using True by (simp add: cur_proc_def k)
      ultimately have "\<exists>s'. process_loop P B H pos r1 s1 = Some s'"
        using k(1) len by (intro IH) (auto split: if_splits)
      then show ?thesis using step by simp
    qed
  qed (use process_loop_get [of P B H pos s] process_loop_save [of P B H pos s] in \<open>auto simp: process_loop_end split: prod.splits if_splits\<close>)
qed

subsection \<open>The contract of a handler\<close>

text \<open>The session under process: it is registered under its id at the given position, and the managers are consistent.\<close>

definition logic_inv :: "('os, 'a) LogicState_scheme \<Rightarrow> bool" where
  "logic_inv s \<longleftrightarrow> sn_ok (lg_sessions s) \<and> pm_inv (lg_players s)"

definition live :: "nat \<Rightarrow> uint32 \<Rightarrow> ('os, 'a) LogicState_scheme \<Rightarrow> bool" where
  "live pos i s \<longleftrightarrow> logic_inv s \<and> SessionManager_GetSession i (lg_sessions s) = Some pos"

lemma live_id: "live pos i s \<Longrightarrow> se_session_id (ses s pos) = i"
  unfolding live_def logic_inv_def sn_ok_def ses_def
  by (auto simp: SessionManager_GetSession_def ObjectMng_Get_def dest: idx_okD split: option.splits if_splits)

lemma live_upd:
  assumes "live pos i s" and "\<And>x. se_session_id (f x) = se_session_id x"
  shows "live pos i (upd_ses pos f s)"
proof -
  have "se_session_id (f (ses s pos)) = i" using assms live_id by metis
  then show ?thesis
    using assms(1) sn_set_ok [of "lg_sessions s" i pos "f (ses s pos)"] by (simp add: live_def logic_inv_def upd_ses_def)
qed

lemma live_cong: "lg_sessions t = lg_sessions s \<Longrightarrow> lg_players t = lg_players s \<Longrightarrow> live pos i t = live pos i s"
  by (simp add: live_def logic_inv_def)

lemma live_SendMsgToDBProxy:
  assumes "live pos i s"
  shows "live pos i (snd (MsgBasic_SendMsgToDBProxy P B pos m s))"
proof -
  have "live pos i (upd_ses pos (\<lambda>x. x\<lparr>se_update_time := GetTime (sv_cur_time s)\<rparr>) s)" using assms by (rule live_upd) simp
  then show ?thesis using assms by (simp add: MsgBasic_SendMsgToDBProxy_def Let_def live_cong [of "snd (Server_SendMessageToCenter _ _ _ _ _)"])
qed

lemma live_SendMsgToClient:
  assumes "live pos i s"
  shows "live pos i (snd (MsgBasic_SendMsgToClient_session B pos close s))"
proof -
  obtain ok h t where m: "MsgBasic_SendMsgToClient B (Session_GetTcpHead (ses s pos)) (se_cs_response (ses s pos)) close s = (ok, h, t)"
    by (metis prod_cases3)
  then have "lg_sessions t = lg_sessions s" "lg_players t = lg_players s"
    using SendMsgToClient_managers [of B "Session_GetTcpHead (ses s pos)" "se_cs_response (ses s pos)" close s] by simp_all
  then have "live pos i t" using assms live_cong by blast
  then have "live pos i (upd_ses pos (Session_SetTcpHead h) t)" by (rule live_upd) (simp add: Session_SetTcpHead_def)
  then show ?thesis using m by (simp add: MsgBasic_SendMsgToClient_session_def)
qed

lemma live_send_gets: "live pos i s \<Longrightarrow> live pos i (snd (send_gets P B pos procs got s))"
  by (induction procs arbitrary: got s) (auto simp: live_SendMsgToDBProxy)

lemma live_GetAllData:
  assumes "live pos i s"
  shows "live pos i (snd (MsgHandlerBasic_GetAllData P B pos s))"
proof -
  obtain g t where g: "send_gets P B pos (se_db_procs (ses s pos)) False s = (g, t)" by force
  then have "live pos i t" using live_send_gets [OF assms, of P B "se_db_procs (ses s pos)" False] by simp
  moreover from this have "live pos i (upd_ses pos (\<lambda>x. x\<lparr>se_process_state := EN_SESSION_WAIT_GET_RSP\<rparr>) t)" by (rule live_upd) simp
  ultimately show ?thesis using g by (simp add: MsgHandlerBasic_GetAllData_def MsgBasic_SendGetToDBHandle_def)
qed

lemma live_set_db_msg: "live pos i s \<Longrightarrow> live pos i (upd_ses pos (\<lambda>x. set_db_msg (j x) (g x) x) s)"
  by (rule live_upd) (simp_all add: set_db_msg_def)

lemma live_SaveOneData:
  assumes "live pos i s"
  shows "live pos i (snd (MsgHandlerBasic_SaveOneData P B pos s))"
proof -
  have 1: "live pos i (upd_ses pos (set_db_msg j p) s)" for j p using live_set_db_msg [OF assms, of "\<lambda>_. j" "\<lambda>_. p"] .
  have 2: "live pos i (upd_ses pos (\<lambda>x. x\<lparr>se_process_state := EN_SESSION_WAIT_SAVE_RSP\<rparr>) t)" if "live pos i t" for t
    using that by (rule live_upd) simp
  have 3: "live pos i (snd (MsgBasic_SendMsgToDBProxy P B pos m (upd_ses pos (set_db_msg j p) s)))" for m j p
    by (rule live_SendMsgToDBProxy [OF 1])
  show ?thesis
    using assms 1 3 2 [OF 3]
    by (auto simp: MsgHandlerBasic_SaveOneData_def MsgBasic_SendSaveToDBHandle_def Let_def simp del: ses_upd split: prod.split)
qed

lemma live_store_response:
  assumes "live pos i s" and "store_response B r (ses s pos) = Some x"
  shows "live pos i (upd_ses pos (\<lambda>_. x) s)"
proof -
  obtain j p where "x = set_db_msg j p (ses s pos)"
    using assms(2) by (auto simp: store_response_def split: prod.splits bool.splits option.splits)
  then have "upd_ses pos (\<lambda>_. x) s = upd_ses pos (set_db_msg j p) s" by (simp add: upd_ses_def)
  then show ?thesis using live_set_db_msg [OF assms(1), of "\<lambda>_. j" "\<lambda>_. p"] by simp
qed

lemma release_live:
  assumes "live pos i s" and "s' = MsgHandlerBasic_ProcessDone pos s \<or> s' = MsgHandlerBasic_ProcessFailed pos s"
  shows "logic_inv s' \<and> SessionManager_GetSession i (lg_sessions s') = None"
proof -
  have inv: "sn_ok (lg_sessions s)" using assms(1) by (simp add: live_def logic_inv_def)
  show ?thesis
    using assms sn_release(1) [OF inv] open_sessions.released_gone [OF inv, of i] live_id [OF assms(1)]
    by (auto simp: MsgHandlerBasic_ProcessDone_def MsgHandlerBasic_ProcessFailed_def live_def logic_inv_def)
qed

locale session_handler =
  fixes H :: "('os, 'a) LogicState_scheme handler"
  assumes OnMessage_live: "live pos i s \<Longrightarrow> live pos i (snd (OnMessage H pos s))"
    and OnSvrResponse_live: "live pos i s \<Longrightarrow> live pos i (snd (OnSvrResponse H pos s))"
    and OnProcessData_live: "live pos i s \<Longrightarrow> live pos i (snd (OnProcessData H pos s))"
    and OnSaveSuccess_live: "live pos i s \<Longrightarrow> live pos i (snd (OnSaveSuccess H pos s))"
    and OnGetFailed_live: "live pos i s \<Longrightarrow> live pos i (snd (OnGetFailed H pos s))"
    and OnSaveFailed_live: "live pos i s \<Longrightarrow> live pos i (snd (OnSaveFailed H pos s))"
begin

lemma GetResponse_live: "live pos i s \<Longrightarrow> live pos i (snd (MsgHandlerBasic_GetResponse B H pos s))"
  by (auto simp: MsgHandlerBasic_GetResponse_def Let_def OnGetFailed_live OnProcessData_live live_store_response split: option.split)

lemma SaveResponse_live:
  assumes "live pos i s"
  shows "live pos i (snd (MsgHandlerBasic_SaveResponse B H pos s))"
proof -
  have "live pos i (upd_ses pos (\<lambda>x. x\<lparr>se_redo_count := se_redo_count x + 1\<rparr>) s)" using assms by (rule live_upd) simp
  then show ?thesis
    using assms by (auto simp: MsgHandlerBasic_SaveResponse_def Let_def OnSaveSuccess_live OnSaveFailed_live
        OnProcessData_live live_store_response simp del: ses_upd split: option.split)
qed

lemma ProcessNext_live:
  assumes "live pos i s"
  shows "live pos i (snd (MsgHandlerBasic_ProcessNext H pos s))"
proof -
  have "live pos i (upd_ses pos (\<lambda>x. x\<lparr>se_cur_proc_index := se_cur_proc_index x + 1\<rparr>) s)" using assms by (rule live_upd) simp
  then show ?thesis by (simp add: MsgHandlerBasic_ProcessNext_def Let_def OnProcessData_live)
qed

text \<open>Whatever the handler does, processing ends with consistent managers, and the session is either released or still there, waiting.\<close>

lemma process_loop_inv:
  assumes "process_loop P B H pos r s = Some s'" and "live pos i s"
  shows "logic_inv s' \<and> (SessionManager_GetSession i (lg_sessions s') = None \<or> live pos i s')"
proof -
  have "snd (fst (fst (fst x))) = H \<and> live (snd (fst (fst x))) i (snd x) \<longrightarrow>
      logic_inv s' \<and> (SessionManager_GetSession i (lg_sessions s') = None \<or> live (snd (fst (fst x))) i s')"
    if "x = (((((P, B), H), pos), r), s)" for x
    unfolding that
  proof (rule process_loop.raw_induct [where Pa = "\<lambda>x s'. snd (fst (fst (fst x))) = H \<and> live (snd (fst (fst x))) i (snd x) \<longrightarrow>
      logic_inv s' \<and> (SessionManager_GetSession i (lg_sessions s') = None \<or> live (snd (fst (fst x))) i s')", OF _ assms(1)])
    fix rc P B and H' :: "('os, 'a) LogicState_scheme handler" and pos r and s s' :: "('os, 'a) LogicState_scheme"
    assume IH: "\<And>P B H' pos r s s'. rc P B H' pos r s = Some s' \<Longrightarrow>
        snd (fst (fst (fst (((((P, B), H'), pos), r), s)))) = H \<and> live (snd (fst (fst (((((P, B), H'), pos), r), s)))) i (snd (((((P, B), H'), pos), r), s)) \<longrightarrow>
        logic_inv s' \<and> (SessionManager_GetSession i (lg_sessions s') = None \<or> live (snd (fst (fst (((((P, B), H'), pos), r), s)))) i s')"
      and body: "(case r of
        EN_HANDLER_DONE \<Rightarrow> Some (MsgHandlerBasic_ProcessDone pos s)
      | EN_HANDLER_HUP \<Rightarrow> Some s
      | EN_HANDLER_NEXT \<Rightarrow> (case MsgHandlerBasic_ProcessNext H' pos s of (r, s) \<Rightarrow> rc P B H' pos r s)
      | EN_HANDLER_FAILED \<Rightarrow> Some (MsgHandlerBasic_ProcessFailed pos s)
      | EN_HANDLER_GET \<Rightarrow> (case MsgHandlerBasic_GetAllData P B pos s of (r, s) \<Rightarrow> rc P B H' pos r s)
      | EN_HANDLER_SAVE \<Rightarrow> (case MsgHandlerBasic_SaveOneData P B pos s of (r, s) \<Rightarrow> rc P B H' pos r s)) = Some s'"
    show "snd (fst (fst (fst (((((P, B), H'), pos), r), s)))) = H \<and> live (snd (fst (fst (((((P, B), H'), pos), r), s)))) i (snd (((((P, B), H'), pos), r), s)) \<longrightarrow>
        logic_inv s' \<and> (SessionManager_GetSession i (lg_sessions s') = None \<or> live (snd (fst (fst (((((P, B), H'), pos), r), s)))) i s')"
    proof (intro impI, elim conjE, simp only: fst_conv snd_conv)
      assume H: "H' = H" and l: "live pos i s"
      have next1: "rc P B H pos r1 s1 = Some s' \<Longrightarrow> live pos i s1 \<Longrightarrow> logic_inv s' \<and> (SessionManager_GetSession i (lg_sessions s') = None \<or> live pos i s')" for r1 s1
        using IH [of P B H pos r1 s1 s'] by simp
      show "logic_inv s' \<and> (SessionManager_GetSession i (lg_sessions s') = None \<or> live pos i s')"
      proof (cases r)
        case EN_HANDLER_HUP
        then show ?thesis using body l by (simp add: live_def)
      next
        case EN_HANDLER_NEXT
        then show ?thesis
          using body H next1 ProcessNext_live [OF l] by (cases "MsgHandlerBasic_ProcessNext H pos s") auto
      next
        case EN_HANDLER_GET
        then show ?thesis
          using body H next1 live_GetAllData [OF l, of P B] by (cases "MsgHandlerBasic_GetAllData P B pos s") auto
      next
        case EN_HANDLER_SAVE
        then show ?thesis
          using body H next1 live_SaveOneData [OF l, of P B] by (cases "MsgHandlerBasic_SaveOneData P B pos s") auto
      qed (use body release_live [OF l] in auto)
    qed
  qed
  then show ?thesis using assms(2) by simp
qed

lemma Process_inv:
  assumes "MsgHandlerBasic_Process P B H pos s = Some s'" and "live pos i s"
  shows "logic_inv s' \<and> (SessionManager_GetSession i (lg_sessions s') = None \<or> live pos i s')"
proof -
  obtain r t where rt: "(case se_process_state (ses s pos) of
            EN_SESSION_ON_MSG \<Rightarrow> OnMessage H pos s
          | EN_SESSION_WAIT_SVR_RSP \<Rightarrow> OnSvrResponse H pos s
          | EN_SESSION_WAIT_GET_RSP \<Rightarrow> MsgHandlerBasic_GetResponse B H pos s
          | EN_SESSION_WAIT_SAVE_RSP \<Rightarrow> MsgHandlerBasic_SaveResponse B H pos s) = (r, t)" by force
  have "live pos i (snd (r, t))"
    unfolding rt [symmetric]
    using assms(2) OnMessage_live OnSvrResponse_live GetResponse_live SaveResponse_live by (auto split: ENSessionSate.split)
  then show ?thesis using process_loop_inv [of P B pos r t s' i] assms(1) rt by (simp add: MsgHandlerBasic_Process_def)
qed

end

text \<open>A handler that never asks for the next request: processing returns.\<close>

lemma process_loop_no_next: "r \<noteq> EN_HANDLER_NEXT \<Longrightarrow> \<exists>s'. process_loop P B H pos r s = Some s'"
  using process_loop_get [of P B H pos s] process_loop_save [of P B H pos s]
  by (cases r) (auto simp: process_loop_end split: prod.splits if_splits)

locale direct_handler = session_handler +
  assumes OnMessage_no_next: "fst (OnMessage H pos s) \<noteq> EN_HANDLER_NEXT"
    and OnSvrResponse_no_next: "fst (OnSvrResponse H pos s) \<noteq> EN_HANDLER_NEXT"
    and OnProcessData_no_next: "fst (OnProcessData H pos s) \<noteq> EN_HANDLER_NEXT"
    and OnSaveSuccess_no_next: "fst (OnSaveSuccess H pos s) \<noteq> EN_HANDLER_NEXT"
    and OnGetFailed_no_next: "fst (OnGetFailed H pos s) \<noteq> EN_HANDLER_NEXT"
    and OnSaveFailed_no_next: "fst (OnSaveFailed H pos s) \<noteq> EN_HANDLER_NEXT"
begin

lemma GetResponse_no_next: "fst (MsgHandlerBasic_GetResponse B H pos s) \<noteq> EN_HANDLER_NEXT"
  by (auto simp: MsgHandlerBasic_GetResponse_def Let_def OnGetFailed_no_next OnProcessData_no_next split: option.split)

lemma SaveResponse_no_next: "fst (MsgHandlerBasic_SaveResponse B H pos s) \<noteq> EN_HANDLER_NEXT"
  by (auto simp: MsgHandlerBasic_SaveResponse_def Let_def OnSaveFailed_no_next OnSaveSuccess_no_next OnProcessData_no_next split: option.split)

lemma Process_total:
  assumes "live pos i s"
  shows "\<exists>s'. MsgHandlerBasic_Process P B H pos s = Some s' \<and> logic_inv s' \<and> (SessionManager_GetSession i (lg_sessions s') = None \<or> live pos i s')"
proof -
  obtain r t where rt: "(case se_process_state (ses s pos) of
            EN_SESSION_ON_MSG \<Rightarrow> OnMessage H pos s
          | EN_SESSION_WAIT_SVR_RSP \<Rightarrow> OnSvrResponse H pos s
          | EN_SESSION_WAIT_GET_RSP \<Rightarrow> MsgHandlerBasic_GetResponse B H pos s
          | EN_SESSION_WAIT_SAVE_RSP \<Rightarrow> MsgHandlerBasic_SaveResponse B H pos s) = (r, t)" by force
  have "fst (r, t) \<noteq> EN_HANDLER_NEXT"
    unfolding rt [symmetric]
    using OnMessage_no_next OnSvrResponse_no_next GetResponse_no_next SaveResponse_no_next by (auto split: ENSessionSate.split)
  then obtain s' where "process_loop P B H pos r t = Some s'" using process_loop_no_next by fastforce
  then have "MsgHandlerBasic_Process P B H pos s = Some s'" using rt by (simp add: MsgHandlerBasic_Process_def)
  then show ?thesis using Process_inv assms by blast
qed

end

text \<open>The dispatch through the table of handlers.\<close>

lemma table_total:
  assumes "\<forall>H\<in>ran handlers. direct_handler H" and "live pos i s"
  shows "\<exists>s'. MsgHandlerMng_Process P B handlers pos s = Some s' \<and> logic_inv s'"
proof (cases "handlers (se_msg_id (ses s pos))")
  case None
  then show ?thesis using assms(2) by (simp add: MsgHandlerMng_Process_def live_def)
next
  case (Some H)
  then have "direct_handler H" using assms(1) by (blast intro: ranI)
  then show ?thesis
    using Some direct_handler.Process_total [OF _ assms(2), of H P B] by (auto simp: MsgHandlerMng_Process_def)
qed

lemma new_session_live:
  assumes "logic_inv s" and "SessionManager_CreateSession now msg_id (lg_sessions s) = (Some pos, sm)"
  shows "\<exists>i. live pos i (s\<lparr>lg_sessions := sm\<rparr>)"
proof -
  have "sn_ok (lg_sessions s)" using assms(1) by (simp add: logic_inv_def)
  then obtain i where "sn_ok sm" "SessionManager_GetSession i sm = Some pos"
    using CreateSession_Some [OF _ assms(2)] by metis
  then show ?thesis using assms(1) by (auto simp: live_def logic_inv_def)
qed

lemma no_session_inv:
  assumes "logic_inv s" and "SessionManager_CreateSession now msg_id (lg_sessions s) = (None, sm)"
  shows "logic_inv (s\<lparr>lg_sessions := sm\<rparr>)"
  using assms CreateSession_ok [of "lg_sessions s" now msg_id] by (simp add: logic_inv_def)

lemma basic_handler_live:
  assumes "live pos i s"
  shows "live pos i (snd (MsgHandlerBasic_OnMessage pos s))" and "live pos i (snd (MsgHandlerBasic_OnSaveSuccess B pos s))"
proof -
  show "live pos i (snd (MsgHandlerBasic_OnMessage pos s))"
    unfolding MsgHandlerBasic_OnMessage_def snd_conv using assms by (rule live_upd) (simp add: Session_AddDBGetKey_def)
  show "live pos i (snd (MsgHandlerBasic_OnSaveSuccess B pos s))"
    using live_SendMsgToClient [OF assms] by (simp add: MsgHandlerBasic_OnSaveSuccess_def)
qed

lemmas handler_defs = basic_handler_def MsgHandlerBasic_OnSvrResponse_def MsgHandlerBasic_OnProcessData_def
  MsgHandlerBasic_OnGetFailed_def MsgHandlerBasic_OnSaveFailed_def

lemmas handler_ops = handler_defs MsgHandlerBasic_OnMessage_def MsgHandlerBasic_OnSaveSuccess_def

interpretation basic: direct_handler "basic_handler B"
  by unfold_locales (simp_all add: handler_defs basic_handler_live, simp_all add: handler_ops)

end
