(* ===== verification/Cipher.thy ===== *)
theory Cipher
  imports Messages
begin

text \<open>
  \<^verbatim>\<open>include/cipher.hpp\<close>: signing and checking of login tokens with RSA. OpenSSL is the record \<open>openssl\<close> of the calls the code makes;
  a failing call is \<open>None\<close>. The output array is a memory of 256 bytes.
\<close>

record 'k openssl =
  read_pubkey :: "string \<Rightarrow> 'k option"
  read_privkey :: "string \<Rightarrow> 'k option"
  RSA_size :: "'k \<Rightarrow> nat"
  RSA_private_encrypt :: "'k \<Rightarrow> byte list \<Rightarrow> byte list option"
  RSA_public_decrypt :: "'k \<Rightarrow> byte list \<Rightarrow> byte list option"

record 'k RSACipher =
  pri_key :: "'k option"
  pub_key :: "'k option"

definition RSACipher_new :: "'k RSACipher" where
  "RSACipher_new = \<lparr>pri_key = None, pub_key = None\<rparr>"

definition RSACipher_GetPubKey :: "'k openssl \<Rightarrow> string \<Rightarrow> 'k RSACipher \<Rightarrow> bool \<times> 'k RSACipher" where
  "RSACipher_GetPubKey R path c = (case read_pubkey R path of None \<Rightarrow> (False, c) | Some k \<Rightarrow> (True, c\<lparr>pub_key := Some k\<rparr>))"

definition RSACipher_GetPriKey :: "'k openssl \<Rightarrow> string \<Rightarrow> 'k RSACipher \<Rightarrow> bool \<times> 'k RSACipher" where
  "RSACipher_GetPriKey R path c = (case read_privkey R path of None \<Rightarrow> (False, c) | Some k \<Rightarrow> (True, c\<lparr>pri_key := Some k\<rparr>))"

text \<open>The result: the output array and the number of bytes produced, or \<open>None\<close> for false.\<close>

definition RSACipher_EncryptWithPriKey :: "'k openssl \<Rightarrow> 'k RSACipher \<Rightarrow> byte list \<Rightarrow> (mem \<times> nat) option" where
  "RSACipher_EncryptWithPriKey R c src =
     (case pri_key c of
        None \<Rightarrow> None
      | Some k \<Rightarrow>
          if RSA_size R k \<noteq> EN_MAX_RSA_TOKEN_LEN then None
          else (case RSA_private_encrypt R k src of None \<Rightarrow> None | Some out \<Rightarrow> Some (mem_write mem_zero 0 out, length out)))"

definition RSACipher_DecryptWithPubKey :: "'k openssl \<Rightarrow> 'k RSACipher \<Rightarrow> byte list \<Rightarrow> (mem \<times> nat) option" where
  "RSACipher_DecryptWithPubKey R c src =
     (case pub_key c of
        None \<Rightarrow> None
      | Some k \<Rightarrow>
          if RSA_size R k \<noteq> EN_MAX_RSA_TOKEN_LEN then None
          else (case RSA_public_decrypt R k src of None \<Rightarrow> None | Some out \<Rightarrow> Some (mem_write mem_zero 0 out, length out)))"

text \<open>A key pair: what the private key has encrypted, the public key decrypts.\<close>

definition rsa_pair :: "'k openssl \<Rightarrow> 'k \<Rightarrow> 'k \<Rightarrow> bool" where
  "rsa_pair R pri pub \<longleftrightarrow> (\<forall>m c. RSA_private_encrypt R pri m = Some c \<longrightarrow> RSA_public_decrypt R pub c = Some m)
     \<and> RSA_size R pri = EN_MAX_RSA_TOKEN_LEN \<and> RSA_size R pub = EN_MAX_RSA_TOKEN_LEN"

lemma decrypt_encrypt:
  assumes "rsa_pair R pri pub" and "pri_key c = Some pri" and "pub_key c' = Some pub"
    and "RSACipher_EncryptWithPriKey R c src = Some (out, n)"
  shows "RSACipher_DecryptWithPubKey R c' (mem_read out 0 n) = Some (mem_write mem_zero 0 src, length src)"
  using assms by (auto simp: rsa_pair_def RSACipher_EncryptWithPriKey_def RSACipher_DecryptWithPubKey_def split: option.splits if_splits)

end
