(* ===== verification/ServerFlow.thy ===== *)
theory ServerFlow
  imports Server
begin

text \<open>
  The flow of messages through a logic server: what the gateway and the center connections deliver
  is queued, and what is queued reaches the virtual handlers, completely, in order and unchanged; what the
  handlers send is a well-formed record for the gateway or frame for the center.
\<close>

subsection \<open>Posting and dispatching\<close>

text \<open>What a handler gets to see of a queued message.\<close>

datatype delivery =
    ClientMsg stTcpHead "byte list"
  | ServerMsg stCenterHead "byte list"
  | InternalMsg "byte list"
  | Offline uint64

text \<open>A logic that records the calls of its handlers in the extension of the server's state.\<close>

definition recorder :: "('os, delivery list) Server_scheme logic" where
  "recorder = \<lparr>InitLogic = (\<lambda>s. (True, s)), Reload = Some, Exit = Some,
     OnClientMessage = (\<lambda>h m s. Some (Server.Server.more_update (\<lambda>l. l @ [ClientMsg h (payload m)]) s)),
     OnClientOffline = (\<lambda>i s. Some (Server.Server.more_update (\<lambda>l. l @ [Offline i]) s)),
     OnServerMessage = (\<lambda>h m s. Some (Server.Server.more_update (\<lambda>l. l @ [ServerMsg h (payload m)]) s)),
     OnInteralMessage = (\<lambda>m s. Some (Server.Server.more_update (\<lambda>l. l @ [InternalMsg (payload m)]) s)),
     OnRoutineCheck = Some\<rparr>"

text \<open>The message object that carries a delivery; \<open>old\<close> is what the data array held before.\<close>

definition delivery_ok :: "delivery \<Rightarrow> bool" where
  "delivery_ok d = (case d of ClientMsg h bs \<Rightarrow> wf_tcp_head h \<and> length bs \<le> MAX_PB_LEN
     | ServerMsg h bs \<Rightarrow> wf_route (ch_route_type h) \<and> length bs \<le> MAX_PB_LEN
     | InternalMsg bs \<Rightarrow> length bs \<le> MAX_PB_LEN | Offline _ \<Rightarrow> False)"

definition carries :: "stMsg \<Rightarrow> delivery \<Rightarrow> bool" where
  "carries m d \<longleftrightarrow> wf_msg m \<and> unat (pm_data_len (m_pb_msg m)) \<le> MAX_PB_LEN \<and>
     (case d of ClientMsg h bs \<Rightarrow> m_type m = EN_MSG_CLIENT \<and> dec_tcp_head (m_head m) = h \<and> payload (m_pb_msg m) = bs
      | ServerMsg h bs \<Rightarrow> m_type m = EN_MSG_SERVER \<and> dec_center_head (m_head m) = h \<and> payload (m_pb_msg m) = bs
      | InternalMsg bs \<Rightarrow> m_type m = EN_MSG_INTERNAL \<and> payload (m_pb_msg m) = bs
      | Offline _ \<Rightarrow> False)"

text \<open>The queue holds messages that carry the deliveries \<open>ds\<close>.\<close>

definition queue_holds :: "('os, 'a) Server_scheme \<Rightarrow> delivery list \<Rightarrow> bool" where
  "queue_holds s ds \<longleftrightarrow> length (m_head (sv_msg s)) = 40 \<and>
     (\<exists>ms. pipe_holds (sv_msg_pipe s) (map enc_msg ms) \<and> list_all2 carries ms ds)"

definition queue_cap :: "('os, 'a) Server_scheme \<Rightarrow> nat" where
  "queue_cap s = unat (sp_size (sv_msg_pipe s)) - 1"

lemma payload_write: "length bs < 2 ^ 32 \<Longrightarrow> payload \<lparr>pm_data_len = word_of_nat (length bs), pm_data = mem_write old 0 bs\<rparr> = bs"
  by (simp add: payload_def unat_of_nat)

lemma carries_dec:
  assumes "carries m d"
  shows "carries (dec_msg (enc_msg m)) d"
proof -
  have wf: "wf_msg m" and len: "unat (pm_data_len (m_pb_msg m)) \<le> MAX_PB_LEN" using assms by (simp_all add: carries_def)
  note D = dec_enc_msg [OF wf]
  have "payload (m_pb_msg (dec_msg (enc_msg m))) = payload (m_pb_msg m)"
    unfolding payload_def D(3) using len by (intro mem_read_cong) (simp add: D(4))
  then show ?thesis using assms D(1-3) by (simp add: carries_def wf_msg_def split: delivery.splits)
qed

lemma frames_len_msgs: "list_all2 carries ms ds \<Longrightarrow> frames_len (map enc_msg ms) = 4148 * length ds"
proof (induction ms ds rule: list_all2_induct)
  case Nil
  then show ?case by simp
next
  case (Cons m ms d ds)
  then have "length (m_head m) = 40" by (simp add: carries_def wf_msg_def)
  then show ?case using Cons by simp
qed

lemma post_msg_queued:
  assumes "queue_holds s ds" and "4148 * (length ds + 1) \<le> queue_cap s" and "length head = 40" and "length buf \<le> MAX_PB_LEN"
    and "carries \<lparr>m_type = ty, m_pb_msg = \<lparr>pm_data_len = word_of_nat (length buf),
      pm_data = mem_write (pm_data (m_pb_msg (sv_msg s))) 0 buf\<rparr>, m_head = head\<rparr> d"
  shows "\<exists>s'. post_msg ty head buf s = (True, s') \<and> queue_holds s' (ds @ [d]) \<and> queue_cap s' = queue_cap s
    \<and> (\<exists>m p. s' = s\<lparr>sv_msg := m, sv_msg_pipe := p\<rparr>)"
proof -
  let ?m = "\<lparr>m_type = ty, m_pb_msg = \<lparr>pm_data_len = word_of_nat (length buf),
      pm_data = mem_write (pm_data (m_pb_msg (sv_msg s))) 0 buf\<rparr>, m_head = head\<rparr>"
  obtain ms where ms: "pipe_holds (sv_msg_pipe s) (map enc_msg ms)" "list_all2 carries ms ds"
    using assms(1) by (auto simp: queue_holds_def)
  have "length (enc_msg ?m) = 4144" using assms(3) by simp
  then obtain p where p: "ShmPipe_AppendOneData (sv_msg_pipe s) (enc_msg ?m) = (True, p)"
      "pipe_holds p (map enc_msg ms @ [enc_msg ?m])" "sp_size p = sp_size (sv_msg_pipe s)"
    using pipe_holds_append [OF ms(1), of "enc_msg ?m"] frames_len_msgs [OF ms(2)] assms(2) by (auto simp: queue_cap_def)
  have "pipe_holds p (map enc_msg (ms @ [?m]))" "list_all2 carries (ms @ [?m]) (ds @ [d])"
    using p(2) ms(2) assms(5) by (simp_all add: list_all2_appendI)
  then have "queue_holds (s\<lparr>sv_msg := ?m, sv_msg_pipe := p\<rparr>) (ds @ [d])"
    using assms(3) unfolding queue_holds_def by (intro conjI exI [of _ "ms @ [?m]"]) simp_all
  then show ?thesis
    using p by (intro exI [of _ "s\<lparr>sv_msg := ?m, sv_msg_pipe := p\<rparr>"]) (auto simp: post_msg_def queue_cap_def)
qed

lemma PostMessage_tcp_queued:
  assumes "queue_holds s ds" and "4148 * (length ds + 1) \<le> queue_cap s" and "wf_tcp_head h" and "length buf \<le> MAX_PB_LEN"
  shows "\<exists>s'. Server_PostMessage_tcp h buf s = (True, s') \<and> queue_holds s' (ds @ [ClientMsg h buf]) \<and> queue_cap s' = queue_cap s
    \<and> (\<exists>m p. s' = s\<lparr>sv_msg := m, sv_msg_pipe := p\<rparr>)"
  unfolding Server_PostMessage_tcp_def using assms dec_enc_tcp_head [of h "[]"]
  by (intro post_msg_queued) (simp_all add: carries_def wf_msg_def payload_write layout_simps unat_of_nat)

lemma PostMessage_center_queued:
  assumes "queue_holds s ds" and "4148 * (length ds + 1) \<le> queue_cap s" and "wf_route (ch_route_type h)" and "length buf \<le> MAX_PB_LEN"
  shows "\<exists>s'. Server_PostMessage_center h buf s = (True, s') \<and> queue_holds s' (ds @ [ServerMsg h buf]) \<and> queue_cap s' = queue_cap s
    \<and> (\<exists>m p. s' = s\<lparr>sv_msg := m, sv_msg_pipe := p\<rparr>)"
  unfolding Server_PostMessage_center_def using assms dec_enc_center_head [of h "[]"]
  by (intro post_msg_queued) (simp_all add: carries_def wf_msg_def payload_write layout_simps unat_of_nat)

lemma PostMessage_internal_queued:
  assumes "queue_holds s ds" and "4148 * (length ds + 1) \<le> queue_cap s" and "length buf \<le> MAX_PB_LEN"
  shows "\<exists>s'. Server_SendMessageToInternal buf s = (True, s') \<and> queue_holds s' (ds @ [InternalMsg buf]) \<and> queue_cap s' = queue_cap s
    \<and> (\<exists>m p. s' = s\<lparr>sv_msg := m, sv_msg_pipe := p\<rparr>)"
  unfolding Server_SendMessageToInternal_def Server_PostMessage_def using assms
  by (intro post_msg_queued) (simp_all add: carries_def wf_msg_def payload_write layout_simps unat_of_nat queue_holds_def)

lemma dispatch_one_recorder:
  assumes "carries (sv_msg s) d"
  shows "dispatch_one recorder s = Some (Server.Server.more_update (\<lambda>l. l @ [d]) s)"
  using assms by (auto simp: dispatch_one_def carries_def recorder_def split: delivery.splits)

lemma dispatch_loop_prefix:
  assumes "queue_holds s ds"
  shows "\<exists>s'. dispatch_loop recorder n s = Some s' \<and> Server.Server.more s' = Server.Server.more s @ take n ds \<and> queue_holds s' (drop n ds)"
  using assms
proof (induction n arbitrary: s ds)
  case 0
  then show ?case by simp
next
  case (Suc n)
  show ?case
  proof (cases ds)
    case Nil
    then have p: "pipe_holds (sv_msg_pipe s) []" "length (m_head (sv_msg s)) = 40" using Suc.prems by (auto simp: queue_holds_def)
    show ?thesis using pipe_holds_empty [OF p(1)] p by (auto simp: Nil queue_holds_def)
  next
    case (Cons d ds')
    obtain m ms where ms: "pipe_holds (sv_msg_pipe s) (enc_msg m # map enc_msg ms)" "carries m d" "list_all2 carries ms ds'"
      using Suc.prems by (auto simp: Cons queue_holds_def list_all2_Cons2)
    have l: "length (enc_msg m) = 4144" using ms(2) by (simp add: carries_def wf_msg_def)
    obtain p where p: "ShmPipe_GetOneData (sv_msg_pipe s) (word_of_nat SIZEOF_stMsg) = (True, 4144, enc_msg m, p)"
        "pipe_holds p (map enc_msg ms)"
      using pipe_holds_get [OF ms(1), of "word_of_nat SIZEOF_stMsg"] l by (auto simp: layout_simps)
    let ?s = "s\<lparr>sv_msg_pipe := p, sv_msg_len := 4144, sv_msg := dec_msg (enc_msg m)\<rparr>"
    have c: "carries (dec_msg (enc_msg m)) d" by (rule carries_dec [OF ms(2)])
    then have one: "dispatch_one recorder ?s = Some (Server.Server.more_update (\<lambda>l. l @ [d]) ?s)"
      by (intro dispatch_one_recorder) simp
    have q: "queue_holds (Server.Server.more_update (\<lambda>l. l @ [d]) ?s) ds'"
      using p(2) ms(3) c by (auto simp: queue_holds_def carries_def wf_msg_def)
    have "drop (length (enc_msg m)) (enc_msg (sv_msg s)) = []"
      using Suc.prems l by (simp add: queue_holds_def)
    then have "dispatch_loop recorder (Suc n) s = dispatch_loop recorder n (Server.Server.more_update (\<lambda>l. l @ [d]) ?s)"
      using p(1) one by (simp add: Let_def layout_simps)
    then show ?thesis using Suc.IH [OF q] by (auto simp: Cons)
  qed
qed

lemma dispatch_loop_recorder:
  assumes "queue_holds s ds" and "length ds < n"
  shows "\<exists>s'. dispatch_loop recorder n s = Some s' \<and> Server.Server.more s' = Server.Server.more s @ ds \<and> queue_holds s' []"
  using dispatch_loop_prefix [OF assms(1), of n] assms(2) by simp

text \<open>Several rounds of dispatching.\<close>

fun dispatch_rounds :: "('os, 'a) Server_scheme logic \<Rightarrow> nat \<Rightarrow> ('os, 'a) Server_scheme \<Rightarrow> ('os, 'a) Server_scheme option" where
  "dispatch_rounds L 0 s = Some s"
| "dispatch_rounds L (Suc k) s = do { s \<leftarrow> Server_DispatchMessage L s; dispatch_rounds L k s }"

lemma dispatch_rounds_prefix:
  assumes "queue_holds s ds"
  shows "\<exists>s'. dispatch_rounds recorder k s = Some s' \<and> Server.Server.more s' = Server.Server.more s @ take (1024 * k) ds \<and> queue_holds s' (drop (1024 * k) ds)"
  using assms
proof (induction k arbitrary: s ds)
  case 0
  then show ?case by simp
next
  case (Suc k)
  obtain t where t: "Server_DispatchMessage recorder s = Some t" "Server.Server.more t = Server.Server.more s @ take 1024 ds" "queue_holds t (drop 1024 ds)"
    using dispatch_loop_prefix [OF Suc.prems, of 1024] by (auto simp: Server_DispatchMessage_def)
  have "take (1024 * Suc k) ds = take 1024 ds @ take (1024 * k) (drop 1024 ds)" by (simp add: take_add)
  then show ?case using Suc.IH [OF t(3)] t(1,2) by (auto simp: add.commute)
qed

subsection \<open>Input from the gateway\<close>

text \<open>The records the gateway writes: a client's message with its connection head, and the notice that a
  client has gone.\<close>

datatype gw_event = GwMsg stTcpHead "byte list" | GwDiscon stTcpHead uint64

fun gw_bytes :: "gw_event \<Rightarrow> byte list" where
  "gw_bytes (GwMsg h bs) = enc_tcp_head h @ le32 (htonl (word_of_nat (length bs) + 4)) @ bs"
| "gw_bytes (GwDiscon h i) = enc_tcp_head h @ le64 i"

text \<open>The record of an event; the padding bytes of its head are arbitrary.\<close>

fun gw_record :: "gw_event \<Rightarrow> byte list \<Rightarrow> bool" where
  "gw_record (GwMsg h bs) r \<longleftrightarrow> (\<exists>hd. length hd = 40 \<and> dec_tcp_head hd = h \<and> r = hd @ le32 (htonl (word_of_nat (length bs) + 4)) @ bs)"
| "gw_record (GwDiscon h i) r \<longleftrightarrow> (\<exists>hd. length hd = 40 \<and> dec_tcp_head hd = h \<and> r = hd @ le64 i)"

fun gw_ok :: "gw_event \<Rightarrow> bool" where
  "gw_ok (GwMsg h bs) \<longleftrightarrow> wf_tcp_head h \<and> th_msg_type h \<noteq> CLI_DISCON \<and> bs \<noteq> [] \<and> length bs \<le> MAX_PB_LEN"
| "gw_ok (GwDiscon h i) \<longleftrightarrow> wf_tcp_head h \<and> th_msg_type h = CLI_DISCON"

definition gw_queued :: "gw_event list \<Rightarrow> delivery list" where
  "gw_queued es = concat (map (\<lambda>e. case e of GwMsg h bs \<Rightarrow> [ClientMsg h bs] | GwDiscon h i \<Rightarrow> []) es)"

definition gw_direct :: "gw_event list \<Rightarrow> delivery list" where
  "gw_direct es = concat (map (\<lambda>e. case e of GwMsg h bs \<Rightarrow> [] | GwDiscon h i \<Rightarrow> [Offline i]) es)"

lemma read_prefix: "mem_read (mem_write m 0 (xs @ ys)) 0 (length xs) = xs"
  using mem_read_write_part [of 0 0 "length xs" "xs @ ys" m] by simp

lemma read_middle: "mem_read (mem_write m 0 (xs @ ys @ zs)) (length xs) (length ys) = ys"
  using mem_read_write_part [of 0 "length xs" "length ys" "xs @ ys @ zs" m] by simp

lemma length_gw_bytes:
  "gw_ok (GwMsg h bs) \<Longrightarrow> length (gw_bytes (GwMsg h bs)) = 44 + length bs" "gw_ok (GwDiscon h i) \<Longrightarrow> length (gw_bytes (GwDiscon h i)) = 48"
  by simp_all

lemma gw_record_bytes: "gw_ok e \<Longrightarrow> gw_record e (gw_bytes e)"
  using dec_enc_tcp_head [where rest = "[]"] by (cases e) (auto intro!: exI [of _ "enc_tcp_head _"])

lemma client_step_msg:
  assumes cs: "sv_cs_pipe s = Some p" "pipe_holds p (r # rs)" "gw_record (GwMsg h bs) r" and ok: "gw_ok (GwMsg h bs)"
    and q: "queue_holds s ds" "4148 * (length ds + 1) \<le> queue_cap s"
  shows "\<exists>s' p'. client_loop L (Suc n) s = client_loop L n s' \<and> sv_cs_pipe s' = Some p' \<and> pipe_holds p' rs
    \<and> queue_holds s' (ds @ [ClientMsg h bs]) \<and> queue_cap s' = queue_cap s \<and> Server.Server.more s' = Server.Server.more s"
proof -
  let ?r = r and ?l = "le32 (htonl (word_of_nat (length bs) + 4))"
  obtain hd where hd: "length hd = 40" "dec_tcp_head hd = h" "r = hd @ ?l @ bs" using cs(3) by auto
  let ?hd = hd
  have len: "length ?r = 44 + length bs" "length ?hd = 40" using hd by simp_all
  have bl: "0 < length bs" "length bs \<le> 4092" using ok by (simp_all add: layout_simps)
  obtain p' where p': "ShmPipe_GetOneData p (word_of_nat TCP_BUF_LEN) = (True, word_of_nat (length ?r), ?r, p')" "pipe_holds p' rs"
    using pipe_holds_get [OF cs(2), of "word_of_nat TCP_BUF_LEN"] len(1) bl by (auto simp: layout_simps)
  let ?w = "word_of_nat (length ?r) :: uint32" and ?b = "mem_write (sv_tcp_buf s) 0 ?r"
  have uw: "unat ?w = 44 + length bs" "unat (?w - 40) = 4 + length bs" "?w - 40 = word_of_nat (length bs) + 4"
    "unat (?w - 40 - 4) = length bs"
  proof -
    show u: "unat ?w = 44 + length bs" using len bl by (simp add: unat_word_ariths unat_of_nat)
    show e: "?w - 40 = word_of_nat (length bs) + 4" using len(1) by simp
    show "unat (?w - 40) = 4 + length bs" unfolding e using bl by (simp add: unat_word_ariths unat_of_nat)
    show "unat (?w - 40 - 4) = length bs" unfolding e using bl by (simp add: unat_of_nat)
  qed
  have rd: "mem_read ?b 0 40 = ?hd" "mem_read ?b 40 4 = ?l" "mem_read ?b 44 (length bs) = bs"
    using read_prefix [of "sv_tcp_buf s" ?hd "?l @ bs"] read_middle [of "sv_tcp_buf s" ?hd ?l bs]
      read_middle [of "sv_tcp_buf s" "?hd @ ?l" bs "[]"] len(2) by (simp_all add: hd(3))
  let ?s = "s\<lparr>sv_cs_pipe := Some p', sv_tcp_buf := ?b, sv_tcp_len := ?w - 40\<rparr>"
  have q': "queue_holds ?s ds" "4148 * (length ds + 1) \<le> queue_cap ?s" using q by (simp_all add: queue_holds_def queue_cap_def)
  have wf: "wf_tcp_head h" "length bs \<le> MAX_PB_LEN" using ok by simp_all
  obtain s' m q' where s': "Server_PostMessage_tcp h bs ?s = (True, s')" "queue_holds s' (ds @ [ClientMsg h bs])"
      "queue_cap s' = queue_cap ?s" "s' = ?s\<lparr>sv_msg := m, sv_msg_pipe := q'\<rparr>"
    using PostMessage_tcp_queued [OF q' wf] by blast
  have "dec_tcp_head ?hd = h" by (rule hd(2))
  moreover have "\<not> ?w - 40 \<le> 4" "\<not> unat ?w \<le> 44" unfolding word_le_nat_alt uw(1,2) using bl by simp_all
  ultimately have "client_loop L (Suc n) s = client_loop L n s'"
    using cs(1) p'(1) rd uw s'(1) ok by (simp add: Let_def layout_simps add.commute [of "4 :: uint32" "word_of_nat (length bs)"])
  then show ?thesis using s' p'(2) by (auto simp: queue_cap_def)
qed

lemma client_step_discon:
  assumes cs: "sv_cs_pipe s = Some p" "pipe_holds p (r # rs)" "gw_record (GwDiscon h i) r" and ok: "gw_ok (GwDiscon h i)"
    and q: "queue_holds s ds"
  shows "\<exists>s' p'. client_loop recorder (Suc n) s = client_loop recorder n s' \<and> sv_cs_pipe s' = Some p' \<and> pipe_holds p' rs
    \<and> queue_holds s' ds \<and> queue_cap s' = queue_cap s \<and> Server.Server.more s' = Server.Server.more s @ [Offline i]"
proof -
  let ?r = r
  obtain hd where hd: "length hd = 40" "dec_tcp_head hd = h" "r = hd @ le64 i" using cs(3) by auto
  let ?hd = hd
  have len: "length ?r = 48" "length ?hd = 40" using hd by simp_all
  obtain p' where p': "ShmPipe_GetOneData p (word_of_nat TCP_BUF_LEN) = (True, 48, ?r, p')" "pipe_holds p' rs"
    using pipe_holds_get [OF cs(2), of "word_of_nat TCP_BUF_LEN"] len(1) by (auto simp: layout_simps)
  let ?b = "mem_write (sv_tcp_buf s) 0 ?r"
  have rd: "mem_read ?b 0 40 = ?hd" "mem_read ?b 40 8 = le64 i"
    using read_prefix [of "sv_tcp_buf s" ?hd "le64 i"] read_middle [of "sv_tcp_buf s" ?hd "le64 i" "[]"] len(2) by (simp_all add: hd(3))
  let ?s = "Server.Server.more_update (\<lambda>l. l @ [Offline i]) (s\<lparr>sv_cs_pipe := Some p', sv_tcp_buf := ?b, sv_tcp_len := 8\<rparr>)"
  have "dec_tcp_head ?hd = h" by (rule hd(2))
  then have "client_loop recorder (Suc n) s = client_loop recorder n ?s"
    using cs(1) p'(1) rd ok by (simp add: Let_def layout_simps recorder_def)
  then show ?thesis using p'(2) q by (intro exI [of _ ?s] exI [of _ p']) (auto simp: queue_holds_def queue_cap_def)
qed

lemma client_loop_recorder:
  assumes "sv_cs_pipe s = Some p" and "pipe_holds p recs" and "list_all2 gw_record es recs" and "\<forall>e\<in>set es. gw_ok e"
    and "queue_holds s ds" and "4148 * (length ds + length (gw_queued es)) \<le> queue_cap s" and "length es < n"
  shows "\<exists>s' p'. client_loop recorder n s = Some s' \<and> sv_cs_pipe s' = Some p' \<and> pipe_holds p' []
    \<and> queue_holds s' (ds @ gw_queued es) \<and> Server.Server.more s' = Server.Server.more s @ gw_direct es"
  using assms
proof (induction es arbitrary: s p ds recs n)
  case Nil
  obtain k where n: "n = Suc k" using Nil.prems(7) by (cases n) auto
  show ?case
    using pipe_holds_empty [of p] Nil.prems by (auto simp: n gw_queued_def gw_direct_def queue_holds_def)
next
  case (Cons e es)
  obtain k where n: "n = Suc k" "length es < k" using Cons.prems(7) by (cases n) auto
  obtain r rs where recs: "recs = r # rs" "gw_record e r" "list_all2 gw_record es rs" using Cons.prems(3) by (auto simp: list_all2_Cons1)
  show ?case
  proof (cases e)
    case (GwMsg h bs)
    obtain s1 p1 where s1: "client_loop recorder (Suc k) s = client_loop recorder k s1" "sv_cs_pipe s1 = Some p1"
        "pipe_holds p1 rs" "queue_holds s1 (ds @ [ClientMsg h bs])" "queue_cap s1 = queue_cap s"
        "Server.Server.more s1 = Server.Server.more s"
      using client_step_msg [of s p r rs h bs ds recorder k] Cons.prems recs GwMsg by (auto simp: gw_queued_def)
    have "\<exists>s' p'. client_loop recorder k s1 = Some s' \<and> sv_cs_pipe s' = Some p' \<and> pipe_holds p' []
        \<and> queue_holds s' ((ds @ [ClientMsg h bs]) @ gw_queued es) \<and> Server.Server.more s' = Server.Server.more s1 @ gw_direct es"
      using Cons.prems(4,6) recs(3) s1 n(2) GwMsg by (intro Cons.IH [of s1 p1 rs]) (auto simp: gw_queued_def)
    then show ?thesis using s1 n GwMsg by (auto simp: gw_queued_def gw_direct_def simp del: client_loop.simps)
  next
    case (GwDiscon h i)
    obtain s1 p1 where s1: "client_loop recorder (Suc k) s = client_loop recorder k s1" "sv_cs_pipe s1 = Some p1"
        "pipe_holds p1 rs" "queue_holds s1 ds" "queue_cap s1 = queue_cap s"
        "Server.Server.more s1 = Server.Server.more s @ [Offline i]"
      using client_step_discon [of s p r rs h i ds k] Cons.prems recs GwDiscon by auto
    have "\<exists>s' p'. client_loop recorder k s1 = Some s' \<and> sv_cs_pipe s' = Some p' \<and> pipe_holds p' []
        \<and> queue_holds s' (ds @ gw_queued es) \<and> Server.Server.more s' = Server.Server.more s1 @ gw_direct es"
      using Cons.prems(4,6) recs(3) s1 n(2) GwDiscon by (intro Cons.IH [of s1 p1 rs]) (auto simp: gw_queued_def)
    then show ?thesis using s1 n GwDiscon by (auto simp: gw_queued_def gw_direct_def simp del: client_loop.simps)
  qed
qed

subsection \<open>Input from the center\<close>

definition center_frame :: "stCenterHead \<Rightarrow> byte list \<Rightarrow> byte list" where
  "center_frame h bs = le32 (4 + word_of_nat CENTERHEAD_LEN + word_of_nat (length bs)) @ enc_center_head h @ bs"

definition center_ok :: "stCenterHead \<times> byte list \<Rightarrow> bool" where
  "center_ok e \<longleftrightarrow> wf_route (ch_route_type (fst e)) \<and> snd e \<noteq> [] \<and> length (snd e) \<le> MAX_PB_LEN"

lemma length_center_frame [simp]: "length (center_frame h bs) = 44 + length bs"
  by (simp add: center_frame_def)

lemma center_len:
  assumes "length bs \<le> MAX_PB_LEN"
  shows "unat (4 + word_of_nat CENTERHEAD_LEN + word_of_nat (length bs) :: uint32) = 44 + length bs"
  using assms by (simp add: layout_simps unat_word_ariths unat_of_nat)

lemma center_frame_ok: "center_ok (h, bs) \<Longrightarrow> frame_ok un_le32 CENTER_BUF_LEN (center_frame h bs)"
  using center_len [of bs] by (simp add: frame_ok_def center_ok_def center_frame_def) (simp add: layout_simps)

lemma center_frame_bytes:
  fixes m :: mem and h :: stCenterHead and bs :: "byte list"
  assumes "length bs \<le> MAX_PB_LEN"
  defines "b \<equiv> mem_write m 0 (center_frame h bs)"
  shows "unat (un_le32 (mem_read b 0 4)) = 44 + length bs" and "mem_read b 4 40 = enc_center_head h" and "mem_read b 44 (length bs) = bs"
proof -
  let ?l = "le32 (4 + word_of_nat CENTERHEAD_LEN + word_of_nat (length bs))"
  have "mem_read b 0 4 = ?l"
    using read_prefix [of m ?l "enc_center_head h @ bs"] by (simp add: b_def center_frame_def)
  then show "unat (un_le32 (mem_read b 0 4)) = 44 + length bs" using center_len [OF assms(1)] by simp
  show "mem_read b 4 40 = enc_center_head h"
    using read_middle [of m ?l "enc_center_head h" bs] by (simp add: b_def center_frame_def)
  show "mem_read b 44 (length bs) = bs"
    using read_middle [of m "?l @ enc_center_head h" bs "[]"] by (simp add: b_def center_frame_def)
qed

lemma post_center_all:
  assumes "i < length (sv_center_mng s)" and "cm_wf (sv_center_mng s ! i)"
    and "cm_input (sv_center_mng s ! i) = concat (map (\<lambda>(h, bs). center_frame h bs) es) @ p"
    and "\<forall>e\<in>set es. center_ok e" and "frame_partial un_le32 CENTER_BUF_LEN p"
    and "queue_holds s ds" and "4148 * (length ds + length es) \<le> queue_cap s"
  shows "\<exists>s'. post_center P i count s = Some (False, count + length es, s')
    \<and> queue_holds s' (ds @ map (\<lambda>(h, bs). ServerMsg h bs) es) \<and> cm_input (sv_center_mng s' ! i) = p
    \<and> Server.Server.more s' = Server.Server.more s"
  using assms
proof (induction es arbitrary: s ds count)
  case Nil
  let ?m = "sv_center_mng s ! i"
  have g: "CenterMng_GetOneData P b l ?m os = (False, b, ?m, os)" for b l os
    using Nil.prems(3,5) by (intro center_GetOneData_partial) auto
  show ?case
    using Nil.prems by (subst post_center.simps) (simp add: g Let_def queue_holds_def)
next
  case (Cons e es)
  obtain h bs where e: "e = (h, bs)" by force
  let ?m = "sv_center_mng s ! i" and ?f = "center_frame h bs" and ?rest = "concat (map (\<lambda>(h, bs). center_frame h bs) es) @ p"
  have ok: "center_ok (h, bs)" "wf_route (ch_route_type h)" "length bs \<le> MAX_PB_LEN" "bs \<noteq> []"
    using Cons.prems(4) e by (auto simp: center_ok_def)
  have F: "4 < length ?f" "un_le32 (take 4 ?f) = word_of_nat (length ?f)" "length ?f \<le> unat (word_of_nat CENTER_BUF_LEN :: uint32)"
  proof -
    show "4 < length ?f" by simp
    have "unat (un_le32 (take 4 ?f)) = length ?f" using center_frame_ok [OF ok(1)] by (simp add: frame_ok_def)
    then show "un_le32 (take 4 ?f) = word_of_nat (length ?f)" by (metis of_nat_unat ucast_id)
    show "length ?f \<le> unat (word_of_nat CENTER_BUF_LEN :: uint32)" using ok(3) by (simp add: layout_simps)
  qed
  have inp: "cm_input ?m = ?f @ ?rest" using Cons.prems(3) e by simp
  let ?b = "mem_write (sv_center_buf s) 0 ?f"
  obtain m' where m': "CenterMng_GetOneData P (sv_center_buf s) (word_of_nat CENTER_BUF_LEN) ?m (sv_os s) = (True, ?b, m', sv_os s)"
      "cm_input m' = ?rest" "cm_wf m'"
    using center_GetOneData_frame [OF Cons.prems(2) inp F, of P "sv_center_buf s" "sv_os s"] by auto
  note B = center_frame_bytes [OF ok(3), of "sv_center_buf s" h]
  let ?s = "s\<lparr>sv_center_buf := ?b, sv_center_mng := (sv_center_mng s)[i := m'], sv_os := sv_os s\<rparr>"
  have q: "queue_holds ?s ds" "4148 * (length ds + 1) \<le> queue_cap ?s"
    using Cons.prems(6,7) by (simp_all add: queue_holds_def queue_cap_def)
  obtain s1 x y where s1: "Server_PostMessage_center h bs ?s = (True, s1)" "queue_holds s1 (ds @ [ServerMsg h bs])"
      "queue_cap s1 = queue_cap ?s" "s1 = ?s\<lparr>sv_msg := x, sv_msg_pipe := y\<rparr>"
    using PostMessage_center_queued [OF q ok(2,3)] by blast
  have "dec_center_head (enc_center_head h) = h" using dec_enc_center_head [OF ok(2), of "[]"] by simp
  then have step: "post_center P i count s = post_center P i (count + 1) s1"
    using m'(1) B s1(1) ok(4) by (subst post_center.simps) (simp add: Let_def layout_simps)
  have c1: "sv_center_mng s1 = (sv_center_mng s)[i := m']" "Server.Server.more s1 = Server.Server.more s" "queue_cap s1 = queue_cap s"
    using s1(3,4) by (simp_all add: queue_cap_def)
  have "\<exists>s'. post_center P i (count + 1) s1 = Some (False, (count + 1) + length es, s')
      \<and> queue_holds s' ((ds @ [ServerMsg h bs]) @ map (\<lambda>(h, bs). ServerMsg h bs) es) \<and> cm_input (sv_center_mng s' ! i) = p
      \<and> Server.Server.more s' = Server.Server.more s1"
    using Cons.prems m' c1 s1(2) by (intro Cons.IH) (simp_all add: c1)
  then show ?case using step e c1(2) by auto
qed

text \<open>A pending message of length 0 keeps the inner loop of \<^verbatim>\<open>GetCenterMessage\<close> busy for ever.\<close>

definition zero_pending :: "nat \<Rightarrow> ('os, 'a) Server_scheme \<Rightarrow> bool" where
  "zero_pending i s \<longleftrightarrow> i < length (sv_center_mng s) \<and> unat (cm_recv_offset (sv_center_mng s ! i)) > 4
     \<and> un_le32 (mem_read (cm_recv_buf (sv_center_mng s ! i)) 0 4) = 0 \<and> un_le32 (mem_read (sv_center_buf s) 0 4) = 0"

lemma post_center_stuck_step:
  assumes "zero_pending i s"
  shows "\<exists>m. CenterMng_GetOneData P (sv_center_buf s) (word_of_nat CENTER_BUF_LEN) (sv_center_mng s ! i) (sv_os s) = (True, sv_center_buf s, m, sv_os s)
    \<and> zero_pending i (s\<lparr>sv_center_buf := sv_center_buf s, sv_center_mng := (sv_center_mng s)[i := m], sv_os := sv_os s\<rparr>)"
proof -
  let ?m = "sv_center_mng s ! i"
  let ?m' = "?m\<lparr>cm_recv_buf := mem_write (cm_recv_buf ?m) 0 (mem_read (cm_recv_buf ?m) 0 (unat (cm_recv_offset ?m)))\<rparr>"
  have id: "mem_write b 0 (mem_read b 0 k) = b" for b k by (rule ext) (simp add: mem_write_def)
  have gt: "\<not> cm_recv_offset ?m \<le> 4" "cm_recv_offset ?m \<noteq> 0" using assms by (auto simp: zero_pending_def word_le_nat_alt)
  have "CenterMng_GetOneData P (sv_center_buf s) (word_of_nat CENTER_BUF_LEN) ?m (sv_os s) = (True, sv_center_buf s, ?m', sv_os s)"
    using gt assms by (simp add: CenterMng_GetOneData_def Let_def zero_pending_def)
  then show ?thesis using assms by (intro exI [of _ ?m']) (simp add: zero_pending_def id)
qed

lemma post_center_stuck:
  fixes P :: "'os posix" and s :: "('os, 'a) Server_scheme"
  assumes "zero_pending i s"
  shows "post_center P i count s = None"
proof -
  have "\<not> zero_pending (snd (fst (fst x))) (snd x)" if "post_center P i count s = Some r" "x = (((P, i), count), s)" for r x
    unfolding that(2)
  proof (rule post_center.raw_induct [where Pa = "\<lambda>x y. \<not> zero_pending (snd (fst (fst x))) (snd x)", OF _ that(1)])
    fix rc :: "'os posix \<Rightarrow> nat \<Rightarrow> nat \<Rightarrow> ('os, 'a) Server_scheme \<Rightarrow> (bool \<times> nat \<times> ('os, 'a) Server_scheme) option"
      and P i count and s :: "('os, 'a) Server_scheme" and r
    assume IH: "\<And>P i count s y. rc P i count s = Some y \<Longrightarrow> \<not> zero_pending (snd (fst (fst (((P, i), count), s)))) (snd (((P, i), count), s))"
      and body: "(case CenterMng_GetOneData P (sv_center_buf s) (word_of_nat CENTER_BUF_LEN) (sv_center_mng s ! i) (sv_os s) of
        (ok, buf, m, os) \<Rightarrow>
          let s = s\<lparr>sv_center_buf := buf, sv_center_mng := (sv_center_mng s)[i := m], sv_os := os\<rparr>
          in if \<not> ok then Some (False, count, s)
             else
               let len = un_le32 (mem_read buf 0 4)
               in if unat len \<le> 4 + CENTERHEAD_LEN then rc P i count s
                  else
                    let head = dec_center_head (mem_read buf 4 CENTERHEAD_LEN);
                        pb = mem_read buf (4 + CENTERHEAD_LEN) (unat len - 4 - CENTERHEAD_LEN)
                    in (case Server_PostMessage_center head pb s of
                          (ok, s) \<Rightarrow> if \<not> ok then Some (True, count, s) else rc P i (count + 1) s)) = Some r"
    have "\<not> zero_pending i s"
    proof
      assume z: "zero_pending i s"
      obtain m where m: "CenterMng_GetOneData P (sv_center_buf s) (word_of_nat CENTER_BUF_LEN) (sv_center_mng s ! i) (sv_os s) = (True, sv_center_buf s, m, sv_os s)"
        "zero_pending i (s\<lparr>sv_center_buf := sv_center_buf s, sv_center_mng := (sv_center_mng s)[i := m], sv_os := sv_os s\<rparr>)"
        using post_center_stuck_step [OF z] by blast
      have "rc P i count (s\<lparr>sv_center_buf := sv_center_buf s, sv_center_mng := (sv_center_mng s)[i := m], sv_os := sv_os s\<rparr>) = Some r"
        using body z unfolding m(1) by (simp add: Let_def zero_pending_def)
      from IH [OF this] m(2) show False by simp
    qed
    then show "\<not> zero_pending (snd (fst (fst (((P, i), count), s)))) (snd (((P, i), count), s))" by simp
  qed
  then show ?thesis using assms by (cases "post_center P i count s") force+
qed

subsection \<open>Sending\<close>

lemma append_tcp_queued:
  assumes "sv_sc_pipe s = Some p" and "pipe_holds p rs" and "length bs < 2 ^ 32" and "frames_len rs + length bs + 4 \<le> unat (sp_size p) - 1"
  shows "\<exists>s' p'. append_tcp bs s = (True, s') \<and> sv_sc_pipe s' = Some p' \<and> pipe_holds p' (rs @ [bs]) \<and> sp_size p' = sp_size p
    \<and> s' = s\<lparr>sv_tcp_buf := mem_write (sv_tcp_buf s) 0 bs, sv_tcp_len := word_of_nat (length bs), sv_sc_pipe := Some p'\<rparr>"
proof -
  have "unat (word_of_nat (length bs) :: uint32) = length bs" using assms(3) by (simp add: unat_of_nat)
  then show ?thesis
    using pipe_holds_append [OF assms(2,4)] assms(1) by (auto simp: append_tcp_def Let_def)
qed

lemma route_center_range:
  assumes "0 < center_num" and "center_num \<le> 16"
  shows "fst (route_center head (-1) center_num cnt) = -1 \<or>
    (0 \<le> fst (route_center head (-1) center_num cnt) \<and> fst (route_center head (-1) center_num cnt) < uint center_num)"
proof -
  have c: "0 < uint center_num" "uint center_num \<le> 16" using assms by (simp_all add: word_less_def word_le_def)
  then have "uint (ucast center_num :: uint64) = uint center_num" by (simp add: uint_up_ucast is_up)
  then show ?thesis using c by (cases "ch_route_type head") (simp_all add: route_center_def uint_mod)
qed

lemma SendMessageToCenter_frame:
  assumes "fst (route_center head ci (sv_center_num s) (sv_send_count s)) = int k" and "word_of_nat k < sv_center_num s"
    and "length buf \<le> MAX_PB_LEN" and "k < 2 ^ 32"
  defines "s1 \<equiv> s\<lparr>sv_send_count := snd (route_center head ci (sv_center_num s) (sv_send_count s)),
      sv_center_buf := mem_write (sv_center_buf s) 0 (center_frame (head\<lparr>ch_center_index := word_of_nat k\<rparr>) buf),
      sv_center_len := word_of_nat (44 + length buf)\<rparr>"
  shows "Server_SendMessageToCenter P head buf ci s
    = (case CenterMng_SendOneData P (center_frame (head\<lparr>ch_center_index := word_of_nat k\<rparr>) buf) (sv_center_mng s ! k) (sv_os s) of
         (ok, m, os) \<Rightarrow> (ok, s1\<lparr>sv_center_mng := (sv_center_mng s)[k := m], sv_os := os\<rparr>))"
proof -
  let ?f = "center_frame (head\<lparr>ch_center_index := word_of_nat k\<rparr>) buf"
  have len: "4 + word_of_nat CENTERHEAD_LEN + word_of_nat (length buf) = (word_of_nat (44 + length buf) :: uint32)"
    by (simp add: layout_simps)
  have un: "unat (word_of_nat (44 + length buf) :: uint32) = 44 + length buf" using center_len [OF assms(3)] unfolding len .
  have rd: "mem_read (mem_write m 0 ?f) 0 (44 + length buf) = ?f" for m using read_prefix [of m ?f "[]"] by simp
  have f: "?f = le32 (4 + word_of_nat CENTERHEAD_LEN + word_of_nat (length buf)) @ enc_center_head (head\<lparr>ch_center_index := word_of_nat k\<rparr>) @ buf"
    by (simp add: center_frame_def)
  obtain cnt where r: "route_center head ci (sv_center_num s) (sv_send_count s) = (int k, cnt)" using assms(1) by (metis prod.collapse)
  have ng: "\<not> sv_center_num s \<le> word_of_nat k" using assms(2) by simp
  have "Server_SendMessageToCenter P head buf ci s
    = (let s2 = s\<lparr>sv_send_count := cnt, sv_center_buf := mem_write (sv_center_buf s) 0 ?f, sv_center_len := word_of_nat (44 + length buf)\<rparr>;
           (ok, m, os) = CenterMng_SendOneData P (mem_read (sv_center_buf s2) 0 (unat (sv_center_len s2))) (sv_center_mng s ! k) (sv_os s)
       in (ok, s2\<lparr>sv_center_mng := (sv_center_mng s)[k := m], sv_os := os\<rparr>))"
    unfolding Server_SendMessageToCenter_def r f len by (simp add: Let_def ng)
  then show ?thesis unfolding s1_def r by (simp add: Let_def un rd del: of_nat_add)
qed

subsection \<open>Properties\<close>

text \<open>C6. The message queue of a logic server delivers, eventually everything: a round of dispatching hands 1024 messages, and after \<open>k\<close> rounds exactly the first
  \<open>1024 k\<close> of the queued messages have reached the handler for their kind, in the order in which they were posted and with the head and the bytes they were
  posted with; the others are still queued, in order. A queue of \<open>n\<close> messages is therefore empty after \<open>n div 1024 + 1\<close> rounds.\<close>

theorem DispatchMessage_delivers_in_order:
  assumes "queue_holds s ds"
  shows "(\<exists>s'. dispatch_rounds recorder k s = Some s' \<and> Server.Server.more s' = Server.Server.more s @ take (1024 * k) ds \<and> queue_holds s' (drop (1024 * k) ds))
    \<and> (\<exists>s'. dispatch_rounds recorder (length ds div 1024 + 1) s = Some s' \<and> Server.Server.more s' = Server.Server.more s @ ds \<and> queue_holds s' [])"
proof -
  have "length ds \<le> 1024 * (length ds div 1024 + 1)" using dividend_less_times_div [of 1024 "length ds"] by simp
  then show ?thesis using dispatch_rounds_prefix [OF assms, of k] dispatch_rounds_prefix [OF assms, of "length ds div 1024 + 1"] by simp
qed

definition demo_server :: "(nat, delivery list) Server_scheme" where
  "demo_server = Server.Server.extend
     \<lparr>sv_info = \<lparr>si_svr_type = 2, si_svr_id = 1\<rparr>,
      sv_conf = \<lparr>lc_cs_shmkey = 1, lc_sc_shmkey = 2, lc_msg_shmkey = 3, lc_center_addrs = [], lc_max_session_num = 8, lc_session_shmkey = 4,
        lc_max_timer_num = 8, lc_timer_shmkey = 5, lc_max_player_num = 8, lc_player_shmkey = 6,
        lc_db_ip = [], lc_db_port = 0, lc_db_name = [], lc_db_account = [], lc_db_password = []\<rparr>,
      sv_cs_pipe = Some (demo_pipe 100000), sv_sc_pipe = Some (demo_pipe 100000), sv_msg_pipe = demo_pipe 100000, sv_tcp_buf = mem_zero, sv_tcp_len = 0,
      sv_msg = \<lparr>m_type = EN_MSG_INTERNAL, m_pb_msg = \<lparr>pm_data_len = 0, pm_data = mem_zero\<rparr>, m_head = replicate 40 0\<rparr>, sv_msg_len = 0,
      sv_center_num = 1, sv_center_mng = replicate 16 center_idle, sv_center_buf = mem_zero, sv_center_len = 0, sv_run_flag = 0,
      sv_check_time = 0, sv_send_count = 0, sv_cur_time = 0, sv_shm = Map.empty, sv_os = 0\<rparr> []"

lemma demo_server_fields:
  "sv_cs_pipe demo_server = Some (demo_pipe 100000)" "sv_sc_pipe demo_server = Some (demo_pipe 100000)" "sv_msg_pipe demo_server = demo_pipe 100000"
  "sv_center_mng demo_server = replicate 16 center_idle" "sv_center_num demo_server = 1" "Server.Server.more demo_server = []"
  "length (m_head (sv_msg demo_server)) = 40" "sv_center_buf demo_server = mem_zero" "sv_send_count demo_server = 0" "sv_os demo_server = 0"
  "sv_tcp_buf demo_server = mem_zero"
  by (simp_all add: demo_server_def Server.Server.extend_def)

lemma demo_queue: "queue_holds demo_server []" "queue_cap demo_server = 99999"
  using demo_pipe_holds [of 100000] by (simp_all add: queue_holds_def queue_cap_def demo_server_fields)

theorem DispatchMessage_delivers_in_order_witness:
  "\<exists>s s'. Server_SendMessageToInternal [1, 2, 3] demo_server = (True, s) \<and> dispatch_rounds recorder 1 s = Some s'
    \<and> Server.Server.more s' = [InternalMsg [1, 2, 3]] \<and> queue_holds s' []"
proof -
  have b: "length [1, 2, 3 :: byte] \<le> MAX_PB_LEN" "4148 * (length ([] :: delivery list) + 1) \<le> queue_cap demo_server"
    by (simp_all add: layout_simps demo_queue)
  obtain s x y where s: "Server_SendMessageToInternal [1, 2, 3] demo_server = (True, s)" "queue_holds s [InternalMsg [1, 2, 3]]"
      "s = demo_server\<lparr>sv_msg := x, sv_msg_pipe := y\<rparr>"
    using PostMessage_internal_queued [OF demo_queue(1) b(2,1)] by auto
  have "Server.Server.more s = []" using s(3) by (simp add: demo_server_fields)
  then show ?thesis using DispatchMessage_delivers_in_order [OF s(2)] s(1) by auto
qed

text \<open>From the gateway's pipe every client message is queued, in order, with its connection head and without the length
  prefix, and every disconnect notice is handed to \<^verbatim>\<open>OnClientOffline\<close>, if the queue has room; the pipe is empty
  afterwards. No message exceeds the data array of the queue's message object.\<close>

lemma GetClientMessage_queues_all:
  assumes "sv_cs_pipe s = Some p" and "pipe_holds p recs" and "list_all2 gw_record es recs" and "\<forall>e\<in>set es. gw_ok e" and "length es < 1024"
    and "queue_holds s ds" and "4148 * (length ds + length (gw_queued es)) \<le> queue_cap s"
  shows "\<exists>s' p'. Server_GetClientMessage recorder s = Some s' \<and> sv_cs_pipe s' = Some p' \<and> pipe_holds p' []
    \<and> queue_holds s' (ds @ gw_queued es) \<and> Server.Server.more s' = Server.Server.more s @ gw_direct es"
  using client_loop_recorder [OF assms(1-4,6,7,5)] assms(1) by (simp add: Server_GetClientMessage_def)

definition demo_head :: stTcpHead where
  "demo_head = \<lparr>th_create_time = 5, th_socket_pos = 1, th_socket_port = 2, th_socket_addr = replicate 16 49, th_msg_type = TCP_NORMAL, th_need_close = False\<rparr>"

lemma GetClientMessage_queues_all_witness:
  "\<exists>p s' p'. ShmPipe_AppendOneData (demo_pipe 100000) (gw_bytes (GwMsg demo_head [7, 8])) = (True, p)
    \<and> Server_GetClientMessage recorder (demo_server\<lparr>sv_cs_pipe := Some p\<rparr>) = Some s' \<and> sv_cs_pipe s' = Some p' \<and> pipe_holds p' []
    \<and> queue_holds s' [ClientMsg demo_head [7, 8]]"
proof -
  let ?e = "GwMsg demo_head [7, 8]"
  have ok: "gw_ok ?e" by (simp add: demo_head_def wf_tcp_head_def TCP_NORMAL_def CLI_DISCON_def layout_simps)
  then have "length (gw_bytes ?e) = 46" using length_gw_bytes(1) by fastforce
  then obtain p where p: "ShmPipe_AppendOneData (demo_pipe 100000) (gw_bytes ?e) = (True, p)" "pipe_holds p [gw_bytes ?e]"
    using pipe_holds_append [of "demo_pipe 100000" "[]" "gw_bytes ?e"] demo_pipe_holds [of 100000] by auto
  have "queue_holds (demo_server\<lparr>sv_cs_pipe := Some p\<rparr>) []" "queue_cap (demo_server\<lparr>sv_cs_pipe := Some p\<rparr>) = 99999"
    using demo_queue by (simp_all add: queue_holds_def queue_cap_def)
  then show ?thesis
    using GetClientMessage_queues_all [of "demo_server\<lparr>sv_cs_pipe := Some p\<rparr>" p "[gw_bytes ?e]" "[?e]" "[]"] p ok gw_record_bytes [OF ok]
    by (auto simp: gw_queued_def simp del: gw_bytes.simps gw_record.simps)
qed


definition demo_center_head :: stCenterHead where
  "demo_center_head = \<lparr>ch_src_type = 2, ch_src_id = 1, ch_des_type = 4, ch_des_id = 0, ch_session_id = 9, ch_route_type = route_hash,
     ch_hash_key = 77, ch_center_index = 0\<rparr>"


text \<open>A center that sends a length field of 0 stops the whole server: the loop over the pending messages of that connection
  never returns.\<close>

lemma zero_length_hangs_server:
  assumes "zero_pending i s" and "count < 512"
  shows "post_centers P (i # is) count s = None"
  using post_center_stuck [OF assms(1), of P count] assms(2) by simp

text \<open>\<^verbatim>\<open>SendMessageToClient\<close> puts exactly one record into the pipe to the gateway, the connection head followed by the length in
  network order and the bytes, and writes nothing beyond its buffer.\<close>

lemma SendMessageToClient_one_record:
  assumes "sv_sc_pipe s = Some p" and "pipe_holds p rs" and "wf_tcp_head h" and "length bs \<le> MAX_PB_LEN"
    and "frames_len rs + length bs + 48 \<le> unat (sp_size p) - 1"
  shows "\<exists>s' p'. Server_SendMessageToClient h bs s = (True, s') \<and> sv_sc_pipe s' = Some p'
    \<and> pipe_holds p' (rs @ [enc_tcp_head h @ le32 (htonl (word_of_nat (length bs) + 4)) @ bs])
    \<and> (\<forall>i\<ge>TCP_BUF_LEN. sv_tcp_buf s' i = sv_tcp_buf s i)"
proof -
  let ?r = "enc_tcp_head h @ le32 (htonl (word_of_nat (length bs) + 4)) @ bs"
  have len: "length ?r = 44 + length bs" using assms(3) by simp
  have "length ?r < 2 ^ 32" "frames_len rs + length ?r + 4 \<le> unat (sp_size p) - 1"
    unfolding len using assms(4,5) by (simp_all add: layout_simps)
  then obtain s' p' where r: "append_tcp ?r s = (True, s')" "sv_sc_pipe s' = Some p'" "pipe_holds p' (rs @ [?r])"
      "s' = s\<lparr>sv_tcp_buf := mem_write (sv_tcp_buf s) 0 ?r, sv_tcp_len := word_of_nat (length ?r), sv_sc_pipe := Some p'\<rparr>"
    using append_tcp_queued [OF assms(1,2)] by blast
  have "\<forall>i\<ge>TCP_BUF_LEN. sv_tcp_buf s' i = sv_tcp_buf s i" using r(4) assms(4) len by (simp add: layout_simps)
  then show ?thesis using r(1-3) by (auto simp: Server_SendMessageToClient_def)
qed

text \<open>A message without a fixed center is sent over a connection of the server: with hash routing always over the one of
  its hash key. What is handed to that connection is one well-formed frame that names the connection, and
  the buffer it is built in is not exceeded.\<close>

lemma SendMessageToCenter_routes_frame:
  assumes "0 < sv_center_num s" and "sv_center_num s \<le> 16" and "center_ok (head, buf)" and "\<forall>w. ch_route_type head \<noteq> route_other w"
  shows "\<exists>k < unat (sv_center_num s). (ch_route_type head = route_hash \<longrightarrow> k = unat (ch_hash_key head) mod unat (sv_center_num s))
    \<and> frame_ok un_le32 CENTER_BUF_LEN (center_frame (head\<lparr>ch_center_index := word_of_nat k\<rparr>) buf)
    \<and> (case CenterMng_SendOneData P (center_frame (head\<lparr>ch_center_index := word_of_nat k\<rparr>) buf) (sv_center_mng s ! k) (sv_os s) of
         (ok, m, os) \<Rightarrow> fst (Server_SendMessageToCenter P head buf (-1) s) = ok
           \<and> sv_center_mng (snd (Server_SendMessageToCenter P head buf (-1) s)) = (sv_center_mng s)[k := m]
           \<and> (\<forall>i\<ge>CENTER_BUF_LEN. sv_center_buf (snd (Server_SendMessageToCenter P head buf (-1) s)) i = sv_center_buf s i))"
proof -
  let ?n = "sv_center_num s"
  define k where "k = (if ch_route_type head = route_hash then unat (ch_hash_key head) mod unat ?n else unat (sv_send_count s) mod unat ?n)"
  have n: "0 < unat ?n" "unat ?n \<le> 16" using assms(1,2) by (simp_all add: word_less_nat_alt word_le_nat_alt)
  then have k: "k < unat ?n" by (simp add: k_def)
  have uc: "unat (ucast ?n :: uint64) = unat ?n" using n by (simp add: unat_ucast)
  have m: "uint (ch_hash_key head mod ucast ?n) = int (unat (ch_hash_key head) mod unat ?n)"
      "uint (sv_send_count s mod ?n) = int (unat (sv_send_count s) mod unat ?n)"
    using unat_mod [of "ch_hash_key head" "ucast ?n"] unat_mod [of "sv_send_count s" ?n] uc by (metis int_nat_eq uint_nonnegative unat_eq_nat_uint)+
  have r: "fst (route_center head (-1) ?n (sv_send_count s)) = int k"
    using assms(4) by (cases "ch_route_type head") (simp_all only: route_center_def k_def m RouteType.simps if_True if_False simp_thms fst_conv)
  have kw: "word_of_nat k < ?n" "k < 2 ^ 32" using k n by (simp_all add: word_less_nat_alt unat_of_nat)
  have buf: "length buf \<le> MAX_PB_LEN" using assms(3) by (simp add: center_ok_def)
  have "center_ok (head\<lparr>ch_center_index := word_of_nat k\<rparr>, buf)" using assms(3) by (simp add: center_ok_def)
  note fok = center_frame_ok [OF this]
  have "\<forall>i\<ge>CENTER_BUF_LEN. mem_write (sv_center_buf s) 0 (center_frame (head\<lparr>ch_center_index := word_of_nat k\<rparr>) buf) i = sv_center_buf s i"
    using fok by (simp add: frame_ok_def)
  moreover have "ch_route_type head = route_hash \<longrightarrow> k = unat (ch_hash_key head) mod unat ?n" by (simp add: k_def)
  moreover obtain ok m os where "CenterMng_SendOneData P (center_frame (head\<lparr>ch_center_index := word_of_nat k\<rparr>) buf) (sv_center_mng s ! k) (sv_os s) = (ok, m, os)"
    by (metis prod_cases3)
  ultimately show ?thesis
    using k fok SendMessageToCenter_frame [OF r kw(1) buf kw(2), of P] by (intro exI [of _ k]) simp
qed

end
