(* ===== verification/ServerInv.thy ===== *)
theory ServerInv
  imports ServerFlow
begin

text \<open>
  The contract between the server frame and a concrete server: a property of the server's own state (the extension of
  the frame's record) that each virtual function keeps is kept by the whole main loop, and the
  dispatch of messages and the input from the gateway always return. A logic server
  interprets the locale \<open>server_logic\<close> on its own virtual functions.
\<close>

lemma post_msg_more [simp]: "Server.Server.more (snd (post_msg ty h buf s)) = Server.Server.more s"
  by (simp add: post_msg_def Let_def split: prod.split)

lemma post_center_more:
  assumes "post_center P i count s = Some (full, n, s')"
  shows "Server.Server.more s' = Server.Server.more s"
proof -
  have "Server.Server.more (snd (snd y)) = Server.Server.more (snd x)"
    if "post_center P i count s = Some y" "x = (((P, i), count), s)" for x y
    unfolding that(2)
  proof (rule post_center.raw_induct [where Pa = "\<lambda>x y. Server.Server.more (snd (snd y)) = Server.Server.more (snd x)", OF _ that(1)])
    fix rc :: "'a posix \<Rightarrow> nat \<Rightarrow> nat \<Rightarrow> ('a, 'b) Server_scheme \<Rightarrow> (bool \<times> nat \<times> ('a, 'b) Server_scheme) option"
      and P i count and s :: "('a, 'b) Server_scheme" and y
    assume IH: "\<And>P i count s y. rc P i count s = Some y \<Longrightarrow> Server.Server.more (snd (snd y)) = Server.Server.more (snd (((P, i), count), s))"
      and body: "(case CenterMng_GetOneData P (sv_center_buf s) (word_of_nat CENTER_BUF_LEN) (sv_center_mng s ! i) (sv_os s) of
        (ok, buf, m, os) \<Rightarrow>
          let s = s\<lparr>sv_center_buf := buf, sv_center_mng := (sv_center_mng s)[i := m], sv_os := os\<rparr>
          in if \<not> ok then Some (False, count, s)
             else
               let len = un_le32 (mem_read buf 0 4)
               in if unat len \<le> 4 + CENTERHEAD_LEN then rc P i count s
                  else
                    let head = dec_center_head (mem_read buf 4 CENTERHEAD_LEN);
                        pb = mem_read buf (4 + CENTERHEAD_LEN) (unat len - 4 - CENTERHEAD_LEN)
                    in (case Server_PostMessage_center head pb s of
                          (ok, s) \<Rightarrow> if \<not> ok then Some (True, count, s) else rc P i (count + 1) s)) = Some y"
    have post: "Server.Server.more t = Server.Server.more u" if "Server_PostMessage_center h b u = (ok, t)" for h b u t ok
      using that post_msg_more [of EN_MSG_SERVER "enc_center_head h" b u] by (simp add: Server_PostMessage_center_def)
    have rc: "Server.Server.more (snd (snd y)) = Server.Server.more t" if "rc P i n t = Some y" for n t using IH [OF that] by simp
    obtain ok buf m os where g: "CenterMng_GetOneData P (sv_center_buf s) (word_of_nat CENTER_BUF_LEN) (sv_center_mng s ! i) (sv_os s) = (ok, buf, m, os)"
      by (metis prod_cases4)
    let ?s = "s\<lparr>sv_center_buf := buf, sv_center_mng := (sv_center_mng s)[i := m], sv_os := os\<rparr>"
    obtain ok' t where q: "Server_PostMessage_center (dec_center_head (mem_read buf 4 CENTERHEAD_LEN))
        (mem_read buf (4 + CENTERHEAD_LEN) (unat (un_le32 (mem_read buf 0 4)) - 4 - CENTERHEAD_LEN)) ?s = (ok', t)" by force
    have "Server.Server.more t = Server.Server.more s" using post [OF q] by simp
    then show "Server.Server.more (snd (snd y)) = Server.Server.more (snd (((P, i), count), s))"
      using body rc [of count ?s] rc [of "count + 1" t] unfolding g prod.case Let_def q by (auto split: if_splits)
  qed
  then show ?thesis using assms by fastforce
qed

lemma post_centers_more: "post_centers P is count s = Some s' \<Longrightarrow> Server.Server.more s' = Server.Server.more s"
  by (induction "is" arbitrary: count s) (auto simp: bind_eq_Some_conv dest: post_center_more split: if_splits)

lemma GetCenterMessage_more:
  assumes "Server_GetCenterMessage P s = Some s'"
  shows "Server.Server.more s' = Server.Server.more s"
  using assms post_centers_more
  by (fastforce simp: Server_GetCenterMessage_def Let_def bind_eq_Some_conv split: prod.splits if_splits)

lemma CheckCenterConn_more:
  assumes "Server_CheckCenterConn P s = Some s'"
  shows "Server.Server.more s' = Server.Server.more s"
  using assms by (auto simp: Server_CheckCenterConn_def bind_eq_Some_conv split: if_splits)

locale server_logic =
  fixes L :: "('os, 'a) Server_scheme logic"
    and I :: "('os, 'a) Server_scheme \<Rightarrow> bool"
  assumes own_state: "Server.Server.more s = Server.Server.more t \<Longrightarrow> I s \<Longrightarrow> I t"
    and client_message: "I s \<Longrightarrow> \<exists>s'. OnClientMessage L th m s = Some s' \<and> I s'"
    and client_offline: "I s \<Longrightarrow> \<exists>s'. OnClientOffline L i s = Some s' \<and> I s'"
    and server_message: "I s \<Longrightarrow> \<exists>s'. OnServerMessage L ch m s = Some s' \<and> I s'"
    and internal_message: "I s \<Longrightarrow> \<exists>s'. OnInteralMessage L m s = Some s' \<and> I s'"
    and routine_check: "I s \<Longrightarrow> \<exists>s'. OnRoutineCheck L s = Some s' \<and> I s'"
    and reload: "I s \<Longrightarrow> Reload L s = Some s' \<Longrightarrow> I s'"
begin

lemma dispatch_one_total: "I s \<Longrightarrow> \<exists>s'. dispatch_one L s = Some s' \<and> I s'"
  by (auto simp: dispatch_one_def client_message server_message internal_message split: EN_MSG_TYPE.split)

lemma dispatch_loop_total: "I s \<Longrightarrow> \<exists>s'. dispatch_loop L n s = Some s' \<and> I s'"
proof (induction n arbitrary: s)
  case 0
  then show ?case by simp
next
  case (Suc n)
  obtain ok len data p where g: "ShmPipe_GetOneData (sv_msg_pipe s) (word_of_nat SIZEOF_stMsg) = (ok, len, data, p)" by (metis prod_cases4)
  let ?s = "s\<lparr>sv_msg_pipe := p, sv_msg_len := len, sv_msg := dec_msg (data @ drop (length data) (enc_msg (sv_msg s)))\<rparr>"
  have i: "I ?s" using own_state [of s ?s] Suc.prems by simp
  obtain t where t: "dispatch_one L ?s = Some t" "I t" using dispatch_one_total [OF i] by blast
  have f: "I (s\<lparr>sv_msg_pipe := p, sv_msg_len := len\<rparr>)" using own_state [of s "s\<lparr>sv_msg_pipe := p, sv_msg_len := len\<rparr>"] Suc.prems by simp
  show ?case using g i t f Suc.IH by (cases ok) (auto simp: Let_def)
qed

lemma DispatchMessage_total: "I s \<Longrightarrow> \<exists>s'. Server_DispatchMessage L s = Some s' \<and> I s'"
  by (simp add: Server_DispatchMessage_def dispatch_loop_total)

lemma client_loop_total: "I s \<Longrightarrow> \<exists>s'. client_loop L n s = Some s' \<and> I s'"
proof (induction n arbitrary: s)
  case 0
  then show ?case by simp
next
  case (Suc n)
  show ?case
  proof (cases "sv_cs_pipe s")
    case None
    then show ?thesis using Suc.prems by simp
  next
    case (Some q)
    obtain ok len data p where g: "ShmPipe_GetOneData q (word_of_nat TCP_BUF_LEN) = (ok, len, data, p)" by (metis prod_cases4)
    let ?s = "s\<lparr>sv_cs_pipe := Some p, sv_tcp_len := len, sv_tcp_buf := mem_write (sv_tcp_buf s) 0 data\<rparr>"
    let ?t = "?s\<lparr>sv_tcp_len := len - word_of_nat TCPHEAD_LEN\<rparr>"
    have i: "I ?s" "I ?t" "I (s\<lparr>sv_cs_pipe := Some p, sv_tcp_len := len\<rparr>)"
      using own_state [of s] Suc.prems by simp_all
    have post: "I t" if "Server_PostMessage_tcp h b ?t = (r, t)" for h b r t
      using that own_state [of ?t t] i(2) post_msg_more [of EN_MSG_CLIENT "enc_tcp_head h" b ?t] by (simp add: Server_PostMessage_tcp_def)
    show ?thesis
    proof (cases ok)
      case False
      then show ?thesis using Some g i(3) by simp
    next
      case True
      note IH = Suc.IH
      have g': "ShmPipe_GetOneData q (word_of_nat TCP_BUF_LEN) = (True, len, data, p)" using g True by simp
      have off: "\<exists>s'. (OnClientOffline L j ?t \<bind> client_loop L n) = Some s' \<and> I s'" for j
        using client_offline [OF i(2), of j] IH by auto
      have queue: "\<exists>s'. (case Server_PostMessage_tcp h b ?t of (False, s) \<Rightarrow> Some s | (True, s) \<Rightarrow> client_loop L n s) = Some s' \<and> I s'" for h b
        using post [of h b] IH by (cases "Server_PostMessage_tcp h b ?t") (auto split: bool.split)
      show ?thesis
        unfolding client_loop.simps(2) Some option.case g' prod.case bool.case Let_def
        using IH [OF i(1)] IH [OF i(2)] off queue by simp
    qed
  qed
qed

lemma GetClientMessage_total: "I s \<Longrightarrow> \<exists>s'. Server_GetClientMessage L s = Some s' \<and> I s'"
  by (simp add: Server_GetClientMessage_def client_loop_total)

text \<open>The main loop: as long as it runs, the property holds after each round.\<close>

lemma round_inv:
  assumes "I s" and "server_round P L s = Some (True, s')"
  shows "I s'"
proof -
  obtain s0 where f: "Server_CheckRunFlag L s = Some (True, s0)"
    and "(Server_CheckCenterConn P (update_time P s0) \<bind> (\<lambda>s. Server_GetCenterMessage P s \<bind> (\<lambda>s.
          Server_GetClientMessage L s \<bind> (\<lambda>s. Server_DispatchMessage L s \<bind> (\<lambda>s. OnRoutineCheck L s \<bind> (\<lambda>s. Some (True, s))))))) = Some (True, s')"
    using assms(2) by (auto simp: server_round_def bind_eq_Some_conv split: if_splits)
  then obtain s1 s2 s3 s4 where
    r: "Server_CheckCenterConn P (update_time P s0) = Some s1" "Server_GetCenterMessage P s1 = Some s2"
      "Server_GetClientMessage L s2 = Some s3" "Server_DispatchMessage L s3 = Some s4" "OnRoutineCheck L s4 = Some s'"
    by (auto simp: bind_eq_Some_conv)
  have "I s0"
    using f assms(1) reload [OF assms(1)] own_state by (auto simp: Server_CheckRunFlag_def bind_eq_Some_conv split: if_splits)
  moreover have "Server.Server.more (update_time P s0) = Server.Server.more s0" by (simp add: update_time_def split: prod.split)
  ultimately have "I s2" using CheckCenterConn_more [OF r(1)] GetCenterMessage_more [OF r(2)] own_state by metis
  then have "I s3" using GetClientMessage_total r(3) by fastforce
  then have "I s4" using DispatchMessage_total r(4) by fastforce
  then show ?thesis using routine_check r(5) by fastforce
qed

lemma run_inv: "I s \<Longrightarrow> Server_Run P L sigs s = Some (True, s') \<Longrightarrow> I s'"
proof (induction sigs arbitrary: s)
  case Nil
  then show ?case by simp
next
  case (Cons sig sigs)
  let ?s = "s\<lparr>sv_run_flag := or (sv_run_flag s) sig\<rparr>"
  have "I ?s" using own_state [of s ?s] Cons.prems(1) by simp
  moreover obtain s1 where s1: "server_round P L ?s = Some (True, s1)" "Server_Run P L sigs s1 = Some (True, s')"
    using Cons.prems(2) by (auto simp: bind_eq_Some_conv split: if_splits)
  ultimately show ?case using Cons.IH [OF round_inv] by blast
qed

end

end
