(* ===== verification/HallSvr.thy ===== *)
theory HallSvr
  imports MsgHandler Cipher ServerInv
begin

text \<open>
  \<^verbatim>\<open>src/hallsvr\<close>: the lobby server. Players log in with the token of the authentication server; the login handler then
  fetches the player's records, marks the player online and saves them. \<open>RSACipher\<close> is a
  further part of the state; its operations are those of \<^verbatim>\<open>include/cipher.hpp\<close>.
\<close>

record ('os, 'k) HallState = "'os LogicState" +
  hs_cipher :: "'k RSACipher"

subsection \<open>msg.cpp\<close>

definition Msg_PlayerLogout :: "lib \<Rightarrow> nat \<Rightarrow> bool \<Rightarrow> ('os, 'a) LogicState_scheme \<Rightarrow> ('os, 'a) LogicState_scheme" where
  "Msg_PlayerLogout B pp notify_cli s =
     (let imsg = inter_logout (pl_uid (ply s pp));
          s = (if notify_cli
               then (case MsgBasic_SendMsgToClient B (Player_GetTcpHead (ply s pp)) (PBCSMsg_new\<lparr>cs_msg_union := cs_response_logout\<rparr>) True s of
                       (ok, head, s) \<Rightarrow> upd_ply pp (Player_SetTcpHead head) s)
               else s)
      in s\<lparr>lg_players := snd (PlayerManager_ReleasePlayer (pl_uid (ply s pp)) (lg_players s))\<rparr>)"

definition Msg_PlayerLogout_uid :: "lib \<Rightarrow> uint64 \<Rightarrow> bool \<Rightarrow> ('os, 'a) LogicState_scheme \<Rightarrow> ('os, 'a) LogicState_scheme" where
  "Msg_PlayerLogout_uid B uid notify_cli s =
     (case PlayerManager_GetPlayer uid (lg_players s) of None \<Rightarrow> s | Some pp \<Rightarrow> Msg_PlayerLogout B pp notify_cli s)"

text \<open>The check of the token: it is decrypted, names the uid, and is not older than a day.\<close>

definition token_valid :: "'k openssl \<Rightarrow> 'k RSACipher \<Rightarrow> uint64 \<Rightarrow> byte list \<Rightarrow> uint64 \<Rightarrow> bool" where
  "token_valid R c uid strtoken now =
     (case RSACipher_DecryptWithPubKey R c strtoken of
        None \<Rightarrow> False
      | Some (sztoken, len) \<Rightarrow>
          let token = dec_auth_token (mem_read sztoken 0 SIZEOF_stAuthToken)
          in at_uid token = uid \<and> \<not> at_time token + EN_TOKEN_EXPIRE_SEC \<le> GetTime now)"

definition same_connection :: "stTcpHead \<Rightarrow> stTcpHead \<Rightarrow> bool" where
  "same_connection h k \<longleftrightarrow> th_socket_pos h = th_socket_pos k \<and> th_create_time h = th_create_time k"

text \<open>The last steps of a login: the gateway learns the uid and the player is created.\<close>

definition enter_hall :: "nat \<Rightarrow> uint64 \<Rightarrow> ('os, 'a) LogicState_scheme \<Rightarrow> bool \<times> ('os, 'a) LogicState_scheme" where
  "enter_hall pos uid s =
     (let (ok, s) = Server_NotifyTcpLogicIndex (Session_GetTcpHead (ses s pos)) uid s
      in if \<not> ok then (False, s)
         else
           let (r, pm) = PlayerManager_CreatePlayer uid (lg_players s);
               s = s\<lparr>lg_players := pm\<rparr>
           in (case r of
                 None \<Rightarrow> (False, s)
               | Some pp \<Rightarrow> (True, upd_ply pp (Player_SetTcpHead (Session_GetTcpHead (ses s pos))) s)))"

definition Msg_PlayerLogin :: "'k openssl \<Rightarrow> lib \<Rightarrow> nat \<Rightarrow> ('os, 'k, 'a) HallState_scheme \<Rightarrow> bool \<times> ('os, 'k, 'a) HallState_scheme" where
  "Msg_PlayerLogin R B pos s =
     (let cs = se_cs_msg (ses s pos);
          uid = ucast (cs_uid cs) :: uint64
      in if \<not> token_valid R (hs_cipher s) uid (get_cs_request_login (cs_msg_union cs)) (sv_cur_time s) then (False, s)
         else (case PlayerManager_GetPlayer uid (lg_players s) of
                 None \<Rightarrow> enter_hall pos uid s
               | Some pp \<Rightarrow>
                   if same_connection (Player_GetTcpHead (ply s pp)) (Session_GetTcpHead (ses s pos)) then (True, s)
                   else enter_hall pos uid (Msg_PlayerLogout B pp True s)))"

subsection \<open>The handlers\<close>

definition HandlerLogin_OnMessage :: "'k openssl \<Rightarrow> lib \<Rightarrow> nat \<Rightarrow> ('os, 'k, 'a) HallState_scheme \<Rightarrow> ENHandlerResult \<times> ('os, 'k, 'a) HallState_scheme" where
  "HandlerLogin_OnMessage R B pos s =
     (case Msg_PlayerLogin R B pos s of
        (False, s) \<Rightarrow>
          let s = upd_ses pos (\<lambda>x. x\<lparr>se_cs_response := (se_cs_response x)\<lparr>cs_msg_union :=
                    cs_response_login ((mutable_cs_response_login (cs_msg_union (se_cs_response x)))\<lparr>rsl_result := EN_MESSAGE_LOGIN_FAILED\<rparr>)\<rparr>\<rparr>) s
          in (EN_HANDLER_DONE, snd (MsgBasic_SendMsgToClient_session B pos True s))
      | (True, s) \<Rightarrow>
          let uid = ucast (cs_uid (se_cs_msg (ses s pos)))
          in (EN_HANDLER_GET, upd_ses pos (\<lambda>x. Session_AddDBGetKey uid kMoneyInfo (Session_AddDBGetKey uid kBaseInfo x)) s))"

definition login_player :: "lib \<Rightarrow> uint32 \<Rightarrow> PBDBMsg \<Rightarrow> PBDBMsg" where
  "login_player B svr_id p =
     (let p = (if \<not> bi_is_init (get_base_info p) then init_db_data B p else p);
          p = mutable_base_info B (\<lambda>b. b\<lparr>bi_is_online := True\<rparr>) p
      in mutable_base_info B (\<lambda>b. b\<lparr>bi_hallsvr_id := svr_id\<rparr>) p)"

definition HandlerLogin_OnProcessData :: "lib \<Rightarrow> nat \<Rightarrow> ('os, 'a) LogicState_scheme \<Rightarrow> ENHandlerResult \<times> ('os, 'a) LogicState_scheme" where
  "HandlerLogin_OnProcessData B pos s =
     (let s = upd_ses pos (\<lambda>x. set_db_msg (cur_proc x) (login_player B (si_svr_id (sv_info s)) (Session_GetDBMsg (cur_proc x) x)) x) s;
          money = mi_money (get_money_info (Session_GetDBMsg (cur_proc (ses s pos)) (ses s pos)));
          s = upd_ses pos (\<lambda>x. x\<lparr>se_cs_response := (se_cs_response x)\<lparr>cs_msg_union :=
                    cs_response_login ((mutable_cs_response_login (cs_msg_union (se_cs_response x)))\<lparr>rsl_result := EN_MESSAGE_OK, rsl_money := money\<rparr>)\<rparr>\<rparr>) s
      in (EN_HANDLER_SAVE, s))"

definition HandlerLogout_OnMessage :: "nat \<Rightarrow> ('os, 'a) LogicState_scheme \<Rightarrow> ENHandlerResult \<times> ('os, 'a) LogicState_scheme" where
  "HandlerLogout_OnMessage pos s =
     (let uid = ucast (cs_uid (se_cs_msg (ses s pos)))
      in (EN_HANDLER_GET, upd_ses pos (\<lambda>x. Session_AddDBGetKey uid kMoneyInfo (Session_AddDBGetKey uid kBaseInfo x)) s))"

definition HandlerLogout_OnProcessData :: "lib \<Rightarrow> nat \<Rightarrow> ('os, 'a) LogicState_scheme \<Rightarrow> ENHandlerResult \<times> ('os, 'a) LogicState_scheme" where
  "HandlerLogout_OnProcessData B pos s =
     (EN_HANDLER_SAVE,
      upd_ses pos (\<lambda>x. set_db_msg (cur_proc x)
        (mutable_base_info B (\<lambda>b. b\<lparr>bi_hallsvr_id := 0\<rparr>) (mutable_base_info B (\<lambda>b. b\<lparr>bi_is_online := False\<rparr>) (Session_GetDBMsg (cur_proc x) x))) x) s)"

definition HandlerLogout_OnSaveSuccess :: "nat \<Rightarrow> ('os, 'a) LogicState_scheme \<Rightarrow> ENHandlerResult \<times> ('os, 'a) LogicState_scheme" where
  "HandlerLogout_OnSaveSuccess pos s = (EN_HANDLER_DONE, s)"

definition HandlerLogin :: "'k openssl \<Rightarrow> lib \<Rightarrow> ('os, 'k, 'a) HallState_scheme handler" where
  "HandlerLogin R B = (basic_handler B)\<lparr>OnMessage := HandlerLogin_OnMessage R B, OnProcessData := HandlerLogin_OnProcessData B\<rparr>"

definition HandlerLogout :: "lib \<Rightarrow> ('os, 'a) LogicState_scheme handler" where
  "HandlerLogout B = (basic_handler B)\<lparr>OnMessage := HandlerLogout_OnMessage, OnProcessData := HandlerLogout_OnProcessData B,
     OnSaveSuccess := HandlerLogout_OnSaveSuccess\<rparr>"

text \<open>\<^verbatim>\<open>MsgHandlerMng::Init\<close>: the table of handlers by message id.\<close>

definition hall_handlers :: "'k openssl \<Rightarrow> lib \<Rightarrow> uint32 \<rightharpoonup> ('os, 'k, 'a) HallState_scheme handler" where
  "hall_handlers R B = [cs_msg_union_case (cs_request_login []) \<mapsto> HandlerLogin R B,
     inter_msg_union_case (inter_logout 0) \<mapsto> HandlerLogout B]"

subsection \<open>logicsvr.cpp\<close>

definition LogicSvr_OnClientMessage :: "'os posix \<Rightarrow> 'k openssl \<Rightarrow> lib \<Rightarrow> stTcpHead \<Rightarrow> stPBMsg \<Rightarrow> ('os, 'k, 'a) HallState_scheme \<Rightarrow> ('os, 'k, 'a) HallState_scheme option" where
  "LogicSvr_OnClientMessage P R B head msg s =
     (case MsgBasic_ParseMsgFromClient B msg of
        None \<Rightarrow> Some s
      | Some cs_msg \<Rightarrow>
          if \<not> has_cs_request_login (cs_msg_union cs_msg) \<and> PlayerManager_GetPlayer (ucast (cs_uid cs_msg)) (lg_players s) = None then Some s
          else (case SessionManager_CreateSession (sv_cur_time s) (cs_msg_union_case (cs_msg_union cs_msg)) (lg_sessions s) of
                  (None, sm) \<Rightarrow> Some (s\<lparr>lg_sessions := sm\<rparr>)
                | (Some pos, sm) \<Rightarrow>
                    let s = upd_ses pos (\<lambda>x. (Session_SetCSMsg cs_msg (Session_SetTcpHead head x))\<lparr>se_uid := cs_uid cs_msg, se_process_state := EN_SESSION_ON_MSG\<rparr>)
                              (s\<lparr>lg_sessions := sm\<rparr>)
                    in MsgHandlerMng_Process P B (hall_handlers R B) pos s))"

definition LogicSvr_OnClientOffline :: "lib \<Rightarrow> uint64 \<Rightarrow> ('os, 'a) LogicState_scheme \<Rightarrow> ('os, 'a) LogicState_scheme option" where
  "LogicSvr_OnClientOffline B logic_index s = Some (Msg_PlayerLogout_uid B logic_index False s)"

definition LogicSvr_OnServerMessage :: "'os posix \<Rightarrow> lib \<Rightarrow> (uint32 \<rightharpoonup> ('os, 'a) LogicState_scheme handler) \<Rightarrow> stCenterHead \<Rightarrow> stPBMsg
    \<Rightarrow> ('os, 'a) LogicState_scheme \<Rightarrow> ('os, 'a) LogicState_scheme option" where
  "LogicSvr_OnServerMessage P B handlers head msg s =
     (case MsgBasic_ParseMsgFromServer B msg of
        None \<Rightarrow> Some s
      | Some ss_msg \<Rightarrow>
          if ss_type ss_msg = SS_Request
          then (case SessionManager_CreateSession (sv_cur_time s) (ss_msg_union_case (ss_msg_union ss_msg)) (lg_sessions s) of
                  (None, sm) \<Rightarrow> Some (s\<lparr>lg_sessions := sm\<rparr>)
                | (Some pos, sm) \<Rightarrow>
                    let s = upd_ses pos (\<lambda>x. (Session_SetSSMsg ss_msg (Session_SetCenterHead head x))\<lparr>se_process_state := EN_SESSION_ON_MSG\<rparr>) (s\<lparr>lg_sessions := sm\<rparr>)
                    in MsgHandlerMng_Process P B handlers pos s)
          else (case SessionManager_GetSession (ch_session_id head) (lg_sessions s) of
                  None \<Rightarrow> Some s
                | Some pos \<Rightarrow> MsgHandlerMng_Process P B handlers pos (upd_ses pos (Session_SetSSMsg ss_msg) s)))"

definition LogicSvr_OnInteralMessage :: "'os posix \<Rightarrow> lib \<Rightarrow> (uint32 \<rightharpoonup> ('os, 'a) LogicState_scheme handler) \<Rightarrow> stPBMsg
    \<Rightarrow> ('os, 'a) LogicState_scheme \<Rightarrow> ('os, 'a) LogicState_scheme option" where
  "LogicSvr_OnInteralMessage P B handlers msg s =
     (case MsgBasic_ParseMsgFromInternal B msg of
        None \<Rightarrow> Some s
      | Some inter_msg \<Rightarrow>
          (case SessionManager_CreateSession (sv_cur_time s) (inter_msg_union_case inter_msg) (lg_sessions s) of
             (None, sm) \<Rightarrow> Some (s\<lparr>lg_sessions := sm\<rparr>)
           | (Some pos, sm) \<Rightarrow>
               let s = upd_ses pos (\<lambda>x. (Session_SetInterMsg inter_msg x)\<lparr>se_process_state := EN_SESSION_ON_MSG\<rparr>) (s\<lparr>lg_sessions := sm\<rparr>)
               in MsgHandlerMng_Process P B handlers pos s))"

definition LogicSvr_OnRoutineCheck :: "(nat set \<Rightarrow> nat list) \<Rightarrow> ('os, 'a) LogicState_scheme \<Rightarrow> ('os, 'a) LogicState_scheme option" where
  "LogicSvr_OnRoutineCheck ord s =
     (if lg_session_check s + EN_SESSION_CHECK_SEC \<le> GetTime (sv_cur_time s)
      then Some (s\<lparr>lg_session_check := GetTime (sv_cur_time s), lg_sessions := SessionManager_CheckTimeOut (sv_cur_time s) ord (lg_sessions s)\<rparr>)
      else Some s)"

definition LogicSvr_InitLogic :: "shm_os \<Rightarrow> 'k openssl \<Rightarrow> (byte list \<Rightarrow> PBSession option) \<Rightarrow> (byte list \<Rightarrow> PBPlayer option) \<Rightarrow> (nat set \<Rightarrow> nat list)
    \<Rightarrow> ('os, 'k, 'a) HallState_scheme \<Rightarrow> bool \<times> ('os, 'k, 'a) HallState_scheme" where
  "LogicSvr_InitLogic K R parse_se parse_pl ord s =
     (let (ok, c) = RSACipher_GetPubKey R ''../../config/public.key'' (hs_cipher s); s = s\<lparr>hs_cipher := c\<rparr>
      in if \<not> ok then (False, s)
      else let (ok, sm, tab) = SessionManager_Init K parse_se ord (unat (lc_max_session_num (sv_conf s))) (lc_session_shmkey (sv_conf s)) (sv_shm s);
               s = s\<lparr>lg_sessions := sm, sv_shm := tab\<rparr>
      in if \<not> ok then (False, s)
      else let (ok, pm, tab) = PlayerManager_Init K parse_pl ord (unat (lc_max_player_num (sv_conf s))) (lc_player_shmkey (sv_conf s)) (sv_shm s);
               s = s\<lparr>lg_players := pm, sv_shm := tab\<rparr>
      in (ok, s))"

text \<open>\<^verbatim>\<open>Exit\<close> hands sessions and players over through shared memory. A release that stores through a null pointer ends the
  process, which is \<open>None\<close>.\<close>

definition LogicSvr_Exit :: "shm_os \<Rightarrow> (PBSession \<Rightarrow> byte list) \<Rightarrow> (PBPlayer \<Rightarrow> byte list) \<Rightarrow> (nat set \<Rightarrow> nat list)
    \<Rightarrow> ('os, 'a) LogicState_scheme \<Rightarrow> ('os, 'a) LogicState_scheme option" where
  "LogicSvr_Exit K ser_se ser_pl ord s =
     (case SessionManager_Release K ser_se ord (lg_sessions s) (sv_shm s) of
        (NullDeref, tab) \<Rightarrow> None
      | (_, tab) \<Rightarrow>
          (case PlayerManager_Release K ser_pl ord (lg_players s) tab of
             (NullDeref, tab) \<Rightarrow> None
           | (_, tab) \<Rightarrow> Some (s\<lparr>sv_shm := tab\<rparr>)))"

definition LogicSvr_Reload :: "'s \<Rightarrow> 's option" where
  "LogicSvr_Reload s = Some s"

text \<open>The class \<^verbatim>\<open>LogicSvr\<close>: the virtual functions of the frame.\<close>

definition hall_logic :: "'os posix \<Rightarrow> shm_os \<Rightarrow> 'k openssl \<Rightarrow> lib \<Rightarrow> (PBSession \<Rightarrow> byte list) \<Rightarrow> (byte list \<Rightarrow> PBSession option)
    \<Rightarrow> (PBPlayer \<Rightarrow> byte list) \<Rightarrow> (byte list \<Rightarrow> PBPlayer option) \<Rightarrow> (nat set \<Rightarrow> nat list) \<Rightarrow> ('os, 'k, 'a) HallState_scheme logic" where
  "hall_logic P K R B ser_se parse_se ser_pl parse_pl ord =
     \<lparr>InitLogic = LogicSvr_InitLogic K R parse_se parse_pl ord, Reload = LogicSvr_Reload,
      Exit = LogicSvr_Exit K ser_se ser_pl ord, OnClientMessage = LogicSvr_OnClientMessage P R B,
      OnClientOffline = LogicSvr_OnClientOffline B, OnServerMessage = LogicSvr_OnServerMessage P B (hall_handlers R B),
      OnInteralMessage = LogicSvr_OnInteralMessage P B (hall_handlers R B), OnRoutineCheck = LogicSvr_OnRoutineCheck ord\<rparr>"

subsection \<open>Login and logout\<close>

lemma NotifyTcpLogicIndex_managers [simp]:
  fixes s :: "('os, 'a) LogicState_scheme"
  shows "lg_sessions (snd (Server_NotifyTcpLogicIndex h i s)) = lg_sessions s"
    and "lg_players (snd (Server_NotifyTcpLogicIndex h i s)) = lg_players s"
  by (simp_all add: Server_NotifyTcpLogicIndex_def)

lemma GetPlayer_uid:
  assumes "logic_inv s" and "PlayerManager_GetPlayer uid (lg_players s) = Some pp"
  shows "pl_uid (ply s pp) = uid"
proof -
  have ok: "idx_ok pl_uid (pm_base (lg_players s)) (pm_index (lg_players s))" using assms(1) by (simp add: logic_inv_def pm_inv_def)
  have "pm_index (lg_players s) uid = Some pp"
    using assms(2) by (auto simp: PlayerManager_GetPlayer_def ObjectMng_Get_def split: option.splits if_splits)
  then show ?thesis using idx_okD [OF ok] by (simp add: ply_def)
qed

lemma upd_ply_head:
  assumes "logic_inv s" and "PlayerManager_GetPlayer uid (lg_players s) = Some pp"
  shows "logic_inv (upd_ply pp (Player_SetTcpHead h) s)"
    and "pm_objs (lg_players (upd_ply pp (Player_SetTcpHead h) s)) = (pm_objs (lg_players s))(uid \<mapsto> Player_SetTcpHead h (ply s pp))"
    and "lg_sessions (upd_ply pp (Player_SetTcpHead h) s) = lg_sessions s"
    and "pl_uid (ply (upd_ply pp (Player_SetTcpHead h) s) pp) = uid"
proof -
  have inv: "pm_inv (lg_players s)" using assms(1) by (simp add: logic_inv_def)
  have u: "pl_uid (Player_SetTcpHead h (ply s pp)) = uid" using GetPlayer_uid [OF assms] by (simp add: Player_SetTcpHead_def)
  note S = pm_set_ok [OF inv assms(2) u]
  show "logic_inv (upd_ply pp (Player_SetTcpHead h) s)"
    "pm_objs (lg_players (upd_ply pp (Player_SetTcpHead h) s)) = (pm_objs (lg_players s))(uid \<mapsto> Player_SetTcpHead h (ply s pp))"
    "lg_sessions (upd_ply pp (Player_SetTcpHead h) s) = lg_sessions s"
    using S assms(1) by (simp_all add: upd_ply_def logic_inv_def)
  show "pl_uid (ply (upd_ply pp (Player_SetTcpHead h) s) pp) = uid" using u by (simp add: upd_ply_def ply_def pm_set_def)
qed

lemma PlayerLogout_ok:
  assumes "logic_inv s" and "PlayerManager_GetPlayer uid (lg_players s) = Some pp"
  shows "logic_inv (Msg_PlayerLogout B pp notify s)"
    and "pm_objs (lg_players (Msg_PlayerLogout B pp notify s)) = (pm_objs (lg_players s))(uid := None)"
    and "lg_sessions (Msg_PlayerLogout B pp notify s) = lg_sessions s"
proof -
  have rel: "logic_inv (t\<lparr>lg_players := snd (PlayerManager_ReleasePlayer uid (lg_players t))\<rparr>)
      \<and> pm_objs (snd (PlayerManager_ReleasePlayer uid (lg_players t))) = (pm_objs (lg_players t))(uid := None)" if "logic_inv t" for t :: "('a, 'b) LogicState_scheme"
    using that pm_release [of "lg_players t" uid] by (simp add: logic_inv_def)
  have "logic_inv (Msg_PlayerLogout B pp notify s) \<and> pm_objs (lg_players (Msg_PlayerLogout B pp notify s)) = (pm_objs (lg_players s))(uid := None)
      \<and> lg_sessions (Msg_PlayerLogout B pp notify s) = lg_sessions s"
  proof (cases notify)
    case False
    then show ?thesis using rel [OF assms(1)] GetPlayer_uid [OF assms] by (simp add: Msg_PlayerLogout_def Let_def)
  next
    case True
    obtain ok h t where m: "MsgBasic_SendMsgToClient B (Player_GetTcpHead (ply s pp)) (PBCSMsg_new\<lparr>cs_msg_union := cs_response_logout\<rparr>) True s = (ok, h, t)"
      by (metis prod_cases3)
    then have t: "lg_sessions t = lg_sessions s" "lg_players t = lg_players s"
      using SendMsgToClient_managers [of B "Player_GetTcpHead (ply s pp)" "PBCSMsg_new\<lparr>cs_msg_union := cs_response_logout\<rparr>" True s] by simp_all
    have "logic_inv t" "PlayerManager_GetPlayer uid (lg_players t) = Some pp" using assms t by (simp_all add: logic_inv_def)
    note U = upd_ply_head [OF this, of h]
    show ?thesis using True m rel [OF U(1)] U(2,3,4) t by (simp add: Msg_PlayerLogout_def Let_def)
  qed
  then show "logic_inv (Msg_PlayerLogout B pp notify s)"
    "pm_objs (lg_players (Msg_PlayerLogout B pp notify s)) = (pm_objs (lg_players s))(uid := None)"
    "lg_sessions (Msg_PlayerLogout B pp notify s) = lg_sessions s" by simp_all
qed

lemma CreatePlayer_None: "PlayerManager_CreatePlayer uid m = (None, m') \<Longrightarrow> m' = m"
  by (auto simp: PlayerManager_CreatePlayer_def ObjectMng_Malloc_def split: prod.splits option.splits list.splits)

lemma enter_hall_ok:
  assumes "logic_inv s" and "uid \<notin> dom (pm_objs (lg_players s))" and "enter_hall pos uid s = (ok, s')"
  shows "logic_inv s' \<and> lg_sessions s' = lg_sessions s
    \<and> (if ok then \<exists>p. pm_objs (lg_players s') = (pm_objs (lg_players s))(uid \<mapsto> p) \<and> Player_GetTcpHead p = Session_GetTcpHead (ses s pos)
       else pm_objs (lg_players s') = pm_objs (lg_players s))"
proof -
  obtain sent t where n: "Server_NotifyTcpLogicIndex (Session_GetTcpHead (ses s pos)) uid s = (sent, t)" by force
  then have t: "lg_sessions t = lg_sessions s" "lg_players t = lg_players s"
    using NotifyTcpLogicIndex_managers [of "Session_GetTcpHead (ses s pos)" uid s] by simp_all
  then have st: "ses t = ses s" by (auto intro: ses_cong)
  show ?thesis
  proof (cases sent)
    case False
    then show ?thesis using assms n t by (auto simp: enter_hall_def logic_inv_def)
  next
    case True
    obtain r pm where c: "PlayerManager_CreatePlayer uid (lg_players s) = (r, pm)" by force
    show ?thesis
    proof (cases r)
      case None
      then show ?thesis using assms n t c True CreatePlayer_None [of uid "lg_players s" pm] by (auto simp: enter_hall_def logic_inv_def)
    next
      case (Some pp)
      have "pm_inv (lg_players s)" using assms(1) by (simp add: logic_inv_def)
      note C = CreatePlayer_new [OF this assms(2), of pp pm] 
      let ?t = "t\<lparr>lg_players := pm\<rparr>"
      have "logic_inv ?t" "PlayerManager_GetPlayer uid (lg_players ?t) = Some pp"
        using C c Some assms(1) t by (simp_all add: logic_inv_def)
      note U = upd_ply_head [OF this, of "Session_GetTcpHead (ses s pos)"]
      have "(ok, s') = (True, upd_ply pp (Player_SetTcpHead (Session_GetTcpHead (ses s pos))) ?t)"
        using assms(3) n True Some c t by (auto simp: enter_hall_def ses_def)
      then show ?thesis using U C(2) c Some t by (auto simp: Player_SetTcpHead_def Player_GetTcpHead_def)
    qed
  qed
qed

lemma PlayerLogin_ok:
  assumes "logic_inv s" and "Msg_PlayerLogin R B pos s = (ok, s')" and "uid = ucast (cs_uid (se_cs_msg (ses s pos)))"
    and "v = token_valid R (hs_cipher s) uid (get_cs_request_login (cs_msg_union (se_cs_msg (ses s pos)))) (sv_cur_time s)"
  shows "logic_inv s' \<and> lg_sessions s' = lg_sessions s \<and> (\<not> v \<longrightarrow> s' = s)
    \<and> (\<forall>u. u \<noteq> uid \<longrightarrow> pm_objs (lg_players s') u = pm_objs (lg_players s) u)
    \<and> (ok \<longrightarrow> v \<and> (\<exists>p. pm_objs (lg_players s') uid = Some p \<and> same_connection (Player_GetTcpHead p) (Session_GetTcpHead (ses s pos))))"
proof -
  have inv: "pm_inv (lg_players s)" using assms(1) by (simp add: logic_inv_def)
  have same: "same_connection h h" for h by (simp add: same_connection_def)
  show ?thesis
  proof (cases "v")
    case False
    then show ?thesis using assms(1,2) by (simp add: Msg_PlayerLogin_def Let_def assms(3,4))
  next
    case True
    show ?thesis
    proof (cases "PlayerManager_GetPlayer uid (lg_players s)")
      case None
      then have "enter_hall pos uid s = (ok, s')" using assms(2) True by (simp add: Msg_PlayerLogin_def Let_def assms(3,4))
      moreover have "uid \<notin> dom (pm_objs (lg_players s))" using None players.lookup_iff [OF inv, of uid] by simp
      ultimately show ?thesis using enter_hall_ok [OF assms(1)] True same by (fastforce split: if_splits)
    next
      case (Some pp)
      note L = PlayerLogout_ok [OF assms(1) Some, of B True]
      have p: "pm_objs (lg_players s) uid = Some (ply s pp)" using players.lookup_obj [OF inv Some] by (simp add: ply_def)
      show ?thesis
      proof (cases "same_connection (Player_GetTcpHead (ply s pp)) (Session_GetTcpHead (ses s pos))")
        case same: True
        then have "(ok, s') = (True, s)" using assms(2) True Some by (simp add: Msg_PlayerLogin_def Let_def assms(3,4))
        then show ?thesis using same True p assms(1) by simp
      next
        case False
        then have e: "enter_hall pos uid (Msg_PlayerLogout B pp True s) = (ok, s')"
          using assms(2) True Some by (simp add: Msg_PlayerLogin_def Let_def assms(3,4))
        have "ses (Msg_PlayerLogout B pp True s) pos = ses s pos" using L(3) by (simp add: ses_def)
        then show ?thesis using enter_hall_ok [OF L(1) _ e] L True same by (fastforce split: if_splits)
      qed
    qed
  qed
qed

subsection \<open>The handlers keep the contract\<close>

lemma live_request_keys:
  "live pos i s \<Longrightarrow> live pos i (upd_ses pos (\<lambda>x. Session_AddDBGetKey u k (Session_AddDBGetKey u j x)) s)"
  by (rule live_upd) (simp_all add: Session_AddDBGetKey_def)

lemma HandlerLogin_OnMessage_live:
  fixes s :: "('os, 'k, 'a) HallState_scheme"
  assumes "live pos i s"
  shows "live pos i (snd (HandlerLogin_OnMessage R B pos s))"
proof -
  obtain ok t where l: "Msg_PlayerLogin R B pos s = (ok, t)" by force
  have "logic_inv s" using assms by (simp add: live_def)
  then have "logic_inv t" "lg_sessions t = lg_sessions s" using PlayerLogin_ok [OF _ l refl refl] by blast+
  then have t: "live pos i t" using assms by (simp add: live_def)
  have r: "live pos i (upd_ses pos (\<lambda>x. x\<lparr>se_cs_response := f x\<rparr>) t)" for f using t by (rule live_upd) simp
  show ?thesis
    using l live_SendMsgToClient [OF r] live_request_keys [OF t] by (cases ok) (simp_all add: HandlerLogin_OnMessage_def Let_def)
qed

lemma HandlerLogin_OnProcessData_live:
  assumes "live pos i s"
  shows "live pos i (snd (HandlerLogin_OnProcessData B pos s))"
  unfolding HandlerLogin_OnProcessData_def Let_def snd_conv
  by (intro live_upd live_set_db_msg assms) simp

lemma HandlerLogout_live:
  assumes "live pos i s"
  shows "live pos i (snd (HandlerLogout_OnMessage pos s))" and "live pos i (snd (HandlerLogout_OnProcessData B pos s))"
  using live_request_keys [OF assms] live_set_db_msg [OF assms]
  by (simp_all add: HandlerLogout_OnMessage_def HandlerLogout_OnProcessData_def Let_def)

interpretation login: direct_handler "HandlerLogin R B"
  by unfold_locales
    (simp_all add: HandlerLogin_def HandlerLogin_OnMessage_live HandlerLogin_OnProcessData_live handler_defs basic_handler_live,
     simp_all add: handler_ops HandlerLogin_OnMessage_def HandlerLogin_OnProcessData_def Let_def split: prod.split bool.split)

interpretation logout: direct_handler "HandlerLogout B"
  by unfold_locales
    (simp_all add: HandlerLogout_def HandlerLogout_live HandlerLogout_OnSaveSuccess_def handler_defs basic_handler_live,
     simp_all add: handler_ops HandlerLogout_OnMessage_def HandlerLogout_OnProcessData_def Let_def)

lemma hall_handlers_direct: "\<forall>H\<in>ran (hall_handlers R B). direct_handler H"
  using login.direct_handler_axioms logout.direct_handler_axioms by (auto simp: hall_handlers_def ran_def split: if_splits)

text \<open>The entry points of the server, for any table of such handlers.\<close>

lemma OnServerMessage_total:
  assumes "\<forall>H\<in>ran handlers. direct_handler H" and "logic_inv s"
  shows "\<exists>s'. LogicSvr_OnServerMessage P B handlers head msg s = Some s' \<and> logic_inv s'"
proof (cases "MsgBasic_ParseMsgFromServer B msg")
  case None
  then show ?thesis using assms(2) by (simp add: LogicSvr_OnServerMessage_def)
next
  case (Some m)
  show ?thesis
  proof (cases "ss_type m")
    case SS_Request
    obtain r sm where c: "SessionManager_CreateSession (sv_cur_time s) (ss_msg_union_case (ss_msg_union m)) (lg_sessions s) = (r, sm)" by force
    show ?thesis
    proof (cases r)
      case None
      then show ?thesis using Some SS_Request c no_session_inv [OF assms(2)] by (simp add: LogicSvr_OnServerMessage_def)
    next
      case (Some pos)
      obtain i where "live pos i (s\<lparr>lg_sessions := sm\<rparr>)" using new_session_live [OF assms(2)] c Some by blast
      then have "live pos i (upd_ses pos (\<lambda>x. (Session_SetSSMsg m (Session_SetCenterHead head x))\<lparr>se_process_state := EN_SESSION_ON_MSG\<rparr>) (s\<lparr>lg_sessions := sm\<rparr>))"
        by (rule live_upd) (simp add: Session_SetSSMsg_def Session_SetCenterHead_def)
      then show ?thesis
        using table_total [OF assms(1)] Some SS_Request c \<open>MsgBasic_ParseMsgFromServer B msg = Some m\<close>
        by (simp add: LogicSvr_OnServerMessage_def Let_def)
    qed
  next
    case SS_Response
    show ?thesis
    proof (cases "SessionManager_GetSession (ch_session_id head) (lg_sessions s)")
      case None
      then show ?thesis using assms(2) Some SS_Response by (simp add: LogicSvr_OnServerMessage_def)
    next
      case (Some pos)
      then have "live pos (ch_session_id head) s" using assms(2) by (simp add: live_def)
      then have "live pos (ch_session_id head) (upd_ses pos (Session_SetSSMsg m) s)" by (rule live_upd) (simp add: Session_SetSSMsg_def)
      then show ?thesis
        using table_total [OF assms(1)] Some SS_Response \<open>MsgBasic_ParseMsgFromServer B msg = Some m\<close>
        by (simp add: LogicSvr_OnServerMessage_def)
    qed
  qed
qed

lemma OnInteralMessage_total:
  assumes "\<forall>H\<in>ran handlers. direct_handler H" and "logic_inv s"
  shows "\<exists>s'. LogicSvr_OnInteralMessage P B handlers msg s = Some s' \<and> logic_inv s'"
proof (cases "MsgBasic_ParseMsgFromInternal B msg")
  case None
  then show ?thesis using assms(2) by (simp add: LogicSvr_OnInteralMessage_def)
next
  case (Some m)
  obtain r sm where c: "SessionManager_CreateSession (sv_cur_time s) (inter_msg_union_case m) (lg_sessions s) = (r, sm)" by force
  show ?thesis
  proof (cases r)
    case None
    then show ?thesis using Some c no_session_inv [OF assms(2)] by (simp add: LogicSvr_OnInteralMessage_def)
  next
    case (Some pos)
    obtain i where "live pos i (s\<lparr>lg_sessions := sm\<rparr>)" using new_session_live [OF assms(2)] c Some by blast
    then have "live pos i (upd_ses pos (\<lambda>x. (Session_SetInterMsg m x)\<lparr>se_process_state := EN_SESSION_ON_MSG\<rparr>) (s\<lparr>lg_sessions := sm\<rparr>))"
      by (rule live_upd) (simp add: Session_SetInterMsg_def)
    then show ?thesis
      using table_total [OF assms(1)] Some c \<open>MsgBasic_ParseMsgFromInternal B msg = Some m\<close>
      by (simp add: LogicSvr_OnInteralMessage_def Let_def)
  qed
qed

lemma OnClientMessage_total:
  assumes "logic_inv s"
  shows "\<exists>s'. LogicSvr_OnClientMessage P R B head msg s = Some s' \<and> logic_inv s'"
proof (cases "MsgBasic_ParseMsgFromClient B msg")
  case None
  then show ?thesis using assms by (simp add: LogicSvr_OnClientMessage_def)
next
  case (Some m)
  obtain r sm where c: "SessionManager_CreateSession (sv_cur_time s) (cs_msg_union_case (cs_msg_union m)) (lg_sessions s) = (r, sm)" by force
  show ?thesis
  proof (cases r)
    case None
    then show ?thesis using assms Some c no_session_inv [OF assms] by (simp add: LogicSvr_OnClientMessage_def)
  next
    case (Some pos)
    obtain i where "live pos i (s\<lparr>lg_sessions := sm\<rparr>)" using new_session_live [OF assms] c Some by blast
    then have l: "live pos i (upd_ses pos (\<lambda>x. (Session_SetCSMsg m (Session_SetTcpHead head x))\<lparr>se_uid := cs_uid m, se_process_state := EN_SESSION_ON_MSG\<rparr>) (s\<lparr>lg_sessions := sm\<rparr>))"
      by (rule live_upd) (simp add: Session_SetCSMsg_def Session_SetTcpHead_def)
    show ?thesis
      using table_total [OF hall_handlers_direct l, of P B R B] assms Some c \<open>MsgBasic_ParseMsgFromClient B msg = Some m\<close>
      by (simp add: LogicSvr_OnClientMessage_def Let_def)
  qed
qed

lemma OnClientOffline_total:
  assumes "logic_inv s"
  shows "\<exists>s'. LogicSvr_OnClientOffline B uid s = Some s' \<and> logic_inv s'"
  using assms PlayerLogout_ok(1) [OF assms]
  by (auto simp: LogicSvr_OnClientOffline_def Msg_PlayerLogout_uid_def split: option.split)

lemma OnRoutineCheck_total:
  assumes "logic_inv s"
  shows "\<exists>s'. LogicSvr_OnRoutineCheck ord s = Some s' \<and> logic_inv s'"
  using assms open_sessions.release_all_invar [of "lg_sessions s"]
  by (auto simp: LogicSvr_OnRoutineCheck_def logic_inv_def SessionManager_CheckTimeOut_def Let_def)

lemma logic_inv_own: "Server.Server.more s = Server.Server.more t \<Longrightarrow> logic_inv s \<Longrightarrow> logic_inv t"
  for s t :: "('os, 'a) LogicState_scheme"
  by (cases s; cases t) (simp add: logic_inv_def)

interpretation hall: server_logic "hall_logic P K R B ser_se parse_se ser_pl parse_pl ord" "logic_inv :: ('os, 'k, 'a) HallState_scheme \<Rightarrow> bool"
  by unfold_locales
    (auto simp: hall_logic_def LogicSvr_Reload_def OnClientMessage_total OnClientOffline_total OnRoutineCheck_total
      OnServerMessage_total [OF hall_handlers_direct] OnInteralMessage_total [OF hall_handlers_direct] dest: logic_inv_own)

end
