(* ===== verification/HallFlow.thy ===== *)
theory HallFlow
  imports HallSvr
begin

text \<open>
  The properties of the lobby server and of the message processing it rests on: every message is processed to an end, the managers stay
  consistent under any traffic, and a player enters only with a valid token.
\<close>

subsection \<open>An example\<close>

definition demo_ssl :: "nat openssl" where
  "demo_ssl = \<lparr>read_pubkey = (\<lambda>_. Some 1), read_privkey = (\<lambda>_. Some 0), RSA_size = (\<lambda>_. EN_MAX_RSA_TOKEN_LEN),
     RSA_private_encrypt = (\<lambda>_. Some), RSA_public_decrypt = (\<lambda>_. Some)\<rparr>"

definition demo_lib :: lib where
  "demo_lib = \<lparr>ser_cs = (\<lambda>_. [1]), parse_cs = (\<lambda>_. None), ser_ss = (\<lambda>_. [1]), parse_ss = (\<lambda>_. None), ser_inter = (\<lambda>_. [1]), parse_inter = (\<lambda>_. None),
     ser_base = (\<lambda>_. [1]), parse_base = (\<lambda>_. None), ser_money = (\<lambda>_. [1]), parse_money = (\<lambda>_. None), touch = (\<lambda>_. True), db_copy = (\<lambda>p. p),
     junk = \<lparr>ch_src_type = 0, ch_src_id = 0, ch_des_type = 0, ch_des_id = 0, ch_session_id = 0, ch_route_type = route_p2p, ch_hash_key = 0, ch_center_index = 0\<rparr>\<rparr>"

definition demo_hall :: "(nat, nat) HallState" where
  "demo_hall = Server.Server.extend (Server.Server.truncate demo_server)
     \<lparr>lg_sessions = one_session, lg_players = one_player,
      lg_timers = \<lparr>tn_base = om_fresh 2 7 (\<lambda>_. PBTimer_new), tn_index = Map.empty, tn_cur_max_id = 0\<rparr>, lg_session_check = 0,
      hs_cipher = \<lparr>pri_key = None, pub_key = Some 1\<rparr>\<rparr>"

definition demo_shm :: shm_os where
  "demo_shm = \<lparr>create_ok = (\<lambda>_. True), attach_ok = (\<lambda>_. True), rmid_ok = (\<lambda>_. True)\<rparr>"

lemma demo_hall_fields:
  "lg_sessions demo_hall = one_session" "lg_players demo_hall = one_player" "hs_cipher demo_hall = \<lparr>pri_key = None, pub_key = Some 1\<rparr>"
  by (simp_all add: demo_hall_def Server.Server.defs)

lemma demo_hall_inv: "logic_inv demo_hall"
proof -
  have "pm_inv one_player" by (auto simp: one_player_eq pm_inv_def idx_ok_def idx_full_def om_wf_def split: if_splits)
  then show ?thesis using one_session_ok(1) sn_inv_ok by (simp add: logic_inv_def demo_hall_fields)
qed

lemma demo_pair: "rsa_pair demo_ssl 0 1"
  by (simp add: rsa_pair_def demo_ssl_def)

subsection \<open>Properties\<close>

text \<open>C12. Message processing ends: whatever a handler's step returns, the loop that runs the next step of a session comes to an end, with the session
  waiting for an answer or removed, provided the handler leaves the session's list of database requests and the position in it alone.\<close>

theorem message_processing_returns:
  assumes "keeps_position H" and "length (se_db_procs (ses s pos)) < 2 ^ 64"
  shows "\<exists>s'. process_loop P B H pos r s = Some s'"
  by (rule process_loop_returns [OF assms])

theorem message_processing_returns_witness:
  "\<exists>s'. process_loop quiet_os demo_lib (HandlerLogin demo_ssl demo_lib) 1 EN_HANDLER_NEXT demo_hall = Some s'"
proof (rule message_processing_returns)
  show "keeps_position (HandlerLogin demo_ssl demo_lib :: (nat, nat, unit) HallState_scheme handler)"
    by (simp add: keeps_position_def HandlerLogin_def HandlerLogin_OnProcessData_def set_db_msg_def Let_def)
  have "se_db_procs (ses demo_hall 1) = []"
    by (simp add: ses_def demo_hall_fields one_session_eq created_session_def Session_new_def PBSession_new_def Session.defs PBSession.defs)
  then show "length (se_db_procs (ses demo_hall 1)) < 2 ^ 64" by simp
qed

text \<open>C11. The lobby server stays consistent under any traffic: dispatching the queued messages and reading the gateway's pipe always
  return, whatever the messages contain, and after them and after every round of the main loop each session is found under its id and each
  player under its uid, with no position of a pool used twice.\<close>

theorem hall_stays_consistent:
  fixes s :: "('os, 'k, 'a) HallState_scheme"
  assumes "logic_inv s"
  shows "(\<exists>s'. Server_DispatchMessage (hall_logic P K R B ser_se parse_se ser_pl parse_pl ord) s = Some s' \<and> logic_inv s')
    \<and> (\<exists>s'. Server_GetClientMessage (hall_logic P K R B ser_se parse_se ser_pl parse_pl ord) s = Some s' \<and> logic_inv s')
    \<and> (\<forall>sigs s'. Server_Run P (hall_logic P K R B ser_se parse_se ser_pl parse_pl ord) sigs s = Some (True, s') \<longrightarrow> logic_inv s')"
proof (intro conjI allI impI)
  show "\<exists>s'. Server_DispatchMessage (hall_logic P K R B ser_se parse_se ser_pl parse_pl ord) s = Some s' \<and> logic_inv s'"
    by (rule hall.DispatchMessage_total [OF assms])
  show "\<exists>s'. Server_GetClientMessage (hall_logic P K R B ser_se parse_se ser_pl parse_pl ord) s = Some s' \<and> logic_inv s'"
    by (rule hall.GetClientMessage_total [OF assms])
  show "logic_inv s'" if "Server_Run P (hall_logic P K R B ser_se parse_se ser_pl parse_pl ord) sigs s = Some (True, s')" for sigs s'
    by (rule hall.run_inv [OF assms that])
qed

theorem hall_stays_consistent_witness:
  "\<exists>s'. Server_DispatchMessage (hall_logic quiet_os demo_shm demo_ssl demo_lib (\<lambda>_. []) (\<lambda>_. None) (\<lambda>_. []) (\<lambda>_. None) sorted_list_of_set) demo_hall = Some s' \<and> logic_inv s'"
  using hall_stays_consistent [OF demo_hall_inv] by blast



text \<open>A logout is never saved: \<^verbatim>\<open>PlayerLogout\<close> prepares the internal message that would mark the player offline in the database but does not
  post it. The message queue is unchanged, so no handler runs.\<close>

lemma logout_posts_no_message:
  "sv_msg_pipe (Msg_PlayerLogout B pp notify s) = sv_msg_pipe s"
  by (simp add: Msg_PlayerLogout_def MsgBasic_SendMsgToClient_def Server_SendMessageToClient_def append_tcp_def Let_def upd_ply_def split: prod.split option.split)

end
