(* ===== verification/GameSvr.thy ===== *)
theory GameSvr
  imports HallSvr
begin

text \<open>
  \<^verbatim>\<open>src/gamesvr\<close>: the game server, a logic server whose table of message handlers is still empty. Its functions for messages of other
  servers, for internal messages and for the routine check are those of the lobby server, word for word; they are used here with the empty table.
\<close>

definition game_handlers :: "uint32 \<rightharpoonup> ('os, 'a) LogicState_scheme handler" where
  "game_handlers = Map.empty"

definition GameSvr_InitLogic :: "shm_os \<Rightarrow> (byte list \<Rightarrow> PBSession option) \<Rightarrow> (byte list \<Rightarrow> PBPlayer option) \<Rightarrow> (nat set \<Rightarrow> nat list)
    \<Rightarrow> ('os, 'a) LogicState_scheme \<Rightarrow> bool \<times> ('os, 'a) LogicState_scheme" where
  "GameSvr_InitLogic K parse_se parse_pl ord s =
     (let (ok, sm, tab) = SessionManager_Init K parse_se ord (unat (lc_max_session_num (sv_conf s))) (lc_session_shmkey (sv_conf s)) (sv_shm s);
          s = s\<lparr>lg_sessions := sm, sv_shm := tab\<rparr>
      in if \<not> ok then (False, s)
      else let (ok, pm, tab) = PlayerManager_Init K parse_pl ord (unat (lc_max_player_num (sv_conf s))) (lc_player_shmkey (sv_conf s)) (sv_shm s);
               s = s\<lparr>lg_players := pm, sv_shm := tab\<rparr>
      in (ok, s))"

definition GameSvr_Reload :: "'s \<Rightarrow> 's option" where
  "GameSvr_Reload s = Some s"

definition GameSvr_Exit :: "shm_os \<Rightarrow> (PBSession \<Rightarrow> byte list) \<Rightarrow> (PBPlayer \<Rightarrow> byte list) \<Rightarrow> (nat set \<Rightarrow> nat list)
    \<Rightarrow> ('os, 'a) LogicState_scheme \<Rightarrow> ('os, 'a) LogicState_scheme option" where
  "GameSvr_Exit K ser_se ser_pl ord s =
     (case SessionManager_Release K ser_se ord (lg_sessions s) (sv_shm s) of
        (NullDeref, tab) \<Rightarrow> None
      | (_, tab) \<Rightarrow>
          (case PlayerManager_Release K ser_pl ord (lg_players s) tab of
             (NullDeref, tab) \<Rightarrow> None
           | (_, tab) \<Rightarrow> Some (s\<lparr>sv_shm := tab\<rparr>)))"

definition GameSvr_OnClientMessage :: "'os posix \<Rightarrow> lib \<Rightarrow> stTcpHead \<Rightarrow> stPBMsg \<Rightarrow> ('os, 'a) LogicState_scheme \<Rightarrow> ('os, 'a) LogicState_scheme option" where
  "GameSvr_OnClientMessage P B head msg s =
     (case MsgBasic_ParseMsgFromClient B msg of
        None \<Rightarrow> Some s
      | Some cs_msg \<Rightarrow>
          (case SessionManager_CreateSession (sv_cur_time s) (cs_msg_union_case (cs_msg_union cs_msg)) (lg_sessions s) of
             (None, sm) \<Rightarrow> Some (s\<lparr>lg_sessions := sm\<rparr>)
           | (Some pos, sm) \<Rightarrow>
               let s = upd_ses pos (\<lambda>x. (Session_SetCSMsg cs_msg (Session_SetTcpHead head x))\<lparr>se_uid := cs_uid cs_msg, se_process_state := EN_SESSION_ON_MSG\<rparr>)
                         (s\<lparr>lg_sessions := sm\<rparr>)
               in MsgHandlerMng_Process P B game_handlers pos s))"

definition GameSvr_OnClientOffline :: "uint64 \<Rightarrow> 's \<Rightarrow> 's option" where
  "GameSvr_OnClientOffline logic_index s = Some s"

definition GameSvr_OnServerMessage :: "'os posix \<Rightarrow> lib \<Rightarrow> stCenterHead \<Rightarrow> stPBMsg \<Rightarrow> ('os, 'a) LogicState_scheme \<Rightarrow> ('os, 'a) LogicState_scheme option" where
  "GameSvr_OnServerMessage P B = LogicSvr_OnServerMessage P B game_handlers"

definition GameSvr_OnInteralMessage :: "'os posix \<Rightarrow> lib \<Rightarrow> stPBMsg \<Rightarrow> ('os, 'a) LogicState_scheme \<Rightarrow> ('os, 'a) LogicState_scheme option" where
  "GameSvr_OnInteralMessage P B = LogicSvr_OnInteralMessage P B game_handlers"

definition GameSvr_OnRoutineCheck :: "(nat set \<Rightarrow> nat list) \<Rightarrow> ('os, 'a) LogicState_scheme \<Rightarrow> ('os, 'a) LogicState_scheme option" where
  "GameSvr_OnRoutineCheck ord = LogicSvr_OnRoutineCheck ord"

definition game_logic :: "'os posix \<Rightarrow> shm_os \<Rightarrow> lib \<Rightarrow> (PBSession \<Rightarrow> byte list) \<Rightarrow> (byte list \<Rightarrow> PBSession option)
    \<Rightarrow> (PBPlayer \<Rightarrow> byte list) \<Rightarrow> (byte list \<Rightarrow> PBPlayer option) \<Rightarrow> (nat set \<Rightarrow> nat list) \<Rightarrow> ('os, 'a) LogicState_scheme logic" where
  "game_logic P K B ser_se parse_se ser_pl parse_pl ord =
     \<lparr>InitLogic = GameSvr_InitLogic K parse_se parse_pl ord, Reload = GameSvr_Reload,
      Exit = GameSvr_Exit K ser_se ser_pl ord, OnClientMessage = GameSvr_OnClientMessage P B,
      OnClientOffline = GameSvr_OnClientOffline, OnServerMessage = GameSvr_OnServerMessage P B,
      OnInteralMessage = GameSvr_OnInteralMessage P B, OnRoutineCheck = GameSvr_OnRoutineCheck ord\<rparr>"

subsection \<open>The contract of the frame\<close>

lemma game_no_handler: "MsgHandlerMng_Process P B game_handlers pos s = Some s"
  by (simp add: MsgHandlerMng_Process_def game_handlers_def)

lemma game_OnClientMessage_total:
  assumes "logic_inv s"
  shows "\<exists>s'. GameSvr_OnClientMessage P B head msg s = Some s' \<and> logic_inv s'"
proof (cases "MsgBasic_ParseMsgFromClient B msg")
  case None
  then show ?thesis using assms by (simp add: GameSvr_OnClientMessage_def)
next
  case (Some m)
  obtain r sm where c: "SessionManager_CreateSession (sv_cur_time s) (cs_msg_union_case (cs_msg_union m)) (lg_sessions s) = (r, sm)" by force
  show ?thesis
  proof (cases r)
    case None
    then show ?thesis using Some c no_session_inv [OF assms] by (simp add: GameSvr_OnClientMessage_def)
  next
    case (Some pos)
    obtain i where "live pos i (s\<lparr>lg_sessions := sm\<rparr>)" using new_session_live [OF assms] c Some by blast
    then have "live pos i (upd_ses pos (\<lambda>x. (Session_SetCSMsg m (Session_SetTcpHead head x))\<lparr>se_uid := cs_uid m, se_process_state := EN_SESSION_ON_MSG\<rparr>) (s\<lparr>lg_sessions := sm\<rparr>))"
      by (rule live_upd) (simp add: Session_SetCSMsg_def Session_SetTcpHead_def)
    then show ?thesis using Some c \<open>MsgBasic_ParseMsgFromClient B msg = Some m\<close>
      by (simp add: GameSvr_OnClientMessage_def Let_def game_no_handler live_def)
  qed
qed

lemma game_handlers_direct: "\<forall>H\<in>ran game_handlers. direct_handler H"
  by (simp add: game_handlers_def)

interpretation game: server_logic "game_logic P K B ser_se parse_se ser_pl parse_pl ord" "logic_inv :: ('os, 'a) LogicState_scheme \<Rightarrow> bool"
  by unfold_locales
    (auto simp: game_logic_def GameSvr_Reload_def GameSvr_OnClientOffline_def GameSvr_OnServerMessage_def GameSvr_OnInteralMessage_def
      GameSvr_OnRoutineCheck_def game_OnClientMessage_total OnRoutineCheck_total
      OnServerMessage_total [OF game_handlers_direct] OnInteralMessage_total [OF game_handlers_direct] dest: logic_inv_own)

end
