(* ===== verification/TcpSvr.thy ===== *)
theory TcpSvr
  imports Startup Config Framing
begin

text \<open>
  \<^verbatim>\<open>src/tcpsvr\<close>: the gateway between the clients' TCP connections and the logic server. Messages of clients go with a
  head that names the connection into the pipe \<^verbatim>\<open>cs\<close>; records of the pipe \<^verbatim>\<open>sc\<close> are sent to the connection they name.

  The receive areas of all connections are one memory \<open>ts_all_recv_buf\<close>, as \<^verbatim>\<open>_all_recv_buf\<close> is one array; a
  \<^verbatim>\<open>recv_buf\<close> pointer is an offset into it. An operation that may never return is \<open>option\<close>-valued.
\<close>

definition TS_RECV_BUF_LEN :: nat where "TS_RECV_BUF_LEN = TCPHEAD_LEN + MAX_BUF_LEN * 100"

record stSocket =
  sk_fd :: int
  sk_type :: uint32
  sk_logic_index :: uint64
  sk_recv_buf :: nat
  sk_buf_offset :: uint32
  sk_create_time :: uint64
  sk_socket_pos :: uint32
  sk_socket_port :: uint32
  sk_socket_addr :: "byte list"

record 'os TcpSvr =
  ts_conf :: PBTcpConfig
  ts_lsfd :: int
  ts_pool :: "nat \<Rightarrow> stSocket"
  ts_all_recv_buf :: mem
  ts_free_list :: "nat list"
  ts_send_buf :: mem
  ts_send_len :: uint32
  ts_epfd :: int
  ts_cs_shm :: ShareMem
  ts_cs_pipe :: ShmPipe
  ts_sc_shm :: ShareMem
  ts_sc_pipe :: ShmPipe
  ts_run_flag :: uint32
  ts_shm :: shm_tab
  ts_os :: 'os

definition ts_max :: "'os TcpSvr \<Rightarrow> nat" where
  "ts_max s = unat (tc_max_client_num (ts_conf s))"

text \<open>Changing a socket in place, and a system call.\<close>

definition ts_upd :: "nat \<Rightarrow> (stSocket \<Rightarrow> stSocket) \<Rightarrow> 'os TcpSvr \<Rightarrow> 'os TcpSvr" where
  "ts_upd pos f s = s\<lparr>ts_pool := (ts_pool s)(pos := f (ts_pool s pos))\<rparr>"

text \<open>The bytes \<^verbatim>\<open>strcpy\<close> copies from a character array.\<close>

definition c_string :: "byte list \<Rightarrow> byte list" where
  "c_string bs = takeWhile (\<lambda>b. b \<noteq> 0) bs @ [0]"

subsection \<open>The socket pool\<close>

definition TcpSvr_SocketPoolInit :: "'os TcpSvr \<Rightarrow> 'os TcpSvr" where
  "TcpSvr_SocketPoolInit s =
     s\<lparr>ts_pool := (\<lambda>pos. if pos < ts_max s
          then (ts_pool s pos)\<lparr>sk_recv_buf := pos * TS_RECV_BUF_LEN + TCPHEAD_LEN, sk_socket_pos := word_of_nat pos\<rparr> else ts_pool s pos),
       ts_free_list := ts_free_list s @ [0..<ts_max s]\<rparr>"

definition TcpSvr_SocketCreate :: "'os TcpSvr \<Rightarrow> nat option \<times> 'os TcpSvr" where
  "TcpSvr_SocketCreate s =
     (case ts_free_list s of [] \<Rightarrow> (None, s) | pos # rest \<Rightarrow> (Some pos, s\<lparr>ts_free_list := rest\<rparr>))"

definition TcpSvr_SocketGet :: "uint32 \<Rightarrow> 'os TcpSvr \<Rightarrow> nat option" where
  "TcpSvr_SocketGet pos s = (if pos \<ge> tc_max_client_num (ts_conf s) then None else Some (unat pos))"

definition TcpSvr_EpollInit :: "'os posix \<Rightarrow> 'os TcpSvr \<Rightarrow> bool \<times> 'os TcpSvr" where
  "TcpSvr_EpollInit P s =
     (case sys_epoll_create P (ts_os s) of (fd, os) \<Rightarrow> (fd \<noteq> -1, s\<lparr>ts_epfd := fd, ts_os := os\<rparr>))"

definition TcpSvr_EpollAdd :: "'os posix \<Rightarrow> int \<Rightarrow> uint32 \<Rightarrow> 'os TcpSvr \<Rightarrow> bool \<times> 'os TcpSvr" where
  "TcpSvr_EpollAdd P fd pos s =
     (case sys_epoll_add P (ts_epfd s) fd (sint pos) (ts_os s) of (ok, os) \<Rightarrow> (ok, s\<lparr>ts_os := os\<rparr>))"

definition TcpSvr_EpollDel :: "'os posix \<Rightarrow> int \<Rightarrow> 'os TcpSvr \<Rightarrow> bool \<times> 'os TcpSvr" where
  "TcpSvr_EpollDel P fd s = (case sys_epoll_del P (ts_epfd s) fd (ts_os s) of (ok, os) \<Rightarrow> (ok, s\<lparr>ts_os := os\<rparr>))"

text \<open>The record that tells the logic server of a lost connection: only the message type of the head in front of the
  receive buffer is set.\<close>

definition TcpSvr_NotifyLogicDiscon :: "stSocket \<Rightarrow> 'os TcpSvr \<Rightarrow> 'os TcpSvr" where
  "TcpSvr_NotifyLogicDiscon socket s =
     (let rb = sk_recv_buf socket;
          m = mem_write (mem_write (ts_all_recv_buf s) (rb - TCPHEAD_LEN + 32) (le32 CLI_DISCON)) rb (le64 (sk_logic_index socket))
      in s\<lparr>ts_all_recv_buf := m, ts_cs_pipe := snd (ShmPipe_AppendOneData (ts_cs_pipe s) (mem_read m (rb - TCPHEAD_LEN) (8 + TCPHEAD_LEN)))\<rparr>)"

definition cleared_socket :: "nat \<Rightarrow> stSocket" where
  "cleared_socket pos = \<lparr>sk_fd = 0, sk_type = 0, sk_logic_index = 0, sk_recv_buf = pos * TS_RECV_BUF_LEN + TCPHEAD_LEN,
     sk_buf_offset = 0, sk_create_time = 0, sk_socket_pos = word_of_nat pos, sk_socket_port = 0, sk_socket_addr = replicate 16 0\<rparr>"

definition TcpSvr_SocketRelease :: "'os posix \<Rightarrow> uint32 \<Rightarrow> bool \<Rightarrow> 'os TcpSvr \<Rightarrow> 'os TcpSvr" where
  "TcpSvr_SocketRelease P pos notify_logic s =
     (if pos \<ge> tc_max_client_num (ts_conf s) then s
      else
        let socket = ts_pool s (unat pos);
            s = s\<lparr>ts_os := sys_close P (sk_fd socket) (ts_os s)\<rparr>;
            s = snd (TcpSvr_EpollDel P (sk_fd socket) s);
            s = (if notify_logic \<and> sk_logic_index socket \<noteq> 0 then TcpSvr_NotifyLogicDiscon socket s else s)
        in s\<lparr>ts_pool := (ts_pool s)(unat pos := cleared_socket (unat pos)), ts_free_list := ts_free_list s @ [unat pos]\<rparr>)"

subsection \<open>Start-up\<close>

fun TcpSvr_ParseArgs :: "cmd_opt list \<Rightarrow> mem \<Rightarrow> mem" where
  "TcpSvr_ParseArgs [] conf = conf"
| "TcpSvr_ParseArgs (Opt_c path # os) conf = TcpSvr_ParseArgs os (mem_write conf 0 (path @ [0]))"
| "TcpSvr_ParseArgs (_ # os) conf = TcpSvr_ParseArgs os conf"

definition TcpSvr_LoadConfig :: "(string \<Rightarrow> PBTcpConfig option) \<Rightarrow> string \<Rightarrow> 'os TcpSvr \<Rightarrow> bool \<times> 'os TcpSvr" where
  "TcpSvr_LoadConfig read_conf path s =
     (case TcpConfig_Init read_conf path (ts_conf s) of (ok, conf) \<Rightarrow> (ok, s\<lparr>ts_conf := conf\<rparr>))"

text \<open>\<^verbatim>\<open>InitNetwork\<close>: with no room for a single socket, the pointer \<^verbatim>\<open>SocketCreate\<close> returns is NULL and is written through, which
  is \<open>None\<close>.\<close>

definition TcpSvr_InitNetwork :: "'os posix \<Rightarrow> 'os TcpSvr \<Rightarrow> (bool \<times> 'os TcpSvr) option" where
  "TcpSvr_InitNetwork P s =
     (case sys_socket P (ts_os s) of (fd, os) \<Rightarrow>
       let s = s\<lparr>ts_lsfd := fd, ts_os := os\<rparr>
       in if fd = -1 then Some (False, s)
       else (case set_options P 5 fd (ts_os s) of (ok, os) \<Rightarrow>
         let s = s\<lparr>ts_os := os\<rparr>
         in if \<not> ok then Some (False, s)
         else (case sys_bind P fd (tc_port (ts_conf s)) (ts_os s) of (ok, os) \<Rightarrow>
           let s = s\<lparr>ts_os := os\<rparr>
           in if \<not> ok then Some (False, s)
           else (case sys_listen P fd (ts_os s) of (ok, os) \<Rightarrow>
             let s = s\<lparr>ts_os := os\<rparr>
             in if \<not> ok then Some (False, s)
             else (case TcpSvr_SocketCreate (TcpSvr_SocketPoolInit s) of
                     (None, s) \<Rightarrow> None
                   | (Some pos, s) \<Rightarrow>
                       let s = ts_upd pos (\<lambda>x. x\<lparr>sk_type := LISTEN_SOCKET\<rparr>) s;
                           (ok, s) = TcpSvr_EpollInit P s
                       in if \<not> ok then Some (False, s)
                          else Some (TcpSvr_EpollAdd P (ts_lsfd s) (sk_socket_pos (ts_pool s pos)) s))))))"

definition TcpSvr_InitShmPipe :: "shm_os \<Rightarrow> 'os TcpSvr \<Rightarrow> bool \<times> 'os TcpSvr" where
  "TcpSvr_InitShmPipe K s =
     (let cs_key = tc_cs_shmkey (ts_conf s); sc_key = tc_sc_shmkey (ts_conf s)
      in if cs_key = 0 \<or> sc_key = 0 then (False, s)
      else
        let (cs_exist, cs_shm, tab) = create_or_attach K (ts_shm s) cs_key (SIZEOF_ShmPipe + CS_PIPE_SIZE * TCP_BUF_LEN);
            (sc_exist, sc_shm, tab) = create_or_attach K tab sc_key (SIZEOF_ShmPipe + SC_PIPE_SIZE * TCP_BUF_LEN);
            s = s\<lparr>ts_cs_shm := cs_shm, ts_sc_shm := sc_shm, ts_shm := tab\<rparr>
        in if \<not> ShareMem_IsAttached cs_shm \<or> \<not> ShareMem_IsAttached sc_shm
           then (False, s\<lparr>ts_shm := (if ShareMem_IsAttached cs_shm then snd (ShareMem_Delete K tab cs_key)
                                     else if ShareMem_IsAttached sc_shm then snd (ShareMem_Delete K tab sc_key) else tab)\<rparr>)
           else (case (ShmPipe_new (pshm_of tab cs_shm) cs_exist, ShmPipe_new (pshm_of tab sc_shm) sc_exist) of
                   (Some cs, Some sc) \<Rightarrow> (True, s\<lparr>ts_cs_pipe := cs, ts_sc_pipe := sc\<rparr>)
                 | _ \<Rightarrow> (False, s\<lparr>ts_shm := snd (ShareMem_Delete K (snd (ShareMem_Delete K tab cs_key)) sc_key)\<rparr>)))"

definition TcpSvr_Initialize :: "'os posix \<Rightarrow> shm_os \<Rightarrow> (string \<Rightarrow> PBTcpConfig option) \<Rightarrow> (mem \<Rightarrow> string) \<Rightarrow> cmd_opt list
    \<Rightarrow> 'os TcpSvr \<Rightarrow> (int \<times> 'os TcpSvr) option" where
  "TcpSvr_Initialize P K read_conf c_str opts s =
     (let (ok, s) = TcpSvr_LoadConfig read_conf (c_str (TcpSvr_ParseArgs opts mem_zero)) s
      in if \<not> ok then Some (-1, s)
      else (case TcpSvr_InitNetwork P s of
              None \<Rightarrow> None
            | Some (False, s) \<Rightarrow> Some (-2, s)
            | Some (True, s) \<Rightarrow> (case TcpSvr_InitShmPipe K s of (ok, s) \<Rightarrow> Some (if ok then 0 else -3, s))))"

subsection \<open>Input from the clients\<close>

text \<open>The head written in front of a message; the byte of \<^verbatim>\<open>need_close\<close> and the padding stay as they are.\<close>

definition put_tcp_head :: "stSocket \<Rightarrow> nat \<Rightarrow> mem \<Rightarrow> mem" where
  "put_tcp_head sk a m =
     (let m = mem_write m (a + 8) (le32 (sk_socket_pos sk));
          m = mem_write m a (le64 (sk_create_time sk));
          m = mem_write m (a + 12) (le32 (sk_socket_port sk));
          m = mem_write m (a + 32) (le32 TCP_NORMAL)
      in mem_write m (a + 16) (c_string (sk_socket_addr sk)))"

text \<open>The inner loop of \<^verbatim>\<open>RecvClientData\<close>: \<open>left\<close> bytes from \<open>tmp_recv\<close> on are unread. The first component of the result is false when
  an invalid length ends the connection.\<close>

function client_frames :: "nat \<Rightarrow> uint32 \<Rightarrow> nat \<Rightarrow> 'os TcpSvr \<Rightarrow> bool \<times> uint32 \<times> nat \<times> 'os TcpSvr" where
  "client_frames pos left tmp_recv s =
     (if left \<le> 4 then (True, left, tmp_recv, s)
      else
        let len = ntohl (un_le32 (mem_read (ts_all_recv_buf s) tmp_recv 4))
        in if unat len > MAX_BUF_LEN \<or> len < 4 then (False, left, tmp_recv, s)
           else if len > left then (True, left, tmp_recv, s)
           else
             let m = put_tcp_head (ts_pool s pos) (tmp_recv - TCPHEAD_LEN) (ts_all_recv_buf s);
                 (ok, p) = ShmPipe_AppendOneData (ts_cs_pipe s) (mem_read m (tmp_recv - TCPHEAD_LEN) (unat len + TCPHEAD_LEN));
                 s = s\<lparr>ts_all_recv_buf := m, ts_cs_pipe := p\<rparr>
             in if \<not> ok then (True, left, tmp_recv, s) else client_frames pos (left - len) (tmp_recv + unat len) s)"
  by pat_completeness auto

termination
proof (relation "measure (\<lambda>(pos, left, tmp_recv, s). unat left)")
  fix pos left tmp_recv s and len :: uint32 and m ok p and s' :: "'a TcpSvr"
  assume "\<not> (unat len > MAX_BUF_LEN \<or> len < 4)" "\<not> len > left" "\<not> left \<le> 4"
  then have "0 < unat len" "unat len \<le> unat left" by (auto simp: word_less_nat_alt word_le_nat_alt)
  then have "unat (left - len) < unat left" by (simp add: unat_sub word_le_nat_alt)
  then show "((pos, left - len, tmp_recv + unat len, s'), pos, left, tmp_recv, s) \<in> measure (\<lambda>(pos, left, tmp_recv, s). unat left)"
    by simp
qed simp

declare client_frames.simps [simp del]

definition release_at :: "'os posix \<Rightarrow> nat \<Rightarrow> 'os TcpSvr \<Rightarrow> 'os TcpSvr" where
  "release_at P pos s = TcpSvr_SocketRelease P (sk_socket_pos (ts_pool s pos)) True s"

text \<open>What follows a \<^verbatim>\<open>recv\<close> that did not fail for good: the offset advances by its result (which is -1 when there was nothing to
  read), the complete messages are forwarded and the rest moves to the front. The result is false when the connection is gone.\<close>

definition client_received :: "'os posix \<Rightarrow> nat \<Rightarrow> uint32 \<Rightarrow> 'os TcpSvr \<Rightarrow> bool \<times> 'os TcpSvr" where
  "client_received P pos recv_len s =
     (let s = ts_upd pos (\<lambda>x. x\<lparr>sk_buf_offset := sk_buf_offset x + recv_len\<rparr>) s;
          off = sk_buf_offset (ts_pool s pos);
          rb = sk_recv_buf (ts_pool s pos);
          (valid, left, tmp_recv, s) = client_frames pos off rb s
      in if \<not> valid then (False, release_at P pos s)
         else if left \<noteq> off
         then (True, ts_upd pos (\<lambda>x. x\<lparr>sk_buf_offset := left\<rparr>)
                 (s\<lparr>ts_all_recv_buf := mem_write (ts_all_recv_buf s) rb (mem_read (ts_all_recv_buf s) tmp_recv (unat left))\<rparr>))
         else (True, s))"

partial_function (option) TcpSvr_RecvClientData :: "'os posix \<Rightarrow> nat \<Rightarrow> 'os TcpSvr \<Rightarrow> 'os TcpSvr option" where
  "TcpSvr_RecvClientData P pos s =
     (let sk = ts_pool s pos
      in if TS_RECV_BUF_LEN - TCPHEAD_LEN = unat (sk_buf_offset sk) then Some s
         else (case posix_recv P (sk_fd sk) (unat (word_of_nat (TS_RECV_BUF_LEN - TCPHEAD_LEN) - ucast (sk_buf_offset sk) :: uint64)) (ts_os s) of
                 (RecvOk bs, os) \<Rightarrow>
                   let s = s\<lparr>ts_os := os, ts_all_recv_buf := mem_write (ts_all_recv_buf s) (sk_recv_buf sk + unat (sk_buf_offset sk)) bs\<rparr>
                   in if bs = [] then Some (release_at P pos s)
                      else (case client_received P pos (word_of_nat (length bs)) s of
                              (alive, s) \<Rightarrow> if \<not> alive then Some s else TcpSvr_RecvClientData P pos s)
               | (RecvErr e, os) \<Rightarrow>
                   let s = s\<lparr>ts_os := os\<rparr>
                   in if \<not> try_again e then Some (release_at P pos s) else Some (snd (client_received P pos (-1) s))))"

definition TcpSvr_AcceptConnect :: "'os posix \<Rightarrow> 'os TcpSvr \<Rightarrow> 'os TcpSvr" where
  "TcpSvr_AcceptConnect P s =
     (case TcpSvr_SocketCreate s of
        (None, s) \<Rightarrow> s
      | (Some pos, s) \<Rightarrow>
          (case sys_accept P (ts_lsfd s) (ts_os s) of ((clifd, port, addr), os) \<Rightarrow>
            let s = s\<lparr>ts_os := os\<rparr>
            in if clifd = -1 then release_at P pos s
            else (case sys_fcntl_getfl P clifd (ts_os s) of (ok, os) \<Rightarrow>
              let s = s\<lparr>ts_os := os\<rparr>
              in if \<not> ok then release_at P pos s
              else (case sys_fcntl_nonblock P clifd (ts_os s) of (ok, os) \<Rightarrow>
                let s = s\<lparr>ts_os := os\<rparr>
                in if \<not> ok then release_at P pos s
                else (case TcpSvr_EpollAdd P clifd (sk_socket_pos (ts_pool s pos)) s of (ok, s) \<Rightarrow>
                  if \<not> ok then release_at P pos s
                  else (case sys_gettimeofday P (ts_os s) of ((sec, usec), os) \<Rightarrow>
                    ts_upd pos (\<lambda>x. x\<lparr>sk_fd := clifd, sk_type := CLINET_SOCKET, sk_create_time := ucast sec * 1000 + ucast (usec div 1000),
                        sk_logic_index := 0, sk_buf_offset := 0, sk_socket_port := port,
                        sk_socket_addr := c_string addr @ drop (length (c_string addr)) (sk_socket_addr x)\<rparr>) (s\<lparr>ts_os := os\<rparr>)))))))"

fun net_events :: "'os posix \<Rightarrow> ep_event list \<Rightarrow> 'os TcpSvr \<Rightarrow> 'os TcpSvr option" where
  "net_events P [] s = Some s"
| "net_events P (e # es) s =
     (let pos = word_of_int (ev_data e)
      in case TcpSvr_SocketGet pos s of
           None \<Rightarrow> net_events P es s
         | Some i \<Rightarrow>
             if ev_err e then net_events P es (TcpSvr_SocketRelease P pos True s)
             else if \<not> ev_in e then net_events P es s
             else if sk_type (ts_pool s i) = LISTEN_SOCKET then net_events P es (TcpSvr_AcceptConnect P s)
             else (case TcpSvr_RecvClientData P i s of None \<Rightarrow> None | Some s \<Rightarrow> net_events P es s))"

definition TcpSvr_DealNetwork :: "'os posix \<Rightarrow> 'os TcpSvr \<Rightarrow> 'os TcpSvr option" where
  "TcpSvr_DealNetwork P s =
     (case sys_epoll_wait P (ts_epfd s) (ts_max s) (ts_os s) of
        (None, os) \<Rightarrow> Some (s\<lparr>ts_os := os\<rparr>)
      | (Some es, os) \<Rightarrow> net_events P es (s\<lparr>ts_os := os\<rparr>))"

subsection \<open>Output to the clients\<close>

partial_function (option) send_to_client :: "'os posix \<Rightarrow> nat \<Rightarrow> bool \<Rightarrow> byte list \<Rightarrow> 'os TcpSvr \<Rightarrow> 'os TcpSvr option" where
  "send_to_client P pos need_close bs s =
     (case posix_send P (sk_fd (ts_pool s pos)) bs (ts_os s) of
        (SendErr e, os) \<Rightarrow>
          let s = s\<lparr>ts_os := os\<rparr>
          in if try_again e then send_to_client P pos need_close bs s else Some (release_at P pos s)
      | (SendOk n, os) \<Rightarrow>
          let s = s\<lparr>ts_os := os\<rparr>
          in Some (if need_close then TcpSvr_SocketRelease P (sk_socket_pos (ts_pool s pos)) False s else s))"

definition TcpSvr_SendDataToClient :: "'os posix \<Rightarrow> 'os TcpSvr \<Rightarrow> 'os TcpSvr option" where
  "TcpSvr_SendDataToClient P s =
     (let head = dec_tcp_head (mem_read (ts_send_buf s) 0 TCPHEAD_LEN)
      in case TcpSvr_SocketGet (th_socket_pos head) s of
           None \<Rightarrow> Some s
         | Some pos \<Rightarrow>
             if th_create_time head \<noteq> sk_create_time (ts_pool s pos) then Some s
             else
               let s = s\<lparr>ts_send_len := ts_send_len s - word_of_nat TCPHEAD_LEN\<rparr>
               in if th_msg_type head = LOGIC_INDEX
                  then Some (if ts_send_len s = 8
                             then ts_upd pos (\<lambda>x. x\<lparr>sk_logic_index := un_le64 (mem_read (ts_send_buf s) TCPHEAD_LEN 8)\<rparr>) s else s)
                  else send_to_client P pos (th_need_close head) (mem_read (ts_send_buf s) TCPHEAD_LEN (unat (ts_send_len s))) s)"

fun send_loop :: "'os posix \<Rightarrow> nat \<Rightarrow> 'os TcpSvr \<Rightarrow> 'os TcpSvr option" where
  "send_loop P 0 s = Some s"
| "send_loop P (Suc n) s =
     (case ShmPipe_GetOneData (ts_sc_pipe s) (word_of_nat TCP_BUF_LEN) of
        (False, len, _, p) \<Rightarrow> Some (s\<lparr>ts_sc_pipe := p, ts_send_len := len\<rparr>)
      | (True, len, data, p) \<Rightarrow>
          (case TcpSvr_SendDataToClient P (s\<lparr>ts_sc_pipe := p, ts_send_len := len, ts_send_buf := mem_write (ts_send_buf s) 0 data\<rparr>) of
             None \<Rightarrow> None
           | Some s \<Rightarrow> send_loop P n s))"

definition TcpSvr_SendClientData :: "'os posix \<Rightarrow> 'os TcpSvr \<Rightarrow> 'os TcpSvr option" where
  "TcpSvr_SendClientData P s = send_loop P 512 s"

subsection \<open>The main loop\<close>

definition TcpSvr_CheckRunFlag :: "'os TcpSvr \<Rightarrow> bool \<times> 'os TcpSvr" where
  "TcpSvr_CheckRunFlag s =
     (if and (ts_run_flag s) 1 \<noteq> 0
      then (False, s\<lparr>ts_cs_shm := ShareMem_Detach (ts_cs_shm s), ts_sc_shm := ShareMem_Detach (ts_sc_shm s)\<rparr>) else (True, s))"

text \<open>\<^verbatim>\<open>Run\<close>, as long as it is observed: \<open>sigs\<close> lists, round by round, the flags the signal handler has raised.\<close>

fun TcpSvr_Run :: "'os posix \<Rightarrow> uint32 list \<Rightarrow> 'os TcpSvr \<Rightarrow> (bool \<times> 'os TcpSvr) option" where
  "TcpSvr_Run P [] s = Some (True, s)"
| "TcpSvr_Run P (sig # sigs) s =
     (case TcpSvr_CheckRunFlag (s\<lparr>ts_run_flag := or (ts_run_flag s) sig\<rparr>) of
        (False, s) \<Rightarrow> Some (False, s)
      | (True, s) \<Rightarrow>
          (case TcpSvr_DealNetwork P s of
             None \<Rightarrow> None
           | Some s \<Rightarrow> (case TcpSvr_SendClientData P s of None \<Rightarrow> None | Some s \<Rightarrow> TcpSvr_Run P sigs s)))"

subsection \<open>The head in front of a message\<close>

definition addr_ok :: "stSocket \<Rightarrow> bool" where
  "addr_ok sk \<longleftrightarrow> length (c_string (sk_socket_addr sk)) \<le> 16"

text \<open>The 40 bytes name the connection and mark a normal message.\<close>

definition head_of :: "stSocket \<Rightarrow> byte list \<Rightarrow> bool" where
  "head_of sk h \<longleftrightarrow> length h = TCPHEAD_LEN \<and> th_create_time (dec_tcp_head h) = sk_create_time sk
     \<and> th_socket_pos (dec_tcp_head h) = sk_socket_pos sk \<and> th_socket_port (dec_tcp_head h) = sk_socket_port sk
     \<and> th_msg_type (dec_tcp_head h) = TCP_NORMAL"

lemma put_tcp_head_above:
  assumes "addr_ok sk" and "a + 40 \<le> i"
  shows "put_tcp_head sk a m i = m i"
  using assms by (simp add: put_tcp_head_def addr_ok_def Let_def)

lemma put_tcp_head_below: "i < a \<Longrightarrow> put_tcp_head sk a m i = m i"
  by (simp add: put_tcp_head_def Let_def)

lemma put_tcp_head_read:
  assumes "addr_ok sk"
  shows "head_of sk (mem_read (put_tcp_head sk a m) a 40)"
  using assms
  by (simp add: head_of_def put_tcp_head_def addr_ok_def Let_def dec_tcp_head_def layout_simps mem_read_write_disjoint)

lemma put_tcp_head_message:
  assumes "addr_ok sk"
  shows "\<exists>h. head_of sk h \<and> mem_read (put_tcp_head sk a m) a (n + 40) = h @ mem_read m (a + 40) n"
proof -
  have "mem_read (put_tcp_head sk a m) (a + 40) n = mem_read m (a + 40) n"
    by (rule mem_read_cong) (use put_tcp_head_above [OF assms] in simp)
  then show ?thesis
    using put_tcp_head_read [OF assms] mem_read_append [of "put_tcp_head sk a m" a 40 n] by (auto simp: add.commute)
qed

subsection \<open>Cutting messages\<close>

definition be32 :: "byte list \<Rightarrow> uint32" where
  "be32 bs = ntohl (un_le32 bs)"

lemma be32_rev: "length bs = 4 \<Longrightarrow> be32 bs = un_le32 (rev bs)"
  by (simp add: be32_def ntohl_def)

text \<open>The messages with their heads, as they are put into the pipe.\<close>

definition records_for :: "stSocket \<Rightarrow> byte list list \<Rightarrow> byte list list \<Rightarrow> bool" where
  "records_for sk fs recs \<longleftrightarrow> list_all2 (\<lambda>f r. \<exists>h. head_of sk h \<and> r = h @ f) fs recs"

lemma client_frames_step:
  assumes "addr_ok (ts_pool s pos)" and "pipe_holds (ts_cs_pipe s) ms" and "frame_ok be32 MAX_BUF_LEN f"
    and "mem_read (ts_all_recv_buf s) tmp (length f) = f" and "40 \<le> tmp" and "length f \<le> unat left"
    and "frames_len ms + length f + 44 \<le> unat (sp_size (ts_cs_pipe s)) - 1"
  obtains h p where "head_of (ts_pool s pos) h" "pipe_holds p (ms @ [h @ f])" "sp_size p = sp_size (ts_cs_pipe s)"
    "client_frames pos left tmp s = client_frames pos (left - word_of_nat (length f)) (tmp + length f)
       (s\<lparr>ts_all_recv_buf := put_tcp_head (ts_pool s pos) (tmp - 40) (ts_all_recv_buf s), ts_cs_pipe := p\<rparr>)"
proof -
  let ?m = "put_tcp_head (ts_pool s pos) (tmp - 40) (ts_all_recv_buf s)"
  have fl: "4 < length f" "length f \<le> 4096" "unat (be32 (take 4 f)) = length f"
    using assms(3) by (simp_all add: frame_ok_def layout_simps)
  have hd: "mem_read (ts_all_recv_buf s) tmp 4 = take 4 f"
    using assms(4) fl(1) take_mem_read [of 4 "ts_all_recv_buf s" tmp "length f"] by simp
  define len where "len = ntohl (un_le32 (mem_read (ts_all_recv_buf s) tmp 4))"
  have len: "unat len = length f" using fl(3) by (simp add: len_def hd be32_def)
  then have lw: "len = word_of_nat (length f)" using fl(2) by (simp add: word_unat_eq_iff unat_of_nat32)
  obtain h where h: "head_of (ts_pool s pos) h" "mem_read ?m (tmp - 40) (length f + 40) = h @ f"
    using put_tcp_head_message [OF assms(1), of "tmp - 40" "ts_all_recv_buf s" "length f"] assms(4,5) by auto
  have hl: "length (h @ f) = length f + 40" using h(1) by (simp add: head_of_def layout_simps)
  have "frames_len ms + length (h @ f) + 4 \<le> unat (sp_size (ts_cs_pipe s)) - 1" unfolding hl using assms(7) by simp
  from pipe_holds_append [OF assms(2) this] obtain p where
    p: "ShmPipe_AppendOneData (ts_cs_pipe s) (h @ f) = (True, p)" "pipe_holds p (ms @ [h @ f])" "sp_size p = sp_size (ts_cs_pipe s)"
    by blast
  have c: "\<not> left \<le> 4" "\<not> (unat len > MAX_BUF_LEN \<or> len < 4)" "\<not> len > left"
    using fl(1,2) len assms(6) by (auto simp: word_le_nat_alt word_less_nat_alt layout_simps)
  have "client_frames pos left tmp s = client_frames pos (left - len) (tmp + length f) (s\<lparr>ts_all_recv_buf := ?m, ts_cs_pipe := p\<rparr>)"
    using c p(1) h(2) by (subst client_frames.simps) (simp add: Let_def len_def [symmetric] len TCPHEAD_LEN_def)
  then show ?thesis using that [OF h(1) p(2,3)] unfolding lw by blast
qed

lemma client_frames_stop:
  assumes "frame_partial be32 MAX_BUF_LEN p" and "mem_read (ts_all_recv_buf s) tmp (unat left) = p"
  shows "client_frames pos left tmp s = (True, left, tmp, s)"
proof (cases "left \<le> 4")
  case True
  then show ?thesis by (subst client_frames.simps) simp
next
  case False
  obtain f k where f: "frame_ok be32 MAX_BUF_LEN f" "k < length f" "p = take k f" using assms(1) by (auto simp: frame_partial_def)
  have k: "unat left = k" using assms(2) f(2,3) by (metis length_mem_read length_take less_imp_le min.absorb2)
  have "4 < k" using False k by (simp add: word_le_nat_alt)
  then have "mem_read (ts_all_recv_buf s) tmp 4 = take 4 f"
    using assms(2) f(3) k take_mem_read [of 4 "ts_all_recv_buf s" tmp "unat left"] by (simp add: min_def)
  then have len: "unat (ntohl (un_le32 (mem_read (ts_all_recv_buf s) tmp 4))) = length f"
    using f(1) by (simp add: frame_ok_def be32_def)
  then have "\<not> ntohl (un_le32 (mem_read (ts_all_recv_buf s) tmp 4)) < 4" "ntohl (un_le32 (mem_read (ts_all_recv_buf s) tmp 4)) > left"
    using f(1,2) k by (simp_all add: word_less_nat_alt frame_ok_def)
  then show ?thesis
    using False len f(1) by (subst client_frames.simps) (simp add: Let_def frame_ok_def)
qed

definition forward_len :: "byte list list \<Rightarrow> nat" where
  "forward_len fs = sum_list (map (\<lambda>f. length f + 44) fs)"

lemma client_frames_all:
  assumes "addr_ok (ts_pool s pos)" and "pipe_holds (ts_cs_pipe s) ms" and "\<forall>f\<in>set fs. frame_ok be32 MAX_BUF_LEN f"
    and "frame_partial be32 MAX_BUF_LEN p" and "mem_read (ts_all_recv_buf s) tmp (unat left) = concat fs @ p" and "40 \<le> tmp"
    and "frames_len ms + forward_len fs \<le> unat (sp_size (ts_cs_pipe s)) - 1"
  shows "\<exists>recs m q. client_frames pos left tmp s
      = (True, word_of_nat (length p), tmp + length (concat fs), s\<lparr>ts_all_recv_buf := m, ts_cs_pipe := q\<rparr>)
    \<and> records_for (ts_pool s pos) fs recs \<and> pipe_holds q (ms @ recs) \<and> mem_read m (tmp + length (concat fs)) (length p) = p
    \<and> (\<forall>i. i < tmp - 40 \<or> tmp + length (concat fs) \<le> i \<longrightarrow> m i = ts_all_recv_buf s i)"
  using assms
proof (induction fs arbitrary: ms tmp left s)
  case Nil
  have u: "unat left = length p" using Nil.prems(5) by (metis append_Nil concat.simps(1) length_mem_read)
  then have l: "left = word_of_nat (length p)" using unat_le_max32 [of left] by (simp add: word_unat_eq_iff unat_of_nat32)
  have r: "mem_read (ts_all_recv_buf s) tmp (length p) = p" using Nil.prems(5) u by simp
  have "client_frames pos left tmp s = (True, left, tmp, s)"
    by (rule client_frames_stop [OF Nil.prems(4)]) (use r u in simp)
  then have "client_frames pos left tmp s = (True, word_of_nat (length p), tmp, s)" by (simp only: l)
  then show ?case using Nil.prems(2) r
    by (intro exI [of _ "[]"] exI [of _ "ts_all_recv_buf s"] exI [of _ "ts_cs_pipe s"]) (simp add: records_for_def)
next
  case (Cons f fs)
  have len: "unat left = length f + length (concat fs @ p)" using Cons.prems(5) by (metis append.assoc concat.simps(2) length_append length_mem_read)
  have parts: "mem_read (ts_all_recv_buf s) tmp (length f) = f"
      "mem_read (ts_all_recv_buf s) (tmp + length f) (length (concat fs @ p)) = concat fs @ p"
    using Cons.prems(5) mem_read_append [of "ts_all_recv_buf s" tmp "length f" "length (concat fs @ p)"] by (simp_all add: len)
  have fok: "frame_ok be32 MAX_BUF_LEN f" "\<forall>f\<in>set fs. frame_ok be32 MAX_BUF_LEN f" using Cons.prems(3) by simp_all
  have room: "frames_len ms + length f + 44 \<le> unat (sp_size (ts_cs_pipe s)) - 1" using Cons.prems(7) by (simp add: forward_len_def)
  obtain h q where step: "head_of (ts_pool s pos) h" "pipe_holds q (ms @ [h @ f])" "sp_size q = sp_size (ts_cs_pipe s)"
    "client_frames pos left tmp s = client_frames pos (left - word_of_nat (length f)) (tmp + length f)
       (s\<lparr>ts_all_recv_buf := put_tcp_head (ts_pool s pos) (tmp - 40) (ts_all_recv_buf s), ts_cs_pipe := q\<rparr>)"
    using client_frames_step [OF Cons.prems(1,2) fok(1) parts(1) Cons.prems(6) _ room, of left] len by auto
  let ?s = "s\<lparr>ts_all_recv_buf := put_tcp_head (ts_pool s pos) (tmp - 40) (ts_all_recv_buf s), ts_cs_pipe := q\<rparr>"
  have fl: "length f < 2 ^ 32" using fok(1) by (simp add: frame_ok_def layout_simps)
  have u: "unat (left - word_of_nat (length f)) = length (concat fs @ p)"
    using len fl by (simp add: unat_sub word_le_nat_alt unat_of_nat32)
  have "mem_read (ts_all_recv_buf ?s) (tmp + length f) (length (concat fs @ p)) = mem_read (ts_all_recv_buf s) (tmp + length f) (length (concat fs @ p))"
    by (rule mem_read_cong) (use put_tcp_head_above [OF Cons.prems(1)] Cons.prems(6) in simp)
  then have "mem_read (ts_all_recv_buf ?s) (tmp + length f) (unat (left - word_of_nat (length f))) = concat fs @ p"
    using parts(2) u by simp
  moreover have "frames_len (ms @ [h @ f]) + forward_len fs \<le> unat (sp_size (ts_cs_pipe ?s)) - 1"
    using Cons.prems(7) step(1,3) by (simp add: forward_len_def head_of_def layout_simps)
  ultimately obtain recs m q' where IH: "client_frames pos (left - word_of_nat (length f)) (tmp + length f) ?s
      = (True, word_of_nat (length p), tmp + length f + length (concat fs), ?s\<lparr>ts_all_recv_buf := m, ts_cs_pipe := q'\<rparr>)"
    "records_for (ts_pool s pos) fs recs" "pipe_holds q' ((ms @ [h @ f]) @ recs)" "mem_read m (tmp + length f + length (concat fs)) (length p) = p"
    "\<forall>i. i < tmp + length f - 40 \<or> tmp + length f + length (concat fs) \<le> i \<longrightarrow> m i = put_tcp_head (ts_pool s pos) (tmp - 40) (ts_all_recv_buf s) i"
    using Cons.IH [of ?s "ms @ [h @ f]" "tmp + length f" "left - word_of_nat (length f)"] Cons.prems(1,4,6) fok(2) step(2) by auto
  have "m i = ts_all_recv_buf s i" if "i < tmp - 40 \<or> tmp + length (concat (f # fs)) \<le> i" for i
    using that IH(5) put_tcp_head_below [of i "tmp - 40"] put_tcp_head_above [OF Cons.prems(1), of "tmp - 40" i] Cons.prems(6) by auto
  then show ?case
    using IH(1-4) step(1,4)
    by (intro exI [of _ "(h @ f) # recs"] exI [of _ m] exI [of _ q']) (auto simp: records_for_def add.assoc)
qed

text \<open>Whatever is cut, the pipe only grows at its end.\<close>

lemma append_more:
  assumes "pipe_holds p ms" and "length m < 2 ^ 32" and "ShmPipe_AppendOneData p m = (ok, q)"
  shows "\<exists>more. pipe_holds q (ms @ more)"
proof (cases "frames_len ms + length m + 4 \<le> unat (sp_size p) - 1")
  case True
  then show ?thesis using pipe.put_refines [OF assms(1,2)] assms(3) by (auto simp: aq_put_def)
next
  case False
  then have "pipe_holds q (ms @ [])" using pipe.put_refines [OF assms(1,2)] assms(3) by (auto simp: aq_put_def)
  then show ?thesis by blast
qed

lemma client_frames_more:
  "pipe_holds (ts_cs_pipe s) ms \<Longrightarrow> client_frames pos left tmp s = (v, l, t, s') \<Longrightarrow> \<exists>more. pipe_holds (ts_cs_pipe s') (ms @ more)"
proof (induction pos left tmp s arbitrary: ms rule: client_frames.induct)
  case (1 pos left tmp s)
  define len where "len = ntohl (un_le32 (mem_read (ts_all_recv_buf s) tmp 4))"
  define m where "m = put_tcp_head (ts_pool s pos) (tmp - TCPHEAD_LEN) (ts_all_recv_buf s)"
  obtain ok p where a: "ShmPipe_AppendOneData (ts_cs_pipe s) (mem_read m (tmp - TCPHEAD_LEN) (unat len + TCPHEAD_LEN)) = (ok, p)" by force
  show ?case
  proof (cases "left \<le> 4 \<or> unat len > MAX_BUF_LEN \<or> len < 4 \<or> len > left")
    case True
    then have "s' = s" using "1.prems"(2) by (subst (asm) client_frames.simps) (auto simp: Let_def len_def split: if_splits)
    then show ?thesis using "1.prems"(1) by (intro exI [of _ "[]"]) simp
  next
    case False
    then have "length (mem_read m (tmp - TCPHEAD_LEN) (unat len + TCPHEAD_LEN)) < 2 ^ 32" by (simp add: layout_simps)
    from append_more [OF "1.prems"(1) this a] obtain xs where xs: "pipe_holds p (ms @ xs)" by blast
    show ?thesis
    proof (cases ok)
      case ok: False
      then have "s' = s\<lparr>ts_all_recv_buf := m, ts_cs_pipe := p\<rparr>"
        using "1.prems"(2) False a by (subst (asm) client_frames.simps) (auto simp add: Let_def len_def m_def)
      then show ?thesis using xs by auto
    next
      case True
      then have "client_frames pos (left - len) (tmp + unat len) (s\<lparr>ts_all_recv_buf := m, ts_cs_pipe := p\<rparr>) = (v, l, t, s')"
        using "1.prems"(2) False a by (subst (asm) client_frames.simps) (simp add: Let_def len_def m_def)
      from "1.IH" [OF _ len_def _ _ m_def a [symmetric] refl refl _ _ this, of "ms @ xs"] show ?thesis
        using False True xs by auto
    qed
  qed
qed

lemma release_more:
  assumes "pipe_holds (ts_cs_pipe s) ms"
  shows "\<exists>more. pipe_holds (ts_cs_pipe (TcpSvr_SocketRelease P pos notify s)) (ms @ more)"
proof -
  have n: "\<exists>more. pipe_holds (ts_cs_pipe (TcpSvr_NotifyLogicDiscon sk (s\<lparr>ts_os := os\<rparr>))) (ms @ more)" for sk os
    using append_more [OF assms _ surjective_pairing]
    by (simp add: TcpSvr_NotifyLogicDiscon_def Let_def layout_simps)
  have "\<exists>more. pipe_holds (ts_cs_pipe s) (ms @ more)" using assms by (intro exI [of _ "[]"]) simp
  then show ?thesis
    using n by (auto simp: TcpSvr_SocketRelease_def TcpSvr_EpollDel_def Let_def split: prod.split)
qed

lemma client_received_more:
  assumes "pipe_holds (ts_cs_pipe s) ms"
  shows "\<exists>more. pipe_holds (ts_cs_pipe (snd (client_received P pos n s))) (ms @ more)"
proof -
  let ?s = "ts_upd pos (\<lambda>x. x\<lparr>sk_buf_offset := sk_buf_offset x + n\<rparr>) s"
  obtain v l t s' where c: "client_frames pos (sk_buf_offset (ts_pool ?s pos)) (sk_recv_buf (ts_pool ?s pos)) ?s = (v, l, t, s')" by (rule prod_cases4)
  have "pipe_holds (ts_cs_pipe ?s) ms" using assms by (simp add: ts_upd_def)
  from client_frames_more [OF this c] obtain xs where xs: "pipe_holds (ts_cs_pipe s') (ms @ xs)" by blast
  from release_more [OF this, of P "sk_socket_pos (ts_pool s' pos)" True] obtain ys
    where "pipe_holds (ts_cs_pipe (release_at P pos s')) (ms @ (xs @ ys))" by (auto simp: release_at_def)
  moreover have "snd (client_received P pos n s) = release_at P pos s' \<or> ts_cs_pipe (snd (client_received P pos n s)) = ts_cs_pipe s'"
    unfolding client_received_def Let_def c by (simp add: ts_upd_def)
  ultimately show ?thesis using xs by metis
qed

subsection \<open>The table of sockets\<close>

text \<open>No position is free twice, and every position has its own receive area.\<close>

definition ts_wf :: "'os TcpSvr \<Rightarrow> bool" where
  "ts_wf s \<longleftrightarrow> distinct (ts_free_list s) \<and> (\<forall>p\<in>set (ts_free_list s). p < ts_max s)
     \<and> (\<forall>p<ts_max s. sk_recv_buf (ts_pool s p) = p * TS_RECV_BUF_LEN + TCPHEAD_LEN \<and> sk_socket_pos (ts_pool s p) = word_of_nat p)"

lemma ts_max_bound: "ts_max s < 2 ^ 32"
  using unat_le_max32 [of "tc_max_client_num (ts_conf s)"] by (simp add: ts_max_def)

lemma client_frames_state:
  "client_frames pos left tmp s = (v, l, t, s') \<Longrightarrow> \<exists>m q. s' = s\<lparr>ts_all_recv_buf := m, ts_cs_pipe := q\<rparr>"
proof (induction pos left tmp s rule: client_frames.induct)
  case (1 pos left tmp s)
  define len where "len = ntohl (un_le32 (mem_read (ts_all_recv_buf s) tmp 4))"
  define m where "m = put_tcp_head (ts_pool s pos) (tmp - TCPHEAD_LEN) (ts_all_recv_buf s)"
  obtain ok p where a: "ShmPipe_AppendOneData (ts_cs_pipe s) (mem_read m (tmp - TCPHEAD_LEN) (unat len + TCPHEAD_LEN)) = (ok, p)" by force
  have same: "\<exists>m q. s = s\<lparr>ts_all_recv_buf := m, ts_cs_pipe := q\<rparr>"
    by (intro exI [of _ "ts_all_recv_buf s"] exI [of _ "ts_cs_pipe s"]) simp
  show ?case
  proof (cases "left \<le> 4 \<or> unat len > MAX_BUF_LEN \<or> len < 4 \<or> len > left \<or> \<not> ok")
    case True
    then have "s' = s \<or> s' = s\<lparr>ts_all_recv_buf := m, ts_cs_pipe := p\<rparr>"
      using "1.prems" a by (subst (asm) client_frames.simps) (auto simp: Let_def len_def m_def split: if_splits)
    then show ?thesis using same by blast
  next
    case False
    then have "client_frames pos (left - len) (tmp + unat len) (s\<lparr>ts_all_recv_buf := m, ts_cs_pipe := p\<rparr>) = (v, l, t, s')"
      using "1.prems" a by (subst (asm) client_frames.simps) (simp add: Let_def len_def m_def)
    from "1.IH" [OF _ len_def _ _ m_def a [symmetric] refl refl _ this] show ?thesis using False by auto
  qed
qed

text \<open>What an operation on the connection at \<open>i\<close> does to the table: it keeps the connection or frees its position.\<close>

definition keeps_or_frees :: "nat \<Rightarrow> 'os TcpSvr \<Rightarrow> 'os TcpSvr \<Rightarrow> bool" where
  "keeps_or_frees i s s' \<longleftrightarrow> ts_wf s' \<and> ts_conf s' = ts_conf s \<and> ts_free_list s' \<in> {ts_free_list s, ts_free_list s @ [i]}"

lemma SocketRelease_frees:
  assumes "ts_wf s" and "i < ts_max s" and "i \<notin> set (ts_free_list s)"
  shows "keeps_or_frees i s (TcpSvr_SocketRelease P (word_of_nat i) notify s)"
proof -
  have u: "unat (word_of_nat i :: uint32) = i" using assms(2) ts_max_bound [of s] by (simp add: unat_of_nat32)
  then have "\<not> tc_max_client_num (ts_conf s) \<le> word_of_nat i" using assms(2) by (simp add: ts_max_def word_le_nat_alt)
  then show ?thesis
    using assms u by (auto simp: TcpSvr_SocketRelease_def TcpSvr_EpollDel_def TcpSvr_NotifyLogicDiscon_def Let_def keeps_or_frees_def ts_wf_def
        ts_max_def cleared_socket_def split: prod.split)
qed

lemma release_at_frees:
  assumes "ts_wf s" and "i < ts_max s" and "i \<notin> set (ts_free_list s)"
  shows "keeps_or_frees i s (release_at P i s)"
  using SocketRelease_frees [OF assms] assms(1,2) by (simp add: release_at_def ts_wf_def)

lemma client_received_keeps:
  assumes "ts_wf s" and "i < ts_max s" and "i \<notin> set (ts_free_list s)" and "client_received P i n s = (alive, s')"
  shows "keeps_or_frees i s s' \<and> (alive \<longrightarrow> ts_free_list s' = ts_free_list s)"
proof -
  let ?s = "ts_upd i (\<lambda>x. x\<lparr>sk_buf_offset := sk_buf_offset x + n\<rparr>) s"
  obtain v l t s1 where c: "client_frames i (sk_buf_offset (ts_pool ?s i)) (sk_recv_buf (ts_pool ?s i)) ?s = (v, l, t, s1)" by (rule prod_cases4)
  from client_frames_state [OF this] obtain m q where s1: "s1 = ?s\<lparr>ts_all_recv_buf := m, ts_cs_pipe := q\<rparr>" by blast
  have w: "ts_wf s1" "ts_conf s1 = ts_conf s" "ts_free_list s1 = ts_free_list s" "ts_max s1 = ts_max s"
    using assms(1) by (auto simp: s1 ts_wf_def ts_upd_def ts_max_def)
  have "keeps_or_frees i s (release_at P i s1)"
    using release_at_frees [OF w(1), of i P] assms(2,3) w by (simp add: keeps_or_frees_def)
  moreover have "(alive, s') = (if \<not> v then (False, release_at P i s1) else if l \<noteq> sk_buf_offset (ts_pool ?s i)
      then (True, ts_upd i (\<lambda>x. x\<lparr>sk_buf_offset := l\<rparr>) (s1\<lparr>ts_all_recv_buf := mem_write (ts_all_recv_buf s1) (sk_recv_buf (ts_pool ?s i)) (mem_read (ts_all_recv_buf s1) t (unat l))\<rparr>))
      else (True, s1))"
    using assms(4) unfolding client_received_def Let_def c by (simp split: if_splits)
  ultimately show ?thesis
    using w by (auto simp: keeps_or_frees_def ts_wf_def ts_upd_def ts_max_def split: if_splits)
qed

lemma RecvClientData_keeps:
  assumes "TcpSvr_RecvClientData P i s = Some s'" and "ts_wf s" and "i < ts_max s" and "i \<notin> set (ts_free_list s)"
  shows "keeps_or_frees i s s'"
proof -
  have "(\<lambda>(x, s) s'. (\<lambda>(P, i). ts_wf s \<and> i < ts_max s \<and> i \<notin> set (ts_free_list s) \<longrightarrow> keeps_or_frees i s s') x) ((P, i), s) s'"
  proof (rule TcpSvr_RecvClientData.raw_induct [OF _ assms(1)])
    fix rc :: "'a posix \<Rightarrow> nat \<Rightarrow> 'a TcpSvr \<Rightarrow> 'a TcpSvr option" and P i and s s' :: "'a TcpSvr"
    assume IH: "\<And>P i s s'. rc P i s = Some s' \<Longrightarrow>
        (\<lambda>(x, s) s'. (\<lambda>(P, i). ts_wf s \<and> i < ts_max s \<and> i \<notin> set (ts_free_list s) \<longrightarrow> keeps_or_frees i s s') x) ((P, i), s) s'"
      and body: "(let sk = ts_pool s i
      in if TS_RECV_BUF_LEN - TCPHEAD_LEN = unat (sk_buf_offset sk) then Some s
         else (case posix_recv P (sk_fd sk) (unat (word_of_nat (TS_RECV_BUF_LEN - TCPHEAD_LEN) - ucast (sk_buf_offset sk) :: uint64)) (ts_os s) of
                 (RecvOk bs, os) \<Rightarrow>
                   let s = s\<lparr>ts_os := os, ts_all_recv_buf := mem_write (ts_all_recv_buf s) (sk_recv_buf sk + unat (sk_buf_offset sk)) bs\<rparr>
                   in if bs = [] then Some (release_at P i s)
                      else (case client_received P i (word_of_nat (length bs)) s of
                              (alive, s) \<Rightarrow> if \<not> alive then Some s else rc P i s)
               | (RecvErr e, os) \<Rightarrow>
                   let s = s\<lparr>ts_os := os\<rparr>
                   in if \<not> try_again e then Some (release_at P i s) else Some (snd (client_received P i (-1) s)))) = Some s'"
    show "(\<lambda>(x, s) s'. (\<lambda>(P, i). ts_wf s \<and> i < ts_max s \<and> i \<notin> set (ts_free_list s) \<longrightarrow> keeps_or_frees i s s') x) ((P, i), s) s'"
    proof (simp only: prod.case, intro impI, elim conjE)
      assume w: "ts_wf s" "i < ts_max s" "i \<notin> set (ts_free_list s)"
      have same: "ts_wf t \<and> i < ts_max t \<and> i \<notin> set (ts_free_list t)" "keeps_or_frees i t u = keeps_or_frees i s u"
        if "t = s\<lparr>ts_os := os, ts_all_recv_buf := m\<rparr> \<or> t = s\<lparr>ts_os := os\<rparr>" for t u os m
        using w that by (auto simp: ts_wf_def ts_max_def keeps_or_frees_def)
      have trans: "keeps_or_frees i s u" if "keeps_or_frees i s t" "ts_free_list t = ts_free_list s" "keeps_or_frees i t u" for t u
        using that by (simp add: keeps_or_frees_def)
      have self: "keeps_or_frees i s s" using w by (simp add: keeps_or_frees_def)
      show "keeps_or_frees i s s'"
      proof (cases "TS_RECV_BUF_LEN - TCPHEAD_LEN = unat (sk_buf_offset (ts_pool s i))")
        case True
        then show ?thesis using body self by simp
      next
        case False
        obtain r os where r: "posix_recv P (sk_fd (ts_pool s i)) (unat (word_of_nat (TS_RECV_BUF_LEN - TCPHEAD_LEN) - ucast (sk_buf_offset (ts_pool s i)) :: uint64)) (ts_os s) = (r, os)" by force
        show ?thesis
        proof (cases r)
          case (RecvOk bs)
          let ?t = "s\<lparr>ts_os := os, ts_all_recv_buf := mem_write (ts_all_recv_buf s) (sk_recv_buf (ts_pool s i) + unat (sk_buf_offset (ts_pool s i))) bs\<rparr>"
          obtain alive u where u: "client_received P i (word_of_nat (length bs)) ?t = (alive, u)" by force
          have t: "ts_wf ?t" "i < ts_max ?t" "i \<notin> set (ts_free_list ?t)" "\<And>u. keeps_or_frees i ?t u = keeps_or_frees i s u" using same by blast+
          note k = client_received_keeps [OF t(1-3) u]
          have "keeps_or_frees i s s'" if "rc P i u = Some s'" "alive"
          proof -
            have "ts_wf u" "i < ts_max u" "i \<notin> set (ts_free_list u)" using k that(2) t by (auto simp: keeps_or_frees_def ts_max_def)
            then have "keeps_or_frees i u s'" using IH [OF that(1)] by simp
            then show ?thesis using trans [of u s'] k that(2) t(4) by simp
          qed
          then show ?thesis
            using body r RecvOk False u k release_at_frees [OF t(1-3), of P] t(4) by (auto simp: Let_def split: if_splits)
        next
          case (RecvErr e)
          let ?t = "s\<lparr>ts_os := os\<rparr>"
          have t: "ts_wf ?t" "i < ts_max ?t" "i \<notin> set (ts_free_list ?t)" "\<And>u. keeps_or_frees i ?t u = keeps_or_frees i s u" using same by blast+
          then show ?thesis
            using body r RecvErr False release_at_frees [OF t(1-3), of P] client_received_keeps [OF t(1-3) surjective_pairing, of P "-1"]
            by (auto simp: Let_def split: if_splits)
        qed
      qed
    qed
  qed
  then show ?thesis using assms(2-4) by simp
qed

lemma AcceptConnect_keeps:
  assumes "ts_wf s"
  shows "ts_wf (TcpSvr_AcceptConnect P s) \<and> ts_conf (TcpSvr_AcceptConnect P s) = ts_conf s
    \<and> set (ts_free_list (TcpSvr_AcceptConnect P s)) \<subseteq> set (ts_free_list s)"
proof (cases "ts_free_list s")
  case Nil
  then show ?thesis using assms by (simp add: TcpSvr_AcceptConnect_def TcpSvr_SocketCreate_def)
next
  case (Cons pos rest)
  have p: "pos < ts_max s" "pos \<notin> set rest" "distinct rest" using assms Cons by (auto simp: ts_wf_def)
  have w: "ts_wf (s\<lparr>ts_free_list := rest, ts_os := os\<rparr>)" for os using assms Cons by (auto simp: ts_wf_def ts_max_def)
  have rel: "ts_wf (release_at P pos (s\<lparr>ts_free_list := rest, ts_os := os\<rparr>))
      \<and> ts_conf (release_at P pos (s\<lparr>ts_free_list := rest, ts_os := os\<rparr>)) = ts_conf s
      \<and> set (ts_free_list (release_at P pos (s\<lparr>ts_free_list := rest, ts_os := os\<rparr>))) \<subseteq> set (ts_free_list s)" for os
    using release_at_frees [OF w, of pos os P] p Cons by (auto simp: keeps_or_frees_def ts_max_def)
  have upd: "ts_wf (s\<lparr>ts_free_list := rest, ts_os := os, ts_pool := (ts_pool s)(pos := x)\<rparr>)"
    if "sk_recv_buf x = sk_recv_buf (ts_pool s pos)" "sk_socket_pos x = sk_socket_pos (ts_pool s pos)" for x os
    using w [of os] that by (auto simp: ts_wf_def ts_max_def)
  show ?thesis
    using rel upd Cons
    by (auto simp: TcpSvr_AcceptConnect_def TcpSvr_SocketCreate_def TcpSvr_EpollAdd_def Let_def ts_upd_def split: prod.split)
qed

definition ev_pos :: "ep_event \<Rightarrow> uint32" where
  "ev_pos e = word_of_int (ev_data e)"

lemma net_events_keep:
  assumes "net_events P es s = Some s'" and "ts_wf s" and "distinct (map ev_pos es)" and "\<forall>e\<in>set es. unat (ev_pos e) \<notin> set (ts_free_list s)"
  shows "ts_wf s' \<and> ts_conf s' = ts_conf s"
  using assms
proof (induction es arbitrary: s)
  case Nil
  then show ?case by simp
next
  case (Cons e es)
  let ?i = "unat (ev_pos e)"
  have tail: ?case if "net_events P es t = Some s'" "ts_wf t" "ts_conf t = ts_conf s" "set (ts_free_list t) \<subseteq> insert ?i (set (ts_free_list s))" for t
  proof -
    have "unat (ev_pos e') \<notin> set (ts_free_list t)" if "e' \<in> set es" for e'
    proof -
      have "unat (ev_pos e') \<noteq> ?i" using Cons.prems(3) that by (auto simp: word_unat_eq_iff image_iff)
      then show ?thesis using Cons.prems(4) that \<open>set (ts_free_list t) \<subseteq> _\<close> by auto
    qed
    then show ?thesis using Cons.IH [OF that(1,2)] Cons.prems(3) that(3) by simp
  qed
  show ?case
  proof (cases "TcpSvr_SocketGet (ev_pos e) s")
    case None
    then show ?thesis using tail [of s] Cons.prems(1,2) by (auto simp: ev_pos_def Let_def)
  next
    case (Some j)
    then have i: "j = ?i" "?i < ts_max s" "?i \<notin> set (ts_free_list s)"
      using Cons.prems(4) by (auto simp: TcpSvr_SocketGet_def ts_max_def word_le_nat_alt split: if_splits)
    have fin: "ts_wf s' \<and> ts_conf s' = ts_conf s" if "net_events P es t = Some s'" "keeps_or_frees ?i s t" for t
    proof (rule tail [OF that(1)])
      show "set (ts_free_list t) \<subseteq> insert ?i (set (ts_free_list s))" using that(2) by (auto simp: keeps_or_frees_def)
    qed (use that(2) in \<open>simp_all add: keeps_or_frees_def\<close>)
    have rel: "keeps_or_frees ?i s (TcpSvr_SocketRelease P (ev_pos e) True s)"
      using SocketRelease_frees [OF Cons.prems(2) i(2,3), of P True] by simp
    have acc: "ts_wf (TcpSvr_AcceptConnect P s)" "ts_conf (TcpSvr_AcceptConnect P s) = ts_conf s"
        "set (ts_free_list (TcpSvr_AcceptConnect P s)) \<subseteq> insert ?i (set (ts_free_list s))"
      using AcceptConnect_keeps [OF Cons.prems(2), of P] by auto
    show ?thesis
      using Cons.prems(1,2) Some i(1) fin [OF _ rel] tail [OF _ acc] tail [of s] fin RecvClientData_keeps [OF _ Cons.prems(2) i(2,3), of P]
      by (auto simp: ev_pos_def [symmetric] Let_def split: if_splits option.splits)
  qed
qed

subsection \<open>An example\<close>

definition demo_gateway :: "nat TcpSvr" where
  "demo_gateway = \<lparr>ts_conf = \<lparr>tc_cs_shmkey = 1, tc_sc_shmkey = 2, tc_port = 80, tc_max_client_num = 2\<rparr>, ts_lsfd = 3,
     ts_pool = (\<lambda>p. (cleared_socket p)\<lparr>sk_fd := 5, sk_type := CLINET_SOCKET, sk_create_time := 7\<rparr>), ts_all_recv_buf = mem_write mem_zero 40 [0, 0, 0, 5, 9],
     ts_free_list = [0], ts_send_buf = mem_zero, ts_send_len = 0, ts_epfd = 4, ts_cs_shm = \<lparr>sm_key = 1, sm_mem = Some 1\<rparr>, ts_cs_pipe = demo_pipe 100000,
     ts_sc_shm = \<lparr>sm_key = 2, sm_mem = Some 2\<rparr>, ts_sc_pipe = demo_pipe 100000, ts_run_flag = 0, ts_shm = Map.empty, ts_os = 0\<rparr>"

lemma demo_gateway_fields:
  "ts_pool demo_gateway p = (cleared_socket p)\<lparr>sk_fd := 5, sk_type := CLINET_SOCKET, sk_create_time := 7\<rparr>" "ts_cs_pipe demo_gateway = demo_pipe 100000"
  "ts_all_recv_buf demo_gateway = mem_write mem_zero 40 [0, 0, 0, 5, 9]" "ts_free_list demo_gateway = [0]" "ts_max demo_gateway = 2" "ts_os demo_gateway = 0"
  by (simp_all add: demo_gateway_def ts_max_def)

lemma demo_gateway_ok:
  "addr_ok (ts_pool demo_gateway 0)" "sk_recv_buf (ts_pool demo_gateway 0) = 40" "sk_buf_offset (ts_pool demo_gateway 0) = 0"
  "frame_ok be32 MAX_BUF_LEN [0, 0, 0, 5, 9]" "frame_partial be32 MAX_BUF_LEN []" "ts_wf demo_gateway"
  "pipe_holds (ts_cs_pipe demo_gateway) []" "unat (sp_size (ts_cs_pipe demo_gateway)) = 100000"
  "mem_read (ts_all_recv_buf demo_gateway) 40 5 = [0, 0, 0, 5, 9]"
proof -
  show "addr_ok (ts_pool demo_gateway 0)" "sk_recv_buf (ts_pool demo_gateway 0) = 40" "sk_buf_offset (ts_pool demo_gateway 0) = 0" "ts_wf demo_gateway"
    by (simp_all add: demo_gateway_fields addr_ok_def c_string_def cleared_socket_def ts_wf_def layout_simps)
  show f: "frame_ok be32 MAX_BUF_LEN [0, 0, 0, 5, 9]"
    using be32_rev [of "[0, 0, 0, 5]"] by (simp add: frame_ok_def un_le32_def layout_simps)
  show "frame_partial be32 MAX_BUF_LEN []" using frame_partial_nil [OF f] .
  show "pipe_holds (ts_cs_pipe demo_gateway) []" "unat (sp_size (ts_cs_pipe demo_gateway)) = 100000"
    using demo_pipe_holds [of 100000] by (simp_all add: demo_gateway_fields)
  show "mem_read (ts_all_recv_buf demo_gateway) 40 5 = [0, 0, 0, 5, 9]" by (simp add: demo_gateway_fields)
qed

lemma client_received_forwards:
  assumes "addr_ok (ts_pool s pos)" and "pipe_holds (ts_cs_pipe s) ms" and "\<forall>f\<in>set fs. frame_ok be32 MAX_BUF_LEN f"
    and "frame_partial be32 MAX_BUF_LEN p" and "sk_recv_buf (ts_pool s pos) = rb" and "40 \<le> rb"
    and "unat (sk_buf_offset (ts_pool s pos)) + n \<le> TS_RECV_BUF_LEN - TCPHEAD_LEN"
    and "mem_read (ts_all_recv_buf s) rb (unat (sk_buf_offset (ts_pool s pos)) + n) = concat fs @ p"
    and "frames_len ms + forward_len fs \<le> unat (sp_size (ts_cs_pipe s)) - 1"
  shows "\<exists>recs s'. client_received P pos (word_of_nat n) s = (True, s') \<and> records_for (ts_pool s pos) fs recs
    \<and> pipe_holds (ts_cs_pipe s') (ms @ recs) \<and> mem_read (ts_all_recv_buf s') rb (unat (sk_buf_offset (ts_pool s' pos))) = p
    \<and> (\<forall>i. i < rb - 40 \<or> rb - 40 + TS_RECV_BUF_LEN \<le> i \<longrightarrow> ts_all_recv_buf s' i = ts_all_recv_buf s i)"
proof -
  let ?off = "sk_buf_offset (ts_pool s pos)"
  let ?s = "ts_upd pos (\<lambda>x. x\<lparr>sk_buf_offset := sk_buf_offset x + word_of_nat n\<rparr>) s"
  have sk: "ts_pool ?s pos = (ts_pool s pos)\<lparr>sk_buf_offset := ?off + word_of_nat n\<rparr>" by (simp add: ts_upd_def)
  have n: "unat ?off + n \<le> 409600" using assms(7) by (simp add: TS_RECV_BUF_LEN_def layout_simps)
  then have u: "unat (?off + word_of_nat n) = unat ?off + n" by (simp add: unat_word_ariths unat_of_nat32)
  have total: "unat ?off + n = length (concat fs) + length p" using assms(8) by (metis length_append length_mem_read)
  have 1: "addr_ok (ts_pool ?s pos)" using assms(1) by (simp add: sk addr_ok_def)
  have 2: "pipe_holds (ts_cs_pipe ?s) ms" "mem_read (ts_all_recv_buf ?s) rb (unat (?off + word_of_nat n)) = concat fs @ p"
      "frames_len ms + forward_len fs \<le> unat (sp_size (ts_cs_pipe ?s)) - 1"
    using assms(2,8,9) u by (simp_all add: ts_upd_def)
  from client_frames_all [OF 1 2(1) assms(3,4) 2(2) assms(6) 2(3)] obtain recs m q where
    c: "client_frames pos (?off + word_of_nat n) rb ?s
        = (True, word_of_nat (length p), rb + length (concat fs), ?s\<lparr>ts_all_recv_buf := m, ts_cs_pipe := q\<rparr>)"
      "records_for (ts_pool ?s pos) fs recs" "pipe_holds q (ms @ recs)" "mem_read m (rb + length (concat fs)) (length p) = p"
      "\<forall>i. i < rb - 40 \<or> rb + length (concat fs) \<le> i \<longrightarrow> m i = ts_all_recv_buf ?s i" by blast
  have recs: "records_for (ts_pool s pos) fs recs" using c(2) by (simp add: sk records_for_def head_of_def)
  have up: "unat (word_of_nat (length p) :: uint32) = length p" using n total by (simp add: unat_of_nat32)
  let ?m = "mem_write m rb p"
  have out: "m i = ts_all_recv_buf s i" "?m i = ts_all_recv_buf s i" if "i < rb - 40 \<or> rb - 40 + TS_RECV_BUF_LEN \<le> i" for i
  proof -
    have "rb + length (concat fs) + length p \<le> rb - 40 + TS_RECV_BUF_LEN"
      using n total assms(6) by (simp add: TS_RECV_BUF_LEN_def layout_simps)
    then have "i < rb - 40 \<or> rb + length (concat fs) + length p \<le> i" using that by linarith
    then show "m i = ts_all_recv_buf s i" "?m i = ts_all_recv_buf s i" using c(5) by (auto simp: ts_upd_def)
  qed
  show ?thesis
  proof (cases "word_of_nat (length p) = ?off + word_of_nat n")
    case True
    then have "length p = unat ?off + n" using up u by metis
    then have "client_received P pos (word_of_nat n) s = (True, ?s\<lparr>ts_all_recv_buf := m, ts_cs_pipe := q\<rparr>)" "length (concat fs) = 0"
      using c(1) True total by (simp_all add: client_received_def Let_def sk assms(5))
    moreover from this(2) have "mem_read m rb (length p) = p" using c(4) by (metis add.right_neutral)
    ultimately show ?thesis using recs c(3) out(1) u \<open>length p = unat ?off + n\<close>
      by (intro exI [of _ recs] exI [of _ "?s\<lparr>ts_all_recv_buf := m, ts_cs_pipe := q\<rparr>"]) (simp add: sk)
  next
    case False
    let ?t = "ts_upd pos (\<lambda>x. x\<lparr>sk_buf_offset := word_of_nat (length p)\<rparr>) (?s\<lparr>ts_all_recv_buf := ?m, ts_cs_pipe := q\<rparr>)"
    have t: "ts_pool ?t pos = (ts_pool s pos)\<lparr>sk_buf_offset := word_of_nat (length p)\<rparr>" "ts_all_recv_buf ?t = ?m" "ts_cs_pipe ?t = q"
      by (simp_all add: ts_upd_def)
    have "client_received P pos (word_of_nat n) s = (True, ?t)"
      using c(1,4) False by (simp add: client_received_def Let_def sk assms(5) up ts_upd_def)
    then show ?thesis using recs c(3) out(2) up t by (intro exI [of _ recs] exI [of _ ?t]) simp
  qed
qed

subsection \<open>Properties\<close>

text \<open>C5. The gateway forwards exactly the messages a client sent: when the bytes of a connection that are buffered after a \<^verbatim>\<open>recv\<close> are
  complete messages followed by the beginning of another one, each message is appended to the pipe, in order, behind a
  head that names the connection; what is kept is the incomplete rest, and no byte outside the connection's own receive area changes.\<close>

theorem gateway_forwards_messages:
  assumes "addr_ok (ts_pool s pos)" and "pipe_holds (ts_cs_pipe s) ms" and "\<forall>f\<in>set fs. frame_ok be32 MAX_BUF_LEN f"
    and "frame_partial be32 MAX_BUF_LEN p" and "sk_recv_buf (ts_pool s pos) = rb" and "40 \<le> rb"
    and "unat (sk_buf_offset (ts_pool s pos)) + n \<le> TS_RECV_BUF_LEN - TCPHEAD_LEN"
    and "mem_read (ts_all_recv_buf s) rb (unat (sk_buf_offset (ts_pool s pos)) + n) = concat fs @ p"
    and "frames_len ms + forward_len fs \<le> unat (sp_size (ts_cs_pipe s)) - 1"
  shows "\<exists>recs s'. client_received P pos (word_of_nat n) s = (True, s') \<and> records_for (ts_pool s pos) fs recs
    \<and> pipe_holds (ts_cs_pipe s') (ms @ recs) \<and> mem_read (ts_all_recv_buf s') rb (unat (sk_buf_offset (ts_pool s' pos))) = p
    \<and> (\<forall>i. i < rb - 40 \<or> rb - 40 + TS_RECV_BUF_LEN \<le> i \<longrightarrow> ts_all_recv_buf s' i = ts_all_recv_buf s i)"
  by (rule client_received_forwards [OF assms])

theorem gateway_forwards_messages_witness:
  "\<exists>recs s'. client_received quiet_os 0 (word_of_nat 5) demo_gateway = (True, s') \<and> records_for (ts_pool demo_gateway 0) [[0, 0, 0, 5, 9]] recs
    \<and> pipe_holds (ts_cs_pipe s') ([] @ recs) \<and> mem_read (ts_all_recv_buf s') 40 (unat (sk_buf_offset (ts_pool s' 0))) = []"
proof -
  have "\<forall>f\<in>set [[0, 0, 0, 5, 9]]. frame_ok be32 MAX_BUF_LEN f" using demo_gateway_ok(4) by simp
  from gateway_forwards_messages [OF demo_gateway_ok(1,7) this demo_gateway_ok(5,2), of 5 quiet_os] show ?thesis
    using demo_gateway_ok(3,8,9) by (auto simp: TS_RECV_BUF_LEN_def layout_simps forward_len_def)
qed

text \<open>C37. When \<^verbatim>\<open>recv\<close> has nothing to read, its result -1 is added to the offset, which wraps around from 0: the message at the front of
  the receive buffer, already forwarded, is taken for unread and forwarded again although no byte was received.\<close>

theorem EAGAIN_forwards_again:
  assumes "addr_ok (ts_pool s pos)" and "pipe_holds (ts_cs_pipe s) ms" and "frame_ok be32 MAX_BUF_LEN f"
    and "sk_buf_offset (ts_pool s pos) = 0" and "40 \<le> sk_recv_buf (ts_pool s pos)"
    and "mem_read (ts_all_recv_buf s) (sk_recv_buf (ts_pool s pos)) (length f) = f"
    and "frames_len ms + length f + 44 \<le> unat (sp_size (ts_cs_pipe s)) - 1"
    and "sys_recv P (sk_fd (ts_pool s pos)) 409600 (ts_os s) = (RecvErr EAGAIN, os')"
  shows "\<exists>s' h more. TcpSvr_RecvClientData P pos s = Some s' \<and> head_of (ts_pool s pos) h
    \<and> pipe_holds (ts_cs_pipe s') (ms @ [h @ f] @ more)"
proof -
  let ?sk = "ts_pool s pos"
  let ?s = "ts_upd pos (\<lambda>x. x\<lparr>sk_buf_offset := sk_buf_offset x + -1\<rparr>) (s\<lparr>ts_os := os'\<rparr>)"
  have sk: "ts_pool ?s pos = ?sk\<lparr>sk_buf_offset := -1\<rparr>" using assms(4) by (simp add: ts_upd_def)
  have big: "length f \<le> unat (-1 :: uint32)" using assms(3) by (simp add: frame_ok_def layout_simps unsigned_minus_1_eq_mask mask_eq_exp_minus_1)
  have 1: "addr_ok (ts_pool ?s pos)" "pipe_holds (ts_cs_pipe ?s) ms" "mem_read (ts_all_recv_buf ?s) (sk_recv_buf ?sk) (length f) = f"
      "frames_len ms + length f + 44 \<le> unat (sp_size (ts_cs_pipe ?s)) - 1"
    using assms(1,2,6,7) by (simp_all add: sk addr_ok_def ts_upd_def)
  obtain h p where h: "head_of (ts_pool ?s pos) h" "pipe_holds p (ms @ [h @ f])"
    "client_frames pos (-1) (sk_recv_buf ?sk) ?s = client_frames pos (-1 - word_of_nat (length f)) (sk_recv_buf ?sk + length f)
       (?s\<lparr>ts_all_recv_buf := put_tcp_head (ts_pool ?s pos) (sk_recv_buf ?sk - 40) (ts_all_recv_buf ?s), ts_cs_pipe := p\<rparr>)"
    by (rule client_frames_step [OF 1(1,2) assms(3) 1(3) assms(5) big 1(4)])
  obtain v l t s' where c: "client_frames pos (-1) (sk_recv_buf ?sk) ?s = (v, l, t, s')" by (rule prod_cases4)
  have "\<exists>more. pipe_holds (ts_cs_pipe s') ((ms @ [h @ f]) @ more)"
    by (rule client_frames_more [OF _ c [unfolded h(3)]]) (simp add: h(2))
  then obtain xs where xs: "pipe_holds (ts_cs_pipe s') ((ms @ [h @ f]) @ xs)" by blast
  from release_more [OF xs, of P "sk_socket_pos (ts_pool s' pos)" True] obtain ys
    where ys: "pipe_holds (ts_cs_pipe (release_at P pos s')) ((ms @ [h @ f]) @ (xs @ ys))" by (auto simp: release_at_def)
  have "\<exists>more. pipe_holds (ts_cs_pipe (snd (client_received P pos (-1) (s\<lparr>ts_os := os'\<rparr>)))) ((ms @ [h @ f]) @ more)"
  proof -
    let ?r = "snd (client_received P pos (-1) (s\<lparr>ts_os := os'\<rparr>))"
    have "ts_pool ?s pos = ?sk\<lparr>sk_buf_offset := -1\<rparr>" by (rule sk)
    then have "?r = release_at P pos s' \<or> ts_cs_pipe ?r = ts_cs_pipe s'"
      unfolding client_received_def Let_def using c by (simp add: ts_upd_def)
    then show ?thesis using xs ys by metis
  qed
  moreover have "TcpSvr_RecvClientData P pos s = Some (snd (client_received P pos (-1) (s\<lparr>ts_os := os'\<rparr>)))"
    using assms(4,8) by (subst TcpSvr_RecvClientData.simps) (simp add: Let_def posix_recv_def TS_RECV_BUF_LEN_def layout_simps)
  moreover have "head_of ?sk h" using h(1) unfolding sk by (simp add: head_of_def)
  ultimately show ?thesis by auto
qed

theorem EAGAIN_forwards_again_witness:
  "\<exists>s' h more. TcpSvr_RecvClientData quiet_os 0 demo_gateway = Some s' \<and> head_of (ts_pool demo_gateway 0) h
    \<and> pipe_holds (ts_cs_pipe s') ([] @ [h @ [0, 0, 0, 5, 9]] @ more)"
proof (rule EAGAIN_forwards_again [OF demo_gateway_ok(1,7,4,3)])
  show "40 \<le> sk_recv_buf (ts_pool demo_gateway 0)" using demo_gateway_ok(2) by simp
  show "mem_read (ts_all_recv_buf demo_gateway) (sk_recv_buf (ts_pool demo_gateway 0)) (length [0, 0, 0, 5, 9 :: byte]) = [0, 0, 0, 5, 9]"
  proof -
    have "length [0, 0, 0, 5, 9 :: byte] = 5" by simp
    then show ?thesis unfolding demo_gateway_ok(2) by (simp only: demo_gateway_ok(9))
  qed
  show "frames_len [] + length [0, 0, 0, 5, 9 :: byte] + 44 \<le> unat (sp_size (ts_cs_pipe demo_gateway)) - 1" using demo_gateway_ok(8) by simp
  show "sys_recv quiet_os (sk_fd (ts_pool demo_gateway 0)) 409600 (ts_os demo_gateway) = (RecvErr EAGAIN, 0)"
    by (simp add: quiet_os_def demo_gateway_fields)
qed

text \<open>C23. Handling the events of one \<^verbatim>\<open>epoll_wait\<close> keeps the table of sockets consistent, whatever the clients and the system calls do: no
  position is ever free twice, so two connections never share a position, and every position keeps its own
  receive area. The events reported are those of registered sockets, one per socket.\<close>

theorem DealNetwork_keeps_sockets:
  assumes "ts_wf s" and "sys_epoll_wait P (ts_epfd s) (ts_max s) (ts_os s) = (Some es, os)" and "distinct (map ev_pos es)"
    and "\<forall>e\<in>set es. unat (ev_pos e) \<notin> set (ts_free_list s)" and "TcpSvr_DealNetwork P s = Some s'"
  shows "ts_wf s'"
proof -
  have "ts_wf (s\<lparr>ts_os := os\<rparr>)" using assms(1) by (simp add: ts_wf_def ts_max_def)
  then show ?thesis using net_events_keep [of P es "s\<lparr>ts_os := os\<rparr>" s'] assms by (simp add: TcpSvr_DealNetwork_def)
qed

definition lossy_os :: "nat posix" where
  "lossy_os = quiet_os\<lparr>sys_epoll_wait := (\<lambda>ep n os. (Some [\<lparr>ev_data = 1, ev_in = False, ev_err = True\<rparr>], os))\<rparr>"

theorem DealNetwork_keeps_sockets_witness:
  "\<exists>s'. TcpSvr_DealNetwork lossy_os demo_gateway = Some s' \<and> ts_wf s' \<and> ts_free_list s' = [0, 1]"
proof -
  have w: "sys_epoll_wait lossy_os (ts_epfd demo_gateway) (ts_max demo_gateway) (ts_os demo_gateway) = (Some [\<lparr>ev_data = 1, ev_in = False, ev_err = True\<rparr>], 0)"
    by (simp add: lossy_os_def demo_gateway_fields)
  have c: "tc_max_client_num (ts_conf demo_gateway) = 2" "\<not> (2 :: uint32) \<le> 1" by (simp_all add: demo_gateway_def word_le_nat_alt)
  let ?s = "TcpSvr_SocketRelease lossy_os 1 True (demo_gateway\<lparr>ts_os := 0\<rparr>)"
  have d: "TcpSvr_DealNetwork lossy_os demo_gateway = Some ?s"
    using w by (simp add: TcpSvr_DealNetwork_def TcpSvr_SocketGet_def c Let_def)
  have "ts_free_list ?s = [0, 1]"
    by (simp add: TcpSvr_SocketRelease_def c Let_def demo_gateway_fields cleared_socket_def TcpSvr_EpollDel_def split: prod.split)
  moreover have "ts_wf ?s"
    by (rule DealNetwork_keeps_sockets [OF demo_gateway_ok(6) w _ _ d]) (simp_all add: ev_pos_def demo_gateway_fields)
  ultimately show ?thesis using d by blast
qed

end
