(* ===== verification/ProxySvr.thy ===== *)
theory ProxySvr
  imports Startup CenterMng
begin

text \<open>
  \<^verbatim>\<open>src/proxysvr\<close>: the proxy (center) the logic servers connect to. A server registers with its type and number; the proxy
  cuts the messages out of each connection's stream and passes every message on to the server, or the servers, its head names.
  Output for a server whose connection is gone is kept for the next registration of the same server.

  The receive areas are one memory, as \<^verbatim>\<open>_all_recv_buf\<close> is one array; a \<^verbatim>\<open>stSvrSocket*\<close> is a position in the pool, and the
  table \<^verbatim>\<open>_svrs\<close> of \<^verbatim>\<open>SvrManager\<close> is \<open>px_svrs\<close>. Operations are \<open>option\<close>-valued where they need not return: \<open>None\<close> stands for a loop that never
  ends, an index outside a \<^verbatim>\<open>vector\<close>, a store through a null pointer, and a division by zero.
\<close>

definition PX_RECV_BUF_LEN :: nat where "PX_RECV_BUF_LEN = CENTER_BUF_LEN * 100"
definition PX_SEND_BUF_LEN :: nat where "PX_SEND_BUF_LEN = CENTER_BUF_LEN * 100"

record stSvrSocket =
  vk_fd :: int
  vk_type :: uint32
  vk_recv_buf :: nat
  vk_recv_offset :: uint32
  vk_socket_pos :: uint32
  vk_svr_type :: uint32
  vk_svr_id :: uint32
  vk_send_buf :: mem
  vk_send_offset :: uint32

record 'os ProxySvr =
  px_conf :: CenterConfig
  px_lsfd :: int
  px_pool :: "nat \<Rightarrow> stSvrSocket"
  px_all_recv_buf :: mem
  px_free_list :: "nat list"
  px_epfd :: int
  px_svrs :: "uint32 \<rightharpoonup> nat option list"
  px_run_flag :: uint32
  px_os :: 'os

definition px_max :: "'os ProxySvr \<Rightarrow> nat" where
  "px_max s = unat (cc_max_svr_num (px_conf s))"

text \<open>Changing a socket in place.\<close>

definition px_upd :: "nat \<Rightarrow> (stSvrSocket \<Rightarrow> stSvrSocket) \<Rightarrow> 'os ProxySvr \<Rightarrow> 'os ProxySvr" where
  "px_upd pos f s = s\<lparr>px_pool := (px_pool s)(pos := f (px_pool s pos))\<rparr>"

subsection \<open>The socket pool\<close>

definition ProxySvr_SocketPoolInit :: "'os ProxySvr \<Rightarrow> 'os ProxySvr" where
  "ProxySvr_SocketPoolInit s =
     s\<lparr>px_pool := (\<lambda>pos. if pos < px_max s
          then (px_pool s pos)\<lparr>vk_recv_buf := pos * PX_RECV_BUF_LEN, vk_socket_pos := word_of_nat pos\<rparr> else px_pool s pos),
       px_free_list := px_free_list s @ [0..<px_max s]\<rparr>"

definition ProxySvr_SocketCreate :: "'os ProxySvr \<Rightarrow> nat option \<times> 'os ProxySvr" where
  "ProxySvr_SocketCreate s =
     (case px_free_list s of [] \<Rightarrow> (None, s) | pos # rest \<Rightarrow> (Some pos, s\<lparr>px_free_list := rest\<rparr>))"

definition ProxySvr_SocketGet :: "uint32 \<Rightarrow> 'os ProxySvr \<Rightarrow> nat option" where
  "ProxySvr_SocketGet pos s = (if pos \<ge> cc_max_svr_num (px_conf s) then None else Some (unat pos))"

definition ProxySvr_EpollInit :: "'os posix \<Rightarrow> 'os ProxySvr \<Rightarrow> bool \<times> 'os ProxySvr" where
  "ProxySvr_EpollInit P s =
     (case sys_epoll_create P (px_os s) of (fd, os) \<Rightarrow> (fd \<noteq> -1, s\<lparr>px_epfd := fd, px_os := os\<rparr>))"

definition ProxySvr_EpollAdd :: "'os posix \<Rightarrow> int \<Rightarrow> uint32 \<Rightarrow> 'os ProxySvr \<Rightarrow> bool \<times> 'os ProxySvr" where
  "ProxySvr_EpollAdd P fd pos s =
     (case sys_epoll_add P (px_epfd s) fd (sint pos) (px_os s) of (ok, os) \<Rightarrow> (ok, s\<lparr>px_os := os\<rparr>))"

definition ProxySvr_EpollDel :: "'os posix \<Rightarrow> int \<Rightarrow> 'os ProxySvr \<Rightarrow> bool \<times> 'os ProxySvr" where
  "ProxySvr_EpollDel P fd s = (case sys_epoll_del P (px_epfd s) fd (px_os s) of (ok, os) \<Rightarrow> (ok, s\<lparr>px_os := os\<rparr>))"

definition cleared_svr_socket :: "nat \<Rightarrow> stSvrSocket" where
  "cleared_svr_socket pos = \<lparr>vk_fd = 0, vk_type = 0, vk_recv_buf = pos * PX_RECV_BUF_LEN, vk_recv_offset = 0,
     vk_socket_pos = word_of_nat pos, vk_svr_type = 0, vk_svr_id = 0, vk_send_buf = mem_zero, vk_send_offset = 0\<rparr>"

definition ProxySvr_SocketRelease :: "'os posix \<Rightarrow> uint32 \<Rightarrow> 'os ProxySvr \<Rightarrow> 'os ProxySvr" where
  "ProxySvr_SocketRelease P pos s =
     (if pos \<ge> cc_max_svr_num (px_conf s) then s
      else
        let socket = px_pool s (unat pos);
            s = s\<lparr>px_os := sys_close P (vk_fd socket) (px_os s)\<rparr>;
            s = snd (ProxySvr_EpollDel P (vk_fd socket) s)
        in s\<lparr>px_pool := (px_pool s)(unat pos := cleared_svr_socket (unat pos)), px_free_list := px_free_list s @ [unat pos]\<rparr>)"

definition ProxySvr_SocketDisconn :: "'os posix \<Rightarrow> uint32 \<Rightarrow> 'os ProxySvr \<Rightarrow> 'os ProxySvr" where
  "ProxySvr_SocketDisconn P pos s =
     (if pos \<ge> cc_max_svr_num (px_conf s) then s
      else
        let socket = px_pool s (unat pos);
            s = s\<lparr>px_os := sys_close P (vk_fd socket) (px_os s)\<rparr>;
            s = snd (ProxySvr_EpollDel P (vk_fd socket) s)
        in px_upd (unat pos) (\<lambda>x. x\<lparr>vk_fd := SOCK_CLOSED\<rparr>) s)"

subsection \<open>Output\<close>

definition SvrManager_ReserveData :: "nat \<Rightarrow> byte list \<Rightarrow> 'os ProxySvr \<Rightarrow> 'os ProxySvr" where
  "SvrManager_ReserveData pos buf s =
     (let len = word_of_nat (length buf)
      in px_upd pos (\<lambda>x.
           let x = (if unat (vk_send_offset x + len) > PX_SEND_BUF_LEN then x\<lparr>vk_send_offset := 0\<rparr> else x)
           in x\<lparr>vk_send_buf := mem_write (vk_send_buf x) (unat (vk_send_offset x)) buf, vk_send_offset := vk_send_offset x + len\<rparr>) s)"

text \<open>A connection that failed is closed; the pending input is dropped.\<close>

definition svr_close :: "'os posix \<Rightarrow> nat \<Rightarrow> 'os ProxySvr \<Rightarrow> 'os ProxySvr" where
  "svr_close P pos s =
     px_upd pos (\<lambda>x. x\<lparr>vk_fd := SOCK_CLOSED, vk_recv_offset := 0\<rparr>) (s\<lparr>px_os := sys_close P (vk_fd (px_pool s pos)) (px_os s)\<rparr>)"

definition SvrManager_SendBufData :: "'os posix \<Rightarrow> nat \<Rightarrow> 'os ProxySvr \<Rightarrow> bool \<times> 'os ProxySvr" where
  "SvrManager_SendBufData P pos s =
     (let socket = px_pool s pos
      in case posix_send P (vk_fd socket) (mem_read (vk_send_buf socket) 0 (unat (vk_send_offset socket))) (px_os s) of
           (SendErr e, os) \<Rightarrow> (False, if \<not> try_again e then svr_close P pos (s\<lparr>px_os := os\<rparr>) else s\<lparr>px_os := os\<rparr>)
         | (SendOk ret, os) \<Rightarrow> (True, px_upd pos (\<lambda>x. x\<lparr>vk_send_offset := 0\<rparr>) (s\<lparr>px_os := os\<rparr>)))"

definition SvrManager_SendOneData :: "'os posix \<Rightarrow> nat \<Rightarrow> byte list \<Rightarrow> 'os ProxySvr \<Rightarrow> bool \<times> 'os ProxySvr" where
  "SvrManager_SendOneData P pos buf s =
     (if vk_fd (px_pool s pos) = SOCK_CLOSED then (False, SvrManager_ReserveData pos buf s)
      else
        let (ok, s) = (if vk_send_offset (px_pool s pos) \<noteq> 0 then SvrManager_SendBufData P pos s else (True, s))
        in if \<not> ok then (False, SvrManager_ReserveData pos buf s)
           else (case posix_send P (vk_fd (px_pool s pos)) buf (px_os s) of
                   (SendErr e, os) \<Rightarrow>
                     let s = s\<lparr>px_os := os\<rparr>;
                         s = (if \<not> try_again e then svr_close P pos s else s)
                     in (False, SvrManager_ReserveData pos buf s)
                 | (SendOk ret, os) \<Rightarrow> (True, s\<lparr>px_os := os\<rparr>)))"

subsection \<open>Registration and routing\<close>

text \<open>\<^verbatim>\<open>_svrs[svr_type][svr_id]\<close>: the outer \<open>None\<close> is an index outside the vector, the inner one a null pointer.\<close>

definition svr_at :: "'os ProxySvr \<Rightarrow> uint32 \<Rightarrow> uint32 \<Rightarrow> nat option option" where
  "svr_at s svr_type svr_id =
     (case px_svrs s svr_type of
        None \<Rightarrow> None
      | Some v \<Rightarrow> if unat svr_id < length v then Some (v ! unat svr_id) else None)"

definition SvrManager_Register :: "'os posix \<Rightarrow> nat \<Rightarrow> 'os ProxySvr \<Rightarrow> 'os ProxySvr option" where
  "SvrManager_Register P pos s =
     (let ty = vk_svr_type (px_pool s pos); id = vk_svr_id (px_pool s pos);
          table = (case px_svrs s ty of
                     Some v \<Rightarrow> Some (px_svrs s)
                   | None \<Rightarrow> map_option (\<lambda>psvr. (px_svrs s)(ty \<mapsto> replicate (unat (ls_svr_num psvr)) None)) (CenterConfig_GetSvr ty (px_conf s)))
      in case table of
           None \<Rightarrow> Some s
         | Some t \<Rightarrow>
             let s = s\<lparr>px_svrs := t\<rparr>
             in (case svr_at s ty id of
                   None \<Rightarrow> None
                 | Some pbefore \<Rightarrow>
                     let s = (case pbefore of
                                None \<Rightarrow> s
                              | Some b \<Rightarrow>
                                  let before = px_pool s b;
                                      s = px_upd pos (\<lambda>x. x\<lparr>vk_send_buf := mem_write (vk_send_buf x) 0
                                              (mem_read (vk_send_buf before) 0 (unat (vk_send_offset before))),
                                            vk_send_offset := vk_send_offset before\<rparr>) s;
                                      s = ProxySvr_SocketRelease P (vk_socket_pos before) s
                                  in snd (SvrManager_SendBufData P pos s));
                         ty = vk_svr_type (px_pool s pos); id = vk_svr_id (px_pool s pos)
                     in (case px_svrs s ty of
                           None \<Rightarrow> None
                         | Some v \<Rightarrow> if unat id < length v then Some (s\<lparr>px_svrs := (px_svrs s)(ty \<mapsto> v[unat id := Some pos])\<rparr>) else None)))"

text \<open>The loop of a broadcast over the server numbers from \<open>i\<close> on.\<close>

fun broadcast_loop :: "'os posix \<Rightarrow> uint32 \<Rightarrow> uint32 \<Rightarrow> byte list \<Rightarrow> nat list \<Rightarrow> 'os ProxySvr \<Rightarrow> 'os ProxySvr option" where
  "broadcast_loop P des_type des_id buf [] s = Some s"
| "broadcast_loop P des_type des_id buf (i # is) s =
     (case svr_at s des_type (word_of_nat i) of
        None \<Rightarrow> None
      | Some None \<Rightarrow> broadcast_loop P des_type des_id buf is s
      | Some (Some _) \<Rightarrow>
          (case svr_at s des_type des_id of
             Some (Some pos) \<Rightarrow> broadcast_loop P des_type des_id buf is (snd (SvrManager_SendOneData P pos buf s))
           | _ \<Rightarrow> None))"

text \<open>\<^verbatim>\<open>DoTransfer\<close>: \<open>buf\<close> are the \<^verbatim>\<open>len\<close> bytes of a message, with its length field.\<close>

definition SvrManager_DoTransfer :: "'os posix \<Rightarrow> byte list \<Rightarrow> 'os ProxySvr \<Rightarrow> 'os ProxySvr option" where
  "SvrManager_DoTransfer P buf s =
     (if length buf \<le> CENTERHEAD_LEN then Some s
      else
        let head = dec_center_head (drop 4 buf)
        in if px_svrs s (ch_des_type head) = None then Some s
           else (case ch_route_type head of
                   route_p2p \<Rightarrow>
                     (case svr_at s (ch_des_type head) (ch_des_id head) of
                        None \<Rightarrow> None
                      | Some None \<Rightarrow> Some s
                      | Some (Some pos) \<Rightarrow> Some (snd (SvrManager_SendOneData P pos buf s)))
                 | route_broadcast \<Rightarrow>
                     (case CenterConfig_GetSvr (ch_des_type head) (px_conf s) of
                        None \<Rightarrow> Some s
                      | Some psvr \<Rightarrow> broadcast_loop P (ch_des_type head) (ch_des_id head) buf [0..<unat (ls_svr_num psvr)] s)
                 | route_hash \<Rightarrow>
                     (case CenterConfig_GetSvr (ch_des_type head) (px_conf s) of
                        None \<Rightarrow> Some s
                      | Some psvr \<Rightarrow>
                          if ls_svr_num psvr = 0 then None
                          else
                            let hash_id = ucast (ch_hash_key head mod ucast (ls_svr_num psvr))
                            in (case svr_at s (ch_des_type head) hash_id of
                                  None \<Rightarrow> None
                                | Some None \<Rightarrow> Some s
                                | Some (Some pos) \<Rightarrow> Some (snd (SvrManager_SendOneData P pos buf s))))
                 | route_other w \<Rightarrow> Some s))"

subsection \<open>Input\<close>

text \<open>The inner loop of \<^verbatim>\<open>RecvServerData\<close>: \<open>left\<close> bytes from \<open>tmp_recv\<close> on are unread.\<close>

partial_function (option) server_frames :: "'os posix \<Rightarrow> nat \<Rightarrow> uint32 \<Rightarrow> nat \<Rightarrow> 'os ProxySvr \<Rightarrow> (uint32 \<times> nat \<times> 'os ProxySvr) option" where
  "server_frames P pos left tmp_recv s =
     (if left \<le> 4 then Some (left, tmp_recv, s)
      else
        let len = un_le32 (mem_read (px_all_recv_buf s) tmp_recv 4)
        in if unat len > CENTER_BUF_LEN then Some (left, tmp_recv, ProxySvr_SocketRelease P (vk_socket_pos (px_pool s pos)) s)
           else if len > left then Some (left, tmp_recv, s)
           else (case SvrManager_DoTransfer P (mem_read (px_all_recv_buf s) tmp_recv (unat len)) s of
                   None \<Rightarrow> None
                 | Some s \<Rightarrow> server_frames P pos (left - len) (tmp_recv + unat len) s))"

text \<open>What follows a successful \<^verbatim>\<open>recv\<close>.\<close>

definition server_received :: "'os posix \<Rightarrow> nat \<Rightarrow> uint32 \<Rightarrow> 'os ProxySvr \<Rightarrow> 'os ProxySvr option" where
  "server_received P pos recv_len s =
     (let s = px_upd pos (\<lambda>x. x\<lparr>vk_recv_offset := vk_recv_offset x + recv_len\<rparr>) s
      in case server_frames P pos (vk_recv_offset (px_pool s pos)) (vk_recv_buf (px_pool s pos)) s of
           None \<Rightarrow> None
         | Some (left, tmp_recv, s) \<Rightarrow>
             if left \<noteq> vk_recv_offset (px_pool s pos)
             then Some (px_upd pos (\<lambda>x. x\<lparr>vk_recv_offset := left\<rparr>)
                    (s\<lparr>px_all_recv_buf := mem_write (px_all_recv_buf s) (vk_recv_buf (px_pool s pos)) (mem_read (px_all_recv_buf s) tmp_recv (unat left))\<rparr>))
             else Some s)"

partial_function (option) ProxySvr_RecvServerData :: "'os posix \<Rightarrow> nat \<Rightarrow> 'os ProxySvr \<Rightarrow> 'os ProxySvr option" where
  "ProxySvr_RecvServerData P pos s =
     (let sk = px_pool s pos
      in if PX_RECV_BUF_LEN = unat (vk_recv_offset sk) then Some s
         else (case posix_recv P (vk_fd sk) (unat (word_of_nat PX_RECV_BUF_LEN - ucast (vk_recv_offset sk) :: uint64)) (px_os s) of
                 (RecvOk bs, os) \<Rightarrow>
                   let s = s\<lparr>px_os := os, px_all_recv_buf := mem_write (px_all_recv_buf s) (vk_recv_buf sk + unat (vk_recv_offset sk)) bs\<rparr>
                   in if bs = [] then Some (ProxySvr_SocketDisconn P (vk_socket_pos sk) s)
                      else (case server_received P pos (word_of_nat (length bs)) s of
                              None \<Rightarrow> None
                            | Some s \<Rightarrow> ProxySvr_RecvServerData P pos s)
               | (RecvErr e, os) \<Rightarrow>
                   let s = s\<lparr>px_os := os\<rparr>
                   in Some (if \<not> try_again e then ProxySvr_SocketDisconn P (vk_socket_pos sk) s else s)))"

definition release_pos :: "'os posix \<Rightarrow> nat \<Rightarrow> 'os ProxySvr \<Rightarrow> 'os ProxySvr" where
  "release_pos P pos s = ProxySvr_SocketRelease P (vk_socket_pos (px_pool s pos)) s"

text \<open>The registration message is awaited for 5 ms and read in one piece.\<close>

definition ProxySvr_AcceptConnect :: "'os posix \<Rightarrow> 'os ProxySvr \<Rightarrow> 'os ProxySvr option" where
  "ProxySvr_AcceptConnect P s =
     (case ProxySvr_SocketCreate s of
        (None, s) \<Rightarrow> Some s
      | (Some pos, s) \<Rightarrow>
          (case sys_accept P (px_lsfd s) (px_os s) of ((clifd, _, _), os) \<Rightarrow>
            let s = s\<lparr>px_os := os\<rparr>
            in if clifd = -1 then Some (release_pos P pos s)
            else
              let s = px_upd pos (\<lambda>x. x\<lparr>vk_fd := clifd, vk_type := CLINET_SOCKET\<rparr>) s
              in (case sys_select P [clifd] (px_os s) of ((fd_num, _), os) \<Rightarrow>
                let s = s\<lparr>px_os := os\<rparr>
                in if fd_num \<le> 0 then Some (release_pos P pos s)
                else (case posix_recv P clifd SIZEOF_stSvrInfo (px_os s) of (r, os) \<Rightarrow>
                  let s = s\<lparr>px_os := os\<rparr>
                  in case r of
                       RecvErr e \<Rightarrow> Some (release_pos P pos s)
                     | RecvOk bs \<Rightarrow>
                         if length bs \<noteq> SIZEOF_stSvrInfo then Some (release_pos P pos s)
                         else (case sys_fcntl_getfl P clifd (px_os s) of (ok, os) \<Rightarrow>
                           let s = s\<lparr>px_os := os\<rparr>
                           in if \<not> ok then Some (release_pos P pos s)
                           else (case sys_fcntl_nonblock P clifd (px_os s) of (ok, os) \<Rightarrow>
                             let s = s\<lparr>px_os := os\<rparr>
                             in if \<not> ok then Some (release_pos P pos s)
                             else (case ProxySvr_EpollAdd P clifd (vk_socket_pos (px_pool s pos)) s of (ok, s) \<Rightarrow>
                               if \<not> ok then Some (release_pos P pos s)
                               else SvrManager_Register P pos
                                 (px_upd pos (\<lambda>x. x\<lparr>vk_svr_type := si_svr_type (dec_svr_info bs), vk_svr_id := si_svr_id (dec_svr_info bs)\<rparr>) s))))))))"

fun proxy_events :: "'os posix \<Rightarrow> ep_event list \<Rightarrow> 'os ProxySvr \<Rightarrow> 'os ProxySvr option" where
  "proxy_events P [] s = Some s"
| "proxy_events P (e # es) s =
     (let pos = word_of_int (ev_data e)
      in case ProxySvr_SocketGet pos s of
           None \<Rightarrow> proxy_events P es s
         | Some i \<Rightarrow>
             if ev_err e then proxy_events P es (ProxySvr_SocketRelease P pos s)
             else if \<not> ev_in e then proxy_events P es s
             else (case (if vk_type (px_pool s i) = LISTEN_SOCKET then ProxySvr_AcceptConnect P s else ProxySvr_RecvServerData P i s) of
                     None \<Rightarrow> None
                   | Some s \<Rightarrow> proxy_events P es s))"

definition ProxySvr_DealNetwork :: "'os posix \<Rightarrow> 'os ProxySvr \<Rightarrow> 'os ProxySvr option" where
  "ProxySvr_DealNetwork P s =
     (case sys_epoll_wait P (px_epfd s) (px_max s) (px_os s) of
        (None, os) \<Rightarrow> Some (s\<lparr>px_os := os\<rparr>)
      | (Some es, os) \<Rightarrow> proxy_events P es (s\<lparr>px_os := os\<rparr>))"

subsection \<open>Start-up and main loop\<close>

fun ProxySvr_ParseArgs :: "cmd_opt list \<Rightarrow> mem \<Rightarrow> mem" where
  "ProxySvr_ParseArgs [] conf = conf"
| "ProxySvr_ParseArgs (Opt_c path # os) conf = ProxySvr_ParseArgs os (mem_write conf 0 (path @ [0]))"
| "ProxySvr_ParseArgs (_ # os) conf = ProxySvr_ParseArgs os conf"

definition ProxySvr_LoadConfig :: "(string \<Rightarrow> PBCenterConfig option) \<Rightarrow> string \<Rightarrow> 'os ProxySvr \<Rightarrow> bool \<times> 'os ProxySvr" where
  "ProxySvr_LoadConfig read_conf path s =
     (case CenterConfig_Init read_conf path (px_conf s) of (ok, conf) \<Rightarrow> (ok, s\<lparr>px_conf := conf\<rparr>))"

definition ProxySvr_InitNetwork :: "'os posix \<Rightarrow> 'os ProxySvr \<Rightarrow> (bool \<times> 'os ProxySvr) option" where
  "ProxySvr_InitNetwork P s =
     (case sys_socket P (px_os s) of (fd, os) \<Rightarrow>
       let s = s\<lparr>px_lsfd := fd, px_os := os\<rparr>
       in if fd = -1 then Some (False, s)
       else (case set_options P 5 fd (px_os s) of (ok, os) \<Rightarrow>
         let s = s\<lparr>px_os := os\<rparr>
         in if \<not> ok then Some (False, s)
         else (case sys_bind P fd (cc_port (px_conf s)) (px_os s) of (ok, os) \<Rightarrow>
           let s = s\<lparr>px_os := os\<rparr>
           in if \<not> ok then Some (False, s)
           else (case sys_listen P fd (px_os s) of (ok, os) \<Rightarrow>
             let s = s\<lparr>px_os := os\<rparr>
             in if \<not> ok then Some (False, s)
             else (case ProxySvr_SocketCreate (ProxySvr_SocketPoolInit s) of
                     (None, s) \<Rightarrow> None
                   | (Some pos, s) \<Rightarrow>
                       let s = px_upd pos (\<lambda>x. x\<lparr>vk_type := LISTEN_SOCKET\<rparr>) s;
                           (ok, s) = ProxySvr_EpollInit P s
                       in if \<not> ok then Some (False, s)
                          else Some (ProxySvr_EpollAdd P (px_lsfd s) (vk_socket_pos (px_pool s pos)) s))))))"

definition ProxySvr_Initialize :: "'os posix \<Rightarrow> (string \<Rightarrow> PBCenterConfig option) \<Rightarrow> (mem \<Rightarrow> string) \<Rightarrow> cmd_opt list
    \<Rightarrow> 'os ProxySvr \<Rightarrow> (int \<times> 'os ProxySvr) option" where
  "ProxySvr_Initialize P read_conf c_str opts s =
     (let (ok, s) = ProxySvr_LoadConfig read_conf (c_str (ProxySvr_ParseArgs opts mem_zero)) s
      in if \<not> ok then Some (-1, s)
      else (case ProxySvr_InitNetwork P s of
              None \<Rightarrow> None
            | Some (False, s) \<Rightarrow> Some (-2, s)
            | Some (True, s) \<Rightarrow> Some (0, s\<lparr>px_svrs := Map.empty\<rparr>)))"

definition ProxySvr_CheckRunFlag :: "'os ProxySvr \<Rightarrow> int" where
  "ProxySvr_CheckRunFlag s = (if and (px_run_flag s) 1 \<noteq> 0 then -1 else 0)"

text \<open>\<^verbatim>\<open>Run\<close>, as long as it is observed: \<open>sigs\<close> lists, round by round, the flags the signal handler has raised.\<close>

fun ProxySvr_Run :: "'os posix \<Rightarrow> uint32 list \<Rightarrow> 'os ProxySvr \<Rightarrow> (bool \<times> 'os ProxySvr) option" where
  "ProxySvr_Run P [] s = Some (True, s)"
| "ProxySvr_Run P (sig # sigs) s =
     (let s = s\<lparr>px_run_flag := or (px_run_flag s) sig\<rparr>
      in if ProxySvr_CheckRunFlag s \<noteq> 0 then Some (False, s)
         else (case ProxySvr_DealNetwork P s of None \<Rightarrow> None | Some s \<Rightarrow> ProxySvr_Run P sigs s))"

end
