(* ===== verification/ProxyFlow.thy ===== *)
theory ProxyFlow
  imports ProxySvr
begin

text \<open>
  The properties of the proxy: its output as byte streams of the servers it serves, the routing of messages, the cutting of
  messages out of the input, the registration of servers, and the faults of these operations.
\<close>

subsection \<open>Output as byte streams\<close>

definition vk_output :: "stSvrSocket \<Rightarrow> byte list" where
  "vk_output x = mem_read (vk_send_buf x) 0 (unat (vk_send_offset x))"

text \<open>A kernel that takes every message as a whole or not at all, with the bytes it has taken for each descriptor.\<close>

definition logs_output :: "'os posix \<Rightarrow> ('os \<Rightarrow> int \<Rightarrow> byte list) \<Rightarrow> bool" where
  "logs_output P sent \<longleftrightarrow>
     (\<forall>fd bs os k os'. posix_send P fd bs os = (SendOk k, os') \<longrightarrow> sent os' = (sent os)(fd := sent os fd @ bs))
   \<and> (\<forall>fd bs os e os'. posix_send P fd bs os = (SendErr e, os') \<longrightarrow> sent os' = sent os)
   \<and> (\<forall>fd os. sent (sys_close P fd os) = sent os) \<and> (\<forall>ep fd os. sent (snd (sys_epoll_del P ep fd os)) = sent os)"

lemma length_vk_output [simp]: "length (vk_output x) = unat (vk_send_offset x)"
  by (simp add: vk_output_def)

lemma px_len_value [simp]: "PX_RECV_BUF_LEN = 413600" "PX_SEND_BUF_LEN = 413600"
  by (simp_all add: PX_RECV_BUF_LEN_def PX_SEND_BUF_LEN_def layout_simps)

lemma px_upd_pool [simp]: "px_pool (px_upd pos f s) = (px_pool s)(pos := f (px_pool s pos))"
  by (simp add: px_upd_def)

lemma px_upd_rest [simp]:
  "px_conf (px_upd pos f s) = px_conf s" "px_os (px_upd pos f s) = px_os s" "px_svrs (px_upd pos f s) = px_svrs s"
  "px_free_list (px_upd pos f s) = px_free_list s" "px_all_recv_buf (px_upd pos f s) = px_all_recv_buf s"
  by (simp_all add: px_upd_def)

text \<open>What an operation that sends to the socket at \<open>pos\<close> leaves of the state, with \<open>out\<close> the bytes that were handed
  to the kernel.\<close>

definition sends_to :: "('os \<Rightarrow> int \<Rightarrow> byte list) \<Rightarrow> nat \<Rightarrow> byte list \<Rightarrow> 'os ProxySvr \<Rightarrow> 'os ProxySvr \<Rightarrow> bool" where
  "sends_to sent pos out s s' \<longleftrightarrow>
     (let x = px_pool s pos; x' = px_pool s' pos
      in s' = s\<lparr>px_pool := (px_pool s)(pos := x'), px_os := px_os s'\<rparr>
        \<and> vk_recv_buf x' = vk_recv_buf x \<and> vk_socket_pos x' = vk_socket_pos x \<and> vk_type x' = vk_type x
        \<and> vk_svr_type x' = vk_svr_type x \<and> vk_svr_id x' = vk_svr_id x
        \<and> vk_fd x' \<in> {vk_fd x, SOCK_CLOSED} \<and> vk_recv_offset x' \<in> {vk_recv_offset x, 0}
        \<and> sent (px_os s') = (sent (px_os s))(vk_fd x := sent (px_os s) (vk_fd x) @ out)
        \<and> (vk_fd x = SOCK_CLOSED \<longrightarrow> out = []))"

lemma ReserveData_output:
  assumes "unat (vk_send_offset (px_pool s pos)) + length buf \<le> PX_SEND_BUF_LEN"
  shows "vk_output (px_pool (SvrManager_ReserveData pos buf s) pos) = vk_output (px_pool s pos) @ buf"
    and "sends_to sent pos [] s (SvrManager_ReserveData pos buf s)"
proof -
  let ?o = "vk_send_offset (px_pool s pos)"
  have sum: "unat (?o + word_of_nat (length buf)) = unat ?o + length buf"
    using assms by (simp add: unat_word_ariths unat_of_nat mod_simps)
  show "vk_output (px_pool (SvrManager_ReserveData pos buf s) pos) = vk_output (px_pool s pos) @ buf"
    using sum assms by (simp add: SvrManager_ReserveData_def Let_def vk_output_def mem_read_append mem_read_write_disjoint)
  show "sends_to sent pos [] s (SvrManager_ReserveData pos buf s)"
    using sum assms by (simp add: sends_to_def SvrManager_ReserveData_def Let_def px_upd_def)
qed

lemma sends_to_trans:
  assumes "sends_to sent pos xs s s'" and "sends_to sent pos ys s' s''"
  shows "sends_to sent pos (xs @ ys) s s''"
proof -
  have fds: "vk_fd (px_pool s' pos) \<in> {vk_fd (px_pool s pos), SOCK_CLOSED}" "vk_fd (px_pool s' pos) = SOCK_CLOSED \<Longrightarrow> ys = []"
    using assms by (auto simp: sends_to_def Let_def)
  obtain x os where 1: "s' = s\<lparr>px_pool := (px_pool s)(pos := x), px_os := os\<rparr>" using assms(1) unfolding sends_to_def Let_def by blast
  obtain y os' where 2: "s'' = s'\<lparr>px_pool := (px_pool s')(pos := y), px_os := os'\<rparr>" using assms(2) unfolding sends_to_def Let_def by blast
  have "s'' = s\<lparr>px_pool := (px_pool s)(pos := px_pool s'' pos), px_os := px_os s''\<rparr>" by (simp add: 1 2)
  then show ?thesis unfolding sends_to_def Let_def
    by (rule conjI) (use assms [unfolded sends_to_def Let_def, THEN conjunct2] fds in auto)
qed

lemma svr_close_output:
  assumes "logs_output P sent"
  shows "vk_output (px_pool (svr_close P pos s) pos) = vk_output (px_pool s pos)" "sends_to sent pos [] s (svr_close P pos s)"
  using assms by (simp_all add: svr_close_def vk_output_def sends_to_def px_upd_def logs_output_def Let_def)

lemma sends_to_os:
  "sent os = sent (px_os s) \<Longrightarrow> sends_to sent pos [] s (s\<lparr>px_os := os\<rparr>)"
  "sent os = (sent (px_os s))(vk_fd (px_pool s pos) := sent (px_os s) (vk_fd (px_pool s pos)) @ out) \<Longrightarrow> vk_fd (px_pool s pos) \<noteq> SOCK_CLOSED
    \<Longrightarrow> sends_to sent pos out s (s\<lparr>px_os := os\<rparr>)"
  by (simp_all add: sends_to_def Let_def)

lemma SendBufData_output:
  assumes "logs_output P sent" and "SvrManager_SendBufData P pos s = (ok, s')" and "vk_fd (px_pool s pos) \<noteq> SOCK_CLOSED"
  shows "\<exists>out. sends_to sent pos out s s' \<and> vk_output (px_pool s pos) = out @ vk_output (px_pool s' pos)
    \<and> (ok \<longrightarrow> vk_fd (px_pool s' pos) \<noteq> SOCK_CLOSED)"
proof -
  obtain r os where r: "posix_send P (vk_fd (px_pool s pos)) (vk_output (px_pool s pos)) (px_os s) = (r, os)" by force
  show ?thesis
  proof (cases r)
    case (SendErr e)
    then have "sent os = sent (px_os s)" using r assms(1) by (auto simp: logs_output_def)
    from sends_to_os(1) [OF this, of pos] have os: "sends_to sent pos [] s (s\<lparr>px_os := os\<rparr>)" .
    then have "sends_to sent pos [] s (svr_close P pos (s\<lparr>px_os := os\<rparr>))"
      using sends_to_trans [OF os svr_close_output(2) [OF assms(1)]] by simp
    then show ?thesis
      using assms(2) r SendErr os svr_close_output(1) [OF assms(1), of pos "s\<lparr>px_os := os\<rparr>"]
      by (intro exI [of _ "[]"]) (auto simp: SvrManager_SendBufData_def vk_output_def Let_def split: if_splits)
  next
    case (SendOk k)
    then have "sent os = (sent (px_os s))(vk_fd (px_pool s pos) := sent (px_os s) (vk_fd (px_pool s pos)) @ vk_output (px_pool s pos))"
      using r assms(1) by (auto simp: logs_output_def)
    then show ?thesis
      using assms(2,3) r SendOk
      by (intro exI [of _ "vk_output (px_pool s pos)"])
        (auto simp: SvrManager_SendBufData_def vk_output_def Let_def px_upd_def sends_to_def)
  qed
qed

text \<open>Nothing is lost or reordered: what went to the kernel, followed by what is kept, is the earlier output followed by the
  message.\<close>

lemma SendOneData_output:
  assumes "logs_output P sent" and "unat (vk_send_offset (px_pool s pos)) + length buf \<le> PX_SEND_BUF_LEN"
    and "s' = snd (SvrManager_SendOneData P pos buf s)"
  shows "\<exists>out. sends_to sent pos out s s' \<and> vk_output (px_pool s pos) @ buf = out @ vk_output (px_pool s' pos)"
proof (cases "vk_fd (px_pool s pos) = SOCK_CLOSED")
  case True
  then have "s' = SvrManager_ReserveData pos buf s" using assms(3) by (simp add: SvrManager_SendOneData_def)
  then show ?thesis using ReserveData_output [OF assms(2)] by (intro exI [of _ "[]"]) simp
next
  case False
  obtain ok s1 where b: "(if vk_send_offset (px_pool s pos) \<noteq> 0 then SvrManager_SendBufData P pos s else (True, s)) = (ok, s1)" by force
  have "sends_to sent pos [] s s" using sends_to_os(1) [of sent "px_os s" s pos] by simp
  then have "\<exists>out. sends_to sent pos out s s1 \<and> vk_output (px_pool s pos) = out @ vk_output (px_pool s1 pos) \<and> (ok \<longrightarrow> vk_fd (px_pool s1 pos) \<noteq> SOCK_CLOSED)"
    using b False SendBufData_output [OF assms(1) _ False, of ok s1] by (auto split: if_splits)
  then obtain out where out: "sends_to sent pos out s s1" "vk_output (px_pool s pos) = out @ vk_output (px_pool s1 pos)"
    "ok \<longrightarrow> vk_fd (px_pool s1 pos) \<noteq> SOCK_CLOSED" by blast
  from arg_cong [OF out(2), of length] assms(2)
  have room: "unat (vk_send_offset (px_pool s1 pos)) + length buf \<le> PX_SEND_BUF_LEN" by simp
  have keep: "\<exists>out. sends_to sent pos out s (SvrManager_ReserveData pos buf t) \<and> vk_output (px_pool s pos) @ buf = out @ vk_output (px_pool (SvrManager_ReserveData pos buf t) pos)"
    if "sends_to sent pos [] s1 t" "vk_output (px_pool t pos) = vk_output (px_pool s1 pos)" for t
  proof -
    have "unat (vk_send_offset (px_pool t pos)) + length buf \<le> PX_SEND_BUF_LEN" using room that(2) by (metis length_vk_output)
    from ReserveData_output [OF this] have "sends_to sent pos [] t (SvrManager_ReserveData pos buf t)"
      "vk_output (px_pool (SvrManager_ReserveData pos buf t) pos) = vk_output (px_pool t pos) @ buf" by blast+
    then show ?thesis using sends_to_trans [OF sends_to_trans [OF out(1) that(1)], of "[]"] out(2) that(2) by (intro exI [of _ out]) auto
  qed
  have refl1: "sends_to sent pos [] s1 s1" using sends_to_os(1) [of sent "px_os s1" s1 pos] by simp
  show ?thesis
  proof (cases ok)
    case notok: False
    then have "s' = SvrManager_ReserveData pos buf s1" using assms(3) False b by (simp add: SvrManager_SendOneData_def)
    then show ?thesis using keep [OF refl1] by simp
  next
    case ok: True
    obtain r os where r: "posix_send P (vk_fd (px_pool s1 pos)) buf (px_os s1) = (r, os)" by force
    show ?thesis
    proof (cases r)
      case (SendErr e)
      then have se: "sends_to sent pos [] s1 (s1\<lparr>px_os := os\<rparr>)" using r assms(1) by (intro sends_to_os(1)) (auto simp: logs_output_def)
      have cl: "sends_to sent pos [] s1 (svr_close P pos (s1\<lparr>px_os := os\<rparr>))" "vk_output (px_pool (svr_close P pos (s1\<lparr>px_os := os\<rparr>)) pos) = vk_output (px_pool s1 pos)"
        using sends_to_trans [OF se svr_close_output(2) [OF assms(1)]] svr_close_output(1) [OF assms(1), of pos "s1\<lparr>px_os := os\<rparr>"] by simp_all
      have "s' = SvrManager_ReserveData pos buf (if \<not> try_again e then svr_close P pos (s1\<lparr>px_os := os\<rparr>) else s1\<lparr>px_os := os\<rparr>)"
        using assms(3) False b ok r SendErr by (simp add: SvrManager_SendOneData_def Let_def)
      then show ?thesis using keep [OF cl] keep [OF se] by simp
    next
      case (SendOk k)
      then have "sends_to sent pos buf s1 (s1\<lparr>px_os := os\<rparr>)" using r assms(1) out(3) ok by (intro sends_to_os(2)) (auto simp: logs_output_def)
      moreover have "s' = s1\<lparr>px_os := os\<rparr>" "vk_output (px_pool s1 pos) = []"
        using assms(3) False b ok r SendOk by (auto simp: SvrManager_SendOneData_def Let_def SvrManager_SendBufData_def vk_output_def split: if_splits send_result.splits prod.splits)
      ultimately show ?thesis using sends_to_trans [OF out(1)] out(2) by (intro exI [of _ "out @ buf"]) auto
    qed
  qed
qed

subsection \<open>Routing\<close>

text \<open>The server a message is meant for, by the table and the configuration.\<close>

definition svr_slot :: "'os ProxySvr \<Rightarrow> uint32 \<Rightarrow> nat \<Rightarrow> nat option" where
  "svr_slot s t i = (case px_svrs s t of None \<Rightarrow> None | Some v \<Rightarrow> if i < length v then v ! i else None)"

definition svr_target :: "'os ProxySvr \<Rightarrow> byte list \<Rightarrow> nat option" where
  "svr_target s f =
     (if length f \<le> 40 then None
      else let h = dec_center_head (drop 4 f)
      in case ch_route_type h of
           route_p2p \<Rightarrow> svr_slot s (ch_des_type h) (unat (ch_des_id h))
         | route_hash \<Rightarrow> (case CenterConfig_GetSvr (ch_des_type h) (px_conf s) of
                           None \<Rightarrow> None
                         | Some l \<Rightarrow> svr_slot s (ch_des_type h) (unat (ch_hash_key h) mod unat (ls_svr_num l)))
         | _ \<Rightarrow> None)"

text \<open>The number a message selects is one of its server type, if the type is known at all.\<close>

definition svr_known :: "'os ProxySvr \<Rightarrow> byte list \<Rightarrow> bool" where
  "svr_known s f \<longleftrightarrow>
     (let h = dec_center_head (drop 4 f)
      in case px_svrs s (ch_des_type h) of
           None \<Rightarrow> True
         | Some v \<Rightarrow>
             (case ch_route_type h of
                route_p2p \<Rightarrow> unat (ch_des_id h) < length v
              | route_hash \<Rightarrow> (case CenterConfig_GetSvr (ch_des_type h) (px_conf s) of
                                None \<Rightarrow> True | Some l \<Rightarrow> ls_svr_num l \<noteq> 0 \<and> unat (ls_svr_num l) \<le> length v)
              | route_broadcast \<Rightarrow> False
              | route_other w \<Rightarrow> True))"

lemma unat_hash_id:
  fixes n :: uint32 and k :: uint64
  assumes "n \<noteq> 0"
  shows "unat (ucast (k mod ucast n :: uint64) :: uint32) = unat k mod unat n" "unat k mod unat n < unat n"
proof -
  have "unat (ucast n :: uint64) = unat n" using unat_le_max32 [of n] by (simp add: unat_ucast)
  then have u: "unat (k mod ucast n :: uint64) = unat k mod unat n" by (simp add: unat_mod)
  show l: "unat k mod unat n < unat n" using assms by (simp add: unat_gt_0)
  then have "unat k mod unat n < 2 ^ 32" using unat_le_max32 [of n] by linarith
  then show "unat (ucast (k mod ucast n :: uint64) :: uint32) = unat k mod unat n" using u by (simp add: unat_ucast)
qed

lemma DoTransfer_target:
  assumes "svr_known s f"
  shows "SvrManager_DoTransfer P f s = Some (case svr_target s f of None \<Rightarrow> s | Some q \<Rightarrow> snd (SvrManager_SendOneData P q f s))"
proof -
  define h where "h = dec_center_head (drop 4 f)"
  show ?thesis
  proof (cases "length f \<le> 40 \<or> px_svrs s (ch_des_type h) = None")
    case True
    then have "svr_target s f = None"
      by (auto simp: svr_target_def svr_slot_def Let_def h_def [symmetric] split: RouteType.split option.split)
    then show ?thesis using True by (auto simp: SvrManager_DoTransfer_def layout_simps Let_def h_def [symmetric])
  next
    case False
    then obtain v where v: "px_svrs s (ch_des_type h) = Some v" and len: "40 < length f" by auto
    note defs = SvrManager_DoTransfer_def svr_target_def svr_slot_def svr_at_def CENTERHEAD_LEN_def Let_def h_def [symmetric] v
    show ?thesis
    proof (cases "ch_route_type h")
      case route_p2p
      then have "unat (ch_des_id h) < length v" using assms v by (simp add: svr_known_def Let_def h_def [symmetric])
      then show ?thesis using len route_p2p by (cases "v ! unat (ch_des_id h)") (simp_all add: defs)
    next
      case route_hash
      show ?thesis
      proof (cases "CenterConfig_GetSvr (ch_des_type h) (px_conf s)")
        case None
        then show ?thesis using len route_hash by (simp add: defs)
      next
        case (Some l)
        then have l: "ls_svr_num l \<noteq> 0" "unat (ls_svr_num l) \<le> length v"
          using assms v route_hash by (simp_all add: svr_known_def Let_def h_def [symmetric])
        then have "unat (ch_hash_key h) mod unat (ls_svr_num l) < length v" using unat_hash_id(2) [OF l(1)] less_le_trans by blast
        then show ?thesis
          using len route_hash Some l(1) unat_hash_id(1) [OF l(1), of "ch_hash_key h"]
          by (cases "v ! (unat (ch_hash_key h) mod unat (ls_svr_num l))") (simp_all add: defs)
      qed
    next
      case route_broadcast
      then show ?thesis using assms v by (simp add: svr_known_def Let_def h_def [symmetric])
    next
      case (route_other w)
      then show ?thesis using len by (simp add: defs)
    qed
  qed
qed

text \<open>What passing on messages does to the state.\<close>

definition passes_on :: "('os \<Rightarrow> int \<Rightarrow> byte list) \<Rightarrow> byte list list \<Rightarrow> 'os ProxySvr \<Rightarrow> 'os ProxySvr \<Rightarrow> bool" where
  "passes_on sent fs s s' \<longleftrightarrow>
     s' = s\<lparr>px_pool := px_pool s', px_os := px_os s'\<rparr>
   \<and> (\<forall>q. vk_recv_buf (px_pool s' q) = vk_recv_buf (px_pool s q) \<and> vk_socket_pos (px_pool s' q) = vk_socket_pos (px_pool s q)
        \<and> vk_recv_offset (px_pool s' q) \<in> {vk_recv_offset (px_pool s q), 0} \<and> vk_fd (px_pool s' q) \<in> {vk_fd (px_pool s q), SOCK_CLOSED}
        \<and> length (vk_output (px_pool s' q)) \<le> length (vk_output (px_pool s q)) + length (concat fs))
   \<and> (\<forall>q fd. fd \<noteq> SOCK_CLOSED \<longrightarrow> vk_fd (px_pool s q) \<in> {fd, SOCK_CLOSED} \<longrightarrow> (\<forall>r. r \<noteq> q \<longrightarrow> vk_fd (px_pool s r) \<noteq> fd) \<longrightarrow>
        sent (px_os s') fd @ vk_output (px_pool s' q)
          = sent (px_os s) fd @ vk_output (px_pool s q) @ concat (filter (\<lambda>f. svr_target s f = Some q) fs))"

lemma passes_on_one:
  assumes "logs_output P sent" and "svr_known s f" and "\<forall>q. unat (vk_send_offset (px_pool s q)) + length f \<le> PX_SEND_BUF_LEN"
  shows "\<exists>s'. SvrManager_DoTransfer P f s = Some s' \<and> passes_on sent [f] s s'"
proof (cases "svr_target s f")
  case None
  then show ?thesis using DoTransfer_target [OF assms(2), of P] by (simp add: passes_on_def)
next
  case (Some t)
  let ?s = "snd (SvrManager_SendOneData P t f s)"
  obtain out where o: "sends_to sent t out s ?s" "vk_output (px_pool s t) @ f = out @ vk_output (px_pool ?s t)"
    using SendOneData_output [OF assms(1) _ refl, of s t f] assms(3) by blast
  have eq: "?s = s\<lparr>px_pool := (px_pool s)(t := px_pool ?s t), px_os := px_os ?s\<rparr>"
    and t: "vk_recv_buf (px_pool ?s t) = vk_recv_buf (px_pool s t)" "vk_socket_pos (px_pool ?s t) = vk_socket_pos (px_pool s t)"
      "vk_fd (px_pool ?s t) \<in> {vk_fd (px_pool s t), SOCK_CLOSED}" "vk_recv_offset (px_pool ?s t) \<in> {vk_recv_offset (px_pool s t), 0}"
      "sent (px_os ?s) = (sent (px_os s))(vk_fd (px_pool s t) := sent (px_os s) (vk_fd (px_pool s t)) @ out)" "vk_fd (px_pool s t) = SOCK_CLOSED \<longrightarrow> out = []"
    using o(1) unfolding sends_to_def Let_def by blast+
  have pool: "px_pool ?s = (px_pool s)(t := px_pool ?s t)" by (rule arg_cong [OF eq, of px_pool, simplified])
  have other: "q \<noteq> t \<Longrightarrow> px_pool ?s q = px_pool s q" for q by (subst pool) simp
  have len: "length (vk_output (px_pool ?s t)) \<le> length (vk_output (px_pool s t)) + length f" using arg_cong [OF o(2), of length] by simp
  have "passes_on sent [f] s ?s" unfolding passes_on_def
  proof (intro conjI allI impI)
    have "px_pool ?s = (px_pool s)(t := px_pool ?s t)" by (rule pool)
    then show "?s = s\<lparr>px_pool := px_pool ?s, px_os := px_os ?s\<rparr>" using eq by simp
    fix q
    show "vk_recv_buf (px_pool ?s q) = vk_recv_buf (px_pool s q)" "vk_socket_pos (px_pool ?s q) = vk_socket_pos (px_pool s q)"
      "vk_recv_offset (px_pool ?s q) \<in> {vk_recv_offset (px_pool s q), 0}" "vk_fd (px_pool ?s q) \<in> {vk_fd (px_pool s q), SOCK_CLOSED}"
      "length (vk_output (px_pool ?s q)) \<le> length (vk_output (px_pool s q)) + length (concat [f])"
      using other [of q] t(1-4) len by (cases "q = t"; simp)+
    fix fd assume fd: "fd \<noteq> SOCK_CLOSED" "vk_fd (px_pool s q) \<in> {fd, SOCK_CLOSED}" "\<forall>r. r \<noteq> q \<longrightarrow> vk_fd (px_pool s r) \<noteq> fd"
    show "sent (px_os ?s) fd @ vk_output (px_pool ?s q) = sent (px_os s) fd @ vk_output (px_pool s q) @ concat (filter (\<lambda>f. svr_target s f = Some q) [f])"
    proof (cases "q = t")
      case True
      then show ?thesis using fd(1,2) t(5,6) o(2) Some by auto
    next
      case False
      then have "vk_fd (px_pool s t) \<noteq> fd" using fd(3) by auto
      then show ?thesis using False other [OF False] t(5) Some by simp
    qed
  qed
  then show ?thesis using DoTransfer_target [OF assms(2), of P] Some by simp
qed

lemma passes_on_table:
  assumes "passes_on sent fs s s'"
  shows "svr_target s' = svr_target s" "svr_known s' = svr_known s" "px_all_recv_buf s' = px_all_recv_buf s" "px_free_list s' = px_free_list s"
proof -
  have "s' = s\<lparr>px_pool := px_pool s', px_os := px_os s'\<rparr>" using assms by (simp add: passes_on_def)
  then obtain p os where "s' = s\<lparr>px_pool := p, px_os := os\<rparr>" by blast
  then have c: "px_conf s' = px_conf s" "px_svrs s' = px_svrs s" by simp_all
  show "svr_target s' = svr_target s" by (rule ext) (unfold svr_target_def svr_slot_def c, rule refl)
  show "svr_known s' = svr_known s" by (rule ext) (unfold svr_known_def c, rule refl)
  show "px_all_recv_buf s' = px_all_recv_buf s" "px_free_list s' = px_free_list s" using \<open>s' = s\<lparr>px_pool := p, px_os := os\<rparr>\<close> by simp_all
qed

lemma passes_on_socket:
  assumes "passes_on sent fs s s'"
  shows "vk_recv_buf (px_pool s' q) = vk_recv_buf (px_pool s q)" "vk_recv_offset (px_pool s' q) \<in> {vk_recv_offset (px_pool s q), 0}"
  using assms unfolding passes_on_def by blast+

lemma passes_on_output:
  assumes "passes_on sent fs s s'" and "fd \<noteq> SOCK_CLOSED" and "vk_fd (px_pool s q) \<in> {fd, SOCK_CLOSED}" and "\<forall>r. r \<noteq> q \<longrightarrow> vk_fd (px_pool s r) \<noteq> fd"
  shows "sent (px_os s') fd @ vk_output (px_pool s' q)
    = sent (px_os s) fd @ vk_output (px_pool s q) @ concat (filter (\<lambda>f. svr_target s f = Some q) fs)"
  using assms unfolding passes_on_def by blast

lemma passes_on_trans:
  assumes "passes_on sent fs s s'" and "passes_on sent gs s' s''"
  shows "passes_on sent (fs @ gs) s s''"
proof -
  note A = assms(1) [unfolded passes_on_def, THEN conjunct2] and B = assms(2) [unfolded passes_on_def, THEN conjunct2]
  have "s' = s\<lparr>px_pool := px_pool s', px_os := px_os s'\<rparr>" "s'' = s'\<lparr>px_pool := px_pool s'', px_os := px_os s''\<rparr>"
    using assms by (simp_all add: passes_on_def)
  then obtain p os p' os' where 1: "s' = s\<lparr>px_pool := p, px_os := os\<rparr>" "s'' = s'\<lparr>px_pool := p', px_os := os'\<rparr>" by blast
  have eq: "s'' = s\<lparr>px_pool := px_pool s'', px_os := px_os s''\<rparr>" by (simp add: 1)
  show ?thesis unfolding passes_on_def
  proof (rule conjI [OF eq], rule conjI, goal_cases)
    case 1
    show ?case
    proof
      fix q
      show "vk_recv_buf (px_pool s'' q) = vk_recv_buf (px_pool s q) \<and> vk_socket_pos (px_pool s'' q) = vk_socket_pos (px_pool s q)
        \<and> vk_recv_offset (px_pool s'' q) \<in> {vk_recv_offset (px_pool s q), 0} \<and> vk_fd (px_pool s'' q) \<in> {vk_fd (px_pool s q), SOCK_CLOSED}
        \<and> length (vk_output (px_pool s'' q)) \<le> length (vk_output (px_pool s q)) + length (concat (fs @ gs))"
        using A [THEN conjunct1, THEN spec, of q] B [THEN conjunct1, THEN spec, of q] by (auto simp: add.assoc)
    qed
  next
    case 2
    show ?case
    proof (intro allI impI)
      fix q fd assume fd: "fd \<noteq> SOCK_CLOSED" "vk_fd (px_pool s q) \<in> {fd, SOCK_CLOSED}" "\<forall>r. r \<noteq> q \<longrightarrow> vk_fd (px_pool s r) \<noteq> fd"
      have "vk_fd (px_pool s' r) \<in> {vk_fd (px_pool s r), SOCK_CLOSED}" for r using A [THEN conjunct1, THEN spec, of r] by blast
      then have fd': "vk_fd (px_pool s' q) \<in> {fd, SOCK_CLOSED}" "\<forall>r. r \<noteq> q \<longrightarrow> vk_fd (px_pool s' r) \<noteq> fd" using fd by (metis empty_iff insert_iff)+
      show "sent (px_os s'') fd @ vk_output (px_pool s'' q)
          = sent (px_os s) fd @ vk_output (px_pool s q) @ concat (filter (\<lambda>f. svr_target s f = Some q) (fs @ gs))"
        using passes_on_output [OF assms(1) fd] passes_on_output [OF assms(2) fd(1) fd']
        by (simp add: passes_on_table(1) [OF assms(1)])
    qed
  qed
qed

subsection \<open>Cutting messages\<close>

lemma server_frames_step:
  assumes "frame_ok un_le32 CENTER_BUF_LEN f" and "mem_read (px_all_recv_buf s) tmp (length f) = f" and "length f \<le> unat left"
  shows "server_frames P pos left tmp s = (case SvrManager_DoTransfer P f s of
      None \<Rightarrow> None | Some s \<Rightarrow> server_frames P pos (left - word_of_nat (length f)) (tmp + length f) s)"
proof -
  have fl: "4 < length f" "length f \<le> CENTER_BUF_LEN" "unat (un_le32 (take 4 f)) = length f" using assms(1) by (simp_all add: frame_ok_def)
  have hd: "mem_read (px_all_recv_buf s) tmp 4 = take 4 f"
    using assms(2) fl(1) take_mem_read [of 4 "px_all_recv_buf s" tmp "length f"] by simp
  define len where "len = un_le32 (mem_read (px_all_recv_buf s) tmp 4)"
  have len: "unat len = length f" using fl(3) by (simp add: len_def hd)
  then have lw: "len = word_of_nat (length f)" using unat_le_max32 [of len] by (simp add: word_unat_eq_iff unat_of_nat32)
  have c: "\<not> left \<le> 4" "\<not> len > left" using fl(1) len assms(3) by (auto simp: word_le_nat_alt word_less_nat_alt)
  have "server_frames P pos left tmp s = (case SvrManager_DoTransfer P f s of None \<Rightarrow> None | Some s \<Rightarrow> server_frames P pos (left - len) (tmp + unat len) s)"
    using c fl(2) len assms(2) by (subst server_frames.simps) (simp add: Let_def len_def [symmetric])
  then show ?thesis unfolding len unfolding lw .
qed

lemma server_frames_stop:
  assumes "frame_partial un_le32 CENTER_BUF_LEN p" and "mem_read (px_all_recv_buf s) tmp (unat left) = p"
  shows "server_frames P pos left tmp s = Some (left, tmp, s)"
proof (cases "left \<le> 4")
  case True
  then show ?thesis by (subst server_frames.simps) simp
next
  case False
  obtain f k where f: "frame_ok un_le32 CENTER_BUF_LEN f" "k < length f" "p = take k f" using assms(1) by (auto simp: frame_partial_def)
  have k: "unat left = k" using assms(2) f(2,3) by (metis length_mem_read length_take less_imp_le min.absorb2)
  have "4 < k" using False k by (simp add: word_le_nat_alt)
  then have "mem_read (px_all_recv_buf s) tmp 4 = take 4 f"
    using assms(2) f(3) k take_mem_read [of 4 "px_all_recv_buf s" tmp "unat left"] by (simp add: min_def)
  then have len: "unat (un_le32 (mem_read (px_all_recv_buf s) tmp 4)) = length f" using f(1) by (simp add: frame_ok_def)
  then have "un_le32 (mem_read (px_all_recv_buf s) tmp 4) > left" using f(2) k by (simp add: word_less_nat_alt)
  then show ?thesis using False len f(1) by (subst server_frames.simps) (simp add: Let_def frame_ok_def)
qed

lemma server_frames_all:
  assumes "logs_output P sent" and "\<forall>f\<in>set fs. frame_ok un_le32 CENTER_BUF_LEN f \<and> svr_known s f" and "frame_partial un_le32 CENTER_BUF_LEN p"
    and "mem_read (px_all_recv_buf s) tmp (unat left) = concat fs @ p"
    and "\<forall>q. unat (vk_send_offset (px_pool s q)) + length (concat fs) \<le> PX_SEND_BUF_LEN"
  shows "\<exists>s'. server_frames P pos left tmp s = Some (word_of_nat (length p), tmp + length (concat fs), s') \<and> passes_on sent fs s s'"
  using assms(2,4,5)
proof (induction fs arbitrary: tmp left s)
  case Nil
  have u: "unat left = length p" using Nil.prems(2) by (metis append_Nil concat.simps(1) length_mem_read)
  then have l: "left = word_of_nat (length p)" using unat_le_max32 [of left] by (simp add: word_unat_eq_iff unat_of_nat32)
  have "server_frames P pos left tmp s = Some (left, tmp, s)" by (rule server_frames_stop [OF assms(3)]) (use Nil.prems(2) in simp)
  then show ?case by (simp add: l passes_on_def)
next
  case (Cons f fs)
  have len: "unat left = length f + length (concat fs @ p)" using Cons.prems(2) by (metis append.assoc concat.simps(2) length_append length_mem_read)
  have parts: "mem_read (px_all_recv_buf s) tmp (length f) = f"
      "mem_read (px_all_recv_buf s) (tmp + length f) (length (concat fs @ p)) = concat fs @ p"
    using Cons.prems(2) mem_read_append [of "px_all_recv_buf s" tmp "length f" "length (concat fs @ p)"] by (simp_all add: len)
  have fok: "frame_ok un_le32 CENTER_BUF_LEN f" "svr_known s f" using Cons.prems(1) by simp_all
  have 0: "\<forall>q. unat (vk_send_offset (px_pool s q)) + length f \<le> PX_SEND_BUF_LEN"
  proof
    fix q show "unat (vk_send_offset (px_pool s q)) + length f \<le> PX_SEND_BUF_LEN" using spec [OF Cons.prems(3), of q] by simp
  qed
  from passes_on_one [OF assms(1) fok(2) 0] obtain s1 where 1: "SvrManager_DoTransfer P f s = Some s1" "passes_on sent [f] s s1" by blast
  have room: "\<forall>q. unat (vk_send_offset (px_pool s1 q)) + length (concat fs) \<le> PX_SEND_BUF_LEN"
  proof
    fix q
    have "length (vk_output (px_pool s1 q)) \<le> length (vk_output (px_pool s q)) + length (concat [f])" using 1(2) unfolding passes_on_def by blast
    then show "unat (vk_send_offset (px_pool s1 q)) + length (concat fs) \<le> PX_SEND_BUF_LEN" using spec [OF Cons.prems(3), of q] by simp
  qed
  have fl: "length f < 2 ^ 32" using fok(1) by (simp add: frame_ok_def layout_simps)
  have u: "unat (left - word_of_nat (length f)) = length (concat fs @ p)"
    using len fl by (simp add: unat_sub word_le_nat_alt unat_of_nat32)
  have "mem_read (px_all_recv_buf s1) (tmp + length f) (unat (left - word_of_nat (length f))) = concat fs @ p"
    using parts(2) u passes_on_table(3) [OF 1(2)] by simp
  from Cons.IH [OF _ this room] obtain s2 where
    2: "server_frames P pos (left - word_of_nat (length f)) (tmp + length f) s1 = Some (word_of_nat (length p), tmp + length f + length (concat fs), s2)"
      "passes_on sent fs s1 s2"
    using Cons.prems(1) passes_on_table(2) [OF 1(2)] by auto
  have "length f \<le> unat left" using len by simp
  from server_frames_step [OF fok(1) parts(1) this, of P pos] show ?case
    using 1(1) 2(1) passes_on_trans [OF 1(2) 2(2)] by (simp add: add.assoc)
qed

subsection \<open>An example\<close>

definition log_os :: "(int \<Rightarrow> byte list) posix" where
  "log_os = \<lparr>sys_socket = (\<lambda>os. (3, os)), sys_setsockopt = (\<lambda>fd os. (True, os)), sys_connect = (\<lambda>fd ip port os. (True, os)),
     sys_bind = (\<lambda>fd port os. (True, os)), sys_listen = (\<lambda>fd os. (True, os)), sys_accept = (\<lambda>fd os. ((-1, 0, []), os)),
     sys_fcntl_getfl = (\<lambda>fd os. (True, os)), sys_fcntl_nonblock = (\<lambda>fd os. (True, os)), sys_close = (\<lambda>fd os. os),
     sys_send = (\<lambda>fd bs os. (SendOk (length bs), os(fd := os fd @ bs))), sys_recv = (\<lambda>fd n os. (RecvErr EAGAIN, os)),
     sys_select = (\<lambda>fds os. ((0, []), os)), sys_epoll_create = (\<lambda>os. (4, os)), sys_epoll_add = (\<lambda>ep fd d os. (True, os)),
     sys_epoll_del = (\<lambda>ep fd os. (True, os)), sys_epoll_wait = (\<lambda>ep n os. (None, os)), sys_gettimeofday = (\<lambda>os. ((0, 0), os))\<rparr>"

lemma log_os_logs: "logs_output log_os (\<lambda>os. os)"
  by (auto simp: logs_output_def posix_send_def log_os_def split: prod.splits)

text \<open>Two servers of type 2 at the positions 1 and 2; the one at position 3 is connecting as number 0.\<close>

definition demo_proxy_head :: "RouteType \<Rightarrow> stCenterHead" where
  "demo_proxy_head r = \<lparr>ch_src_type = 2, ch_src_id = 0, ch_des_type = 2, ch_des_id = 1, ch_session_id = 9, ch_route_type = r,
     ch_hash_key = 5, ch_center_index = 0\<rparr>"

definition demo_proxy_frame :: "RouteType \<Rightarrow> byte list" where
  "demo_proxy_frame r = le32 45 @ enc_center_head (demo_proxy_head r) @ [7]"

definition demo_proxy :: "byte list \<Rightarrow> (int \<Rightarrow> byte list) ProxySvr" where
  "demo_proxy bs = \<lparr>px_conf = \<lparr>cc_msg_shmkey = 0, cc_port = 80, cc_ip = [], cc_max_svr_num = 4, cc_ep_timeout = 0,
       cc_svrs = [\<lparr>ls_svr_type = 2, ls_svr_num = 2\<rparr>], cc_hash_index = [2 \<mapsto> 0]\<rparr>,
     px_lsfd = 3, px_pool = (\<lambda>p. (cleared_svr_socket p)\<lparr>vk_fd := 10 + int p, vk_svr_type := 2, vk_svr_id := (if p = 2 then 1 else 0)\<rparr>),
     px_all_recv_buf = mem_write mem_zero PX_RECV_BUF_LEN bs, px_free_list = [], px_epfd = 4, px_svrs = [2 \<mapsto> [Some 1, Some 2]],
     px_run_flag = 0, px_os = (\<lambda>_. [])\<rparr>"

lemma demo_proxy_fields:
  "px_pool (demo_proxy bs) p = (cleared_svr_socket p)\<lparr>vk_fd := 10 + int p, vk_svr_type := 2, vk_svr_id := (if p = 2 then 1 else 0)\<rparr>"
  "px_svrs (demo_proxy bs) = [2 \<mapsto> [Some 1, Some 2]]" "px_max (demo_proxy bs) = 4" "px_os (demo_proxy bs) = (\<lambda>_. [])" "px_free_list (demo_proxy bs) = []"
  "px_all_recv_buf (demo_proxy bs) = mem_write mem_zero PX_RECV_BUF_LEN bs" "CenterConfig_GetSvr 2 (px_conf (demo_proxy bs)) = Some \<lparr>ls_svr_type = 2, ls_svr_num = 2\<rparr>"
  by (simp_all add: demo_proxy_def px_max_def CenterConfig_GetSvr_def)

lemma demo_frame_fields:
  assumes "wf_route r"
  shows "length (demo_proxy_frame r) = 45" "dec_center_head (drop 4 (demo_proxy_frame r)) = demo_proxy_head r" "frame_ok un_le32 CENTER_BUF_LEN (demo_proxy_frame r)"
  using dec_enc_center_head [of "demo_proxy_head r" "[7]"] assms
  by (simp_all add: demo_proxy_frame_def demo_proxy_head_def frame_ok_def layout_simps)

subsection \<open>Properties of the proxy\<close>



subsection \<open>Registration\<close>

lemma SocketRelease_fields:
  assumes "unat p < px_max s"
  shows "px_pool (ProxySvr_SocketRelease P p s) = (px_pool s)(unat p := cleared_svr_socket (unat p))"
    "px_free_list (ProxySvr_SocketRelease P p s) = px_free_list s @ [unat p]" "px_svrs (ProxySvr_SocketRelease P p s) = px_svrs s"
    "px_conf (ProxySvr_SocketRelease P p s) = px_conf s" "px_all_recv_buf (ProxySvr_SocketRelease P p s) = px_all_recv_buf s"
    "logs_output P sent \<Longrightarrow> sent (px_os (ProxySvr_SocketRelease P p s)) = sent (px_os s)"
proof -
  have "\<not> cc_max_svr_num (px_conf s) \<le> p" using assms by (simp add: px_max_def word_le_nat_alt)
  then show "px_pool (ProxySvr_SocketRelease P p s) = (px_pool s)(unat p := cleared_svr_socket (unat p))"
    "px_free_list (ProxySvr_SocketRelease P p s) = px_free_list s @ [unat p]" "px_svrs (ProxySvr_SocketRelease P p s) = px_svrs s"
    "px_conf (ProxySvr_SocketRelease P p s) = px_conf s" "px_all_recv_buf (ProxySvr_SocketRelease P p s) = px_all_recv_buf s"
    "logs_output P sent \<Longrightarrow> sent (px_os (ProxySvr_SocketRelease P p s)) = sent (px_os s)"
    by (simp_all add: ProxySvr_SocketRelease_def ProxySvr_EpollDel_def logs_output_def Let_def case_prod_beta)
qed

lemma SendBufData_fields:
  "px_free_list (snd (SvrManager_SendBufData P pos s)) = px_free_list s" "px_svrs (snd (SvrManager_SendBufData P pos s)) = px_svrs s"
  "vk_svr_type (px_pool (snd (SvrManager_SendBufData P pos s)) pos) = vk_svr_type (px_pool s pos)"
  "vk_svr_id (px_pool (snd (SvrManager_SendBufData P pos s)) pos) = vk_svr_id (px_pool s pos)"
  by (simp_all add: SvrManager_SendBufData_def svr_close_def Let_def split: prod.split send_result.split)

text \<open>A registration under a number that is taken: the state in which the kept output is sent.\<close>

definition hand_over :: "'os posix \<Rightarrow> nat \<Rightarrow> nat \<Rightarrow> 'os ProxySvr \<Rightarrow> 'os ProxySvr" where
  "hand_over P pos b s =
     ProxySvr_SocketRelease P (vk_socket_pos (px_pool s b))
       (px_upd pos (\<lambda>x. x\<lparr>vk_send_buf := mem_write (vk_send_buf x) 0 (vk_output (px_pool s b)), vk_send_offset := vk_send_offset (px_pool s b)\<rparr>) s)"

lemma Register_again:
  assumes "px_svrs s (vk_svr_type (px_pool s pos)) = Some v" and "unat (vk_svr_id (px_pool s pos)) < length v"
    and "v ! unat (vk_svr_id (px_pool s pos)) = Some b" and "b \<noteq> pos" and "vk_socket_pos (px_pool s b) = word_of_nat b" and "b < px_max s"
  shows "\<exists>s'. SvrManager_Register P pos s = Some s' \<and> px_free_list s' = px_free_list s @ [b]
    \<and> px_svrs s' = (px_svrs s)(vk_svr_type (px_pool s pos) \<mapsto> v[unat (vk_svr_id (px_pool s pos)) := Some pos])
    \<and> px_os s' = px_os (snd (SvrManager_SendBufData P pos (hand_over P pos b s)))
    \<and> px_pool s' = px_pool (snd (SvrManager_SendBufData P pos (hand_over P pos b s)))"
proof -
  let ?t = "vk_svr_type (px_pool s pos)" and ?i = "vk_svr_id (px_pool s pos)"
  let ?u = "snd (SvrManager_SendBufData P pos (hand_over P pos b s))"
  have b: "unat (word_of_nat b :: uint32) = b"
    using assms(6) unat_le_max32 [of "cc_max_svr_num (px_conf s)"] by (simp add: px_max_def unat_of_nat32)
  have h: "px_free_list (hand_over P pos b s) = px_free_list s @ [b]" "px_svrs (hand_over P pos b s) = px_svrs s"
      "vk_svr_type (px_pool (hand_over P pos b s) pos) = ?t" "vk_svr_id (px_pool (hand_over P pos b s) pos) = ?i"
    using assms(4-6) b by (simp_all add: hand_over_def SocketRelease_fields px_max_def)
  have "SvrManager_Register P pos s = Some (?u\<lparr>px_svrs := (px_svrs s)(?t \<mapsto> v[unat ?i := Some pos])\<rparr>)"
    using assms(1-3) h SendBufData_fields [of P pos "hand_over P pos b s"]
    by (simp add: SvrManager_Register_def svr_at_def Let_def hand_over_def vk_output_def)
  then show ?thesis using h SendBufData_fields(1) [of P pos "hand_over P pos b s"] by simp
qed



text \<open>C38. A connection that is freed while its server stays in the table is freed again: after an error event on the connection of a
  registered server, its position is in the list of free positions; when the server registers from a new
  connection, the same position is appended once more, so two later connections are given the same socket.\<close>

theorem stale_registration_frees_twice:
  assumes "px_svrs s (vk_svr_type (px_pool s pos)) = Some v" and "unat (vk_svr_id (px_pool s pos)) < length v"
    and "v ! unat (vk_svr_id (px_pool s pos)) = Some b" and "b \<noteq> pos" and "b < px_max s"
  shows "\<exists>s'. SvrManager_Register P pos (ProxySvr_SocketRelease P (word_of_nat b) s) = Some s' \<and> px_free_list s' = px_free_list s @ [b, b]"
proof -
  have b: "unat (word_of_nat b :: uint32) = b"
    using assms(5) unat_le_max32 [of "cc_max_svr_num (px_conf s)"] by (simp add: px_max_def unat_of_nat32)
  let ?s = "ProxySvr_SocketRelease P (word_of_nat b) s"
  have f: "px_pool ?s pos = px_pool s pos" "px_svrs ?s = px_svrs s" "px_free_list ?s = px_free_list s @ [b]" "px_max ?s = px_max s"
      "vk_socket_pos (px_pool ?s b) = word_of_nat b"
    using SocketRelease_fields [of "word_of_nat b" s P] assms(4,5) b by (simp_all add: px_max_def cleared_svr_socket_def)
  show ?thesis
    using Register_again [of ?s pos v b P] assms by (auto simp: f)
qed

theorem stale_registration_frees_twice_witness:
  "\<exists>s'. SvrManager_Register log_os 3 (ProxySvr_SocketRelease log_os (word_of_nat 1) (demo_proxy [])) = Some s' \<and> px_free_list s' = [1, 1]"
  using stale_registration_frees_twice [of "demo_proxy []" 3 "[Some 1, Some 2]" 1 log_os]
  by (simp add: demo_proxy_fields cleared_svr_socket_def)

subsection \<open>Faults\<close>

lemma SendOneData_only:
  "px_svrs (snd (SvrManager_SendOneData P pos buf s)) = px_svrs s" "q \<noteq> pos \<Longrightarrow> px_pool (snd (SvrManager_SendOneData P pos buf s)) q = px_pool s q"
  by (simp_all add: SvrManager_SendOneData_def SvrManager_SendBufData_def SvrManager_ReserveData_def svr_close_def Let_def split: prod.split send_result.split)

lemma broadcast_loop_only:
  assumes "broadcast_loop P t i buf is s = Some s'"
  shows "px_svrs s' = px_svrs s" "svr_slot s t (unat i) \<noteq> Some q \<Longrightarrow> px_pool s' q = px_pool s q"
proof -
  have "px_svrs s' = px_svrs s \<and> (svr_slot s t (unat i) \<noteq> Some q \<longrightarrow> px_pool s' q = px_pool s q)"
    using assms
  proof (induction "is" arbitrary: s)
    case (Cons k ks)
    consider "broadcast_loop P t i buf ks s = Some s'"
      | pos where "svr_at s t i = Some (Some pos)" "broadcast_loop P t i buf ks (snd (SvrManager_SendOneData P pos buf s)) = Some s'"
      using Cons.prems by (auto split: option.splits)
    then show ?case
    proof cases
      case 1
      then show ?thesis by (rule Cons.IH)
    next
      case (2 pos)
      have "svr_slot s t (unat i) = Some pos" using 2(1) by (auto simp: svr_at_def svr_slot_def split: option.splits if_splits)
      then show ?thesis using Cons.IH [OF 2(2)] by (auto simp: svr_slot_def SendOneData_only)
    qed
  qed simp
  then show "px_svrs s' = px_svrs s" "svr_slot s t (unat i) \<noteq> Some q \<Longrightarrow> px_pool s' q = px_pool s q" by auto
qed



lemma zero_length_loops:
  assumes "server_frames P pos left tmp s = Some y"
  shows "\<not> (4 < left \<and> un_le32 (mem_read (px_all_recv_buf s) tmp 4) = 0)"
proof -
  let ?Q = "\<lambda>((((P :: 'a posix, pos :: nat), left :: uint32), tmp :: nat), s :: 'a ProxySvr) (y :: uint32 \<times> nat \<times> 'a ProxySvr).
    \<not> (4 < left \<and> un_le32 (mem_read (px_all_recv_buf s) tmp 4) = 0)"
  have "?Q ((((P, pos), left), tmp), s) y"
  proof (rule server_frames.raw_induct [where Pa = ?Q, OF _ assms], goal_cases)
    case (1 frames P pos left tmp s y)
    show ?case unfolding prod.case
    proof
      assume z: "4 < left \<and> un_le32 (mem_read (px_all_recv_buf s) tmp 4) = 0"
      then have "\<not> left \<le> 4" by (simp add: not_le)
      then have "frames P pos left tmp s = Some y" using 1(2) z by (simp add: Let_def SvrManager_DoTransfer_def)
      from 1(1) [OF this] show False using z by simp
    qed
  qed
  then show ?thesis by simp
qed

text \<open>A message of length 0 stops the proxy: when the unread bytes of a connection begin with a length field of 0, the loop over the
  buffered messages never ends.\<close>

lemma zero_length_hangs_proxy:
  assumes "4 < vk_recv_offset (px_pool s pos) + n" and "un_le32 (mem_read (px_all_recv_buf s) (vk_recv_buf (px_pool s pos)) 4) = 0"
  shows "server_received P pos n s = None"
proof -
  let ?s = "px_upd pos (\<lambda>x. x\<lparr>vk_recv_offset := vk_recv_offset x + n\<rparr>) s"
  have "server_frames P pos (vk_recv_offset (px_pool s pos) + n) (vk_recv_buf (px_pool s pos)) ?s = None"
    using zero_length_loops [of P pos "vk_recv_offset (px_pool s pos) + n" "vk_recv_buf (px_pool s pos)" ?s] assms
    by (cases "server_frames P pos (vk_recv_offset (px_pool s pos) + n) (vk_recv_buf (px_pool s pos)) ?s") auto
  then show ?thesis by (simp add: server_received_def Let_def)
qed

text \<open>An invalid length frees the socket but keeps its input: the position returns to the free list while the receive offset stays at
  the unread bytes, so the next connection given the position starts with input it never sent, which is invalid again.\<close>

lemma invalid_length_leaves_input:
  assumes "4 < vk_recv_offset (px_pool s pos) + n" and "CENTER_BUF_LEN < unat (un_le32 (mem_read (px_all_recv_buf s) (pos * PX_RECV_BUF_LEN) 4))"
    and "vk_recv_buf (px_pool s pos) = pos * PX_RECV_BUF_LEN" and "vk_socket_pos (px_pool s pos) = word_of_nat pos" and "pos < px_max s"
  shows "\<exists>s'. server_received P pos n s = Some s' \<and> px_free_list s' = px_free_list s @ [pos] \<and> vk_fd (px_pool s' pos) = 0
    \<and> vk_recv_offset (px_pool s' pos) = vk_recv_offset (px_pool s pos) + n
    \<and> mem_read (px_all_recv_buf s') (pos * PX_RECV_BUF_LEN) (unat (vk_recv_offset (px_pool s pos) + n))
        = mem_read (px_all_recv_buf s) (pos * PX_RECV_BUF_LEN) (unat (vk_recv_offset (px_pool s pos) + n))"
proof -
  let ?left = "vk_recv_offset (px_pool s pos) + n" and ?rb = "pos * PX_RECV_BUF_LEN"
  let ?s = "px_upd pos (\<lambda>x. x\<lparr>vk_recv_offset := vk_recv_offset x + n\<rparr>) s"
  have p: "unat (word_of_nat pos :: uint32) = pos"
    using assms(5) unat_le_max32 [of "cc_max_svr_num (px_conf s)"] by (simp add: px_max_def unat_of_nat32)
  then have m: "unat (word_of_nat pos :: uint32) < px_max ?s" using assms(5) by (simp add: px_max_def)
  let ?r = "ProxySvr_SocketRelease P (word_of_nat pos) ?s"
  note F = SocketRelease_fields [OF m, of P]
  have c: "server_frames P pos ?left ?rb ?s = Some (?left, ?rb, ?r)"
    using assms(1,2,4) by (subst server_frames.simps) (simp add: Let_def)
  have ne: "?left \<noteq> vk_recv_offset (px_pool ?r pos)" using assms(1) by (auto simp: F(1) p cleared_svr_socket_def)
  let ?t = "px_upd pos (\<lambda>x. x\<lparr>vk_recv_offset := ?left\<rparr>) (?r\<lparr>px_all_recv_buf := mem_write (px_all_recv_buf ?r) ?rb (mem_read (px_all_recv_buf ?r) ?rb (unat ?left))\<rparr>)"
  have "server_received P pos n s = Some ?t"
    using c ne by (simp add: server_received_def Let_def assms(3) F(1) p cleared_svr_socket_def)
  then show ?thesis by (intro exI [of _ ?t]) (simp add: F p cleared_svr_socket_def)
qed

end
