(* ===== verification/Hash.thy ===== *)
theory Hash
  imports Prelude
begin

text \<open>
  \<^verbatim>\<open>include/hash.hpp\<close>: the string hash that selects the account table, and the decimal and literal text the database code writes
  into its statements.
\<close>

subsection \<open>GetHash\<close>

text \<open>The two loops: over the whole words of the string, and over the bytes that remain.\<close>

fun hash_words :: "nat \<Rightarrow> byte list \<Rightarrow> uint32 \<Rightarrow> uint32" where
  "hash_words 0 str index = index"
| "hash_words (Suc n) str index = hash_words n (drop 4 str) (xor (index * 0x3e11ef) (un_le32 (take 4 str)))"

fun hash_bytes :: "byte list \<Rightarrow> uint32 \<Rightarrow> uint32" where
  "hash_bytes [] index = index"
| "hash_bytes (b # bs) index = hash_bytes bs (xor (index * 0x3e11ef) (ucast b))"

text \<open>\<open>str\<close> is the string without its terminator; its first character is a signed \<^verbatim>\<open>char\<close>. \<open>None\<close> means that the loops read beyond
  the string.\<close>

definition GetHash :: "byte list \<Rightarrow> uint32 option" where
  "GetHash str =
     (let str_len = word_of_nat (length str) :: uint32;
          remain = str_len mod 4;
          remain = (if remain = 0 then 4 else remain);
          len = (str_len - remain) div 4;
          index = xor 0xe6ee7103 (push_bit 7 (scast (hd (str @ [0])) :: uint32))
      in if unat len * 4 + unat remain > length str then None
         else
           let index = hash_words (unat len) str index;
               index = hash_bytes (take (unat remain) (drop (unat len * 4) str)) index
           in Some (xor (xor index str_len) 0x1a8fed1f))"

text \<open>A string that is not empty is read to its end and not beyond.\<close>

lemma GetHash_defined:
  assumes "str \<noteq> []" and "length str < 2 ^ 32"
  shows "GetHash str \<noteq> None"
proof -
  define n where "n = length str"
  define r where "r = (if n mod 4 = 0 then 4 else n mod 4)"
  have n: "0 < n" "n < 2 ^ 32" using assms by (simp_all add: n_def)
  have un: "unat (word_of_nat n :: uint32) = n" using n(2) by (simp add: unat_of_nat)
  have um: "unat (word_of_nat n mod 4 :: uint32) = n mod 4" using un by (simp add: unat_mod)
  have ur: "unat (if word_of_nat n mod 4 = (0 :: uint32) then 4 else word_of_nat n mod 4 :: uint32) = r"
    using um by (auto simp: r_def unat_eq_0 [symmetric])
  have r: "r \<le> n" "4 dvd n - r"
  proof -
    show "r \<le> n" using n(1) by (auto simp: r_def dvd_imp_le mod_eq_0_iff_dvd)
    show "4 dvd n - r"
    proof (cases "n mod 4 = 0")
      case True
      then show ?thesis by (simp add: r_def mod_eq_0_iff_dvd dvd_diff_nat)
    next
      case False
      then show ?thesis by (simp add: r_def)
    qed
  qed
  have "unat ((word_of_nat n - (if word_of_nat n mod 4 = (0 :: uint32) then 4 else word_of_nat n mod 4 :: uint32)) div 4) * 4 + r = n"
    using r un ur by (simp add: unat_div unat_sub word_le_nat_alt)
  then show ?thesis using ur by (simp add: GetHash_def Let_def n_def [symmetric])
qed

text \<open>An empty string has no remaining bytes, but four are taken, and the length computed from that wraps around.\<close>

lemma GetHash_empty: "GetHash [] = None"
  by (simp add: GetHash_def)

subsection \<open>Text\<close>

definition lit :: "string \<Rightarrow> byte list" where
  "lit s = map of_char s"

fun dec_digits :: "nat \<Rightarrow> byte list" where
  "dec_digits n = (if n < 10 then [word_of_nat (48 + n)] else dec_digits (n div 10) @ [word_of_nat (48 + n mod 10)])"

declare dec_digits.simps [simp del]

text \<open>\<^verbatim>\<open>%s\<close> of a C string, and \<^verbatim>\<open>snprintf\<close> into an array of \<open>n\<close> bytes.\<close>

definition fmt_s :: "byte list \<Rightarrow> byte list" where
  "fmt_s bs = takeWhile (\<lambda>b. b \<noteq> 0) bs"

definition snprintf :: "nat \<Rightarrow> byte list \<Rightarrow> byte list" where
  "snprintf n bs = take (n - 1) bs"

end
