(* ===== verification/Mysql.thy ===== *)
theory Mysql
  imports Hash
begin

text \<open>
  The repository holds the headers of the MySQL++ library but not its code: a connection is a state \<open>'db\<close> on which the calls of the record \<open>mysqlpp\<close> work. \<open>my_store\<close> runs a
  statement and delivers the rows, as lists of column texts, and whether the error number is 0; \<open>my_num\<close> is the conversion of a
  column to an integer, \<open>my_escape\<close> is \<^verbatim>\<open>escape_string_no_conn\<close>, \<open>my_ping\<close> asks whether the server still answers.
\<close>

record 'db mysqlpp =
  my_connected :: "'db \<Rightarrow> bool"
  my_connect :: "string \<Rightarrow> string \<Rightarrow> string \<Rightarrow> string \<Rightarrow> uint32 \<Rightarrow> 'db \<Rightarrow> bool \<times> 'db"
  my_store :: "byte list \<Rightarrow> 'db \<Rightarrow> (byte list list list \<times> bool) \<times> 'db"
  my_num :: "byte list \<Rightarrow> uint64"
  my_escape :: "byte list \<Rightarrow> byte list"
  my_ping :: "'db \<Rightarrow> bool \<times> 'db"

end
