(* ===== verification/AuthSvr.thy ===== *)
theory AuthSvr
  imports MsgBasic Cipher Mysql
begin

text \<open>
  \<^verbatim>\<open>src/authsvr\<close>: the authentication server. It looks an account up in the account tables, registers guests, and answers with a token
  signed with the private key.
\<close>

text \<open>The frame, with the members of \<^verbatim>\<open>DBManager\<close> and the singleton \<^verbatim>\<open>RSACipher\<close>.\<close>

record ('os, 'db, 'k) AuthState = "'os Server" +
  as_conn :: 'db
  as_result :: "byte list list list"
  as_sql :: "byte list"
  as_uid_index :: uint64
  as_cipher :: "'k RSACipher"

subsection \<open>db\_mng.cpp\<close>

text \<open>\<^verbatim>\<open>Query\<close> runs the member \<^verbatim>\<open>_sql\<close>, whatever its argument.\<close>

definition DBManager_Query :: "'db mysqlpp \<Rightarrow> byte list \<Rightarrow> ('os, 'db, 'k, 'a) AuthState_scheme \<Rightarrow> bool \<times> ('os, 'db, 'k, 'a) AuthState_scheme" where
  "DBManager_Query D sql s =
     (let conf = sv_conf s;
          (ok, db) = (if my_connected D (as_conn s) then (True, as_conn s)
                      else my_connect D (lc_db_name conf) (lc_db_ip conf) (lc_db_account conf) (lc_db_password conf) (lc_db_port conf) (as_conn s));
          s = s\<lparr>as_conn := db\<rparr>
      in if \<not> ok then (False, s)
         else (case my_store D (as_sql s) (as_conn s) of ((rows, ok), db) \<Rightarrow> (ok, s\<lparr>as_conn := db, as_result := rows\<rparr>)))"

definition set_sql :: "byte list \<Rightarrow> ('os, 'db, 'k, 'a) AuthState_scheme \<Rightarrow> ('os, 'db, 'k, 'a) AuthState_scheme" where
  "set_sql sql s = s\<lparr>as_sql := snprintf 512 sql\<rparr>"

definition first_num :: "'db mysqlpp \<Rightarrow> ('os, 'db, 'k, 'a) AuthState_scheme \<Rightarrow> uint64" where
  "first_num D s = my_num D (as_result s ! 0 ! 0)"

definition DBManager_Init :: "'db mysqlpp \<Rightarrow> ('os, 'db, 'k, 'a) AuthState_scheme \<Rightarrow> bool \<times> ('os, 'db, 'k, 'a) AuthState_scheme" where
  "DBManager_Init D s =
     (let s = set_sql (lit ''select * from uid_index'') s;
          s = snd (DBManager_Query D (as_sql s) s)
      in if length (as_result s) \<noteq> 1 then (False, s) else (True, s\<lparr>as_uid_index := first_num D s\<rparr>))"

definition sql_select :: "uint32 \<Rightarrow> CSRequestAuth \<Rightarrow> byte list" where
  "sql_select index r = lit ''select uid, password from account_'' @ dec_digits (unat index) @ lit '' where account_type = ''
     @ dec_digits (unat (ra_type r)) @ lit '' and account_name = '' @ [39] @ fmt_s (ra_account r) @ [39]"

definition sql_next_uid :: "uint64 \<Rightarrow> byte list" where
  "sql_next_uid i = lit ''update uid_index set uid = '' @ dec_digits (unat (i + 1)) @ lit '' where uid = '' @ dec_digits (unat i)"

definition sql_insert :: "uint32 \<Rightarrow> CSRequestAuth \<Rightarrow> uint64 \<Rightarrow> byte list" where
  "sql_insert index r uid = lit ''insert into account_'' @ dec_digits (unat index) @ lit '' (account_type, account_name, uid) values (''
     @ dec_digits (unat (ra_type r)) @ lit '', '' @ [39] @ fmt_s (ra_account r) @ [39] @ lit '', '' @ dec_digits (unat uid) @ lit '')''"

text \<open>The lookup: the uid of the account, of a new guest account, or the error to report.\<close>

definition find_account :: "'db mysqlpp \<Rightarrow> CSRequestAuth \<Rightarrow> uint32 \<Rightarrow> ('os, 'db, 'k, 'a) AuthState_scheme
    \<Rightarrow> (ENMessageResult + uint64) \<times> ('os, 'db, 'k, 'a) AuthState_scheme" where
  "find_account D r index s =
     (let s = set_sql (sql_select index r) s;
          (ok, s) = DBManager_Query D (as_sql s) s
      in if \<not> ok then (Inl EN_MESSAGE_DB_ERR, s)
         else if as_result s \<noteq> [] then (Inr (first_num D s), s)
         else if ra_type r \<noteq> EN_ACC_GEUST then (Inl EN_MESSAGE_ACCOUNT_NOT_FOUND, s)
         else
           let s = set_sql (sql_next_uid (as_uid_index s)) s;
               (ok, s) = DBManager_Query D (as_sql s) s
           in if \<not> ok then (Inl EN_MESSAGE_DB_ERR, s)
              else
                let s = s\<lparr>as_uid_index := as_uid_index s + 1\<rparr>;
                    s = set_sql (sql_insert index r (as_uid_index s)) s;
                    (ok, s) = DBManager_Query D (as_sql s) s
                in if \<not> ok then (Inl EN_MESSAGE_DB_ERR, s) else (Inr (as_uid_index s), s))"

definition CSResponseAuth_new :: CSResponseAuth where
  "CSResponseAuth_new = \<lparr>rsa_result = EN_MESSAGE_OK, rsa_uid = 0, rsa_token = []\<rparr>"

text \<open>\<^verbatim>\<open>OnAuthorization\<close>; \<open>None\<close> when \<^verbatim>\<open>GetHash\<close> reads beyond the account name.\<close>

definition DBManager_OnAuthorization :: "'k openssl \<Rightarrow> 'db mysqlpp \<Rightarrow> CSRequestAuth \<Rightarrow> ('os, 'db, 'k, 'a) AuthState_scheme
    \<Rightarrow> (CSResponseAuth \<times> ('os, 'db, 'k, 'a) AuthState_scheme) option" where
  "DBManager_OnAuthorization R D request s =
     (case GetHash (ra_account request) of
        None \<Rightarrow> None
      | Some h \<Rightarrow>
          Some (case find_account D request (h mod 512) s of
             (Inl e, s) \<Rightarrow> (CSResponseAuth_new\<lparr>rsa_result := e\<rparr>, s)
           | (Inr uid, s) \<Rightarrow>
               (case RSACipher_EncryptWithPriKey R (as_cipher s) (enc_auth_token \<lparr>at_uid = uid, at_time = GetTime (sv_cur_time s)\<rparr>) of
                  None \<Rightarrow> (CSResponseAuth_new\<lparr>rsa_result := EN_MESSAGE_SYS_ERR\<rparr>, s)
                | Some (sztoken, len) \<Rightarrow>
                    (CSResponseAuth_new\<lparr>rsa_result := EN_MESSAGE_OK, rsa_uid := uid, rsa_token := mem_read sztoken 0 len\<rparr>, s))))"

definition DBManager_OnMessage :: "'k openssl \<Rightarrow> 'db mysqlpp \<Rightarrow> lib \<Rightarrow> stTcpHead \<Rightarrow> PBCSMsg \<Rightarrow> ('os, 'db, 'k, 'a) AuthState_scheme
    \<Rightarrow> ('os, 'db, 'k, 'a) AuthState_scheme option" where
  "DBManager_OnMessage R D B head cs_msg s =
     (case (case cs_msg_union cs_msg of
              cs_request_auth request \<Rightarrow>
                map_option (\<lambda>(r, s). (PBCSMsg_new\<lparr>cs_msg_union := cs_response_auth r\<rparr>, s)) (DBManager_OnAuthorization R D request s)
            | _ \<Rightarrow> Some (PBCSMsg_new, s)) of
        None \<Rightarrow> None
      | Some (response, s) \<Rightarrow> Some (snd (snd (MsgBasic_SendMsgToClient B head response True s))))"

subsection \<open>logicsvr.cpp\<close>

definition AuthSvr_InitLogic :: "'k openssl \<Rightarrow> 'db mysqlpp \<Rightarrow> ('os, 'db, 'k, 'a) AuthState_scheme \<Rightarrow> bool \<times> ('os, 'db, 'k, 'a) AuthState_scheme" where
  "AuthSvr_InitLogic R D s =
     (case RSACipher_GetPriKey R ''../../config/private.key'' (as_cipher s) of
        (ok, c) \<Rightarrow>
          let s = s\<lparr>as_cipher := c\<rparr>
          in if \<not> ok then (False, s) else DBManager_Init D s)"

definition AuthSvr_OnClientMessage :: "'k openssl \<Rightarrow> 'db mysqlpp \<Rightarrow> lib \<Rightarrow> stTcpHead \<Rightarrow> stPBMsg \<Rightarrow> ('os, 'db, 'k, 'a) AuthState_scheme
    \<Rightarrow> ('os, 'db, 'k, 'a) AuthState_scheme option" where
  "AuthSvr_OnClientMessage R D B head msg s =
     (case MsgBasic_ParseMsgFromClient B msg of None \<Rightarrow> Some s | Some cs_msg \<Rightarrow> DBManager_OnMessage R D B head cs_msg s)"

text \<open>The virtual functions; those not named above have empty bodies.\<close>

definition auth_logic :: "'k openssl \<Rightarrow> 'db mysqlpp \<Rightarrow> lib \<Rightarrow> ('os, 'db, 'k, 'a) AuthState_scheme logic" where
  "auth_logic R D B =
     \<lparr>InitLogic = AuthSvr_InitLogic R D, Reload = Some, Exit = Some, OnClientMessage = AuthSvr_OnClientMessage R D B,
      OnClientOffline = (\<lambda>logic_index. Some), OnServerMessage = (\<lambda>head msg. Some), OnInteralMessage = (\<lambda>msg. Some), OnRoutineCheck = Some\<rparr>"

subsection \<open>Accounts and tokens\<close>

lemma Query_fields:
  assumes "DBManager_Query D sql s = (ok, s')"
  shows "as_uid_index s' = as_uid_index s \<and> as_cipher s' = as_cipher s \<and> sv_cur_time s' = sv_cur_time s"
  using assms by (auto simp: DBManager_Query_def Let_def split: if_splits prod.splits)

lemma find_account_fields:
  assumes "find_account D r index s = (x, s')"
  shows "as_cipher s' = as_cipher s \<and> sv_cur_time s' = sv_cur_time s \<and> as_uid_index s' \<in> {as_uid_index s, as_uid_index s + 1}"
  using assms by (auto simp: find_account_def set_sql_def Let_def split: if_splits prod.splits dest!: Query_fields)

lemma OnAuthorization_token:
  assumes "DBManager_OnAuthorization R D request s = Some (r, s')" and "rsa_token r \<noteq> []"
  shows "\<exists>out n. RSACipher_EncryptWithPriKey R (as_cipher s) (enc_auth_token \<lparr>at_uid = rsa_uid r, at_time = GetTime (sv_cur_time s)\<rparr>) = Some (out, n)
    \<and> rsa_token r = mem_read out 0 n \<and> rsa_result r = EN_MESSAGE_OK"
  using assms
  by (auto simp: DBManager_OnAuthorization_def CSResponseAuth_new_def split: option.splits prod.splits sum.splits dest!: find_account_fields)

end
