(* ===== verification/DbProxy.thy ===== *)
theory DbProxy
  imports MsgBasic Mysql ServerFlow
begin

text \<open>
  \<^verbatim>\<open>src/dbproxy\<close>: the database proxy. It answers the requests of the logic servers to load and to save the records of a player. A record is
  saved only when its version is the successor of the stored one; the versions last written are cached. \<^verbatim>\<open>CDBConnectionMgr\<close> is its map from
  connection ids to connections.
\<close>

definition TOTAL_TABLE_NUM :: uint64 where "TOTAL_TABLE_NUM = 512"
definition KEY_MULTIPLE :: uint64 where "KEY_MULTIPLE = 10000000000"
definition E_DB_USER :: int where "E_DB_USER = 1"

datatype db_handle = UserDataGetHandle | UserDataSaveHandle

record ('os, 'db) DBState = "'os Server" +
  db_conns :: "int \<rightharpoonup> 'db"
  db_urls :: "int \<rightharpoonup> string"
  db_offline :: "int list"
  db_cache :: "uint64 \<rightharpoonup> uint32"
  db_handles :: "uint32 \<rightharpoonup> db_handle"

subsection \<open>dbconnectionmgr.cpp\<close>

record DBURL =
  du_id :: int
  du_url :: string

text \<open>A greedy group followed by the character \<open>c\<close>: the longest prefix for which the rest of the expression matches. The
  groups of \<^verbatim>\<open>mysql://(.+):(.*)@(.+):(.+)/(.+)\<close> are the user, the password, the host, the port and the name of the database.\<close>

fun greedy_upto :: "nat \<Rightarrow> char \<Rightarrow> (string \<Rightarrow> string \<Rightarrow> 'r option) \<Rightarrow> string \<Rightarrow> 'r option" where
  "greedy_upto 0 c f xs = None"
| "greedy_upto (Suc i) c f xs =
     (case (if i < length xs \<and> xs ! i = c then f (take i xs) (drop (Suc i) xs) else None) of
        Some r \<Rightarrow> Some r
      | None \<Rightarrow> greedy_upto i c f xs)"

definition greedy :: "char \<Rightarrow> (string \<Rightarrow> string \<Rightarrow> 'r option) \<Rightarrow> string \<Rightarrow> 'r option" where
  "greedy c f xs = greedy_upto (length xs) c f xs"

definition url_groups :: "string \<Rightarrow> (string \<times> string \<times> string \<times> string \<times> string) option" where
  "url_groups t =
     greedy CHR '':'' (\<lambda>user t. if user = [] then None
       else greedy CHR ''@'' (\<lambda>password t.
         greedy CHR '':'' (\<lambda>host t. if host = [] then None
           else greedy CHR ''/'' (\<lambda>port name. if port = [] \<or> name = [] then None else Some (user, password, host, port, name)) t) t) t) t"

text \<open>\<^verbatim>\<open>regex_search\<close>: the first position at which the expression matches; a dot matches no line terminator.\<close>

fun url_search :: "string \<Rightarrow> (string \<times> string \<times> string \<times> string \<times> string) option" where
  "url_search [] = None"
| "url_search (x # xs) =
     (case (if take 8 (x # xs) = ''mysql://''
            then url_groups (takeWhile (\<lambda>y. y \<noteq> CHR 0x0A \<and> y \<noteq> CHR 0x0D) (drop 8 (x # xs))) else None) of
        Some r \<Rightarrow> Some r
      | None \<Rightarrow> url_search xs)"

definition is_digit :: "char \<Rightarrow> bool" where
  "is_digit c \<longleftrightarrow> 48 \<le> (of_char c :: nat) \<and> (of_char c :: nat) \<le> 57"

definition is_space :: "char \<Rightarrow> bool" where
  "is_space c \<longleftrightarrow> (of_char c :: nat) = 32 \<or> 9 \<le> (of_char c :: nat) \<and> (of_char c :: nat) \<le> 13"

fun stoi_digits :: "string \<Rightarrow> int \<Rightarrow> int" where
  "stoi_digits [] n = n"
| "stoi_digits (c # cs) n = (if is_digit c then stoi_digits cs (10 * n + (of_char c - 48)) else n)"

text \<open>\<^verbatim>\<open>stoi\<close>; \<open>None\<close> is the exception for a text without a number and for one out of range.\<close>

definition stoi :: "string \<Rightarrow> int option" where
  "stoi str =
     (let t = dropWhile is_space str;
          sign = (if t \<noteq> [] \<and> hd t = CHR ''-'' then -1 else 1);
          t = (if t \<noteq> [] \<and> (hd t = CHR ''-'' \<or> hd t = CHR ''+'') then tl t else t);
          n = sign * stoi_digits t 0
      in if t = [] \<or> \<not> is_digit (hd t) then None
         else if n < - (2 ^ 31) \<or> 2 ^ 31 \<le> n then None else Some n)"

text \<open>\<^verbatim>\<open>CreateConnection\<close>: \<open>new_conn\<close> is a fresh \<^verbatim>\<open>mysqlpp::Connection\<close>. \<^verbatim>\<open>map::insert\<close> keeps a connection that is already there.\<close>

definition CDBConnectionMgr_CreateConnection :: "'db mysqlpp \<Rightarrow> 'db \<Rightarrow> int \<Rightarrow> string \<Rightarrow> ('os, 'db, 'a) DBState_scheme
    \<Rightarrow> (bool \<times> ('os, 'db, 'a) DBState_scheme) option" where
  "CDBConnectionMgr_CreateConnection D new_conn conn_id url s =
     (case url_search url of
        None \<Rightarrow> Some (False, s)
      | Some (user, password, host, port, name) \<Rightarrow>
          let s = s\<lparr>db_urls := (case db_urls s conn_id of None \<Rightarrow> (db_urls s)(conn_id \<mapsto> url) | Some _ \<Rightarrow> db_urls s)\<rparr>
          in (case stoi port of
                None \<Rightarrow> None
              | Some p \<Rightarrow>
                  (case my_connect D name host user password (word_of_int p) new_conn of
                     (ok, conn) \<Rightarrow>
                       if my_connected D conn
                       then Some (True, s\<lparr>db_conns := (case db_conns s conn_id of None \<Rightarrow> (db_conns s)(conn_id \<mapsto> conn) | Some _ \<Rightarrow> db_conns s)\<rparr>)
                       else Some (False, s))))"

text \<open>\<^verbatim>\<open>v.erase(std::remove(v.begin(), v.end(), v[i]))\<close>: the value to remove is a reference into the vector, so it is read again after every
  move; one element is erased at the end. \<open>w\<close> is the position written to, \<open>r\<close> the one read from.\<close>

fun remove_ref :: "nat \<Rightarrow> 'v list \<Rightarrow> nat \<Rightarrow> nat \<Rightarrow> nat \<Rightarrow> 'v list \<times> nat" where
  "remove_ref 0 v i w r = (v, w)"
| "remove_ref (Suc n) v i w r = (if v ! r = v ! i then remove_ref n v i w (Suc r) else remove_ref n (v[w := v ! r]) i (Suc w) (Suc r))"

definition erase_ref :: "'v list \<Rightarrow> nat \<Rightarrow> 'v list" where
  "erase_ref v i =
     (let first = length (takeWhile (\<lambda>x. x \<noteq> v ! i) v); (v, w) = remove_ref (length v - Suc first) v i first (Suc first)
      in take w v @ drop (Suc w) v)"

lemma remove_ref_bounds:
  assumes "remove_ref n v i w r = (v', w')"
  shows "length v' = length v" and "w' \<le> w + n"
  using assms by (induction n arbitrary: v w r) (auto split: if_splits, fastforce+)

lemma length_erase_ref:
  assumes "i < length v"
  shows "length (erase_ref v i) = length v - 1"
proof -
  have f: "length (takeWhile (\<lambda>x. x \<noteq> v ! i) v) < length v"
    using takeWhile_eq_all_conv [of "\<lambda>x. x \<noteq> v ! i" v] length_takeWhile_le [of "\<lambda>x. x \<noteq> v ! i" v] takeWhile_eq_take [of "\<lambda>x. x \<noteq> v ! i" v] assms
    by (metis le_neq_implies_less nth_mem take_all order_refl)
  obtain v' w where "remove_ref (length v - Suc (length (takeWhile (\<lambda>x. x \<noteq> v ! i) v))) v i (length (takeWhile (\<lambda>x. x \<noteq> v ! i) v))
      (Suc (length (takeWhile (\<lambda>x. x \<noteq> v ! i) v))) = (v', w)" by fastforce
  then show ?thesis using remove_ref_bounds f by (fastforce simp: erase_ref_def Let_def)
qed

lemma remove_ref_shift:
  assumes "i < w" and "length v = Suc w + n" and "\<And>r. w < r \<Longrightarrow> r < length v \<Longrightarrow> v ! r \<noteq> v ! i"
  shows "\<exists>v'. remove_ref n v i w (Suc w) = (v', w + n) \<and> length v' = length v \<and> take (w + n) v' = take w v @ drop (Suc w) v"
  using assms
proof (induction n arbitrary: v w)
  case (Suc n)
  let ?v = "v[w := v ! Suc w]"
  have "\<exists>v'. remove_ref n ?v i (Suc w) (Suc (Suc w)) = (v', Suc w + n) \<and> length v' = length ?v
      \<and> take (Suc w + n) v' = take (Suc w) ?v @ drop (Suc (Suc w)) ?v"
    using Suc.prems by (intro Suc.IH) auto
  moreover have "take (Suc w) ?v @ drop (Suc (Suc w)) ?v = take w v @ drop (Suc w) v"
    using Suc.prems(2) by (simp add: take_Suc_conv_app_nth Cons_nth_drop_Suc)
  ultimately show ?case using Suc.prems by auto
qed simp

lemma erase_ref_distinct:
  assumes "distinct v" and "i < length v"
  shows "erase_ref v i = take i v @ drop (Suc i) v"
proof -
  have f: "length (takeWhile (\<lambda>x. x \<noteq> v ! i) v) = i"
    using assms by (subst takeWhile_eq_take_P_nth [where n = i]) (auto simp: nth_eq_iff_index_eq)
  show ?thesis
  proof (cases "length v - Suc i")
    case 0
    then show ?thesis using assms(2) by (simp add: erase_ref_def f)
  next
    case (Suc n)
    let ?v = "v[i := v ! Suc i]"
    have "\<exists>v'. remove_ref n ?v i (Suc i) (Suc (Suc i)) = (v', Suc i + n) \<and> length v' = length ?v
        \<and> take (Suc i + n) v' = take (Suc i) ?v @ drop (Suc (Suc i)) ?v"
      using assms Suc by (intro remove_ref_shift) (auto simp: nth_eq_iff_index_eq)
    then obtain v' where v': "remove_ref n ?v i (Suc i) (Suc (Suc i)) = (v', Suc i + n)" "length v' = length v"
        "take (Suc i + n) v' = take (Suc i) ?v @ drop (Suc (Suc i)) ?v" by auto
    have "v ! Suc i \<noteq> v ! i" using assms Suc by (auto simp: nth_eq_iff_index_eq)
    then have "remove_ref (length v - Suc i) v i i (Suc i) = (v', Suc i + n)" using v'(1) Suc by simp
    moreover have "take (Suc i) ?v @ drop (Suc (Suc i)) ?v = take i v @ drop (Suc i) v"
      using Suc by (simp add: take_Suc_conv_app_nth Cons_nth_drop_Suc)
    ultimately show ?thesis using v'(2,3) Suc by (simp add: erase_ref_def f)
  qed
qed

definition ping_one :: "'db mysqlpp \<Rightarrow> int \<Rightarrow> ('os, 'db, 'a) DBState_scheme \<Rightarrow> ('os, 'db, 'a) DBState_scheme" where
  "ping_one D conn_id s =
     (case db_conns s conn_id of
        None \<Rightarrow> s
      | Some conn \<Rightarrow>
          (case my_ping D conn of
             (False, _) \<Rightarrow> s\<lparr>db_conns := (db_conns s)(conn_id := None), db_offline := db_offline s @ [conn_id]\<rparr>
           | (True, conn) \<Rightarrow> s\<lparr>db_conns := (db_conns s)(conn_id \<mapsto> conn)\<rparr>))"

function reconnect_loop :: "'db mysqlpp \<Rightarrow> 'db \<Rightarrow> nat \<Rightarrow> int list \<Rightarrow> ('os, 'db, 'a) DBState_scheme \<Rightarrow> ('os, 'db, 'a) DBState_scheme option" where
  "reconnect_loop D new_conn i v s =
     (if length v \<le> i then Some (s\<lparr>db_offline := v\<rparr>)
      else (let s = (case db_urls s (v ! i) of None \<Rightarrow> s\<lparr>db_urls := (db_urls s)(v ! i \<mapsto> [])\<rparr> | Some _ \<Rightarrow> s)
            in (case CDBConnectionMgr_CreateConnection D new_conn (v ! i) (the (db_urls s (v ! i))) s of
                  None \<Rightarrow> None
                | Some (True, s) \<Rightarrow> reconnect_loop D new_conn i (erase_ref v i) s
                | Some (False, s) \<Rightarrow> reconnect_loop D new_conn (Suc i) v s)))"
  by pat_completeness auto
termination
  by (relation "measure (\<lambda>(D, new_conn, i, v, s). length v - i)") (auto simp: length_erase_ref)

definition CDBConnectionMgr_Ping :: "'db mysqlpp \<Rightarrow> 'db \<Rightarrow> ('os, 'db, 'a) DBState_scheme \<Rightarrow> ('os, 'db, 'a) DBState_scheme option" where
  "CDBConnectionMgr_Ping D new_conn s =
     (let s = fold (ping_one D) (sorted_list_of_set (dom (db_conns s))) s in reconnect_loop D new_conn 0 (db_offline s) s)"

text \<open>The ids of a manager: every id is connected or waits for its reconnection, never both.\<close>

definition conn_ids_ok :: "int list \<Rightarrow> ('os, 'db, 'a) DBState_scheme \<Rightarrow> bool" where
  "conn_ids_ok v s \<longleftrightarrow> distinct v \<and> set v \<inter> dom (db_conns s) = {}"

lemma CreateConnection_conns:
  assumes "CDBConnectionMgr_CreateConnection D new_conn i url s = Some (ok, s')"
  shows "dom (db_conns s') = (if ok then insert i (dom (db_conns s)) else dom (db_conns s))" and "db_offline s' = db_offline s"
  using assms by (auto simp: CDBConnectionMgr_CreateConnection_def Let_def split: option.splits prod.splits if_splits)

lemma ping_one_ids:
  assumes "conn_ids_ok (db_offline s) s"
  shows "conn_ids_ok (db_offline (ping_one D i s)) (ping_one D i s)"
    and "set (db_offline (ping_one D i s)) \<union> dom (db_conns (ping_one D i s)) = set (db_offline s) \<union> dom (db_conns s)"
  using assms by (auto simp: ping_one_def conn_ids_ok_def split: option.splits prod.splits bool.splits if_splits)

lemma ping_fold_ids:
  assumes "conn_ids_ok (db_offline s) s"
  shows "conn_ids_ok (db_offline (fold (ping_one D) xs s)) (fold (ping_one D) xs s)
    \<and> set (db_offline (fold (ping_one D) xs s)) \<union> dom (db_conns (fold (ping_one D) xs s)) = set (db_offline s) \<union> dom (db_conns s)"
  using assms by (induction xs arbitrary: s) (simp_all add: ping_one_ids)

lemma erase_ref_set:
  assumes "distinct v" and "i < length v"
  shows "distinct (erase_ref v i)" and "set (erase_ref v i) = set v - {v ! i}"
proof -
  note v = id_take_nth_drop [OF assms(2)]
  have "distinct (take i v @ v ! i # drop (Suc i) v)" using assms(1) v by simp
  moreover have "set v = set (take i v @ v ! i # drop (Suc i) v)" using v by simp
  ultimately show "distinct (erase_ref v i)" "set (erase_ref v i) = set v - {v ! i}"
    unfolding erase_ref_distinct [OF assms] by auto
qed

lemma reconnect_loop_ids:
  assumes "reconnect_loop D new_conn i v s = Some s'" and "conn_ids_ok v s"
  shows "conn_ids_ok (db_offline s') s' \<and> set (db_offline s') \<union> dom (db_conns s') = set v \<union> dom (db_conns s)"
  using assms
proof (induction D new_conn i v s rule: reconnect_loop.induct)
  case (1 D new_conn i v s)
  show ?case
  proof (cases "length v \<le> i")
    case True
    then show ?thesis using 1(3,4) by (auto simp: conn_ids_ok_def)
  next
    case False
    define t where "t = (case db_urls s (v ! i) of None \<Rightarrow> s\<lparr>db_urls := (db_urls s)(v ! i \<mapsto> [])\<rparr> | Some _ \<Rightarrow> s)"
    have t: "db_conns t = db_conns s" by (simp add: t_def split: option.split)
    obtain ok u where c: "CDBConnectionMgr_CreateConnection D new_conn (v ! i) (the (db_urls t (v ! i))) t = Some (ok, u)"
      using 1(3) False by (auto simp: Let_def t_def [symmetric] split: option.splits)
    note u = CreateConnection_conns [OF c]
    show ?thesis
    proof (cases ok)
      case True
      then have r: "reconnect_loop D new_conn i (erase_ref v i) u = Some s'" using 1(3) False c by (simp add: Let_def t_def [symmetric])
      have "conn_ids_ok (erase_ref v i) u" using 1(4) False True u erase_ref_set [of v i] by (auto simp: conn_ids_ok_def t)
      from 1(1) [OF False t_def c refl _ r this] True show ?thesis
        using 1(4) False u erase_ref_set [of v i] by (auto simp: conn_ids_ok_def t)
    next
      case ok: False
      then have r: "reconnect_loop D new_conn (Suc i) v u = Some s'" using 1(3) False c by (simp add: Let_def t_def [symmetric])
      have "conn_ids_ok v u" using 1(4) ok u by (simp add: conn_ids_ok_def t)
      from 1(2) [OF False t_def c refl _ r this] ok show ?thesis using u by (simp add: t)
    qed
  qed
qed

lemma Ping_keeps_ids:
  assumes "CDBConnectionMgr_Ping D new_conn s = Some s'" and "conn_ids_ok (db_offline s) s"
  shows "conn_ids_ok (db_offline s') s' \<and> set (db_offline s') \<union> dom (db_conns s') = set (db_offline s) \<union> dom (db_conns s)"
  using assms ping_fold_ids reconnect_loop_ids unfolding CDBConnectionMgr_Ping_def Let_def by metis

definition CDBConnectionMgr_GetConnection :: "int \<Rightarrow> ('os, 'db, 'a) DBState_scheme \<Rightarrow> 'db option" where
  "CDBConnectionMgr_GetConnection conn_id s = db_conns s conn_id"

subsection \<open>handles.cpp\<close>

text \<open>The result of a statement: whether it succeeded, and its rows.\<close>

definition HandleBase_Commit :: "'db mysqlpp \<Rightarrow> int \<Rightarrow> byte list \<Rightarrow> ('os, 'db, 'a) DBState_scheme
    \<Rightarrow> bool \<times> byte list list list \<times> ('os, 'db, 'a) DBState_scheme" where
  "HandleBase_Commit D conn_id sql s =
     (case CDBConnectionMgr_GetConnection conn_id s of
        None \<Rightarrow> (False, [], s)
      | Some conn \<Rightarrow> (case my_store D sql conn of ((rows, ok), conn) \<Rightarrow> (ok, rows, s\<lparr>db_conns := (db_conns s)(conn_id \<mapsto> conn)\<rparr>)))"

definition HandleBase_SendResponse :: "'os posix \<Rightarrow> lib \<Rightarrow> stCenterHead \<Rightarrow> PBSSMsg \<Rightarrow> ('os, 'db, 'a) DBState_scheme \<Rightarrow> ('os, 'db, 'a) DBState_scheme" where
  "HandleBase_SendResponse P B head msg s = snd (snd (MsgBasic_SendMsgToResponse P B head msg s))"

definition table_name :: "uint64 \<Rightarrow> byte list" where
  "table_name uid = lit ''userdata_'' @ dec_digits (unat (uid mod TOTAL_TABLE_NUM))"

definition uid_key :: "uint32 \<Rightarrow> uint64 \<Rightarrow> uint64" where
  "uid_key key uid = ucast key * KEY_MULTIPLE + uid"

text \<open>The where clause over the requested keys.\<close>

fun key_condition :: "uint64 \<Rightarrow> PBDBData list \<Rightarrow> byte list" where
  "key_condition uid [] = []"
| "key_condition uid [d] = lit '' uid_key = '' @ dec_digits (unat (uid_key (dd_key d) uid))"
| "key_condition uid (d # ds) = lit '' uid_key = '' @ dec_digits (unat (uid_key (dd_key d) uid)) @ lit '' or '' @ key_condition uid ds"

definition sql_get :: "byte list \<Rightarrow> uint64 \<Rightarrow> PBDBData list \<Rightarrow> byte list" where
  "sql_get table uid request = lit ''select * from '' @ table @ lit '' where '' @ key_condition uid request"

definition row_data :: "'db mysqlpp \<Rightarrow> byte list list \<Rightarrow> PBDBData" where
  "row_data D row = \<lparr>dd_key = ucast (my_num D (row ! 0) div KEY_MULTIPLE), dd_blob = Some (row ! 1), dd_ver = Some (ucast (my_num D (row ! 2)))\<rparr>"

definition UserDataGetHandle_WrapResponseGet :: "'db mysqlpp \<Rightarrow> byte list list list \<Rightarrow> PBDBData list \<Rightarrow> PBDBData list \<Rightarrow> PBDBData list" where
  "UserDataGetHandle_WrapResponseGet D result request response =
     (let found = map (row_data D) result
      in response @ found
           @ map (\<lambda>d. \<lparr>dd_key = dd_key d, dd_blob = None, dd_ver = None\<rparr>) (filter (\<lambda>d. dd_key d \<notin> dd_key ` set found) request))"

definition UserDataGetHandle_DoRequest :: "'db mysqlpp \<Rightarrow> byte list \<Rightarrow> uint64 \<Rightarrow> PBDBData list \<Rightarrow> PBDBData list \<Rightarrow> ('os, 'db, 'a) DBState_scheme
    \<Rightarrow> bool \<times> PBDBData list \<times> ('os, 'db, 'a) DBState_scheme" where
  "UserDataGetHandle_DoRequest D table uid request response s =
     (case HandleBase_Commit D E_DB_USER (sql_get table uid request) s of
        (False, _, s) \<Rightarrow> (False, response, s)
      | (True, result, s) \<Rightarrow> (True, UserDataGetHandle_WrapResponseGet D result request response, s))"

fun get_ss_request_get :: "ss_union \<Rightarrow> SSRequest" where
  "get_ss_request_get (ss_request_get r) = r"
| "get_ss_request_get _ = \<lparr>rq_uid = 0, rq_datas = []\<rparr>"

fun get_ss_request_save :: "ss_union \<Rightarrow> SSRequest" where
  "get_ss_request_save (ss_request_save r) = r"
| "get_ss_request_save _ = \<lparr>rq_uid = 0, rq_datas = []\<rparr>"

definition UserDataGetHandle_Handle :: "'os posix \<Rightarrow> 'db mysqlpp \<Rightarrow> lib \<Rightarrow> stCenterHead \<Rightarrow> PBSSMsg \<Rightarrow> ('os, 'db, 'a) DBState_scheme
    \<Rightarrow> bool \<times> ('os, 'db, 'a) DBState_scheme" where
  "UserDataGetHandle_Handle P D B head msg s =
     (let request = get_ss_request_get (ss_msg_union msg);
          (success, datas, s) = UserDataGetHandle_DoRequest D (table_name (rq_uid request)) (rq_uid request) (rq_datas request) [] s;
          response = \<lparr>rs_result = (if success then E_HANDLE_OK else E_HANDLE_ERROR), rs_uid = rq_uid request, rs_datas = datas\<rparr>
      in (True, HandleBase_SendResponse P B head (PBSSMsg_new\<lparr>ss_msg_union := ss_response_get response\<rparr>) s))"

subsection \<open>Saving\<close>

text \<open>\<^verbatim>\<open>ver()\<close> of an item without a version is 0.\<close>

definition data_ver :: "PBDBData \<Rightarrow> uint32" where
  "data_ver d = (case dd_ver d of None \<Rightarrow> 0 | Some v \<Rightarrow> v)"

definition data_blob :: "PBDBData \<Rightarrow> byte list" where
  "data_blob d = (case dd_blob d of None \<Rightarrow> [] | Some b \<Rightarrow> b)"

definition UserDataSaveHandle_DoDBVersionCheck :: "'db mysqlpp \<Rightarrow> byte list \<Rightarrow> PBDBData \<Rightarrow> uint64 \<Rightarrow> ('os, 'db, 'a) DBState_scheme
    \<Rightarrow> uint32 \<times> ('os, 'db, 'a) DBState_scheme" where
  "UserDataSaveHandle_DoDBVersionCheck D table d key s =
     (case HandleBase_Commit D E_DB_USER (lit ''select version from '' @ table @ lit '' where uid_key = '' @ dec_digits (unat key)) s of
        (False, _, s) \<Rightarrow> (E_HANDLE_ERROR, s)
      | (True, result, s) \<Rightarrow>
          (if result \<noteq> [] \<and> data_ver d - 1 \<noteq> ucast (my_num D (result ! 0 ! 0)) then E_HANDLE_VER_DIFFER else E_HANDLE_OK, s))"

text \<open>The loops over the items; \<open>uid\<close> is the 32-bit parameter.\<close>

fun UserDataSaveHandle_CheckVersion :: "'db mysqlpp \<Rightarrow> byte list \<Rightarrow> PBDBData list \<Rightarrow> uint32 \<Rightarrow> ('os, 'db, 'a) DBState_scheme
    \<Rightarrow> uint32 \<times> ('os, 'db, 'a) DBState_scheme" where
  "UserDataSaveHandle_CheckVersion D table [] uid s = (E_HANDLE_OK, s)"
| "UserDataSaveHandle_CheckVersion D table (d # ds) uid s =
     (case db_cache s (uid_key (dd_key d) (ucast uid)) of
        Some v \<Rightarrow> if data_ver d - 1 \<noteq> v then (E_HANDLE_VER_DIFFER, s) else UserDataSaveHandle_CheckVersion D table ds uid s
      | None \<Rightarrow>
          (case UserDataSaveHandle_DoDBVersionCheck D table d (uid_key (dd_key d) (ucast uid)) s of
             (ret, s) \<Rightarrow> if ret \<noteq> E_HANDLE_OK then (ret, s) else UserDataSaveHandle_CheckVersion D table ds uid s))"

definition sql_replace :: "'db mysqlpp \<Rightarrow> byte list \<Rightarrow> PBDBData \<Rightarrow> uint32 \<Rightarrow> byte list" where
  "sql_replace D table d uid = lit ''replace into '' @ table @ lit '' values ( '' @ dec_digits (unat (uid_key (dd_key d) (ucast uid))) @ lit '', '' @ [39]
     @ fmt_s (my_escape D (data_blob d)) @ [39] @ lit '', '' @ dec_digits (unat (data_ver d)) @ lit '' )''"

text \<open>\<^verbatim>\<open>DoRequest\<close>: the escaped text and its terminator are written to an array of \<^verbatim>\<open>EN_MAX_PB_DATA_BUF\<close> bytes; a text that does not fit
  overruns it, which is \<open>None\<close>.\<close>

fun UserDataSaveHandle_DoRequest :: "'db mysqlpp \<Rightarrow> byte list \<Rightarrow> PBDBData list \<Rightarrow> uint32 \<Rightarrow> ('os, 'db, 'a) DBState_scheme
    \<Rightarrow> (bool \<times> ('os, 'db, 'a) DBState_scheme) option" where
  "UserDataSaveHandle_DoRequest D table [] uid s = Some (True, s)"
| "UserDataSaveHandle_DoRequest D table (d # ds) uid s =
     (if length (my_escape D (data_blob d)) \<ge> EN_MAX_PB_DATA_BUF then None
      else (case HandleBase_Commit D E_DB_USER (sql_replace D table d uid) s of
              (False, _, s) \<Rightarrow> Some (False, s)
            | (True, _, s) \<Rightarrow> UserDataSaveHandle_DoRequest D table ds uid s))"

fun UserDataSaveHandle_SaveToCache :: "PBDBData list \<Rightarrow> uint32 \<Rightarrow> ('os, 'db, 'a) DBState_scheme \<Rightarrow> ('os, 'db, 'a) DBState_scheme" where
  "UserDataSaveHandle_SaveToCache [] uid s = s"
| "UserDataSaveHandle_SaveToCache (d # ds) uid s =
     UserDataSaveHandle_SaveToCache ds uid (s\<lparr>db_cache := (db_cache s)(uid_key (dd_key d) (ucast uid) \<mapsto> data_ver d)\<rparr>)"

text \<open>The answer to a save request. The result of the second load is overwritten by the result of the check.\<close>

definition save_answer :: "'db mysqlpp \<Rightarrow> SSRequest \<Rightarrow> ('os, 'db, 'a) DBState_scheme \<Rightarrow> (SSResponse \<times> ('os, 'db, 'a) DBState_scheme) option" where
  "save_answer D request s =
     (let table = table_name (rq_uid request); uid = ucast (rq_uid request) :: uint32;
          (ret, s) = UserDataSaveHandle_CheckVersion D table (rq_datas request) uid s
      in if ret \<noteq> E_HANDLE_OK
         then (let (datas, s) = (if ret = E_HANDLE_VER_DIFFER
                                 then snd (UserDataGetHandle_DoRequest D table (rq_uid request) (rq_datas request) [] s) else ([], s))
               in Some (\<lparr>rs_result = ret, rs_uid = rq_uid request, rs_datas = datas\<rparr>, s))
         else (case UserDataSaveHandle_DoRequest D table (rq_datas request) uid s of
                 None \<Rightarrow> None
               | Some (success, s) \<Rightarrow>
                   Some (\<lparr>rs_result = (if success then E_HANDLE_OK else E_HANDLE_ERROR), rs_uid = rq_uid request, rs_datas = []\<rparr>,
                         if success then UserDataSaveHandle_SaveToCache (rq_datas request) uid s else s)))"

definition UserDataSaveHandle_Handle :: "'os posix \<Rightarrow> 'db mysqlpp \<Rightarrow> lib \<Rightarrow> stCenterHead \<Rightarrow> PBSSMsg \<Rightarrow> ('os, 'db, 'a) DBState_scheme
    \<Rightarrow> (bool \<times> ('os, 'db, 'a) DBState_scheme) option" where
  "UserDataSaveHandle_Handle P D B head msg s =
     (case save_answer D (get_ss_request_save (ss_msg_union msg)) s of
        None \<Rightarrow> None
      | Some (response, s) \<Rightarrow> Some (True, HandleBase_SendResponse P B head (PBSSMsg_new\<lparr>ss_msg_union := ss_response_save response\<rparr>) s))"

subsection \<open>service.cpp and logicsvr.cpp\<close>

definition CService_CreateDBConnections :: "'db mysqlpp \<Rightarrow> 'db \<Rightarrow> DBURL list \<Rightarrow> ('os, 'db, 'a) DBState_scheme \<Rightarrow> (bool \<times> ('os, 'db, 'a) DBState_scheme) option" where
  "CService_CreateDBConnections D new_conn urls s =
     fold (\<lambda>u r. case r of
              Some (True, s) \<Rightarrow> CDBConnectionMgr_CreateConnection D new_conn (du_id u) (du_url u) s
            | _ \<Rightarrow> r) urls (Some (True, s))"

text \<open>\<^verbatim>\<open>Init\<close>; reading and parsing the file is the argument \<open>read_conf\<close>.\<close>

definition CService_Init :: "'db mysqlpp \<Rightarrow> 'db \<Rightarrow> (string \<Rightarrow> DBURL list option) \<Rightarrow> ('os, 'db, 'a) DBState_scheme \<Rightarrow> (bool \<times> ('os, 'db, 'a) DBState_scheme) option" where
  "CService_Init D new_conn read_conf s =
     (case read_conf ''conninfos.cfg'' of
        None \<Rightarrow> Some (False, s)
      | Some urls \<Rightarrow>
          (case CService_CreateDBConnections D new_conn urls s of
             None \<Rightarrow> None
           | Some (False, s) \<Rightarrow> Some (False, s)
           | Some (True, s) \<Rightarrow>
               Some (True, s\<lparr>db_handles := (db_handles s)(ss_msg_union_case (ss_request_get \<lparr>rq_uid = 0, rq_datas = []\<rparr>) \<mapsto> UserDataGetHandle,
                       ss_msg_union_case (ss_request_save \<lparr>rq_uid = 0, rq_datas = []\<rparr>) \<mapsto> UserDataSaveHandle)\<rparr>)))"

definition CService_Uninit :: "('os, 'db, 'a) DBState_scheme \<Rightarrow> ('os, 'db, 'a) DBState_scheme" where
  "CService_Uninit s = s\<lparr>db_handles := Map.empty\<rparr>"

definition CService_Message :: "'os posix \<Rightarrow> 'db mysqlpp \<Rightarrow> lib \<Rightarrow> stCenterHead \<Rightarrow> PBSSMsg \<Rightarrow> ('os, 'db, 'a) DBState_scheme \<Rightarrow> ('os, 'db, 'a) DBState_scheme option" where
  "CService_Message P D B head msg s =
     (case db_handles s (ss_msg_union_case (ss_msg_union msg)) of
        None \<Rightarrow> Some s
      | Some UserDataGetHandle \<Rightarrow> Some (snd (UserDataGetHandle_Handle P D B head msg s))
      | Some UserDataSaveHandle \<Rightarrow> map_option snd (UserDataSaveHandle_Handle P D B head msg s))"

definition DBServer_OnServerMessage :: "'os posix \<Rightarrow> 'db mysqlpp \<Rightarrow> lib \<Rightarrow> stCenterHead \<Rightarrow> stPBMsg \<Rightarrow> ('os, 'db, 'a) DBState_scheme \<Rightarrow> ('os, 'db, 'a) DBState_scheme option" where
  "DBServer_OnServerMessage P D B head msg s =
     (case MsgBasic_ParseMsgFromServer B msg of None \<Rightarrow> Some s | Some ss_msg \<Rightarrow> CService_Message P D B head ss_msg s)"

definition DBServer_Reload :: "('os, 'db, 'a) DBState_scheme \<Rightarrow> ('os, 'db, 'a) DBState_scheme option" where
  "DBServer_Reload s = Some (CService_Uninit s)"

definition DBServer_InitLogic :: "'db mysqlpp \<Rightarrow> 'db \<Rightarrow> (string \<Rightarrow> DBURL list option) \<Rightarrow> ('os, 'db, 'a) DBState_scheme \<Rightarrow> (bool \<times> ('os, 'db, 'a) DBState_scheme) option" where
  "DBServer_InitLogic D new_conn read_conf s = CService_Init D new_conn read_conf s"

text \<open>The virtual functions; those not named have empty bodies. The exception of \<^verbatim>\<open>stoi\<close> is not caught: like a failed start it ends the process.\<close>

definition db_logic :: "'os posix \<Rightarrow> 'db mysqlpp \<Rightarrow> lib \<Rightarrow> 'db \<Rightarrow> (string \<Rightarrow> DBURL list option) \<Rightarrow> ('os, 'db, 'a) DBState_scheme logic" where
  "db_logic P D B new_conn read_conf =
     \<lparr>InitLogic = (\<lambda>s. case DBServer_InitLogic D new_conn read_conf s of None \<Rightarrow> (False, s) | Some r \<Rightarrow> r), Reload = DBServer_Reload, Exit = Some,
      OnClientMessage = (\<lambda>head msg. Some), OnClientOffline = (\<lambda>logic_index. Some), OnServerMessage = DBServer_OnServerMessage P D B,
      OnInteralMessage = (\<lambda>msg. Some), OnRoutineCheck = Some\<rparr>"

subsection \<open>Row keys\<close>

lemma scaled_diff_zero:
  fixes x :: int
  assumes "18446744073709551616 dvd x * 10000000000" and "\<bar>x\<bar> < 18014398509481984"
  shows "x = 0"
proof -
  have "18014398509481984 * 1024 dvd (x * 9765625) * 1024" using assms(1) by (simp add: mult.commute)
  then have "18014398509481984 dvd x * 9765625" by (simp only: dvd_mult_cancel_right) simp
  moreover have "coprime (2 ^ 54 :: int) 9765625" by (simp only: coprime_power_left_iff coprime_left_2_iff_odd) simp
  then have "coprime (18014398509481984 :: int) 9765625" by simp
  ultimately have "18014398509481984 dvd x" by (simp only: coprime_dvd_mult_left_iff)
  then show ?thesis using assms(2) dvd_imp_le_int [of x 18014398509481984] by (cases "x = 0") auto
qed

lemma uid_key_inj:
  assumes "uid_key k u = uid_key k' u"
  shows "k = k'"
proof -
  have "(ucast k :: uint64) * KEY_MULTIPLE = ucast k' * KEY_MULTIPLE" using assms by (simp add: uid_key_def)
  moreover have "unat ((ucast w :: uint64) * KEY_MULTIPLE) = (unat w * 10000000000) mod 18446744073709551616" for w :: uint32
  proof -
    have "unat (ucast w :: uint64) = unat w" using unat_le_max32 [of w] by (simp add: unat_ucast)
    then show ?thesis by (simp add: KEY_MULTIPLE_def unat_word_ariths(2))
  qed
  ultimately have "(unat k * 10000000000) mod 18446744073709551616 = (unat k' * 10000000000) mod 18446744073709551616" by metis
  then have "int ((unat k * 10000000000) mod 18446744073709551616) = int ((unat k' * 10000000000) mod 18446744073709551616)" by (rule arg_cong)
  then have "(int (unat k) * 10000000000) mod 18446744073709551616 = (int (unat k') * 10000000000) mod 18446744073709551616"
    by (simp only: zmod_int of_nat_mult of_nat_numeral)
  then have "18446744073709551616 dvd (int (unat k) - int (unat k')) * 10000000000"
    by (simp only: mod_eq_dvd_iff left_diff_distrib)
  moreover have "unat k < 4294967296" "unat k' < 4294967296" using unat_le_max32 [of k] unat_le_max32 [of k'] by simp_all
  then have "\<bar>int (unat k) - int (unat k')\<bar> < 18014398509481984" by linarith
  ultimately have "int (unat k) - int (unat k') = 0" by (intro scaled_diff_zero)
  then have "unat k = unat k'" by linarith
  then show ?thesis by (rule word_unat_eq_iff [THEN iffD2])
qed

text \<open>A player is saved under the key it is loaded from exactly when the uid has 32 bits.\<close>

lemma saved_key_is_loaded_key: "uid_key k (ucast (ucast uid :: uint32)) = uid_key k uid \<longleftrightarrow> unat uid < 2 ^ 32"
proof -
  have "uid_key k (ucast (ucast uid :: uint32)) = uid_key k uid \<longleftrightarrow> unat (ucast (ucast uid :: uint32) :: uint64) = unat uid"
    unfolding uid_key_def add_left_cancel by (rule word_unat_eq_iff)
  also have "\<dots> \<longleftrightarrow> unat uid mod 2 ^ 32 = unat uid" by (simp add: unat_ucast mod_mod_trivial)
  finally show ?thesis by (auto simp: mod_eq_self_iff_div_eq_0 intro: mod_less)
qed

subsection \<open>Versions\<close>

lemma SaveToCache_cache:
  "db_cache (UserDataSaveHandle_SaveToCache ds uid s) = db_cache s ++ map_of (rev (map (\<lambda>d. (uid_key (dd_key d) (ucast uid), data_ver d)) ds))"
  by (induction ds arbitrary: s) (auto simp: fun_eq_iff map_add_def split: option.split)

lemma cached_version:
  assumes "distinct (map dd_key ds)" and "d \<in> set ds"
  shows "db_cache (UserDataSaveHandle_SaveToCache ds uid s) (uid_key (dd_key d) (ucast uid)) = Some (data_ver d)"
proof -
  let ?kv = "map (\<lambda>d. (uid_key (dd_key d) (ucast uid), data_ver d)) ds"
  have "inj_on (\<lambda>k. uid_key k (ucast uid)) (set (map dd_key ds))" by (auto intro: inj_onI uid_key_inj)
  then have "distinct (map fst ?kv)" using assms(1) distinct_map [of "\<lambda>k. uid_key k (ucast uid)" "map dd_key ds"] by (simp add: o_def)
  then have "distinct (map fst (rev ?kv))" by (simp add: rev_map [symmetric])
  moreover have "(uid_key (dd_key d) (ucast uid), data_ver d) \<in> set (rev ?kv)" using assms(2) by auto
  ultimately have "map_of (rev ?kv) (uid_key (dd_key d) (ucast uid)) = Some (data_ver d)" by (rule map_of_is_SomeI)
  then show ?thesis by (simp add: SaveToCache_cache map_add_Some_iff)
qed

lemma save_ok_cached:
  assumes "save_answer D rq s = Some (r, s')" and "rs_result r = E_HANDLE_OK"
  shows "\<exists>t. s' = UserDataSaveHandle_SaveToCache (rq_datas rq) (ucast (rq_uid rq)) t"
  using assms by (auto simp: save_answer_def Let_def E_HANDLE_OK_def E_HANDLE_ERROR_def split: prod.splits option.splits if_splits)

lemma CheckVersion_cached:
  assumes "\<forall>d\<in>set ds. db_cache s (uid_key (dd_key d) (ucast uid)) = Some (data_ver d - 1)"
  shows "UserDataSaveHandle_CheckVersion D table ds uid s = (E_HANDLE_OK, s)"
  using assms by (induction ds) auto

lemma data_ver_next: "data_ver (d\<lparr>dd_ver := Some v\<rparr>) = v" "dd_key (d\<lparr>dd_ver := Some v\<rparr>) = dd_key d"
  by (simp_all add: data_ver_def)

subsection \<open>Properties\<close>

text \<open>C14. Optimistic versioning: after a save has succeeded, saving the same items again is refused as a version conflict and leaves the
  version cache alone, while items with the next versions pass the check without a query. The keys of a request are distinct.\<close>

theorem save_versions:
  assumes "save_answer D rq s = Some (r, s')" and "rs_result r = E_HANDLE_OK" and "rq_datas rq \<noteq> []" and "distinct (map dd_key (rq_datas rq))"
  shows "\<exists>r2 s2. save_answer D rq s' = Some (r2, s2) \<and> rs_result r2 = E_HANDLE_VER_DIFFER \<and> db_cache s2 = db_cache s'
    \<and> UserDataSaveHandle_CheckVersion D table (map (\<lambda>d. d\<lparr>dd_ver := Some (data_ver d + 1)\<rparr>) (rq_datas rq)) (ucast (rq_uid rq)) s' = (E_HANDLE_OK, s')"
proof -
  let ?uid = "ucast (rq_uid rq) :: uint32"
  obtain t where s': "s' = UserDataSaveHandle_SaveToCache (rq_datas rq) ?uid t" using save_ok_cached [OF assms(1,2)] by blast
  have c: "db_cache s' (uid_key (dd_key d) (ucast ?uid)) = Some (data_ver d)" if "d \<in> set (rq_datas rq)" for d
    unfolding s' by (rule cached_version [OF assms(4) that])
  obtain d ds where dd: "rq_datas rq = d # ds" using assms(3) by (cases "rq_datas rq") auto
  have "data_ver d - 1 \<noteq> data_ver d" by simp
  then have ret: "UserDataSaveHandle_CheckVersion D (table_name (rq_uid rq)) (rq_datas rq) ?uid s' = (E_HANDLE_VER_DIFFER, s')"
    using c [of d] by (simp add: dd)
  obtain ok datas s2 where g: "UserDataGetHandle_DoRequest D (table_name (rq_uid rq)) (rq_uid rq) (rq_datas rq) [] s' = (ok, datas, s2)" by (rule prod_cases3)
  then have "db_cache s2 = db_cache s'"
    by (auto simp: UserDataGetHandle_DoRequest_def HandleBase_Commit_def split: prod.splits option.splits bool.splits)
  moreover have "save_answer D rq s' = Some (\<lparr>rs_result = E_HANDLE_VER_DIFFER, rs_uid = rq_uid rq, rs_datas = datas\<rparr>, s2)"
    using ret g by (simp add: save_answer_def Let_def E_HANDLE_VER_DIFFER_def E_HANDLE_OK_def)
  moreover have "UserDataSaveHandle_CheckVersion D table (map (\<lambda>d. d\<lparr>dd_ver := Some (data_ver d + 1)\<rparr>) (rq_datas rq)) ?uid s' = (E_HANDLE_OK, s')"
    by (rule CheckVersion_cached) (auto simp: data_ver_next c)
  ultimately show ?thesis by auto
qed

text \<open>A database without any rows that accepts every statement, for examples.\<close>

definition empty_db :: "nat mysqlpp" where
  "empty_db = \<lparr>my_connected = (\<lambda>_. True), my_connect = (\<lambda>name ip account password port db. (True, db)), my_store = (\<lambda>sql db. (([], True), Suc db)),
     my_num = (\<lambda>_. 0), my_escape = (\<lambda>bs. bs), my_ping = (\<lambda>db. (True, db))\<rparr>"

definition demo_db :: "(nat, nat) DBState" where
  "demo_db = Server.Server.extend (Server.Server.truncate demo_server) (DBState.fields [1 \<mapsto> 0] Map.empty [] Map.empty Map.empty)"

lemma demo_db_fields: "db_conns demo_db = [1 \<mapsto> 0]" "db_cache demo_db = Map.empty"
  by (simp_all add: demo_db_def Server.Server.defs DBState.defs)

theorem save_versions_witness:
  "\<exists>r s'. save_answer empty_db \<lparr>rq_uid = 7, rq_datas = [\<lparr>dd_key = 1, dd_blob = Some [5], dd_ver = Some 1\<rparr>]\<rparr> demo_db = Some (r, s') \<and> rs_result r = E_HANDLE_OK
    \<and> (\<exists>r2 s2. save_answer empty_db \<lparr>rq_uid = 7, rq_datas = [\<lparr>dd_key = 1, dd_blob = Some [5], dd_ver = Some 1\<rparr>]\<rparr> s' = Some (r2, s2)
         \<and> rs_result r2 = E_HANDLE_VER_DIFFER \<and> db_cache s2 = db_cache s')"
proof -
  let ?rq = "\<lparr>rq_uid = 7, rq_datas = [\<lparr>dd_key = 1, dd_blob = Some [5], dd_ver = Some 1\<rparr>]\<rparr>"
  obtain r s' where a: "save_answer empty_db ?rq demo_db = Some (r, s')" "rs_result r = E_HANDLE_OK"
    by (simp add: save_answer_def Let_def UserDataSaveHandle_DoDBVersionCheck_def HandleBase_Commit_def CDBConnectionMgr_GetConnection_def
        demo_db_fields empty_db_def E_DB_USER_def data_blob_def EN_MAX_PB_DATA_BUF_def)
  have "\<exists>r2 s2. save_answer empty_db ?rq s' = Some (r2, s2) \<and> rs_result r2 = E_HANDLE_VER_DIFFER \<and> db_cache s2 = db_cache s'
    \<and> UserDataSaveHandle_CheckVersion empty_db [] (map (\<lambda>d. d\<lparr>dd_ver := Some (data_ver d + 1)\<rparr>) (rq_datas ?rq)) (ucast (rq_uid ?rq)) s' = (E_HANDLE_OK, s')"
    by (rule save_versions [OF a]) simp_all
  then show ?thesis using a by blast
qed

text \<open>C15. A load request is answered for every key: the records found come first, and each requested key without a record follows with
  neither data nor version.\<close>

theorem get_answers_every_key:
  assumes "UserDataGetHandle_DoRequest D table uid request [] s = (True, datas, s')"
  shows "dd_key ` set request \<subseteq> dd_key ` set datas \<and> (\<forall>d\<in>set datas. dd_blob d = None \<longrightarrow> dd_ver d = None \<and> dd_key d \<in> dd_key ` set request)"
proof -
  obtain result where "datas = UserDataGetHandle_WrapResponseGet D result request []"
    using assms by (auto simp: UserDataGetHandle_DoRequest_def split: prod.splits bool.splits)
  then have d: "datas = map (row_data D) result
      @ map (\<lambda>d. \<lparr>dd_key = dd_key d, dd_blob = None, dd_ver = None\<rparr>) (filter (\<lambda>d. dd_key d \<notin> dd_key ` set (map (row_data D) result)) request)"
    by (simp add: UserDataGetHandle_WrapResponseGet_def Let_def)
  have "dd_key ` set datas = dd_key ` set (map (row_data D) result) \<union> dd_key ` {x \<in> set request. dd_key x \<notin> dd_key ` set (map (row_data D) result)}"
    unfolding d by (simp add: image_Un image_image)
  then have "dd_key x \<in> dd_key ` set datas" if "x \<in> set request" for x using that by blast
  moreover have "dd_ver y = None \<and> dd_key y \<in> dd_key ` set request" if "y \<in> set datas" "dd_blob y = None" for y
    using that by (auto simp: d row_data_def)
  ultimately show ?thesis by blast
qed

theorem get_answers_every_key_witness:
  "\<exists>datas s'. UserDataGetHandle_DoRequest empty_db [] 7 [\<lparr>dd_key = 1, dd_blob = None, dd_ver = None\<rparr>] [] demo_db = (True, datas, s') \<and> 1 \<in> dd_key ` set datas"
proof -
  let ?rq = "[\<lparr>dd_key = 1, dd_blob = None, dd_ver = None\<rparr>]"
  obtain datas s' where a: "UserDataGetHandle_DoRequest empty_db [] 7 ?rq [] demo_db = (True, datas, s')"
    by (simp add: UserDataGetHandle_DoRequest_def HandleBase_Commit_def CDBConnectionMgr_GetConnection_def demo_db_fields empty_db_def E_DB_USER_def)
  then show ?thesis using get_answers_every_key [OF a] by auto
qed

text \<open>A reload disables the proxy: \<^verbatim>\<open>Reload\<close> deletes the handlers and nothing registers them again, so every later request is dropped
  without an answer.\<close>

lemma reload_disables_dbproxy:
  "\<exists>s'. DBServer_Reload s = Some s' \<and> (\<forall>P D B head msg. DBServer_OnServerMessage P D B head msg s' = Some s')"
  by (simp add: DBServer_Reload_def CService_Uninit_def DBServer_OnServerMessage_def CService_Message_def split: option.split)

end
