(* ===== verification/Buffer.thy ===== *)
theory Buffer
  imports Prelude
begin

text \<open>
  \<^verbatim>\<open>include/buffer.hpp\<close> and \<^verbatim>\<open>src/centersvr/center_buffer.cpp\<close>: the growing byte buffer \<^verbatim>\<open>CBuffer<uint8_t>\<close> of the earlier center. Bytes
  are written at \<^verbatim>\<open>m_writePos\<close> and read at \<^verbatim>\<open>m_readPos\<close>; when the space behind the write position is short, the unread bytes are moved to the front and the storage
  is enlarged. The storage is a byte memory of which the first \<^verbatim>\<open>m_curSzie\<close> bytes are allocated; the pointer is null exactly
  when nothing is allocated. \<^verbatim>\<open>realloc\<close> is taken to succeed. The locale \<open>byte_stream\<close> is the contract of such a buffer.
\<close>

record CBuffer =
  cb_buffer :: mem
  cb_writePos :: uint32
  cb_readPos :: uint32
  cb_realcSize :: uint32
  cb_curSzie :: uint32
  cb_maxSize :: uint32

definition CBuffer_new :: CBuffer where
  "CBuffer_new = \<lparr>cb_buffer = mem_zero, cb_writePos = 0, cb_readPos = 0, cb_realcSize = 1000, cb_curSzie = 0, cb_maxSize = 10 * 1024\<rparr>"

definition CBuffer_SetMaxSize :: "uint32 \<Rightarrow> CBuffer \<Rightarrow> CBuffer" where
  "CBuffer_SetMaxSize maxNum b = b\<lparr>cb_maxSize := maxNum\<rparr>"

definition CBuffer_SetReallocSize :: "uint32 \<Rightarrow> CBuffer \<Rightarrow> CBuffer" where
  "CBuffer_SetReallocSize reallocNum b = b\<lparr>cb_realcSize := reallocNum\<rparr>"

definition CBuffer_Reset :: "CBuffer \<Rightarrow> CBuffer" where
  "CBuffer_Reset b = b\<lparr>cb_readPos := 0, cb_writePos := 0\<rparr>"

text \<open>Moving the unread bytes to the front; the result is the size that is still missing.\<close>

definition move_front :: "uint32 \<Rightarrow> CBuffer \<Rightarrow> uint32 \<times> CBuffer" where
  "move_front n b =
     (if 0 < cb_readPos b
      then let tmpSize = cb_writePos b - cb_readPos b;
               b = b\<lparr>cb_buffer := mem_write (cb_buffer b) 0 (mem_read (cb_buffer b) (unat (cb_readPos b)) (unat tmpSize)),
                     cb_writePos := cb_writePos b - cb_readPos b, cb_readPos := 0\<rparr>;
               tmpSize = cb_curSzie b - 1 - cb_writePos b
           in (if n > tmpSize then n - tmpSize else 0, b)
      else (n, b))"

definition CBuffer_ReallocBuffer :: "uint32 \<Rightarrow> CBuffer \<Rightarrow> bool \<times> CBuffer" where
  "CBuffer_ReallocBuffer n b =
     (case move_front n b of
        (n, b) \<Rightarrow>
          if 0 < n
          then if n + cb_curSzie b > cb_maxSize b then (False, b)
               else (True, b\<lparr>cb_curSzie := cb_curSzie b + (if cb_realcSize b > n then cb_realcSize b else n)\<rparr>)
          else (True, b))"

definition CBuffer_CanRead :: "uint32 \<Rightarrow> CBuffer \<Rightarrow> bool" where
  "CBuffer_CanRead n b \<longleftrightarrow> \<not> cb_readPos b + n > cb_writePos b"

definition CBuffer_ReadSize :: "CBuffer \<Rightarrow> uint32" where
  "CBuffer_ReadSize b = cb_writePos b - cb_readPos b"

definition CBuffer_ReadSlip :: "uint32 \<Rightarrow> CBuffer \<Rightarrow> bool \<times> CBuffer" where
  "CBuffer_ReadSlip n b = (if cb_readPos b + n > cb_writePos b then (False, b) else (True, b\<lparr>cb_readPos := cb_readPos b + n\<rparr>))"

definition CBuffer_CanWrite :: "uint32 \<Rightarrow> CBuffer \<Rightarrow> bool \<times> CBuffer" where
  "CBuffer_CanWrite n b =
     (if cb_curSzie b \<le> 1 \<or> cb_writePos b + n \<ge> cb_curSzie b - 1 then CBuffer_ReallocBuffer n b else (True, b))"

definition CBuffer_WriteSlip :: "uint32 \<Rightarrow> CBuffer \<Rightarrow> bool \<times> CBuffer" where
  "CBuffer_WriteSlip n b =
     (case CBuffer_CanWrite n b of
        (False, b) \<Rightarrow> (False, b)
      | (True, b) \<Rightarrow> (True, b\<lparr>cb_writePos := cb_writePos b + n\<rparr>))"

text \<open>The functions that return pointers: \<^verbatim>\<open>ReadBuf()\<close> and \<^verbatim>\<open>WriteBuf()\<close> are positions; the others deliver the bytes read or the positions reserved. \<^verbatim>\<open>WriteBuf(size)\<close>
  takes the pointer before the storage may be enlarged: \<open>None\<close> is its null, and \<open>Some None\<close> a pointer into storage that is gone.\<close>

definition CBuffer_ReadBuf :: "uint32 \<Rightarrow> CBuffer \<Rightarrow> byte list option \<times> CBuffer" where
  "CBuffer_ReadBuf n b =
     (case CBuffer_ReadSlip n b of
        (True, b') \<Rightarrow> (Some (mem_read (cb_buffer b) (unat (cb_readPos b)) (unat n)), b')
      | (False, b') \<Rightarrow> (None, b'))"

definition CBuffer_WriteBuf_reserve :: "uint32 \<Rightarrow> CBuffer \<Rightarrow> nat option option \<times> CBuffer" where
  "CBuffer_WriteBuf_reserve n b =
     (case CBuffer_WriteSlip n b of
        (True, b') \<Rightarrow> (Some (if cb_curSzie b' = cb_curSzie b then Some (unat (cb_writePos b)) else None), b')
      | (False, b') \<Rightarrow> (None, b'))"

definition CBuffer_WriteBuf :: "byte list \<Rightarrow> CBuffer \<Rightarrow> bool \<times> CBuffer" where
  "CBuffer_WriteBuf bs b =
     (case CBuffer_CanWrite (word_of_nat (length bs)) b of
        (False, b) \<Rightarrow> (False, b)
      | (True, b) \<Rightarrow> CBuffer_WriteSlip (word_of_nat (length bs)) (b\<lparr>cb_buffer := mem_write (cb_buffer b) (unat (cb_writePos b)) bs\<rparr>))"

subsection \<open>The interface of a byte stream\<close>

datatype stream_op = Write "byte list" | Read nat | Clear

text \<open>What comes out of a stream: the bytes read and the bytes accepted by writes, in order.\<close>

fun stream_run :: "(byte list \<Rightarrow> 'b \<Rightarrow> bool \<times> 'b) \<Rightarrow> (nat \<Rightarrow> 'b \<Rightarrow> byte list option \<times> 'b) \<Rightarrow> ('b \<Rightarrow> 'b)
    \<Rightarrow> stream_op list \<Rightarrow> 'b \<Rightarrow> byte list \<times> byte list \<times> 'b" where
  "stream_run w r c [] b = ([], [], b)"
| "stream_run w r c (Write bs # ops) b =
     (case w bs b of (ok, b') \<Rightarrow> case stream_run w r c ops b' of (rs, ws, b'') \<Rightarrow> (rs, (if ok then bs else []) @ ws, b''))"
| "stream_run w r c (Read n # ops) b =
     (case r n b of (q, b') \<Rightarrow> case stream_run w r c ops b' of (rs, ws, b'') \<Rightarrow> ((case q of None \<Rightarrow> [] | Some x \<Rightarrow> x) @ rs, ws, b''))"
| "stream_run w r c (Clear # ops) b = stream_run w r c ops (c b)"

fun op_len :: "stream_op \<Rightarrow> nat" where
  "op_len (Write bs) = length bs"
| "op_len (Read n) = n"
| "op_len Clear = 0"

locale byte_stream =
  fixes wf :: "'b \<Rightarrow> bool"
    and content :: "'b \<Rightarrow> byte list"
    and put :: "byte list \<Rightarrow> 'b \<Rightarrow> bool \<times> 'b"
    and fetch :: "nat \<Rightarrow> 'b \<Rightarrow> byte list option \<times> 'b"
    and clear :: "'b \<Rightarrow> 'b"
    and len_ok :: "nat \<Rightarrow> bool"
  assumes put_law: "wf b \<Longrightarrow> len_ok (length bs) \<Longrightarrow> put bs b = (ok, b') \<Longrightarrow>
      wf b' \<and> content b' = (if ok then content b @ bs else content b)"
    and fetch_law: "wf b \<Longrightarrow> len_ok n \<Longrightarrow> fetch n b = (r, b') \<Longrightarrow>
      wf b' \<and> (if n \<le> length (content b) then r = Some (take n (content b)) \<and> content b' = drop n (content b) else r = None \<and> b' = b)"
    and clear_law: "wf b \<Longrightarrow> wf (clear b) \<and> content (clear b) = []"
begin

lemma run_conserves:
  assumes "wf b" and "\<forall>x\<in>set ops. x \<noteq> Clear \<and> len_ok (op_len x)" and "stream_run put fetch clear ops b = (rs, ws, b')"
  shows "wf b' \<and> content b @ ws = rs @ content b'"
  using assms
proof (induction ops arbitrary: b rs ws)
  case (Cons x ops)
  show ?case
  proof (cases x)
    case (Write bs)
    obtain ok c where w: "put bs b = (ok, c)" by fastforce
    obtain rs' ws' where r: "stream_run put fetch clear ops c = (rs', ws', b')" "rs = rs'" "ws = (if ok then bs else []) @ ws'"
      using Cons.prems(3) Write w by (auto split: prod.splits)
    note l = put_law [OF Cons.prems(1) _ w]
    then show ?thesis using Cons.IH [OF _ _ r(1)] Cons.prems(2) Write r by auto
  next
    case (Read n)
    obtain q c where w: "fetch n b = (q, c)" by fastforce
    obtain rs' ws' where r: "stream_run put fetch clear ops c = (rs', ws', b')" "rs = (case q of None \<Rightarrow> [] | Some x \<Rightarrow> x) @ rs'" "ws = ws'"
      using Cons.prems(3) Read w by (auto split: prod.splits)
    note l = fetch_law [OF Cons.prems(1) _ w]
    have "wf c" "content b = (case q of None \<Rightarrow> [] | Some x \<Rightarrow> x) @ content c"
      using l Cons.prems(2) Read by (auto split: if_splits)
    then show ?thesis using Cons.IH [OF _ _ r(1)] Cons.prems(2) r by auto
  next
    case Clear
    then show ?thesis using Cons.prems(2) by simp
  qed
qed auto

end

subsection \<open>The buffer as a byte stream\<close>

definition cb_wf :: "CBuffer \<Rightarrow> bool" where
  "cb_wf b \<longleftrightarrow> cb_readPos b \<le> cb_writePos b \<and> cb_writePos b \<le> cb_curSzie b
     \<and> unat (cb_curSzie b) \<le> unat (cb_maxSize b) + unat (cb_realcSize b) \<and> unat (cb_maxSize b) + unat (cb_realcSize b) < 2 ^ 31"

definition cb_content :: "CBuffer \<Rightarrow> byte list" where
  "cb_content b = mem_read (cb_buffer b) (unat (cb_readPos b)) (unat (cb_writePos b) - unat (cb_readPos b))"

lemma length_cb_content: "cb_wf b \<Longrightarrow> length (cb_content b) = unat (cb_writePos b) - unat (cb_readPos b)"
  by (simp add: cb_content_def)

lemma cb_wf_nat:
  assumes "cb_wf b"
  shows "unat (cb_readPos b) \<le> unat (cb_writePos b)" "unat (cb_writePos b) \<le> unat (cb_curSzie b)" "unat (cb_curSzie b) < 2 ^ 31"
    "unat (cb_writePos b - cb_readPos b) = unat (cb_writePos b) - unat (cb_readPos b)"
  using assms by (auto simp: cb_wf_def word_le_nat_alt unat_sub)

lemma move_front_ok:
  assumes "cb_wf b" and "move_front n b = (n', b')"
  shows "cb_wf b'" and "cb_content b' = cb_content b" and "cb_maxSize b' = cb_maxSize b" and "cb_realcSize b' = cb_realcSize b"
    and "cb_curSzie b' = cb_curSzie b" and "unat n' \<le> unat n"
    and "n' = n \<and> b' = b \<and> cb_readPos b = 0 \<or> unat (cb_writePos b') + unat n < unat (cb_curSzie b) + unat n'"
    and "\<forall>i\<ge>unat (cb_curSzie b). cb_buffer b' i = cb_buffer b i"
proof -
  note w = cb_wf_nat [OF assms(1)]
  let ?k = "cb_writePos b - cb_readPos b"
  let ?m = "mem_write (cb_buffer b) 0 (mem_read (cb_buffer b) (unat (cb_readPos b)) (unat ?k))"
  let ?t = "cb_curSzie b - 1 - ?k"
  have "cb_wf b' \<and> cb_content b' = cb_content b \<and> cb_maxSize b' = cb_maxSize b \<and> cb_realcSize b' = cb_realcSize b \<and> cb_curSzie b' = cb_curSzie b \<and> unat n' \<le> unat n
    \<and> (n' = n \<and> b' = b \<and> cb_readPos b = 0 \<or> unat (cb_writePos b') + unat n < unat (cb_curSzie b) + unat n')
    \<and> (\<forall>i\<ge>unat (cb_curSzie b). cb_buffer b' i = cb_buffer b i)"
  proof (cases "0 < cb_readPos b")
    case False
    then show ?thesis using assms by (auto simp: move_front_def word_gt_0)
  next
    case True
    then have r: "0 < unat (cb_readPos b)" by (simp add: unat_gt_0)
    have t1: "unat (cb_curSzie b - 1) = unat (cb_curSzie b) - 1"
      using r w by (simp add: unat_sub word_le_nat_alt)
    have t: "unat ?t = unat (cb_curSzie b) - 1 - unat ?k"
      using r w t1 by (simp add: unat_sub_le word_le_nat_alt)
    have b': "b' = b\<lparr>cb_buffer := ?m, cb_writePos := ?k, cb_readPos := 0\<rparr>" "n' = (if n > ?t then n - ?t else 0)"
      using assms(2) True by (auto simp: move_front_def Let_def)
    have n': "unat n' = unat n - unat ?t"
      unfolding b'(2) by (auto simp: unat_sub word_less_nat_alt word_le_nat_alt)
    have "cb_wf b'" using assms(1) w(2,4) by (auto simp: b' cb_wf_def word_le_nat_alt)
    moreover have "cb_content b' = cb_content b" using w by (simp add: b' cb_content_def)
    moreover have "unat ?k + unat n < unat (cb_curSzie b) + unat n'" using n' t w r by linarith
    moreover have "\<forall>i\<ge>unat (cb_curSzie b). ?m i = cb_buffer b i" using w by simp
    ultimately show ?thesis using n' by (simp add: b'(1))
  qed
  then show "cb_wf b'" "cb_content b' = cb_content b" "cb_maxSize b' = cb_maxSize b" "cb_realcSize b' = cb_realcSize b" "cb_curSzie b' = cb_curSzie b" "unat n' \<le> unat n"
    "n' = n \<and> b' = b \<and> cb_readPos b = 0 \<or> unat (cb_writePos b') + unat n < unat (cb_curSzie b) + unat n'"
    "\<forall>i\<ge>unat (cb_curSzie b). cb_buffer b' i = cb_buffer b i" by blast+
qed

text \<open>What a successful check for space promises: the bytes may be written at the write position.\<close>

definition same_stream :: "CBuffer \<Rightarrow> CBuffer \<Rightarrow> bool" where
  "same_stream b b' \<longleftrightarrow> cb_wf b' \<and> cb_content b' = cb_content b \<and> cb_maxSize b' = cb_maxSize b \<and> cb_realcSize b' = cb_realcSize b
     \<and> cb_curSzie b \<le> cb_curSzie b'"

lemma ReallocBuffer_ok:
  assumes "cb_wf b" and "unat n < 2 ^ 31" and "CBuffer_ReallocBuffer n b = (ok, b')"
  shows "same_stream b b' \<and> (ok \<longrightarrow> unat (cb_writePos b') + unat n \<le> unat (cb_curSzie b'))"
proof -
  obtain n1 b1 where m: "move_front n b = (n1, b1)" by fastforce
  note l = move_front_ok [OF assms(1) m]
  note w = cb_wf_nat [OF l(1)]
  let ?g = "if cb_realcSize b1 > n1 then cb_realcSize b1 else n1"
  have r: "b' = (if 0 < n1 \<and> ok then b1\<lparr>cb_curSzie := cb_curSzie b1 + ?g\<rparr> else b1)" "ok \<longleftrightarrow> \<not> (0 < n1 \<and> n1 + cb_curSzie b1 > cb_maxSize b1)"
    using assms(3) m by (auto simp: CBuffer_ReallocBuffer_def split: if_splits)
  show ?thesis
  proof (cases "0 < n1 \<and> ok")
    case True
    have s: "unat (n1 + cb_curSzie b1) = unat n1 + unat (cb_curSzie b1)" using w(3) l(6) assms(2) by (simp add: unat_add_noov)
    then have m: "unat n1 + unat (cb_curSzie b1) \<le> unat (cb_maxSize b1)" using True r(2) by (auto simp: word_le_nat_alt word_less_nat_alt)
    have g: "unat n1 \<le> unat ?g" "unat ?g \<le> unat n1 + unat (cb_realcSize b1)" "unat ?g \<le> max (unat n1) (unat (cb_realcSize b1))"
      by (auto simp: word_less_nat_alt)
    have b31: "unat (cb_maxSize b1) + unat (cb_realcSize b1) < 2 ^ 31" using l(1) by (simp add: cb_wf_def)
    have u: "unat (cb_curSzie b1 + ?g) = unat (cb_curSzie b1) + unat ?g"
      using g(2) m b31 by (intro unat_add_noov) simp
    have "unat (cb_curSzie b1) + unat ?g \<le> unat (cb_maxSize b1) + unat (cb_realcSize b1)" using g(3) m w(3) l(1) by (auto simp: cb_wf_def)
    then have "cb_wf (b1\<lparr>cb_curSzie := cb_curSzie b1 + ?g\<rparr>)"
      using l(1) w u unfolding cb_wf_def by (auto simp: word_le_nat_alt)
    moreover have "cb_curSzie b \<le> cb_curSzie b1 + ?g" using l(5) u by (simp add: word_le_nat_alt)
    moreover have "unat (cb_writePos b1) + unat n \<le> unat (cb_curSzie b1) + unat ?g" using l(5,7) w(2) g(1) by auto
    ultimately show ?thesis using True l r(1) u by (simp add: same_stream_def cb_content_def)
  next
    case False
    then have "ok \<longrightarrow> n1 = 0" by (auto simp: word_gt_0)
    then show ?thesis using False l w r(1) by (auto simp: same_stream_def)
  qed
qed

lemma CanWrite_ok:
  assumes "cb_wf b" and "unat n < 2 ^ 31" and "CBuffer_CanWrite n b = (ok, b')"
  shows "same_stream b b' \<and> (ok \<longrightarrow> unat (cb_writePos b') + unat n \<le> unat (cb_curSzie b'))"
proof (cases "cb_curSzie b \<le> 1 \<or> cb_writePos b + n \<ge> cb_curSzie b - 1")
  case True
  then show ?thesis using assms ReallocBuffer_ok by (simp add: CBuffer_CanWrite_def)
next
  case False
  have "unat (cb_writePos b + n) = unat (cb_writePos b) + unat n"
    using cb_wf_nat [OF assms(1)] assms(2) by (intro unat_add_noov) simp
  moreover have "unat (cb_curSzie b - 1) \<le> unat (cb_curSzie b)" using False by (auto simp: unat_sub word_le_nat_alt not_le)
  ultimately show ?thesis using False assms by (simp add: CBuffer_CanWrite_def same_stream_def word_le_nat_alt)
qed

lemma WriteSlip_ok:
  assumes "cb_wf b" and "unat n < 2 ^ 31" and "CBuffer_WriteSlip n b = (ok, b')"
  shows "cb_wf b' \<and> (\<exists>c. CBuffer_CanWrite n b = (ok, c) \<and> b' = (if ok then c\<lparr>cb_writePos := cb_writePos c + n\<rparr> else c))"
proof -
  obtain c where c: "CBuffer_CanWrite n b = (ok, c)" "b' = (if ok then c\<lparr>cb_writePos := cb_writePos c + n\<rparr> else c)"
    using assms(3) by (auto simp: CBuffer_WriteSlip_def split: prod.splits bool.splits)
  note l = CanWrite_ok [OF assms(1,2) c(1)]
  have "cb_wf b'"
  proof (cases ok)
    case True
    have w: "cb_wf c" using l by (simp add: same_stream_def)
    note n = cb_wf_nat [OF w]
    have "unat (cb_writePos c + n) = unat (cb_writePos c) + unat n" using n assms(2) by (intro unat_add_noov) simp
    then show ?thesis using w l True n by (auto simp: c(2) cb_wf_def word_le_nat_alt)
  next
    case False
    then show ?thesis using l by (simp add: c(2) same_stream_def)
  qed
  then show ?thesis using c by blast
qed

text \<open>\<^verbatim>\<open>WriteBuf\<close> checks for space twice, before and after it copies. The second check may enlarge the storage but never moves
  the bytes: it has to only when the first check has emptied the space in front of them.\<close>

lemma CanWrite_cases:
  assumes "CBuffer_CanWrite n b = (ok, c)"
  shows "cb_readPos c = 0 \<or> c = b \<and> (\<forall>m. CBuffer_CanWrite n (c\<lparr>cb_buffer := m\<rparr>) = (ok, c\<lparr>cb_buffer := m\<rparr>))"
proof (cases "cb_curSzie b \<le> 1 \<or> cb_writePos b + n \<ge> cb_curSzie b - 1")
  case True
  then have "CBuffer_ReallocBuffer n b = (ok, c)" using assms by (simp add: CBuffer_CanWrite_def)
  then have "cb_readPos c = 0"
    by (auto simp: CBuffer_ReallocBuffer_def move_front_def Let_def word_gt_0 split: if_splits)
  then show ?thesis by simp
next
  case False
  then have "ok" "c = b" using assms by (auto simp: CBuffer_CanWrite_def)
  then show ?thesis using False by (auto simp: CBuffer_CanWrite_def)
qed

lemma CanWrite_front:
  assumes "cb_readPos b = 0" and "CBuffer_CanWrite n b = (ok, c)"
  shows "\<exists>k. c = b\<lparr>cb_curSzie := k\<rparr>"
  using assms
  by (auto simp: CBuffer_CanWrite_def CBuffer_ReallocBuffer_def move_front_def split: if_splits intro: exI [of _ "cb_curSzie b"])

lemma CanWrite_again:
  assumes "CBuffer_CanWrite n b = (True, c)" and "CBuffer_CanWrite n (c\<lparr>cb_buffer := m\<rparr>) = (ok, d)"
  shows "\<exists>k. d = c\<lparr>cb_buffer := m, cb_curSzie := k\<rparr>"
proof (cases "cb_readPos c = 0")
  case True
  then have "cb_readPos (c\<lparr>cb_buffer := m\<rparr>) = 0" by simp
  then show ?thesis using CanWrite_front [OF _ assms(2)] by auto
next
  case False
  then have "d = c\<lparr>cb_buffer := m\<rparr>" using CanWrite_cases [OF assms(1)] assms(2) by auto
  then show ?thesis by (intro exI [of _ "cb_curSzie c"]) simp
qed

lemma WriteBuf_ok:
  assumes "cb_wf b" and "length bs < 2 ^ 31" and "CBuffer_WriteBuf bs b = (ok, b')"
  shows "cb_wf b' \<and> cb_content b' = (if ok then cb_content b @ bs else cb_content b)"
proof -
  let ?n = "word_of_nat (length bs) :: uint32"
  have n: "unat ?n = length bs" using assms(2) by (simp add: unat_of_nat)
  obtain ok1 c where c: "CBuffer_CanWrite ?n b = (ok1, c)" by fastforce
  have n31: "unat ?n < 2 ^ 31" using n assms(2) by simp
  note l = CanWrite_ok [OF assms(1) n31 c]
  show ?thesis
  proof (cases ok1)
    case False
    then show ?thesis using assms(3) c l by (simp add: CBuffer_WriteBuf_def same_stream_def)
  next
    case True
    let ?m = "mem_write (cb_buffer c) (unat (cb_writePos c)) bs"
    let ?c = "c\<lparr>cb_buffer := ?m\<rparr>"
    have "cb_wf c" using l by (simp add: same_stream_def)
    then have w: "cb_wf c" "cb_wf ?c" by (simp_all add: cb_wf_def)
    have "CBuffer_WriteSlip ?n ?c = (ok, b')" using assms(3) c True by (simp add: CBuffer_WriteBuf_def)
    from WriteSlip_ok [OF w(2) n31 this] obtain d where d: "cb_wf b'" "CBuffer_CanWrite ?n ?c = (ok, d)"
      "b' = (if ok then d\<lparr>cb_writePos := cb_writePos d + ?n\<rparr> else d)" by blast
    obtain k where k: "d = c\<lparr>cb_buffer := ?m, cb_curSzie := k\<rparr>" using CanWrite_again [of ?n b c ?m ok d] c True d(2) by auto
    note cn = cb_wf_nat [OF w(1)]
    let ?r = "unat (cb_readPos c)" and ?w = "unat (cb_writePos c)"
    have base: "mem_read ?m ?r (?w - ?r) = cb_content c"
      unfolding cb_content_def using cn(1) by (intro mem_read_write_disjoint) simp
    have "cb_content b' = (if ok then cb_content c @ bs else cb_content c)"
    proof (cases ok)
      case True
      have u: "unat (cb_writePos c + ?n) = ?w + length bs" using cn n assms(2) by (subst unat_add_noov) auto
      have "cb_content b' = mem_read ?m ?r ((?w - ?r) + length bs)" using True d(3) k u cn(1) by (simp add: cb_content_def)
      also have "\<dots> = mem_read ?m ?r (?w - ?r) @ mem_read ?m ?w (length bs)" using cn(1) by (subst mem_read_append) simp
      also have "\<dots> = cb_content c @ bs" by (simp add: base)
      finally show ?thesis using True by simp
    next
      case False
      then show ?thesis using d(3) k base by (simp add: cb_content_def)
    qed
    then show ?thesis using d(1) l by (simp add: same_stream_def)
  qed
qed

lemma ReadBuf_ok:
  assumes "cb_wf b" and "n < 2 ^ 31" and "CBuffer_ReadBuf (word_of_nat n) b = (r, b')"
  shows "cb_wf b' \<and> (if n \<le> length (cb_content b) then r = Some (take n (cb_content b)) \<and> cb_content b' = drop n (cb_content b) else r = None \<and> b' = b)"
proof -
  note w = cb_wf_nat [OF assms(1)]
  have n: "unat (word_of_nat n :: uint32) = n" using assms(2) by (simp add: unat_of_nat)
  have u: "unat (cb_readPos b + word_of_nat n) = unat (cb_readPos b) + n" using w assms(2) n by (subst unat_add_noov) auto
  have le: "\<not> cb_readPos b + word_of_nat n > cb_writePos b \<longleftrightarrow> n \<le> length (cb_content b)"
    using u w by (auto simp: word_less_nat_alt cb_content_def)
  show ?thesis
  proof (cases "n \<le> length (cb_content b)")
    case True
    then have r: "r = Some (mem_read (cb_buffer b) (unat (cb_readPos b)) n)" "b' = b\<lparr>cb_readPos := cb_readPos b + word_of_nat n\<rparr>"
      using assms(3) le n by (auto simp: CBuffer_ReadBuf_def CBuffer_ReadSlip_def)
    have "n \<le> unat (cb_writePos b) - unat (cb_readPos b)" using True by (simp add: cb_content_def)
    then show ?thesis using True assms(1) u w r by (auto simp: cb_wf_def cb_content_def word_le_nat_alt)
  next
    case False
    then show ?thesis using assms(1,3) le by (auto simp: CBuffer_ReadBuf_def CBuffer_ReadSlip_def)
  qed
qed

interpretation cbuffer: byte_stream cb_wf cb_content CBuffer_WriteBuf "\<lambda>n. CBuffer_ReadBuf (word_of_nat n)" CBuffer_Reset "\<lambda>n. n < 2 ^ 31"
proof
  fix b b' bs ok n r
  show "cb_wf b \<Longrightarrow> length bs < 2 ^ 31 \<Longrightarrow> CBuffer_WriteBuf bs b = (ok, b') \<Longrightarrow>
      cb_wf b' \<and> cb_content b' = (if ok then cb_content b @ bs else cb_content b)" by (rule WriteBuf_ok)
  show "cb_wf b \<Longrightarrow> n < 2 ^ 31 \<Longrightarrow> CBuffer_ReadBuf (word_of_nat n) b = (r, b') \<Longrightarrow>
      cb_wf b' \<and> (if n \<le> length (cb_content b) then r = Some (take n (cb_content b)) \<and> cb_content b' = drop n (cb_content b) else r = None \<and> b' = b)"
    by (rule ReadBuf_ok)
  show "cb_wf b \<Longrightarrow> cb_wf (CBuffer_Reset b) \<and> cb_content (CBuffer_Reset b) = []"
    by (simp add: CBuffer_Reset_def cb_wf_def cb_content_def)
qed

subsection \<open>Properties\<close>

text \<open>C26. The growing buffer is a byte stream: for every sequence of writes and reads, the bytes read so far followed by the bytes still in the buffer are the
  bytes that were there at first followed by those of the accepted writes. Moving the content and enlarging the storage, also between the
  two checks of a write, neither lose, duplicate nor reorder a byte, and the storage stays below its bound.\<close>

theorem buffer_is_byte_stream:
  assumes "cb_wf b" and "\<forall>x\<in>set ops. x \<noteq> Clear \<and> op_len x < 2 ^ 31"
    and "stream_run CBuffer_WriteBuf (\<lambda>n. CBuffer_ReadBuf (word_of_nat n)) CBuffer_Reset ops b = (rs, ws, b')"
  shows "cb_wf b' \<and> cb_content b @ ws = rs @ cb_content b'"
  by (rule cbuffer.run_conserves [OF assms])

theorem buffer_is_byte_stream_witness:
  "\<exists>rs ws b'. stream_run CBuffer_WriteBuf (\<lambda>n. CBuffer_ReadBuf (word_of_nat n)) CBuffer_Reset [Write [1, 2], Write [3], Read 2, Read 5] CBuffer_new = (rs, ws, b')
    \<and> ws = rs @ cb_content b'"
proof -
  obtain rs ws b' where r: "stream_run CBuffer_WriteBuf (\<lambda>n. CBuffer_ReadBuf (word_of_nat n)) CBuffer_Reset [Write [1, 2], Write [3], Read 2, Read 5] CBuffer_new = (rs, ws, b')"
    by (rule prod_cases3)
  have "cb_wf CBuffer_new" "cb_content CBuffer_new = []" by (simp_all add: CBuffer_new_def cb_wf_def cb_content_def)
  then show ?thesis using buffer_is_byte_stream [OF _ _ r] r by auto
qed

end
