(* ===== verification/NetUtil.thy ===== *)
theory NetUtil
  imports Posix
begin

text \<open>
  \<^verbatim>\<open>include/net_util.hpp\<close> and \<^verbatim>\<open>tmp/epoll_service\<close>: the socket and epoll wrappers of the earlier center. The calls they make beyond those of
  the other servers are the fields of \<open>netcalls\<close>. A loop that repeats an interrupted call is \<open>retry\<close>; it does not return when the kernel interrupts the call for ever.
\<close>

record ce_event =
  ce_events :: uint32
  ce_ptr :: "nat option"

text \<open>A socket address is the address and the port in network order. The user datum of an epoll event is a pointer; \<open>ptr_fd\<close> is the
  descriptor that is read from the same union, the low half of the pointer.\<close>

record net_addr_t =
  na_addr :: uint32
  na_port :: uint16

record 'os netcalls = "'os posix" +
  nc_socket_udp :: "'os \<Rightarrow> int \<times> 'os"
  nc_set_bufsize :: "int \<Rightarrow> int \<Rightarrow> int \<Rightarrow> 'os \<Rightarrow> 'os"
  nc_get_bufsize :: "int \<Rightarrow> 'os \<Rightarrow> (int \<times> int) \<times> 'os"
  nc_bind :: "int \<Rightarrow> net_addr_t \<Rightarrow> 'os \<Rightarrow> bool \<times> 'os"
  nc_listen :: "int \<Rightarrow> int \<Rightarrow> 'os \<Rightarrow> bool \<times> 'os"
  nc_connect :: "int \<Rightarrow> net_addr_t \<Rightarrow> 'os \<Rightarrow> bool \<times> 'os"
  nc_accept :: "int \<Rightarrow> 'os \<Rightarrow> (errno + int \<times> net_addr_t) \<times> 'os"
  nc_sendto :: "int \<Rightarrow> byte list \<Rightarrow> net_addr_t \<Rightarrow> 'os \<Rightarrow> (errno + nat) \<times> 'os"
  nc_recvfrom :: "int \<Rightarrow> nat \<Rightarrow> 'os \<Rightarrow> (errno + byte list \<times> net_addr_t) \<times> 'os"
  nc_select :: "int option \<Rightarrow> bool \<Rightarrow> bool \<Rightarrow> (int \<times> int) option \<Rightarrow> 'os \<Rightarrow> int \<times> 'os"
  nc_read :: "int \<Rightarrow> nat \<Rightarrow> 'os \<Rightarrow> (int \<times> byte list) \<times> 'os"
  nc_epoll_add :: "int \<Rightarrow> int \<Rightarrow> nat option \<Rightarrow> uint32 \<Rightarrow> 'os \<Rightarrow> bool \<times> 'os"
  nc_epoll_mod :: "int \<Rightarrow> int \<Rightarrow> nat option \<Rightarrow> uint32 \<Rightarrow> 'os \<Rightarrow> bool \<times> 'os"
  nc_epoll_create :: "int \<Rightarrow> 'os \<Rightarrow> int \<times> 'os"
  nc_epoll_wait :: "int \<Rightarrow> int \<Rightarrow> int \<Rightarrow> 'os \<Rightarrow> ce_event list option \<times> 'os"
  nc_inet_addr :: "string \<Rightarrow> uint32"
  nc_inet_ntoa :: "uint32 \<Rightarrow> string"
  nc_setrlimit :: "int \<Rightarrow> 'os \<Rightarrow> bool \<times> 'os"
  nc_getrlimit :: "'os \<Rightarrow> int \<times> 'os"
  nc_ptr_fd :: "nat \<Rightarrow> int"

subsection \<open>Sockets\<close>

definition htons :: "uint16 \<Rightarrow> uint16" where
  "htons w = word_of_nat (unat w div 256 + 256 * (unat w mod 256))"

lemma unat_htons: "unat (htons w) = unat w div 256 + 256 * (unat w mod 256)"
proof -
  have "unat w < 65536" using unat_bound [of w] by simp
  then have "unat w div 256 < 256" by (simp add: less_mult_imp_div_less)
  moreover have "unat w mod 256 < 256" by simp
  ultimately have "unat w div 256 + 256 * (unat w mod 256) < 65536" by linarith
  then show ?thesis unfolding htons_def unat_of_nat by simp
qed

lemma htons_htons [simp]: "htons (htons w) = w"
proof -
  have "unat w < 65536" using unat_bound [of w] by simp
  then have "unat w div 256 < 256" by (simp add: less_mult_imp_div_less)
  then have "unat (htons (htons w)) = unat w" by (simp add: unat_htons)
  then show ?thesis by (rule word_unat_eq_iff [THEN iffD2])
qed

definition net_tcp_sock :: "('os, 'x) netcalls_scheme \<Rightarrow> 'os \<Rightarrow> int \<times> 'os" where
  "net_tcp_sock P os = sys_socket P os"

definition net_udp_sock :: "('os, 'x) netcalls_scheme \<Rightarrow> 'os \<Rightarrow> int \<times> 'os" where
  "net_udp_sock P os = nc_socket_udp P os"

definition net_close :: "('os, 'x) netcalls_scheme \<Rightarrow> int \<Rightarrow> 'os \<Rightarrow> 'os" where
  "net_close P fd os = sys_close P fd os"

text \<open>The result of \<^verbatim>\<open>fcntl\<close>, 0 for success and -1 for failure, becomes the Boolean.\<close>

definition net_set_nonblocking :: "('os, 'x) netcalls_scheme \<Rightarrow> int \<Rightarrow> 'os \<Rightarrow> bool \<times> 'os" where
  "net_set_nonblocking P fd os = (case sys_fcntl_getfl P fd os of (_, os) \<Rightarrow> case sys_fcntl_nonblock P fd os of (ok, os) \<Rightarrow> (\<not> ok, os))"

definition net_addr_aton :: "('os, 'x) netcalls_scheme \<Rightarrow> string \<Rightarrow> uint32 \<Rightarrow> net_addr_t" where
  "net_addr_aton P pszAddr uiPort = \<lparr>na_addr = nc_inet_addr P pszAddr, na_port = htons (ucast uiPort)\<rparr>"

definition net_addr_ntoa :: "('os, 'x) netcalls_scheme \<Rightarrow> net_addr_t \<Rightarrow> string \<times> uint32" where
  "net_addr_ntoa P stAddr = (nc_inet_ntoa P (na_addr stAddr), ucast (htons (na_port stAddr)))"

definition net_bind :: "('os, 'x) netcalls_scheme \<Rightarrow> int \<Rightarrow> string option \<Rightarrow> uint32 \<Rightarrow> 'os \<Rightarrow> int \<times> 'os" where
  "net_bind P fd pszAddr port os =
     (let addr = \<lparr>na_addr = (case pszAddr of Some a \<Rightarrow> nc_inet_addr P a | None \<Rightarrow> 0), na_port = htons (ucast port)\<rparr>;
          (_, os) = sys_setsockopt P fd os;
          (ok, os) = nc_bind P fd addr os
      in (if ok then 0 else -1, os))"

definition net_listen :: "('os, 'x) netcalls_scheme \<Rightarrow> int \<Rightarrow> int \<Rightarrow> 'os \<Rightarrow> int \<times> 'os" where
  "net_listen P fd backlog os = (case nc_listen P fd backlog os of (ok, os) \<Rightarrow> (if ok then 0 else -1, os))"

definition net_connect :: "('os, 'x) netcalls_scheme \<Rightarrow> int \<Rightarrow> string \<Rightarrow> uint32 \<Rightarrow> 'os \<Rightarrow> int \<times> 'os" where
  "net_connect P fd pszAddr port os =
     (case nc_connect P fd \<lparr>na_addr = nc_inet_addr P pszAddr, na_port = htons (ucast port)\<rparr> os of (ok, os) \<Rightarrow> (if ok then 0 else -1, os))"

definition net_set_buffsize :: "('os, 'x) netcalls_scheme \<Rightarrow> int \<Rightarrow> int \<Rightarrow> int \<Rightarrow> 'os \<Rightarrow> 'os" where
  "net_set_buffsize P fd nRcvBuf nSndBuf os = nc_set_bufsize P fd nRcvBuf nSndBuf os"

definition net_get_buffsize :: "('os, 'x) netcalls_scheme \<Rightarrow> int \<Rightarrow> 'os \<Rightarrow> (int \<times> int) \<times> 'os" where
  "net_get_buffsize P fd os = nc_get_bufsize P fd os"

text \<open>\<^verbatim>\<open>select\<close> on one descriptor or on none; without a positive time-out it waits for ever. The mask has the bits 1 for reading and 2 for writing.\<close>

definition net_select_wait :: "('os, 'x) netcalls_scheme \<Rightarrow> int \<Rightarrow> nat \<Rightarrow> int \<Rightarrow> 'os \<Rightarrow> int \<times> 'os" where
  "net_select_wait P fd rw timeoutMS os =
     (let tv = (if timeoutMS > 0 then Some (timeoutMS div 1000, (timeoutMS mod 1000) * 1000) else None)
      in if fd \<noteq> 0 then nc_select P (Some fd) (odd rw) (odd (rw div 2)) tv os else nc_select P None False False tv os)"

definition net_async_read :: "('os, 'x) netcalls_scheme \<Rightarrow> int \<Rightarrow> nat \<Rightarrow> int \<Rightarrow> 'os \<Rightarrow> (int \<times> byte list) \<times> 'os" where
  "net_async_read P fd bufsize timeoutMS os =
     (case net_select_wait P fd 1 timeoutMS os of
        (iRet, os) \<Rightarrow> if iRet > 0 then nc_read P fd bufsize os else ((iRet, []), os))"

subsection \<open>Calls that are repeated when interrupted\<close>

partial_function (option) retry :: "('os \<Rightarrow> (errno + 'r) \<times> 'os) \<Rightarrow> 'os \<Rightarrow> ((errno + 'r) \<times> 'os) option" where
  "retry call os =
     (case call os of
        (Inl EINTR, os) \<Rightarrow> retry call os
      | (r, os) \<Rightarrow> Some (r, os))"

text \<open>The code's result of a failed call: 0 when it would block, -2 otherwise.\<close>

definition net_error :: "errno \<Rightarrow> int" where
  "net_error e = (if e = EAGAIN \<or> e = EWOULDBLOCK then 0 else -2)"

definition net_tcp_accept :: "('os, 'x) netcalls_scheme \<Rightarrow> int \<Rightarrow> net_addr_t \<Rightarrow> 'os \<Rightarrow> (int \<times> net_addr_t \<times> 'os) option" where
  "net_tcp_accept P fd pSockAddr os =
     (case retry (nc_accept P fd) os of
        None \<Rightarrow> None
      | Some (Inl e, os) \<Rightarrow> Some (net_error e, pSockAddr, os)
      | Some (Inr (new_fd, addr), os) \<Rightarrow> Some (new_fd, addr, os))"

definition send_call :: "('os, 'x) netcalls_scheme \<Rightarrow> int \<Rightarrow> byte list \<Rightarrow> 'os \<Rightarrow> (errno + nat) \<times> 'os" where
  "send_call P fd bs os = (case posix_send (posix.truncate P) fd bs os of (SendOk k, os) \<Rightarrow> (Inr k, os) | (SendErr e, os) \<Rightarrow> (Inl e, os))"

definition recv_call :: "('os, 'x) netcalls_scheme \<Rightarrow> int \<Rightarrow> nat \<Rightarrow> 'os \<Rightarrow> (errno + byte list) \<times> 'os" where
  "recv_call P fd n os = (case posix_recv (posix.truncate P) fd n os of (RecvOk bs, os) \<Rightarrow> (Inr bs, os) | (RecvErr e, os) \<Rightarrow> (Inl e, os))"

definition net_tcp_send :: "('os, 'x) netcalls_scheme \<Rightarrow> int \<Rightarrow> byte list \<Rightarrow> 'os \<Rightarrow> (int \<times> 'os) option" where
  "net_tcp_send P fd bs os =
     (if bs = [] then Some (0, os)
      else (case retry (send_call P fd bs) os of
              None \<Rightarrow> None
            | Some (Inl e, os) \<Rightarrow> Some (net_error e, os)
            | Some (Inr k, os) \<Rightarrow> Some (int k, os)))"

text \<open>The second result are the bytes stored at the caller's pointer; \<open>null\<close> tells that the pointer is null.\<close>

definition net_tcp_recv :: "('os, 'x) netcalls_scheme \<Rightarrow> int \<Rightarrow> bool \<Rightarrow> nat \<Rightarrow> 'os \<Rightarrow> (int \<times> byte list \<times> 'os) option" where
  "net_tcp_recv P fd null ulLen os =
     (if ulLen = 0 then Some (0, [], os)
      else if null then Some (-1, [], os)
      else (case retry (recv_call P fd ulLen) os of
              None \<Rightarrow> None
            | Some (Inl e, os) \<Rightarrow> Some (net_error e, [], os)
            | Some (Inr bs, os) \<Rightarrow> Some (int (length bs), bs, os)))"

text \<open>\<^verbatim>\<open>net_udp_sendto\<close> compares the unsigned length with 0 the wrong way round.\<close>

definition net_udp_sendto :: "('os, 'x) netcalls_scheme \<Rightarrow> int \<Rightarrow> byte list \<Rightarrow> net_addr_t \<Rightarrow> 'os \<Rightarrow> (int \<times> 'os) option" where
  "net_udp_sendto P fd bs addr os =
     (if 0 \<le> (word_of_nat (length bs) :: uint64) then Some (0, os)
      else (case retry (nc_sendto P fd bs addr) os of
              None \<Rightarrow> None
            | Some (Inl e, os) \<Rightarrow> Some (net_error e, os)
            | Some (Inr k, os) \<Rightarrow> Some (int k, os)))"

definition net_udp_recvfrom :: "('os, 'x) netcalls_scheme \<Rightarrow> int \<Rightarrow> bool \<Rightarrow> nat \<Rightarrow> net_addr_t \<Rightarrow> 'os \<Rightarrow> (int \<times> byte list \<times> net_addr_t \<times> 'os) option" where
  "net_udp_recvfrom P fd null ulLen addr os =
     (if ulLen = 0 then Some (0, [], addr, os)
      else if null then Some (-1, [], addr, os)
      else (case retry (nc_recvfrom P fd ulLen) os of
              None \<Rightarrow> None
            | Some (Inl e, os) \<Rightarrow> Some (net_error e, [], addr, os)
            | Some (Inr (bs, remote), os) \<Rightarrow> Some (int (length bs), bs, remote, os)))"

text \<open>\<^verbatim>\<open>net_create_listen_sock\<close>; when \<^verbatim>\<open>bind\<close> or \<^verbatim>\<open>listen\<close> fails, the socket stays open.\<close>

datatype sock_style = sock_style_null | sock_style_tcp | sock_style_udp

definition net_create_listen_sock :: "('os, 'x) netcalls_scheme \<Rightarrow> string option \<Rightarrow> uint32 \<Rightarrow> int \<Rightarrow> sock_style \<Rightarrow> 'os \<Rightarrow> int \<times> 'os" where
  "net_create_listen_sock P pszAddr uiPort iBacklog tStyle os =
     (case (case tStyle of
              sock_style_tcp \<Rightarrow> net_tcp_sock P os
            | sock_style_udp \<Rightarrow> net_udp_sock P os
            | sock_style_null \<Rightarrow> (-1, os)) of
        (fd, os) \<Rightarrow>
          if fd < 0 then (-1, os)
          else let (_, os) = net_set_nonblocking P fd os;
                   os = net_set_buffsize P fd 174760 174760 os;
                   (iRet, os) = net_bind P fd pszAddr uiPort os
               in if iRet \<noteq> 0 then (-1, os)
                  else (case net_listen P fd iBacklog os of (iRet, os) \<Rightarrow> if iRet \<noteq> 0 then (-1, os) else (fd, os)))"

subsection \<open>System limits: common\_sys.hpp\<close>

definition SetRLimitForNofile :: "('os, 'x) netcalls_scheme \<Rightarrow> int \<Rightarrow> 'os \<Rightarrow> int \<times> 'os" where
  "SetRLimitForNofile P nfds os =
     (if nfds \<le> 0 then (-1, os)
      else (case nc_setrlimit P (nfds + 100) os of
              (False, os) \<Rightarrow> (-1, os)
            | (True, os) \<Rightarrow> nc_getrlimit P os))"

definition mSleep :: "('os, 'x) netcalls_scheme \<Rightarrow> nat \<Rightarrow> 'os \<Rightarrow> 'os" where
  "mSleep P lMs os = snd (nc_select P None False False (Some (int (lMs div 1000), int (lMs mod 1000) * 1000)) os)"

subsection \<open>Behaviour of the wrappers\<close>

fun interrupted :: "nat \<Rightarrow> ('os \<Rightarrow> (errno + 'r) \<times> 'os) \<Rightarrow> 'os \<Rightarrow> (errno + 'r) \<times> 'os" where
  "interrupted 0 call os = call os"
| "interrupted (Suc k) call os = interrupted k call (snd (call os))"

text \<open>A call that is interrupted finitely often returns what its first uninterrupted execution returns.\<close>

lemma retry_returns:
  assumes "\<forall>i<k. fst (interrupted i call os) = Inl EINTR" and "interrupted k call os = (r, os')" and "r \<noteq> Inl EINTR"
  shows "retry call os = Some (r, os')"
  using assms
proof (induction k arbitrary: os)
  case 0
  then show ?case by (subst retry.simps) (auto split: sum.splits errno.splits)
next
  case (Suc k)
  obtain s where s: "call os = (Inl EINTR, s)" using Suc.prems(1) [rule_format, of 0] by (cases "call os") auto
  have "\<forall>i<k. fst (interrupted i call s) = Inl EINTR" using Suc.prems(1) s by (metis Suc_less_eq interrupted.simps(2) snd_conv)
  moreover have "interrupted k call s = (r, os')" using Suc.prems(2) s by simp
  ultimately have "retry call s = Some (r, os')" using Suc.prems(3) by (rule Suc.IH)
  then show ?case by (subst retry.simps) (simp add: s)
qed

lemma retry_result:
  assumes "retry call os = Some (r, os')"
  shows "r \<noteq> Inl EINTR \<and> (\<exists>t. call t = (r, os'))"
proof -
  have "fst y \<noteq> Inl EINTR \<and> (\<exists>t. call t = y)" if "retry call os = Some y" for y
    using that
  proof (rule retry.raw_induct [where P = "\<lambda>call os y. fst y \<noteq> Inl EINTR \<and> (\<exists>t. call t = y)", rotated])
    fix f c s z
    assume ih: "\<And>c s z. f c s = Some z \<Longrightarrow> fst z \<noteq> Inl EINTR \<and> (\<exists>t. c t = z)"
      and b: "(case c s of (Inl EINTR, s) \<Rightarrow> f c s | (r, s) \<Rightarrow> Some (r, s)) = Some z"
    obtain r t where c: "c s = (r, t)" by fastforce
    show "fst z \<noteq> Inl EINTR \<and> (\<exists>t. c t = z)"
    proof (cases "r = Inl EINTR")
      case True
      then show ?thesis using b ih [of c t z] c by simp
    next
      case False
      then have "z = (r, t)" using b c by (auto split: sum.splits errno.splits)
      then show ?thesis using False c by auto
    qed
  qed
  from this [OF assms] show ?thesis by simp
qed

lemma send_call_len: "send_call P fd bs os = (Inr k, os') \<Longrightarrow> k \<le> length bs"
  by (cases "posix_send (posix.truncate P) fd bs os") (auto simp: send_call_def dest: posix_send_length split: send_result.splits)

lemma recv_call_len: "recv_call P fd n os = (Inr bs, os') \<Longrightarrow> length bs \<le> n"
  by (cases "posix_recv (posix.truncate P) fd n os") (auto simp: recv_call_def dest: posix_recv_length split: recv_result.splits)

lemma net_tcp_recv_len:
  assumes "net_tcp_recv P fd null n os = Some (r, bs, os')"
  shows "length bs \<le> n" and "0 < r \<Longrightarrow> r = int (length bs)"
proof -
  have "length bs \<le> n" if "retry (recv_call P fd n) os = Some (Inr bs, os')"
    using retry_result [OF that] by (auto dest: recv_call_len)
  then show "length bs \<le> n" using assms by (auto simp: net_tcp_recv_def split: if_splits option.splits sum.splits)
  show "0 < r \<Longrightarrow> r = int (length bs)"
    using assms by (auto simp: net_tcp_recv_def net_error_def split: if_splits option.splits sum.splits)
qed

lemma net_tcp_send_len: "net_tcp_send P fd bs os = Some (r, os') \<Longrightarrow> r \<le> int (length bs)"
proof -
  assume a: "net_tcp_send P fd bs os = Some (r, os')"
  have "k \<le> length bs" if "retry (send_call P fd bs) os = Some (Inr k, os')" for k
    using retry_result [OF that] by (auto dest: send_call_len)
  then show ?thesis using a by (auto simp: net_tcp_send_def net_error_def split: if_splits option.splits sum.splits)
qed

lemma net_udp_sendto_sends_nothing: "net_udp_sendto P fd bs addr os = Some (0, os)"
  by (simp add: net_udp_sendto_def)

lemma net_addr_roundtrip:
  assumes "\<And>a. nc_inet_ntoa P (nc_inet_addr P a) = a"
  shows "net_addr_ntoa P (net_addr_aton P a port) = (a, ucast (ucast port :: uint16))"
  by (simp add: net_addr_ntoa_def net_addr_aton_def assms)

end
