(* ===== verification/CenterEndpoint.thy ===== *)
theory CenterEndpoint
  imports Buffer NetUtil Base
begin

text \<open>
  \<^verbatim>\<open>src/centersvr/center_endpoint\<close> and \<^verbatim>\<open>tmp/endpoint\<close>: a connection of the earlier center and the pool of connections. The program still refers to the message size, the
  server types and the message layout of an earlier \<^verbatim>\<open>core/base.h\<close>, which are commented out or gone: they are the record \<open>center_env\<close>.

  An endpoint is a position in the pool. Server numbers and types are 32-bit words. A function of an endpoint returns \<open>None\<close> when a socket call is interrupted for
  ever or when the code would write through a null or dangling pointer.
\<close>

record center_env =
  env_MSG_SIZE :: nat
  env_MSG_BUF_LEN :: nat
  env_svr_none :: uint32
  env_svr_center :: uint32
  env_head :: "byte list \<Rightarrow> stCenterHead"

definition read_msg_complete :: int where "read_msg_complete = 2"
definition write_buffer_empty :: int where "write_buffer_empty = 1"
definition error_none :: int where "error_none = 0"
definition read_buffer_lacking :: int where "read_buffer_lacking = -1"
definition networking_error :: int where "networking_error = -3"
definition message_error :: int where "message_error = -4"

lemmas endpoint_ret_defs = read_msg_complete_def write_buffer_empty_def error_none_def read_buffer_lacking_def networking_error_def message_error_def

record CCenterEndpoint =
  ce_Sockfd :: int
  ce_NetAddr :: net_addr_t
  ce_Id :: uint32
  ce_Type :: uint32
  ce_Hnd :: nat
  ce_activeTime :: uint64
  ce_writeActive :: bool
  ce_RevTmp :: CBuffer
  ce_RevBuffer :: CBuffer
  ce_SendTmp :: CBuffer
  ce_SendBuffer :: CBuffer

definition sized_buffer :: "nat \<Rightarrow> nat \<Rightarrow> CBuffer" where
  "sized_buffer maxNum reallocNum = CBuffer_SetReallocSize (word_of_nat reallocNum) (CBuffer_SetMaxSize (word_of_nat maxNum) CBuffer_new)"

definition CCenterEndpoint_new :: "center_env \<Rightarrow> int \<Rightarrow> CCenterEndpoint" where
  "CCenterEndpoint_new E sock =
     (let n = env_MSG_BUF_LEN E
      in \<lparr>ce_Sockfd = sock, ce_NetAddr = \<lparr>na_addr = 0, na_port = 0\<rparr>, ce_Id = 0, ce_Type = env_svr_none E, ce_Hnd = 0, ce_activeTime = 0, ce_writeActive = False,
          ce_RevTmp = sized_buffer (n * 2) (n * 2), ce_RevBuffer = sized_buffer (n * 100) (n * 2),
          ce_SendTmp = sized_buffer (n * 2) (n * 2), ce_SendBuffer = sized_buffer (n * 100) (n * 2)\<rparr>)"

definition CCenterEndpoint_Init :: "nat \<Rightarrow> CCenterEndpoint \<Rightarrow> CCenterEndpoint" where
  "CCenterEndpoint_Init iHnd e = (if ce_Hnd e = 0 then e\<lparr>ce_Hnd := iHnd\<rparr> else e)"

text \<open>\<^verbatim>\<open>Reset\<close> closes the socket; neither the descriptor nor \<^verbatim>\<open>m_writeActive\<close> is cleared.\<close>

definition CCenterEndpoint_Reset :: "('os, 'x) netcalls_scheme \<Rightarrow> center_env \<Rightarrow> CCenterEndpoint \<Rightarrow> 'os \<Rightarrow> CCenterEndpoint \<times> 'os" where
  "CCenterEndpoint_Reset P E e os =
     (e\<lparr>ce_RevTmp := CBuffer_Reset (ce_RevTmp e), ce_RevBuffer := CBuffer_Reset (ce_RevBuffer e),
        ce_SendTmp := CBuffer_Reset (ce_SendTmp e), ce_SendBuffer := CBuffer_Reset (ce_SendBuffer e),
        ce_Id := 0, ce_Type := env_svr_none E, ce_activeTime := 0\<rparr>,
      if ce_Sockfd e > 0 then net_close P (ce_Sockfd e) os else os)"

definition bytes_at :: "CBuffer \<Rightarrow> nat \<Rightarrow> byte list" where
  "bytes_at b n = mem_read (cb_buffer b) (unat (cb_readPos b)) n"

text \<open>The message at the front of the receive buffer goes to the message buffer; what follows it is dropped with it.\<close>

definition take_message :: "center_env \<Rightarrow> CCenterEndpoint \<Rightarrow> (int \<times> CCenterEndpoint) option" where
  "take_message E e =
     (if CBuffer_CanRead 4 (ce_RevTmp e)
      then let len = un_le32 (bytes_at (ce_RevTmp e) 4)
           in if 4 + env_MSG_SIZE E > unat len \<or> unat len > env_MSG_BUF_LEN E
              then Some (message_error, e\<lparr>ce_RevTmp := CBuffer_Reset (ce_RevTmp e)\<rparr>)
              else if \<not> CBuffer_CanRead len (ce_RevTmp e) then Some (error_none, e)
              else (case CBuffer_CanWrite len (ce_RevBuffer e) of
                      (False, b) \<Rightarrow> Some (read_buffer_lacking, e\<lparr>ce_RevBuffer := b, ce_RevTmp := CBuffer_Reset (ce_RevTmp e)\<rparr>)
                    | (True, b) \<Rightarrow>
                        (case CBuffer_WriteBuf_reserve len b of
                           (Some (Some pos), b) \<Rightarrow>
                             Some (error_none, e\<lparr>ce_RevBuffer := b\<lparr>cb_buffer := mem_write (cb_buffer b) pos (bytes_at (ce_RevTmp e) (unat len))\<rparr>,
                                                 ce_RevTmp := CBuffer_Reset (ce_RevTmp e)\<rparr>)
                         | _ \<Rightarrow> None))
      else Some (error_none, e))"

definition CCenterEndpoint_onReadEv :: "('os, 'x) netcalls_scheme \<Rightarrow> center_env \<Rightarrow> CCenterEndpoint \<Rightarrow> 'os \<Rightarrow> (int \<times> CCenterEndpoint \<times> 'os) option" where
  "CCenterEndpoint_onReadEv P E e os =
     (case CBuffer_CanWrite (word_of_nat (env_MSG_BUF_LEN E)) (ce_RevTmp e) of
        (False, b) \<Rightarrow> Some (read_buffer_lacking, e\<lparr>ce_RevTmp := b\<rparr>, os)
      | (True, b) \<Rightarrow>
          (case net_tcp_recv P (ce_Sockfd e) (cb_curSzie b = 0) (env_MSG_BUF_LEN E) os of
             None \<Rightarrow> None
           | Some (iRec, bs, os) \<Rightarrow>
               let b = b\<lparr>cb_buffer := mem_write (cb_buffer b) (unat (cb_writePos b)) bs\<rparr>
               in if iRec \<le> 0 then Some (networking_error, e\<lparr>ce_RevTmp := b\<rparr>, os)
                  else (case CBuffer_WriteSlip (word_of_int iRec) b of
                          (False, b) \<Rightarrow> Some (read_buffer_lacking, e\<lparr>ce_RevTmp := b\<rparr>, os)
                        | (True, b) \<Rightarrow> map_option (\<lambda>(ret, e). (ret, e, os)) (take_message E (e\<lparr>ce_RevTmp := b\<rparr>)))))"

definition CCenterEndpoint_onWriteEv :: "('os, 'x) netcalls_scheme \<Rightarrow> CCenterEndpoint \<Rightarrow> 'os \<Rightarrow> (int \<times> CCenterEndpoint \<times> 'os) option" where
  "CCenterEndpoint_onWriteEv P e os =
     (let len = sint (CBuffer_ReadSize (ce_SendBuffer e))
      in if 0 < len
         then (case net_tcp_send P (ce_Sockfd e) (bytes_at (ce_SendBuffer e) (nat len)) os of
                 None \<Rightarrow> None
               | Some (iRec, os) \<Rightarrow>
                   if 0 \<ge> iRec then Some (networking_error, e, os)
                   else let iRec = (if iRec > len then len else iRec);
                            e = e\<lparr>ce_SendBuffer := snd (CBuffer_ReadSlip (word_of_int iRec) (ce_SendBuffer e))\<rparr>
                        in if 0 \<ge> sint (CBuffer_ReadSize (ce_SendBuffer e)) then Some (write_buffer_empty, e, os) else Some (error_none, e, os))
         else Some (error_none, e, os))"

text \<open>\<^verbatim>\<open>ReadMsg\<close>; its first result 0 is the value \<^verbatim>\<open>false\<close>.\<close>

definition CCenterEndpoint_ReadMsg :: "center_env \<Rightarrow> CCenterEndpoint \<Rightarrow> int \<times> byte list \<times> CCenterEndpoint" where
  "CCenterEndpoint_ReadMsg E e =
     (if \<not> CBuffer_CanRead 4 (ce_RevBuffer e) then (0, [], e)
      else let len = un_le32 (bytes_at (ce_RevBuffer e) 4)
           in if unat len < 4 \<or> unat len > env_MSG_BUF_LEN E then (message_error, [], e\<lparr>ce_RevBuffer := CBuffer_Reset (ce_RevBuffer e)\<rparr>)
              else if \<not> CBuffer_CanRead len (ce_RevBuffer e) then (message_error, [], e)
              else (case CBuffer_ReadBuf len (ce_RevBuffer e) of
                      (r, b) \<Rightarrow> (read_msg_complete, case r of None \<Rightarrow> [] | Some msg \<Rightarrow> msg, e\<lparr>ce_RevBuffer := b\<rparr>)))"

definition CCenterEndpoint_SendMsg :: "byte list \<Rightarrow> CCenterEndpoint \<Rightarrow> bool \<times> CCenterEndpoint" where
  "CCenterEndpoint_SendMsg pMsg e = (case CBuffer_WriteBuf pMsg (ce_SendBuffer e) of (ok, b) \<Rightarrow> (ok, e\<lparr>ce_SendBuffer := b\<rparr>))"

subsection \<open>The pool\<close>

record CCenterEndpointManager =
  em_MaxPoint :: nat
  em_EndpointPool :: "nat \<Rightarrow> CCenterEndpoint"
  em_vecFree :: "nat list"
  em_listActive :: "nat list"
  em_mapEndpointType :: "uint32 \<rightharpoonup> nat list"
  em_mapEndpointServerID :: "uint32 \<rightharpoonup> nat"

definition em_upd :: "nat \<Rightarrow> (CCenterEndpoint \<Rightarrow> CCenterEndpoint) \<Rightarrow> CCenterEndpointManager \<Rightarrow> CCenterEndpointManager" where
  "em_upd pos f m = m\<lparr>em_EndpointPool := (em_EndpointPool m)(pos := f (em_EndpointPool m pos))\<rparr>"

definition of_type :: "uint32 \<Rightarrow> CCenterEndpointManager \<Rightarrow> nat list" where
  "of_type t m = (case em_mapEndpointType m t of None \<Rightarrow> [] | Some v \<Rightarrow> v)"

definition CCenterEndpointManager_new :: "center_env \<Rightarrow> CCenterEndpointManager" where
  "CCenterEndpointManager_new E = \<lparr>em_MaxPoint = 0, em_EndpointPool = (\<lambda>_. CCenterEndpoint_new E 0), em_vecFree = [], em_listActive = [],
     em_mapEndpointType = Map.empty, em_mapEndpointServerID = Map.empty\<rparr>"

definition CCenterEndpointManager_Initialize :: "center_env \<Rightarrow> nat \<Rightarrow> CCenterEndpointManager \<Rightarrow> bool \<times> CCenterEndpointManager" where
  "CCenterEndpointManager_Initialize E maxnum m =
     (if maxnum = 0 then (False, m)
      else (True, m\<lparr>em_EndpointPool := (\<lambda>i. CCenterEndpoint_Init i (CCenterEndpoint_new E 0)), em_vecFree := em_vecFree m @ [0..<maxnum], em_MaxPoint := maxnum\<rparr>))"

text \<open>The static pointer of \<^verbatim>\<open>ReIndex\<close> is initialised once: every round looks at the first endpoint.\<close>

definition reindex_one :: "center_env \<Rightarrow> CCenterEndpointManager \<Rightarrow> CCenterEndpointManager" where
  "reindex_one E m =
     (let e = em_EndpointPool m 0;
          m = (if ce_Type e \<noteq> env_svr_none E then m\<lparr>em_mapEndpointType := (em_mapEndpointType m)(ce_Type e \<mapsto> of_type (ce_Type e) m @ [0])\<rparr> else m)
      in if ce_Id e \<noteq> 0 then m\<lparr>em_mapEndpointServerID := (em_mapEndpointServerID m)(ce_Id e \<mapsto> 0)\<rparr> else m)"

definition CCenterEndpointManager_ReIndex :: "center_env \<Rightarrow> CCenterEndpointManager \<Rightarrow> CCenterEndpointManager" where
  "CCenterEndpointManager_ReIndex E m = (if em_MaxPoint m = 0 then m else (reindex_one E ^^ em_MaxPoint m) m)"

definition CCenterEndpointManager_AllocNew :: "CCenterEndpointManager \<Rightarrow> nat option \<times> CCenterEndpointManager" where
  "CCenterEndpointManager_AllocNew m =
     (if em_vecFree m \<noteq> [] then (Some (last (em_vecFree m)), m\<lparr>em_vecFree := butlast (em_vecFree m)\<rparr>) else (None, m))"

definition CCenterEndpointManager_ActiveEndPoint :: "center_env \<Rightarrow> nat \<Rightarrow> uint32 \<Rightarrow> uint32 \<Rightarrow> CCenterEndpointManager \<Rightarrow> bool \<times> CCenterEndpointManager" where
  "CCenterEndpointManager_ActiveEndPoint E point svrId svrType m =
     (let pos = ce_Hnd (em_EndpointPool m point)
      in if pos \<ge> em_MaxPoint m then (False, m)
         else if env_svr_none E \<noteq> ce_Type (em_EndpointPool m point) \<or> pos \<noteq> point then (False, m)
         else let m = em_upd pos (\<lambda>e. e\<lparr>ce_Id := svrId, ce_Type := svrType\<rparr>) m
              in (True, m\<lparr>em_mapEndpointServerID := (em_mapEndpointServerID m)(svrId \<mapsto> pos),
                          em_mapEndpointType := (em_mapEndpointType m)(svrType \<mapsto> of_type svrType m @ [pos]),
                          em_listActive := em_listActive m @ [point]\<rparr>))"

text \<open>\<^verbatim>\<open>GetEndpointByPos\<close> accepts the position behind the last endpoint.\<close>

definition CCenterEndpointManager_GetEndpointByPos :: "nat \<Rightarrow> CCenterEndpointManager \<Rightarrow> nat option" where
  "CCenterEndpointManager_GetEndpointByPos pos m = (if pos > em_MaxPoint m then None else Some pos)"

definition CCenterEndpointManager_GetEndpointBySvrId :: "uint32 \<Rightarrow> CCenterEndpointManager \<Rightarrow> nat option" where
  "CCenterEndpointManager_GetEndpointBySvrId svrId m = em_mapEndpointServerID m svrId"

definition CCenterEndpointManager_GetEndpointBySvrType :: "uint32 \<Rightarrow> CCenterEndpointManager \<Rightarrow> nat list option" where
  "CCenterEndpointManager_GetEndpointBySvrType t m = em_mapEndpointType m t"

definition CCenterEndpointManager_ReleaseEndpoint :: "('os, 'x) netcalls_scheme \<Rightarrow> center_env \<Rightarrow> nat option \<Rightarrow> CCenterEndpointManager \<Rightarrow> 'os
    \<Rightarrow> CCenterEndpointManager \<times> 'os" where
  "CCenterEndpointManager_ReleaseEndpoint P E pEndpoint m os =
     (case pEndpoint of
        None \<Rightarrow> (m, os)
      | Some p \<Rightarrow>
          let e = em_EndpointPool m p;
              m = m\<lparr>em_mapEndpointServerID := (em_mapEndpointServerID m)(ce_Id e := None)\<rparr>;
              m = (case em_mapEndpointType m (ce_Type e) of
                     None \<Rightarrow> m
                   | Some v \<Rightarrow> m\<lparr>em_mapEndpointType := (em_mapEndpointType m)(ce_Type e \<mapsto> remove1 p v)\<rparr>);
              m = (if env_svr_none E \<noteq> ce_Type e then m\<lparr>em_listActive := removeAll p (em_listActive m)\<rparr> else m);
              (e, os) = CCenterEndpoint_Reset P E e os
          in (m\<lparr>em_EndpointPool := (em_EndpointPool m)(p := e), em_vecFree := em_vecFree m @ [p]\<rparr>, os))"

definition CCenterEndpointManager_ReleaseEndpointByPos :: "('os, 'x) netcalls_scheme \<Rightarrow> center_env \<Rightarrow> nat \<Rightarrow> CCenterEndpointManager \<Rightarrow> 'os
    \<Rightarrow> CCenterEndpointManager \<times> 'os" where
  "CCenterEndpointManager_ReleaseEndpointByPos P E pos m os =
     (if pos \<ge> em_MaxPoint m then (m, os) else CCenterEndpointManager_ReleaseEndpoint P E (Some pos) m os)"

definition CCenterEndpointManager_ReleaseEndpointBySvrId :: "('os, 'x) netcalls_scheme \<Rightarrow> center_env \<Rightarrow> uint32 \<Rightarrow> CCenterEndpointManager \<Rightarrow> 'os
    \<Rightarrow> CCenterEndpointManager \<times> 'os" where
  "CCenterEndpointManager_ReleaseEndpointBySvrId P E svrId m os =
     (case em_mapEndpointServerID m svrId of None \<Rightarrow> (m, os) | Some p \<Rightarrow> CCenterEndpointManager_ReleaseEndpoint P E (Some p) m os)"

subsection \<open>Consistency of the pool\<close>

text \<open>Every endpoint is free, active or handed out; an active one is listed under its type, and a server number leads to the endpoint that has it.\<close>

definition em_inv :: "center_env \<Rightarrow> CCenterEndpointManager \<Rightarrow> bool" where
  "em_inv E m \<longleftrightarrow> distinct (em_vecFree m) \<and> set (em_vecFree m) \<subseteq> {..<em_MaxPoint m}
     \<and> distinct (em_listActive m) \<and> set (em_listActive m) \<subseteq> {..<em_MaxPoint m} - set (em_vecFree m)
     \<and> (\<forall>p<em_MaxPoint m. ce_Hnd (em_EndpointPool m p) = p)
     \<and> (\<forall>p<em_MaxPoint m. p \<in> set (em_listActive m) \<longleftrightarrow> ce_Type (em_EndpointPool m p) \<noteq> env_svr_none E)
     \<and> (\<forall>t. of_type t m = filter (\<lambda>p. ce_Type (em_EndpointPool m p) = t) (em_listActive m))
     \<and> (\<forall>i p. em_mapEndpointServerID m i = Some p \<longrightarrow> p \<in> set (em_listActive m) \<and> ce_Id (em_EndpointPool m p) = i)"

lemma Initialize_inv:
  assumes "CCenterEndpointManager_Initialize E n (CCenterEndpointManager_new E) = (True, m)"
  shows "em_inv E m"
  using assms
  by (auto simp: CCenterEndpointManager_Initialize_def CCenterEndpointManager_new_def em_inv_def of_type_def CCenterEndpoint_Init_def CCenterEndpoint_new_def Let_def
      split: if_splits)

lemma AllocNew_inv:
  assumes "em_inv E m" and "CCenterEndpointManager_AllocNew m = (r, m')"
  shows "em_inv E m'" and "r = Some p \<Longrightarrow> p < em_MaxPoint m' \<and> p \<notin> set (em_vecFree m') \<and> p \<notin> set (em_listActive m')"
    and "r = None \<longleftrightarrow> em_vecFree m = []"
proof -
  have "em_inv E m' \<and> (r = Some p \<longrightarrow> p < em_MaxPoint m' \<and> p \<notin> set (em_vecFree m') \<and> p \<notin> set (em_listActive m'))"
  proof (cases "em_vecFree m" rule: rev_cases)
    case Nil
    then show ?thesis using assms by (auto simp: CCenterEndpointManager_AllocNew_def)
  next
    case (snoc xs x)
    then have "r = Some x" "m' = m\<lparr>em_vecFree := xs\<rparr>" using assms(2) by (auto simp: CCenterEndpointManager_AllocNew_def)
    then show ?thesis using assms(1) snoc by (auto simp: em_inv_def of_type_def)
  qed
  then show "em_inv E m'" "r = Some p \<Longrightarrow> p < em_MaxPoint m' \<and> p \<notin> set (em_vecFree m') \<and> p \<notin> set (em_listActive m')" by auto
  show "r = None \<longleftrightarrow> em_vecFree m = []" using assms(2) by (auto simp: CCenterEndpointManager_AllocNew_def split: if_splits)
qed

lemma filter_upd_other:
  assumes "p \<notin> set xs"
  shows "filter (\<lambda>q. f ((g(p := e)) q) = t) xs = filter (\<lambda>q. f (g q) = t) xs"
  using assms by (intro filter_cong) auto

lemma ActiveEndPoint_inv:
  assumes "em_inv E m" and "p < em_MaxPoint m" and "p \<notin> set (em_vecFree m)" and "t \<noteq> env_svr_none E"
    and "CCenterEndpointManager_ActiveEndPoint E p i t m = (ok, m')"
  shows "em_inv E m'" and "ok \<longleftrightarrow> p \<notin> set (em_listActive m)" and "ok \<Longrightarrow> em_mapEndpointServerID m' i = Some p"
proof -
  have h: "ce_Hnd (em_EndpointPool m p) = p" using assms(1,2) by (simp add: em_inv_def)
  have a: "ce_Type (em_EndpointPool m p) \<noteq> env_svr_none E \<longleftrightarrow> p \<in> set (em_listActive m)" using assms(1,2) by (simp add: em_inv_def)
  show "ok \<longleftrightarrow> p \<notin> set (em_listActive m)"
    using assms(2,5) h a by (auto simp: CCenterEndpointManager_ActiveEndPoint_def Let_def split: if_splits)
  show "ok \<Longrightarrow> em_mapEndpointServerID m' i = Some p"
    using assms(5) h by (auto simp: CCenterEndpointManager_ActiveEndPoint_def Let_def split: if_splits)
  show "em_inv E m'"
  proof (cases "p \<in> set (em_listActive m)")
    case True
    then have "m' = m" using assms(5) a by (auto simp: CCenterEndpointManager_ActiveEndPoint_def Let_def split: if_splits)
    then show ?thesis using assms(1) by simp
  next
    case False
    let ?e = "(em_EndpointPool m p)\<lparr>ce_Id := i, ce_Type := t\<rparr>"
    have m': "m' = m\<lparr>em_EndpointPool := (em_EndpointPool m)(p := ?e), em_mapEndpointServerID := (em_mapEndpointServerID m)(i \<mapsto> p),
        em_mapEndpointType := (em_mapEndpointType m)(t \<mapsto> of_type t m @ [p]), em_listActive := em_listActive m @ [p]\<rparr>"
      using assms(2,5) h a False
      by (auto simp: CCenterEndpointManager_ActiveEndPoint_def Let_def em_upd_def of_type_def split: if_splits)
    have "of_type u m' = filter (\<lambda>q. ce_Type (em_EndpointPool m' q) = u) (em_listActive m')" for u
      using assms(1) filter_upd_other [OF False, of ce_Type "em_EndpointPool m" ?e u]
      by (simp add: m' em_inv_def of_type_def del: fun_upd_apply) (simp add: of_type_def)
    then show ?thesis using assms(1,2,3,4) False unfolding m' em_inv_def by auto
  qed
qed

lemma ReleaseEndpoint_fields:
  assumes "CCenterEndpointManager_ReleaseEndpoint P E (Some p) m os = (m', os')"
  defines "e \<equiv> em_EndpointPool m p"
  shows "em_vecFree m' = em_vecFree m @ [p]" and "em_MaxPoint m' = em_MaxPoint m"
    and "em_EndpointPool m' = (em_EndpointPool m)(p := fst (CCenterEndpoint_Reset P E e os))"
    and "em_listActive m' = (if ce_Type e \<noteq> env_svr_none E then removeAll p (em_listActive m) else em_listActive m)"
    and "em_mapEndpointServerID m' = (em_mapEndpointServerID m)(ce_Id e := None)"
    and "of_type t m' = (if t = ce_Type e then remove1 p (of_type t m) else of_type t m)"
proof -
  obtain e' os1 where r: "CCenterEndpoint_Reset P E e os = (e', os1)" by fastforce
  have m': "m' = m\<lparr>em_mapEndpointServerID := (em_mapEndpointServerID m)(ce_Id e := None),
      em_mapEndpointType := (case em_mapEndpointType m (ce_Type e) of None \<Rightarrow> em_mapEndpointType m | Some v \<Rightarrow> (em_mapEndpointType m)(ce_Type e \<mapsto> remove1 p v)),
      em_listActive := (if ce_Type e \<noteq> env_svr_none E then removeAll p (em_listActive m) else em_listActive m),
      em_EndpointPool := (em_EndpointPool m)(p := e'), em_vecFree := em_vecFree m @ [p]\<rparr>"
    using assms(1) r unfolding e_def CCenterEndpointManager_ReleaseEndpoint_def by (auto simp: Let_def split: option.splits if_splits)
  show "em_vecFree m' = em_vecFree m @ [p]" "em_MaxPoint m' = em_MaxPoint m"
    "em_EndpointPool m' = (em_EndpointPool m)(p := fst (CCenterEndpoint_Reset P E e os))"
    "em_listActive m' = (if ce_Type e \<noteq> env_svr_none E then removeAll p (em_listActive m) else em_listActive m)"
    "em_mapEndpointServerID m' = (em_mapEndpointServerID m)(ce_Id e := None)"
    "of_type t m' = (if t = ce_Type e then remove1 p (of_type t m) else of_type t m)"
    by (simp_all add: m' r of_type_def split: option.split)
qed

lemma Reset_fields:
  "ce_Type (fst (CCenterEndpoint_Reset P E e os)) = env_svr_none E" "ce_Hnd (fst (CCenterEndpoint_Reset P E e os)) = ce_Hnd e"
  "ce_writeActive (fst (CCenterEndpoint_Reset P E e os)) = ce_writeActive e"
  by (simp_all add: CCenterEndpoint_Reset_def)

lemma ReleaseEndpoint_inv:
  assumes "em_inv E m" and "p < em_MaxPoint m" and "p \<notin> set (em_vecFree m)"
    and "CCenterEndpointManager_ReleaseEndpoint P E (Some p) m os = (m', os')"
  shows "em_inv E m'" and "p \<notin> set (em_listActive m')"
proof -
  let ?e = "em_EndpointPool m p"
  note f = ReleaseEndpoint_fields [OF assms(4)]
  note i = assms(1) [unfolded em_inv_def]
  have a: "p \<in> set (em_listActive m) \<longleftrightarrow> ce_Type ?e \<noteq> env_svr_none E" using assms(1,2) by (simp add: em_inv_def)
  have act: "em_listActive m' = removeAll p (em_listActive m)" using f(4) a by auto
  show "p \<notin> set (em_listActive m')" by (simp add: act)
  have ty: "of_type t m' = filter (\<lambda>q. ce_Type (em_EndpointPool m' q) = t) (em_listActive m')" for t
  proof -
    have o: "of_type t m = filter (\<lambda>q. ce_Type (em_EndpointPool m q) = t) (em_listActive m)" using i by blast
    have "filter (\<lambda>q. ce_Type (em_EndpointPool m' q) = t) (em_listActive m') = filter (\<lambda>q. ce_Type (em_EndpointPool m q) = t) (removeAll p (em_listActive m))"
      unfolding act f(3) by (rule filter_upd_other) simp
    also have "\<dots> = removeAll p (of_type t m)" by (simp add: o removeAll_filter_not_eq conj_commute)
    also have "\<dots> = (if t = ce_Type ?e then remove1 p (of_type t m) else of_type t m)"
    proof (cases "t = ce_Type ?e")
      case True
      have "distinct (of_type t m)" using i by (simp add: o)
      then show ?thesis using True by (simp add: distinct_remove1_removeAll)
    next
      case False
      then have "p \<notin> set (of_type t m)" by (simp add: o)
      then show ?thesis using False by (simp add: removeAll_id)
    qed
    finally show ?thesis using f(6) by simp
  qed
  have id: "em_mapEndpointServerID m' j = Some q \<Longrightarrow> q \<in> set (em_listActive m') \<and> ce_Id (em_EndpointPool m' q) = j" for j q
    using i by (auto simp: f(3,5) act split: if_splits)
  have "distinct (em_vecFree m')" "set (em_vecFree m') \<subseteq> {..<em_MaxPoint m'}" using i assms(2,3) by (simp_all add: f(1,2))
  moreover have "distinct (em_listActive m')" using i by (simp add: act distinct_removeAll)
  moreover have "set (em_listActive m') \<subseteq> {..<em_MaxPoint m'} - set (em_vecFree m')" using i by (auto simp: act f(1,2))
  moreover have "\<forall>q<em_MaxPoint m'. ce_Hnd (em_EndpointPool m' q) = q" using i by (simp add: f(2,3) Reset_fields)
  moreover have "\<forall>q<em_MaxPoint m'. q \<in> set (em_listActive m') \<longleftrightarrow> ce_Type (em_EndpointPool m' q) \<noteq> env_svr_none E"
    using i by (simp add: f(2,3) act Reset_fields)
  ultimately show "em_inv E m'" using ty id unfolding em_inv_def by simp
qed

subsection \<open>Properties\<close>


definition demo_env :: center_env where
  "demo_env = \<lparr>env_MSG_SIZE = 44, env_MSG_BUF_LEN = 48, env_svr_none = 0, env_svr_center = 1, env_head = (\<lambda>bs. dec_center_head (drop 4 bs))\<rparr>"


end
