(* ===== verification/CenterInput.thy ===== *)
theory CenterInput
  imports CenterEndpoint
begin

text \<open>
  Receiving in the earlier center: a message that arrives in one piece comes out of \<^verbatim>\<open>onReadEv\<close> and \<^verbatim>\<open>ReadMsg\<close> as it was sent and leaves the connection ready for the next one;
  of a message that arrives in two pieces nothing comes out.
\<close>

text \<open>An empty receive buffer with room for two messages: \<open>n\<close> is the maximal length of a message and \<open>m\<close> the bound of the storage.\<close>

definition rx_empty :: "nat \<Rightarrow> nat \<Rightarrow> CBuffer \<Rightarrow> bool" where
  "rx_empty n m b \<longleftrightarrow> cb_readPos b = cb_writePos b \<and> cb_writePos b \<le> cb_curSzie b \<and> (cb_curSzie b = 0 \<or> unat (cb_curSzie b) = 2 * n)
     \<and> unat (cb_realcSize b) = 2 * n \<and> unat (cb_maxSize b) = m"

definition rx_sizes :: "nat \<Rightarrow> nat \<Rightarrow> bool" where
  "rx_sizes n m \<longleftrightarrow> 2 \<le> n \<and> 2 * n \<le> m \<and> m + 2 * n < 2 ^ 31"

lemma CanWrite_room:
  assumes "unat (cb_curSzie b) = 2 * n" and "2 * n < 2 ^ 31" and "unat (cb_writePos b) + k + 1 < 2 * n"
  shows "CBuffer_CanWrite (word_of_nat k) b = (True, b)"
proof -
  have k: "unat (word_of_nat k :: uint32) = k" using assms(2,3) by (simp add: unat_of_nat)
  have w: "unat (cb_writePos b + word_of_nat k) = unat (cb_writePos b) + k" using assms(2,3) k by (subst unat_add_noov) auto
  have "\<not> cb_curSzie b \<le> 1" using assms(1,3) by (simp add: word_le_nat_alt)
  moreover from this have "unat (cb_curSzie b - 1) = 2 * n - 1" using assms(1) by (simp add: unat_sub word_le_nat_alt not_le)
  then have "\<not> cb_writePos b + word_of_nat k \<ge> cb_curSzie b - 1" using assms(3) w by (simp add: word_le_nat_alt)
  ultimately show ?thesis by (simp add: CBuffer_CanWrite_def)
qed

lemma CanWrite_empty:
  assumes "rx_sizes n m" and "rx_empty n m b" and "0 < k" and "k \<le> n"
  shows "\<exists>b'. CBuffer_CanWrite (word_of_nat k) b = (True, b') \<and> rx_empty n m b' \<and> unat (cb_curSzie b') = 2 * n \<and> unat (cb_writePos b') + k + 1 < 2 * n"
proof -
  note sz = assms(1) [unfolded rx_sizes_def]
  note e = assms(2) [unfolded rx_empty_def]
  have k: "unat (word_of_nat k :: uint32) = k" using assms(4) sz by (simp add: unat_of_nat)
  then have k0: "(word_of_nat k :: uint32) > 0" using assms(3) by (simp add: word_less_nat_alt)
  consider (fresh) "cb_curSzie b = 0" | (room) "unat (cb_curSzie b) = 2 * n" "unat (cb_writePos b) + k + 1 < 2 * n"
    | (full) "unat (cb_curSzie b) = 2 * n" "2 * n \<le> unat (cb_writePos b) + k + 1"
    using e by linarith
  then show ?thesis
  proof cases
    case fresh
    then have z: "cb_writePos b = 0" "cb_readPos b = 0" using e by auto
    have "cb_realcSize b > word_of_nat k" using e k assms(4) sz by (simp add: word_less_nat_alt)
    moreover have "\<not> word_of_nat k > cb_maxSize b" using e k assms(4) sz by (simp add: word_less_nat_alt)
    ultimately have "CBuffer_CanWrite (word_of_nat k) b = (True, b\<lparr>cb_curSzie := cb_realcSize b\<rparr>)"
      using fresh z k0 by (simp add: CBuffer_CanWrite_def CBuffer_ReallocBuffer_def move_front_def)
    then show ?thesis using e z sz assms(4) by (auto simp: rx_empty_def)
  next
    case room
    then show ?thesis using CanWrite_room [OF room(1) _ room(2)] assms(2) sz by auto
  next
    case full
    have one: "\<not> cb_curSzie b \<le> 1" using full(1) sz by (simp add: word_le_nat_alt)
    then have m1: "unat (cb_curSzie b - 1) = 2 * n - 1" using full(1) by (simp add: unat_sub word_le_nat_alt not_le)
    have w: "unat (cb_writePos b) \<le> 2 * n" using e full(1) by (simp add: word_le_nat_alt)
    have "unat (cb_writePos b + word_of_nat k) = unat (cb_writePos b) + k" using w k assms(4) sz by (subst unat_add_noov) auto
    then have r: "CBuffer_CanWrite (word_of_nat k) b = CBuffer_ReallocBuffer (word_of_nat k) b"
      using full(2) m1 by (auto simp: CBuffer_CanWrite_def word_le_nat_alt)
    have p: "0 < cb_readPos b" using full(2) assms(4) sz e by (simp add: word_less_nat_alt)
    have "\<not> (word_of_nat k :: uint32) > cb_curSzie b - 1" using m1 k assms(4) sz by (simp add: word_less_nat_alt)
    then have "move_front (word_of_nat k) b = (0, b\<lparr>cb_writePos := 0, cb_readPos := 0\<rparr>)"
      using p e by (simp add: move_front_def Let_def)
    then have "CBuffer_ReallocBuffer (word_of_nat k) b = (True, b\<lparr>cb_writePos := 0, cb_readPos := 0\<rparr>)"
      by (simp add: CBuffer_ReallocBuffer_def)
    then show ?thesis using r e full(1) sz assms(4) by (auto simp: rx_empty_def)
  qed
qed

text \<open>Bytes that are stored at the write position of an empty buffer can be read back.\<close>

lemma rx_store:
  assumes "rx_sizes n m" and "rx_empty n m b" and "unat (cb_curSzie b) = 2 * n" and "unat (cb_writePos b) + length bs + 1 < 2 * n"
  defines "c \<equiv> b\<lparr>cb_buffer := mem_write (cb_buffer b) (unat (cb_writePos b)) bs, cb_writePos := cb_writePos b + word_of_nat (length bs)\<rparr>"
  shows "cb_wf c" and "cb_content c = bs" and "k \<le> length bs \<Longrightarrow> CBuffer_CanRead (word_of_nat k) c" and "length bs < k \<Longrightarrow> k \<le> 2 * n \<Longrightarrow> \<not> CBuffer_CanRead (word_of_nat k) c"
    and "k \<le> length bs \<Longrightarrow> bytes_at c k = take k bs"
proof -
  note sz = assms(1) [unfolded rx_sizes_def]
  note e = assms(2) [unfolded rx_empty_def]
  have k: "unat (word_of_nat k :: uint32) = k" if "k \<le> 2 * n" for k using that sz by (simp add: unat_of_nat)
  have w: "unat (cb_writePos b + word_of_nat k) = unat (cb_writePos b) + k" if "k \<le> 2 * n" for k
    using that k [OF that] assms(4) sz by (subst unat_add_noov) auto
  have l: "length bs \<le> 2 * n" using assms(4) by simp
  have le: "\<not> cb_writePos b + word_of_nat k > cb_writePos b + word_of_nat (length bs) \<longleftrightarrow> k \<le> length bs" if "k \<le> 2 * n" for k
    using w [OF that] w [OF l] by (auto simp: word_less_nat_alt)
  show "cb_wf c" using e w [OF l] assms(3,4) sz by (auto simp: cb_wf_def c_def word_le_nat_alt)
  show "cb_content c = bs" using e w [OF l] by (simp add: cb_content_def c_def)
  show "CBuffer_CanRead (word_of_nat k) c" if "k \<le> length bs" using that l le e by (simp add: CBuffer_CanRead_def c_def)
  show "\<not> CBuffer_CanRead (word_of_nat k) c" if "length bs < k" "k \<le> 2 * n" using that le e by (simp add: CBuffer_CanRead_def c_def)
  show "bytes_at c k = take k bs" if "k \<le> length bs"
  proof -
    have "mem_read (mem_write (cb_buffer b) (unat (cb_writePos b)) bs) (unat (cb_writePos b)) (length bs) = bs" by simp
    then have "take k (mem_read (mem_write (cb_buffer b) (unat (cb_writePos b)) bs) (unat (cb_writePos b)) (length bs)) = take k bs" by simp
    then show ?thesis using that e by (simp add: bytes_at_def c_def mem_read_def take_map min_def)
  qed
qed

text \<open>What the connection of an endpoint needs to receive the next message.\<close>

definition rx_ready :: "center_env \<Rightarrow> CCenterEndpoint \<Rightarrow> bool" where
  "rx_ready E e \<longleftrightarrow> 2 \<le> env_MSG_BUF_LEN E \<and> 102 * env_MSG_BUF_LEN E < 2 ^ 31
     \<and> rx_empty (env_MSG_BUF_LEN E) (2 * env_MSG_BUF_LEN E) (ce_RevTmp e) \<and> rx_empty (env_MSG_BUF_LEN E) (100 * env_MSG_BUF_LEN E) (ce_RevBuffer e)"

lemma rx_ready_new:
  assumes "2 \<le> env_MSG_BUF_LEN E" and "102 * env_MSG_BUF_LEN E < 2 ^ 31"
  shows "rx_ready E (CCenterEndpoint_new E fd)"
proof -
  have u: "unat (word_of_nat k :: uint32) = k" if "k < 2 ^ 31" for k using that by (simp add: unat_of_nat)
  show ?thesis using assms u [of "env_MSG_BUF_LEN E * 2"] u [of "env_MSG_BUF_LEN E * 100"]
    by (simp add: rx_ready_def rx_empty_def CCenterEndpoint_new_def sized_buffer_def CBuffer_SetReallocSize_def CBuffer_SetMaxSize_def CBuffer_new_def Let_def)
qed

lemma rx_empty_Reset: "cb_curSzie b = 0 \<or> unat (cb_curSzie b) = 2 * n \<Longrightarrow> unat (cb_realcSize b) = 2 * n \<Longrightarrow> unat (cb_maxSize b) = m \<Longrightarrow> rx_empty n m (CBuffer_Reset b)"
  by (simp add: rx_empty_def CBuffer_Reset_def)

lemma WriteSlip_room:
  assumes "unat (cb_curSzie b) = 2 * n" and "2 * n < 2 ^ 31" and "unat (cb_writePos b) + k + 1 < 2 * n"
  shows "CBuffer_WriteSlip (word_of_nat k) b = (True, b\<lparr>cb_writePos := cb_writePos b + word_of_nat k\<rparr>)"
  using CanWrite_room [OF assms] by (simp add: CBuffer_WriteSlip_def)

text \<open>The received bytes are in the first receive buffer before the message is looked for.\<close>

lemma onReadEv_stores:
  assumes "rx_ready E e" and "net_tcp_recv P (ce_Sockfd e) False (env_MSG_BUF_LEN E) os = Some (int (length bs), bs, os')" and "bs \<noteq> []"
  obtains b where "rx_empty (env_MSG_BUF_LEN E) (2 * env_MSG_BUF_LEN E) b" and "unat (cb_curSzie b) = 2 * env_MSG_BUF_LEN E" and "unat (cb_writePos b) + length bs + 1 < 2 * env_MSG_BUF_LEN E"
    and "CCenterEndpoint_onReadEv P E e os = map_option (\<lambda>(ret, e). (ret, e, os')) (take_message E (e\<lparr>ce_RevTmp :=
           b\<lparr>cb_buffer := mem_write (cb_buffer b) (unat (cb_writePos b)) bs, cb_writePos := cb_writePos b + word_of_nat (length bs)\<rparr>\<rparr>))"
proof -
  let ?n = "env_MSG_BUF_LEN E"
  have r: "2 \<le> ?n" "102 * ?n < 2 ^ 31" "rx_empty ?n (2 * ?n) (ce_RevTmp e)" using assms(1) by (simp_all add: rx_ready_def)
  have sz: "rx_sizes ?n (2 * ?n)" using r(1,2) by (simp add: rx_sizes_def)
  obtain b where b: "CBuffer_CanWrite (word_of_nat ?n) (ce_RevTmp e) = (True, b)" "rx_empty ?n (2 * ?n) b" "unat (cb_curSzie b) = 2 * ?n" "unat (cb_writePos b) + ?n + 1 < 2 * ?n"
    using CanWrite_empty [OF sz r(3), of ?n] r(1) by auto
  have l: "length bs \<le> ?n" "0 < length bs" using net_tcp_recv_len(1) [OF assms(2)] assms(3) by auto
  then have w: "unat (cb_writePos b) + length bs + 1 < 2 * ?n" using b(4) by simp
  let ?b = "b\<lparr>cb_buffer := mem_write (cb_buffer b) (unat (cb_writePos b)) bs\<rparr>"
  have s: "CBuffer_WriteSlip (word_of_nat (length bs)) ?b = (True, ?b\<lparr>cb_writePos := cb_writePos b + word_of_nat (length bs)\<rparr>)"
    using WriteSlip_room [of ?b ?n "length bs"] b(3) w r(2) by simp
  have "cb_curSzie b \<noteq> 0" using b(3) r(1) by auto
  then have "CCenterEndpoint_onReadEv P E e os = map_option (\<lambda>(ret, e). (ret, e, os')) (take_message E (e\<lparr>ce_RevTmp :=
      b\<lparr>cb_buffer := mem_write (cb_buffer b) (unat (cb_writePos b)) bs, cb_writePos := cb_writePos b + word_of_nat (length bs)\<rparr>\<rparr>))"
    using b(1) assms(2) l(2) s by (simp add: CCenterEndpoint_onReadEv_def Let_def)
  then show ?thesis by (rule that [OF b(2,3) w])
qed

text \<open>A message as a sender writes it, with its length in the first four bytes.\<close>

definition whole_message :: "center_env \<Rightarrow> byte list \<Rightarrow> bool" where
  "whole_message E bs \<longleftrightarrow> 4 \<le> length bs \<and> unat (un_le32 (take 4 bs)) = length bs \<and> 4 + env_MSG_SIZE E \<le> length bs \<and> length bs \<le> env_MSG_BUF_LEN E"

lemma receive_message:
  assumes "rx_ready E e" and "net_tcp_recv P (ce_Sockfd e) False (env_MSG_BUF_LEN E) os = Some (int (length bs), bs, os')" and "whole_message E bs"
  shows "\<exists>t b1 b2. CCenterEndpoint_onReadEv P E e os = Some (error_none, e\<lparr>ce_RevTmp := t, ce_RevBuffer := b1\<rparr>, os')
    \<and> CCenterEndpoint_ReadMsg E (e\<lparr>ce_RevTmp := t, ce_RevBuffer := b1\<rparr>) = (read_msg_complete, bs, e\<lparr>ce_RevTmp := t, ce_RevBuffer := b2\<rparr>)
    \<and> rx_ready E (e\<lparr>ce_RevTmp := t, ce_RevBuffer := b2\<rparr>)"
proof -
  let ?n = "env_MSG_BUF_LEN E" and ?len = "un_le32 (take 4 bs)"
  have r: "2 \<le> ?n" "102 * ?n < 2 ^ 31" "rx_empty ?n (100 * ?n) (ce_RevBuffer e)" using assms(1) by (simp_all add: rx_ready_def)
  note m = assms(3) [unfolded whole_message_def]
  have sz: "rx_sizes ?n (2 * ?n)" "rx_sizes ?n (100 * ?n)" using r(1,2) by (simp_all add: rx_sizes_def)
  have "word_of_nat (unat ?len) = ?len" by simp
  then have wl: "word_of_nat (length bs) = ?len" using m by metis
  have ne: "bs \<noteq> []" using m by auto
  obtain b where b: "rx_empty ?n (2 * ?n) b" "unat (cb_curSzie b) = 2 * ?n" "unat (cb_writePos b) + length bs + 1 < 2 * ?n"
    "CCenterEndpoint_onReadEv P E e os = map_option (\<lambda>(ret, e). (ret, e, os')) (take_message E (e\<lparr>ce_RevTmp :=
       b\<lparr>cb_buffer := mem_write (cb_buffer b) (unat (cb_writePos b)) bs, cb_writePos := cb_writePos b + word_of_nat (length bs)\<rparr>\<rparr>))"
    by (rule onReadEv_stores [OF assms(1,2) ne])
  define c where "c = b\<lparr>cb_buffer := mem_write (cb_buffer b) (unat (cb_writePos b)) bs, cb_writePos := cb_writePos b + word_of_nat (length bs)\<rparr>"
  note C = rx_store [OF sz(1) b(1-3), folded c_def]
  obtain d where d: "CBuffer_CanWrite (word_of_nat (length bs)) (ce_RevBuffer e) = (True, d)" "rx_empty ?n (100 * ?n) d" "unat (cb_curSzie d) = 2 * ?n" "unat (cb_writePos d) + length bs + 1 < 2 * ?n"
    using CanWrite_empty [OF sz(2) r(3), of "length bs"] m ne by auto
  let ?t = "CBuffer_Reset c"
  define b1 where "b1 = d\<lparr>cb_buffer := mem_write (cb_buffer d) (unat (cb_writePos d)) bs, cb_writePos := cb_writePos d + word_of_nat (length bs)\<rparr>"
  note D = rx_store [OF sz(2) d(2-4), folded b1_def]
  have res: "CBuffer_WriteBuf_reserve ?len d = (Some (Some (unat (cb_writePos d))), d\<lparr>cb_writePos := cb_writePos d + word_of_nat (length bs)\<rparr>)"
    using WriteSlip_room [OF d(3) _ d(4)] r(2) by (simp add: CBuffer_WriteBuf_reserve_def wl)
  have four: "CBuffer_CanRead 4 c" "CBuffer_CanRead 4 b1" "bytes_at c 4 = take 4 bs" "bytes_at b1 4 = take 4 bs"
    using C(3,5) [of 4] D(3,5) [of 4] m by simp_all
  have all: "CBuffer_CanRead ?len c" "CBuffer_CanRead ?len b1" "bytes_at c (length bs) = bs" using C(3,5) [of "length bs"] D(3) [of "length bs"] by (simp_all add: wl)
  have "take_message E (e\<lparr>ce_RevTmp := c\<rparr>) = Some (error_none, e\<lparr>ce_RevTmp := ?t, ce_RevBuffer := b1\<rparr>)"
    using four all d(1) res m by (simp add: take_message_def wl b1_def Let_def)
  then have o: "CCenterEndpoint_onReadEv P E e os = Some (error_none, e\<lparr>ce_RevTmp := ?t, ce_RevBuffer := b1\<rparr>, os')" using b(4) by (simp add: c_def)
  let ?b2 = "b1\<lparr>cb_readPos := cb_readPos b1 + ?len\<rparr>"
  have "CBuffer_ReadBuf ?len b1 = (Some bs, ?b2)"
  proof -
    have "length bs < 2 ^ 31" using m r(2) by simp
    from ReadBuf_ok [OF D(1) this] have "fst (CBuffer_ReadBuf ?len b1) = Some bs" using D(2) by (metis fst_conv le_refl prod.collapse take_all wl)
    moreover have "snd (CBuffer_ReadBuf ?len b1) = ?b2" using all(2) by (simp add: CBuffer_ReadBuf_def CBuffer_ReadSlip_def CBuffer_CanRead_def)
    ultimately show ?thesis by (metis prod.collapse)
  qed
  then have rd: "CCenterEndpoint_ReadMsg E (e\<lparr>ce_RevTmp := ?t, ce_RevBuffer := b1\<rparr>) = (read_msg_complete, bs, e\<lparr>ce_RevTmp := ?t, ce_RevBuffer := ?b2\<rparr>)"
    using four(2,4) all(2) m by (simp add: CCenterEndpoint_ReadMsg_def Let_def)
  have "rx_empty ?n (2 * ?n) ?t" using b(1,2) by (intro rx_empty_Reset) (simp_all add: c_def rx_empty_def)
  moreover have "rx_empty ?n (100 * ?n) ?b2" using D(1) d(2,3) by (auto simp: rx_empty_def b1_def wl cb_wf_def)
  ultimately have "rx_ready E (e\<lparr>ce_RevTmp := ?t, ce_RevBuffer := ?b2\<rparr>)" using r by (simp add: rx_ready_def)
  then show ?thesis using o rd by blast
qed

lemma receive_incomplete:
  assumes "rx_ready E e" and "net_tcp_recv P (ce_Sockfd e) False (env_MSG_BUF_LEN E) os = Some (int (length bs), bs, os')" and "whole_message E (bs @ rest)" and "bs \<noteq> []" and "rest \<noteq> []"
  shows "\<exists>t. CCenterEndpoint_onReadEv P E e os = Some (error_none, e\<lparr>ce_RevTmp := t\<rparr>, os') \<and> CCenterEndpoint_ReadMsg E (e\<lparr>ce_RevTmp := t\<rparr>) = (0, [], e\<lparr>ce_RevTmp := t\<rparr>)"
proof -
  let ?n = "env_MSG_BUF_LEN E"
  have r: "2 \<le> ?n" "102 * ?n < 2 ^ 31" "rx_empty ?n (100 * ?n) (ce_RevBuffer e)" using assms(1) by (simp_all add: rx_ready_def)
  note m = assms(3) [unfolded whole_message_def]
  have sz: "rx_sizes ?n (2 * ?n)" using r(1,2) by (simp add: rx_sizes_def)
  obtain b where b: "rx_empty ?n (2 * ?n) b" "unat (cb_curSzie b) = 2 * ?n" "unat (cb_writePos b) + length bs + 1 < 2 * ?n"
    "CCenterEndpoint_onReadEv P E e os = map_option (\<lambda>(ret, e). (ret, e, os')) (take_message E (e\<lparr>ce_RevTmp :=
       b\<lparr>cb_buffer := mem_write (cb_buffer b) (unat (cb_writePos b)) bs, cb_writePos := cb_writePos b + word_of_nat (length bs)\<rparr>\<rparr>))"
    by (rule onReadEv_stores [OF assms(1,2,4)])
  define c where "c = b\<lparr>cb_buffer := mem_write (cb_buffer b) (unat (cb_writePos b)) bs, cb_writePos := cb_writePos b + word_of_nat (length bs)\<rparr>"
  note C = rx_store [OF sz(1) b(1-3), folded c_def]
  have "take_message E (e\<lparr>ce_RevTmp := c\<rparr>) = Some (error_none, e\<lparr>ce_RevTmp := c\<rparr>)"
  proof (cases "4 \<le> length bs")
    case True
    let ?len = "un_le32 (take 4 bs)"
    have l: "unat ?len = length bs + length rest" using m True by simp
    have "word_of_nat (length bs + length rest) = ?len" unfolding l [symmetric] by simp
    then have "\<not> CBuffer_CanRead ?len c" using C(4) [of "length bs + length rest"] assms(5) m by simp
    then show ?thesis using C(3,5) [of 4] True l m by (simp add: take_message_def Let_def)
  next
    case False
    then have "\<not> CBuffer_CanRead 4 c" using C(4) [of 4] r(1) by simp
    then show ?thesis by (simp add: take_message_def)
  qed
  then have o: "CCenterEndpoint_onReadEv P E e os = Some (error_none, e\<lparr>ce_RevTmp := c\<rparr>, os')" using b(4) by (simp add: c_def)
  have "\<not> CBuffer_CanRead 4 (ce_RevBuffer e)"
  proof -
    have "unat (cb_writePos (ce_RevBuffer e)) \<le> 2 * ?n" using r(3) by (auto simp: rx_empty_def word_le_nat_alt)
    then have "unat (cb_writePos (ce_RevBuffer e) + 4) = unat (cb_writePos (ce_RevBuffer e)) + 4" using r(1,2) by (subst unat_add_noov) simp_all
    then show ?thesis using r(3) by (simp add: CBuffer_CanRead_def rx_empty_def word_less_nat_alt)
  qed
  then have "CCenterEndpoint_ReadMsg E (e\<lparr>ce_RevTmp := c\<rparr>) = (0, [], e\<lparr>ce_RevTmp := c\<rparr>)" by (simp add: CCenterEndpoint_ReadMsg_def)
  then show ?thesis using o by blast
qed

end
