(* ===== verification/GameTime.thy ===== *)
theory GameTime
  imports Posix "HOL-Library.Signed_Division"
begin

text \<open>
  \<^verbatim>\<open>tmp/game_time\<close> and \<^verbatim>\<open>include/time.hpp\<close>: the clock of the earlier center and its calendar questions. Times are \<^verbatim>\<open>time_t\<close> values as integers; divisions are those of
  C and round towards 0. \<^verbatim>\<open>localtime_r\<close> and \<^verbatim>\<open>mktime\<close> depend on the time zone of the host and are the record \<open>tz\<close>.
\<close>

record tm =
  tm_sec :: int
  tm_min :: int
  tm_hour :: int
  tm_mday :: int
  tm_mon :: int
  tm_year :: int
  tm_yday :: int
  tm_gmtoff :: int

record tz =
  tz_localtime :: "int \<Rightarrow> tm"
  tz_mktime :: "tm \<Rightarrow> int"
  tz_strftime :: "string \<Rightarrow> tm \<Rightarrow> string"

record CGameTime =
  gt_tv_sec :: int
  gt_tv_usec :: int
  gt_tm :: tm
  gt_begin_of_day :: int
  gt_utc_off :: int
  gt_Time :: int
  gt_pTm :: "tm option"

definition SECONDS_OF_DAY :: int where "SECONDS_OF_DAY = 86400"

definition tm_zero :: tm where
  "tm_zero = \<lparr>tm_sec = 0, tm_min = 0, tm_hour = 0, tm_mday = 0, tm_mon = 0, tm_year = 0, tm_yday = 0, tm_gmtoff = 0\<rparr>"

definition CGameTime_SetUtcTimeOff :: "tz \<Rightarrow> int \<Rightarrow> CGameTime \<Rightarrow> CGameTime" where
  "CGameTime_SetUtcTimeOff Z lNow g = g\<lparr>gt_utc_off := tm_gmtoff (tz_localtime Z lNow)\<rparr>"

text \<open>The constructor; \<open>lNow\<close> is the result of \<^verbatim>\<open>time\<close>.\<close>

definition CGameTime_new :: "tz \<Rightarrow> int \<Rightarrow> CGameTime" where
  "CGameTime_new Z lNow =
     CGameTime_SetUtcTimeOff Z lNow \<lparr>gt_tv_sec = 0, gt_tv_usec = 0, gt_tm = tm_zero, gt_begin_of_day = 0, gt_utc_off = 0, gt_Time = 0, gt_pTm = None\<rparr>"

definition CGameTime_IsDayAlternate :: "tz \<Rightarrow> int \<Rightarrow> int \<Rightarrow> bool" where
  "CGameTime_IsDayAlternate Z lNowTime lLastTime =
     (if lNowTime = 0 then False
      else if lLastTime = 0 then True
      else if lNowTime = lLastTime then False
      else \<not> (tm_mday (tz_localtime Z lNowTime) = tm_mday (tz_localtime Z lLastTime) \<and> \<bar>lNowTime - lLastTime\<bar> < SECONDS_OF_DAY))"

definition CGameTime_IsPassSeconds :: "tz \<Rightarrow> int \<Rightarrow> int \<Rightarrow> int \<Rightarrow> bool" where
  "CGameTime_IsPassSeconds Z lNowTime lLastTime SecPass =
     (if lNowTime = 0 then False
      else if lLastTime = 0 then True
      else if lNowTime = lLastTime then False
      else \<not> (tm_mday (tz_localtime Z lNowTime) = tm_mday (tz_localtime Z lLastTime) \<and> \<bar>lNowTime - lLastTime\<bar> < SecPass))"

text \<open>\<^verbatim>\<open>UpdateTime\<close> reads the clock; the arguments are its seconds and microseconds.\<close>

definition CGameTime_UpdateTime :: "tz \<Rightarrow> int \<Rightarrow> int \<Rightarrow> CGameTime \<Rightarrow> CGameTime" where
  "CGameTime_UpdateTime Z sec usec g =
     (let lLastTime = gt_tv_sec g;
          g = g\<lparr>gt_tv_sec := sec, gt_tv_usec := usec, gt_tm := tz_localtime Z sec\<rparr>
      in if lLastTime \<noteq> sec \<and> CGameTime_IsDayAlternate Z sec lLastTime
         then g\<lparr>gt_begin_of_day := tz_mktime Z (tm_zero\<lparr>tm_year := tm_year (gt_tm g), tm_mon := tm_mon (gt_tm g), tm_mday := tm_mday (gt_tm g)\<rparr>)\<rparr>
         else g)"

definition CGameTime_GetCurrMiliSec :: "'os posix \<Rightarrow> tz \<Rightarrow> CGameTime \<Rightarrow> 'os \<Rightarrow> int \<times> CGameTime \<times> 'os" where
  "CGameTime_GetCurrMiliSec P Z g os =
     (case sys_gettimeofday P os of
        ((sec, usec), os) \<Rightarrow>
          let g = CGameTime_UpdateTime Z (uint sec) (uint usec) g
          in (1000 * gt_tv_sec g + gt_tv_usec g sdiv 1000, g, os))"

definition CGameTime_GetCurrMsInSec :: "CGameTime \<Rightarrow> int" where
  "CGameTime_GetCurrMsInSec g = (gt_tv_usec g sdiv 1000) mod 2 ^ 16"

definition CGameTime_GetSecToNextDayBreak :: "tz \<Rightarrow> CGameTime \<Rightarrow> int" where
  "CGameTime_GetSecToNextDayBreak Z g =
     tz_mktime Z ((gt_tm g)\<lparr>tm_hour := 0, tm_min := 0, tm_sec := 0\<rparr>) + SECONDS_OF_DAY - gt_tv_sec g"

text \<open>The day of the week, from Sunday = 0, in 64-bit unsigned arithmetic.\<close>

definition CGameTime_GetCurDayOfWeek :: "CGameTime \<Rightarrow> uint32" where
  "CGameTime_GetCurDayOfWeek g =
     (let tempTime = word_of_int (gt_tv_sec g + gt_utc_off g) :: uint64;
          tempTime = tempTime div 86400
      in ucast ((tempTime + 4) mod 7))"

definition CGameTime_GetWeekNum :: "int \<Rightarrow> CGameTime \<Rightarrow> int" where
  "CGameTime_GetWeekNum lTime g =
     (let lWeekNum = lTime + gt_utc_off g;
          lWeekNum = lWeekNum sdiv SECONDS_OF_DAY;
          lWeekNum = lWeekNum + 4;
          lWeekNum = lWeekNum sdiv 7;
          lWeekNum = lWeekNum + 1
      in signed_take_bit 31 lWeekNum)"

definition CGameTime_IsInSameWeek :: "int \<Rightarrow> int \<Rightarrow> CGameTime \<Rightarrow> bool" where
  "CGameTime_IsInSameWeek lTime1 lTime2 g \<longleftrightarrow> CGameTime_GetWeekNum lTime1 g = CGameTime_GetWeekNum lTime2 g"

text \<open>\<^verbatim>\<open>GetSysTime\<close>; \<open>lNow\<close> is again the result of \<^verbatim>\<open>time\<close>.\<close>

definition CGameTime_GetSysTime :: "tz \<Rightarrow> int \<Rightarrow> CGameTime \<Rightarrow> tm \<times> CGameTime" where
  "CGameTime_GetSysTime Z lNow g = (tz_localtime Z lNow, g\<lparr>gt_Time := lNow, gt_pTm := Some (tz_localtime Z lNow)\<rparr>)"

definition CGameTime_IsContain :: "tz \<Rightarrow> tm \<Rightarrow> tm \<Rightarrow> tm \<Rightarrow> bool" where
  "CGameTime_IsContain Z curTm startTm endTm \<longleftrightarrow> tz_mktime Z curTm > tz_mktime Z startTm \<and> tz_mktime Z curTm < tz_mktime Z endTm"

definition CGameTime_tm2str :: "tz \<Rightarrow> tm \<Rightarrow> string \<Rightarrow> string" where
  "CGameTime_tm2str Z stTm sFormat = (let t = tz_strftime Z sFormat stTm in if length t < 255 then t else [])"

definition CGameTime_IsSameMonth :: "tz \<Rightarrow> int \<Rightarrow> int \<Rightarrow> bool" where
  "CGameTime_IsSameMonth Z lNowTime lLastTime =
     (if lNowTime = 0 then False
      else if lLastTime = 0 then False
      else if lNowTime = lLastTime then True
      else tm_mon (tz_localtime Z lNowTime) = tm_mon (tz_localtime Z lLastTime))"

text \<open>\<^verbatim>\<open>GetDiffDays\<close> of \<^verbatim>\<open>time.hpp\<close>; the difference of the days of the year is added in 32-bit arithmetic.\<close>

definition GetDiffDays :: "tz \<Rightarrow> int \<Rightarrow> int \<Rightarrow> uint32" where
  "GetDiffDays Z t1 t2 =
     (let (t1, t2) = (if t1 > t2 then (t2, t1) else (t1, t2));
          count = word_of_int ((t2 - t1) sdiv SECONDS_OF_DAY) :: uint32;
          tmp = t1 + uint (count * 86400)
      in count + word_of_int (tm_yday (tz_localtime Z t2)) - word_of_int (tm_yday (tz_localtime Z tmp)))"

text \<open>\<^verbatim>\<open>GetCurTime\<close>: seconds and microseconds of the clock.\<close>

definition GetCurTime :: "'os posix \<Rightarrow> 'os \<Rightarrow> (uint32 \<times> uint32) \<times> 'os" where
  "GetCurTime P os = sys_gettimeofday P os"

subsection \<open>Days and weeks\<close>

text \<open>The calendar a host uses: a fixed offset from UTC, and a day of the month that is never the same on two days in a row.\<close>

definition day_of :: "int \<Rightarrow> int \<Rightarrow> int" where
  "day_of off t = (t + off) div 86400"

definition calendar :: "tz \<Rightarrow> int \<Rightarrow> (int \<Rightarrow> int) \<Rightarrow> bool" where
  "calendar Z off mday \<longleftrightarrow> (\<forall>t. tm_mday (tz_localtime Z t) = mday (day_of off t)) \<and> (\<forall>d. mday d \<noteq> mday (d + 1))"

lemma day_of_split:
  obtains r where "t + off = 86400 * day_of off t + r" "0 \<le> r" "r < 86400"
  by (rule that [of "(t + off) mod 86400"]) (simp_all add: day_of_def)

lemma day_distance:
  "\<bar>(t - u) - 86400 * (day_of off t - day_of off u)\<bar> < 86400"
proof -
  obtain r where r: "t + off = 86400 * day_of off t + r" "0 \<le> r" "r < 86400" by (rule day_of_split)
  obtain q where q: "u + off = 86400 * day_of off u + q" "0 \<le> q" "q < 86400" by (rule day_of_split)
  have "(t - u) - 86400 * (day_of off t - day_of off u) = r - q" using r(1) q(1) by (simp only: right_diff_distrib)
  then show ?thesis using r(2,3) q(2,3) by (simp only: abs_less_iff) simp
qed

lemma same_day_close:
  assumes "day_of off t = day_of off u"
  shows "\<bar>t - u\<bar> < 86400"
  using day_distance [of t u off] assms by simp

lemma close_days:
  assumes "\<bar>t - u\<bar> < 86400" and "day_of off t \<noteq> day_of off u"
  shows "day_of off t = day_of off u + 1 \<or> day_of off u = day_of off t + 1"
proof -
  define k where "k = day_of off t - day_of off u"
  have "\<bar>86400 * k\<bar> < 172800" using day_distance [of t u off] assms(1) unfolding k_def [symmetric] by arith
  then have "\<bar>k\<bar> < 2" by arith
  moreover have "k \<noteq> 0" using assms(2) by (simp add: k_def)
  ultimately have "k = 1 \<or> k = -1" by arith
  then show ?thesis by (auto simp: k_def)
qed

text \<open>The number of the day, counted from Sunday, on which the week of a day begins.\<close>

definition sunday_before :: "int \<Rightarrow> int" where
  "sunday_before d = d - (d + 4) mod 7"

lemma same_week_number: "(d + 4) div 7 = (e + 4) div 7 \<longleftrightarrow> sunday_before d = sunday_before (e :: int)"
proof -
  have "sunday_before x = 7 * ((x + 4) div 7) - 4" for x
    using minus_mod_eq_mult_div [of "x + 4" 7] unfolding sunday_before_def by (simp only: diff_eq_eq add_ac)
  then show ?thesis by simp
qed

lemma GetWeekNum_nonneg:
  assumes "0 \<le> t + gt_utc_off g" and "t + gt_utc_off g < 2 ^ 48"
  shows "CGameTime_GetWeekNum t g = (day_of (gt_utc_off g) t + 4) div 7 + 1"
proof -
  let ?d = "day_of (gt_utc_off g) t"
  have d: "(t + gt_utc_off g) sdiv 86400 = ?d" "0 \<le> ?d"
    using assms(1) by (simp_all add: day_of_def signed_divide_int_def pos_imp_zdiv_nonneg_iff sgn_if)
  have "?d \<le> 2 ^ 48 div 86400" using assms(2) unfolding day_of_def by (intro zdiv_mono1) simp_all
  then have s: "0 \<le> (?d + 4) div 7" "(?d + 4) div 7 + 1 < 2 ^ 31" using d(2) by simp_all
  have "(?d + 4) sdiv 7 = (?d + 4) div 7" using d(2) by (simp add: signed_divide_int_def sgn_if)
  then show ?thesis using d(1) s
    by (simp add: CGameTime_GetWeekNum_def Let_def SECONDS_OF_DAY_def signed_take_bit_int_eq_self)
qed

subsection \<open>Properties\<close>

text \<open>C28. The calendar questions are answered right. On a host with a fixed offset from UTC, two times that are not 0 are told apart by \<^verbatim>\<open>IsDayAlternate\<close>
  exactly when they lie on different local days, although the code compares only the day of the month and the distance. For times after the epoch, \<^verbatim>\<open>IsInSameWeek\<close> holds
  exactly when the same Sunday begins the weeks of both.\<close>

theorem calendar_questions_agree:
  assumes "calendar Z (gt_utc_off g) mday" and "t \<noteq> 0" and "u \<noteq> 0"
    and "0 \<le> t + gt_utc_off g" and "t + gt_utc_off g < 2 ^ 48" and "0 \<le> u + gt_utc_off g" and "u + gt_utc_off g < 2 ^ 48"
  shows "(CGameTime_IsDayAlternate Z t u \<longleftrightarrow> day_of (gt_utc_off g) t \<noteq> day_of (gt_utc_off g) u)
    \<and> (CGameTime_IsInSameWeek t u g \<longleftrightarrow> sunday_before (day_of (gt_utc_off g) t) = sunday_before (day_of (gt_utc_off g) u))"
proof
  let ?off = "gt_utc_off g"
  have m: "tm_mday (tz_localtime Z x) = mday (day_of ?off x)" "mday d \<noteq> mday (d + 1)" for x d
    using assms(1) by (simp_all add: calendar_def)
  show "CGameTime_IsDayAlternate Z t u \<longleftrightarrow> day_of ?off t \<noteq> day_of ?off u"
    using same_day_close [of ?off t u] close_days [of t u ?off] assms(2,3) m(2)
    by (auto simp: CGameTime_IsDayAlternate_def SECONDS_OF_DAY_def m(1)) metis+
  show "CGameTime_IsInSameWeek t u g \<longleftrightarrow> sunday_before (day_of ?off t) = sunday_before (day_of ?off u)"
    using GetWeekNum_nonneg [OF assms(4,5)] GetWeekNum_nonneg [OF assms(6,7)]
    by (simp add: CGameTime_IsInSameWeek_def same_week_number)
qed

definition demo_tz :: tz where
  "demo_tz = \<lparr>tz_localtime = (\<lambda>t. tm_zero\<lparr>tm_mday := day_of 28800 t mod 31 + 1, tm_gmtoff := 28800\<rparr>), tz_mktime = (\<lambda>_. 0), tz_strftime = (\<lambda>_ _. [])\<rparr>"

theorem calendar_questions_agree_witness:
  "CGameTime_IsDayAlternate demo_tz 100000 300000 \<and> \<not> CGameTime_IsInSameWeek 100000 500000 (CGameTime_new demo_tz 1)"
proof -
  have o: "gt_utc_off (CGameTime_new demo_tz 1) = 28800" by (simp add: CGameTime_new_def CGameTime_SetUtcTimeOff_def demo_tz_def)
  have "calendar demo_tz 28800 (\<lambda>d. d mod 31 + 1)" by (auto simp: calendar_def demo_tz_def mod_eq_dvd_iff)
  then have c: "calendar demo_tz (gt_utc_off (CGameTime_new demo_tz 1)) (\<lambda>d. d mod 31 + 1)" by (simp add: o)
  show ?thesis
    using calendar_questions_agree [OF c, of 100000 300000] calendar_questions_agree [OF c, of 100000 500000]
    by (simp add: o day_of_def sunday_before_def)
qed

end
