(* ===== verification/CenterSvr.thy ===== *)
theory CenterSvr
  imports CenterInput GameTime
begin

text \<open>
  \<^verbatim>\<open>src/centersvr/centersvr\<close> and \<^verbatim>\<open>tmp/epoll_service\<close>: the earlier center. Servers connect, register with a message to server 0 and are sent the messages of others by server number, by hash or
  all of them; one epoll instance reports input, a second one the connections that can be written to. A function returns \<open>None\<close> where the program would use a null or
  an invalidated pointer, or where a socket call is interrupted for ever.
\<close>

unbundle bit_operations_syntax

subsection \<open>CEpoll\<close>

definition EPOLLIN :: uint32 where "EPOLLIN = 0x001"
definition EPOLLPRI :: uint32 where "EPOLLPRI = 0x002"
definition EPOLLOUT :: uint32 where "EPOLLOUT = 0x004"
definition EPOLLERR :: uint32 where "EPOLLERR = 0x008"
definition EPOLLHUP :: uint32 where "EPOLLHUP = 0x010"
definition EPOLLRDHUP :: uint32 where "EPOLLRDHUP = 0x2000"

definition READ_EV :: uint32 where "READ_EV = EPOLLIN OR EPOLLERR OR EPOLLPRI OR EPOLLHUP OR EPOLLRDHUP"
definition WRITE_EV :: uint32 where "WRITE_EV = EPOLLOUT OR EPOLLERR OR EPOLLPRI OR EPOLLHUP OR EPOLLRDHUP"

lemmas epoll_defs = EPOLLIN_def EPOLLPRI_def EPOLLOUT_def EPOLLERR_def EPOLLHUP_def EPOLLRDHUP_def READ_EV_def WRITE_EV_def

record CEpoll =
  ep_Efd :: int
  ep_MaxFd :: int
  ep_pstEvents :: "nat \<Rightarrow> ce_event"

definition CEpoll_new :: CEpoll where
  "CEpoll_new = \<lparr>ep_Efd = -1, ep_MaxFd = 0, ep_pstEvents = (\<lambda>_. \<lparr>ce_events = 0, ce_ptr = None\<rparr>)\<rparr>"

definition CEpoll_Close :: "('os, 'x) netcalls_scheme \<Rightarrow> CEpoll \<Rightarrow> 'os \<Rightarrow> CEpoll \<times> 'os" where
  "CEpoll_Close P p os = (if ep_Efd p > 0 then (p\<lparr>ep_Efd := 0\<rparr>, sys_close P (ep_Efd p) os) else (p, os))"

text \<open>\<^verbatim>\<open>Create\<close> tests \<^verbatim>\<open>m_iMaxFd\<close>, not the descriptor, for a failure.\<close>

definition CEpoll_Create :: "('os, 'x) netcalls_scheme \<Rightarrow> int \<Rightarrow> CEpoll \<Rightarrow> 'os \<Rightarrow> bool \<times> CEpoll \<times> 'os" where
  "CEpoll_Create P maxFd p os =
     (let (p, os) = CEpoll_Close P p os
      in if maxFd \<le> 0 then (False, p, os)
         else let (efd, os) = nc_epoll_create P maxFd os;
                  p = p\<lparr>ep_MaxFd := maxFd, ep_Efd := efd\<rparr>
              in (\<not> ep_MaxFd p < 0, p, os))"

text \<open>\<^verbatim>\<open>Wait\<close> stores the reported events in the array and returns their number; the number of descriptors asked for is ignored.\<close>

definition CEpoll_Wait :: "('os, 'x) netcalls_scheme \<Rightarrow> int \<Rightarrow> int \<Rightarrow> CEpoll \<Rightarrow> 'os \<Rightarrow> int \<times> CEpoll \<times> 'os" where
  "CEpoll_Wait P timeOutMs fdNum p os =
     (case nc_epoll_wait P (ep_Efd p) (ep_MaxFd p) timeOutMs os of
        (None, os) \<Rightarrow> (-1, p, os)
      | (Some evs, os) \<Rightarrow>
          let evs = take (nat (ep_MaxFd p)) evs
          in (int (length evs), p\<lparr>ep_pstEvents := (\<lambda>i. if i < length evs then evs ! i else ep_pstEvents p i)\<rparr>, os))"

definition CEpoll_Add :: "('os, 'x) netcalls_scheme \<Rightarrow> int \<Rightarrow> nat \<Rightarrow> uint32 \<Rightarrow> CEpoll \<Rightarrow> 'os \<Rightarrow> bool \<times> 'os" where
  "CEpoll_Add P fd ptr events p os = nc_epoll_add P (ep_Efd p) fd (Some ptr) events os"

definition CEpoll_Mod :: "('os, 'x) netcalls_scheme \<Rightarrow> int \<Rightarrow> nat \<Rightarrow> uint32 \<Rightarrow> CEpoll \<Rightarrow> 'os \<Rightarrow> bool \<times> 'os" where
  "CEpoll_Mod P fd ptr events p os = nc_epoll_mod P (ep_Efd p) fd (Some ptr) events os"

definition CEpoll_Del :: "('os, 'x) netcalls_scheme \<Rightarrow> int \<Rightarrow> CEpoll \<Rightarrow> 'os \<Rightarrow> bool \<times> 'os" where
  "CEpoll_Del P fd p os = (if fd < 0 then (False, os) else sys_epoll_del P (ep_Efd p) fd os)"

definition CEpoll_GetEvents :: "nat \<Rightarrow> CEpoll \<Rightarrow> uint32" where
  "CEpoll_GetEvents iPos p = (if iPos > 0 \<or> int iPos \<ge> ep_MaxFd p then 0 else ce_events (ep_pstEvents p iPos))"

definition CEpoll_IsEvRead :: "uint32 \<Rightarrow> bool" where "CEpoll_IsEvRead ev \<longleftrightarrow> ev AND EPOLLIN \<noteq> 0"
definition CEpoll_IsEvWrite :: "uint32 \<Rightarrow> bool" where "CEpoll_IsEvWrite ev \<longleftrightarrow> ev AND EPOLLOUT \<noteq> 0"
definition CEpoll_IsEvPri :: "uint32 \<Rightarrow> bool" where "CEpoll_IsEvPri ev \<longleftrightarrow> ev AND EPOLLPRI \<noteq> 0"

definition CEpoll_IsEvErr :: "uint32 \<Rightarrow> bool" where
  "CEpoll_IsEvErr ev \<longleftrightarrow> ev AND EPOLLERR \<noteq> 0 \<or> ev AND EPOLLHUP \<noteq> 0 \<or> ev AND EPOLLRDHUP \<noteq> 0"

definition CEpoll_GetDataPtr :: "nat \<Rightarrow> CEpoll \<Rightarrow> nat option" where
  "CEpoll_GetDataPtr iPos p = (if iPos > 0 \<or> int iPos \<ge> ep_MaxFd p then None else ce_ptr (ep_pstEvents p iPos))"

text \<open>The descriptor is read from the union that holds the pointer.\<close>

definition CEpoll_GetDataFd :: "('os, 'x) netcalls_scheme \<Rightarrow> nat \<Rightarrow> CEpoll \<Rightarrow> int" where
  "CEpoll_GetDataFd P iPos p =
     (if iPos > 0 \<or> int iPos \<ge> ep_MaxFd p then -1 else (case ce_ptr (ep_pstEvents p iPos) of None \<Rightarrow> 0 | Some q \<Rightarrow> nc_ptr_fd P q))"

subsection \<open>CCenterServer\<close>

record 'os CCenterServer =
  cs_bShutDwon :: bool
  cs_mng :: CCenterEndpointManager
  cs_lastWriteTime :: int
  cs_ReadEpoll :: CEpoll
  cs_WriteEpoll :: CEpoll
  cs_GameTime :: CGameTime
  cs_os :: 'os

abbreviation ept :: "'os CCenterServer \<Rightarrow> nat \<Rightarrow> CCenterEndpoint" where
  "ept s p \<equiv> em_EndpointPool (cs_mng s) p"

definition cs_upd :: "nat \<Rightarrow> (CCenterEndpoint \<Rightarrow> CCenterEndpoint) \<Rightarrow> 'os CCenterServer \<Rightarrow> 'os CCenterServer" where
  "cs_upd p f s = s\<lparr>cs_mng := em_upd p f (cs_mng s)\<rparr>"

definition cs_release :: "('os, 'x) netcalls_scheme \<Rightarrow> center_env \<Rightarrow> nat option \<Rightarrow> 'os CCenterServer \<Rightarrow> 'os CCenterServer" where
  "cs_release P E p s = (case CCenterEndpointManager_ReleaseEndpoint P E p (cs_mng s) (cs_os s) of (m, os) \<Rightarrow> s\<lparr>cs_mng := m, cs_os := os\<rparr>)"

definition read_del :: "('os, 'x) netcalls_scheme \<Rightarrow> int \<Rightarrow> 'os CCenterServer \<Rightarrow> 'os CCenterServer" where
  "read_del P fd s = s\<lparr>cs_os := snd (CEpoll_Del P fd (cs_ReadEpoll s) (cs_os s))\<rparr>"

definition write_del :: "('os, 'x) netcalls_scheme \<Rightarrow> int \<Rightarrow> 'os CCenterServer \<Rightarrow> 'os CCenterServer" where
  "write_del P fd s = s\<lparr>cs_os := snd (CEpoll_Del P fd (cs_WriteEpoll s) (cs_os s))\<rparr>"

definition CCenterServer_CreateTcp :: "('os, 'x) netcalls_scheme \<Rightarrow> center_env \<Rightarrow> 'os CCenterServer \<Rightarrow> bool \<times> 'os CCenterServer" where
  "CCenterServer_CreateTcp P E s =
     (case net_create_listen_sock P (Some ''192.168.11.110'') 9001 1500 sock_style_tcp (cs_os s) of
        (sockfd, os) \<Rightarrow>
          let s = s\<lparr>cs_os := os\<rparr>
          in if sockfd < 0 then (False, s)
             else (case CCenterEndpointManager_AllocNew (cs_mng s) of
                     (None, m) \<Rightarrow> (False, s\<lparr>cs_mng := m\<rparr>)
                   | (Some p, m) \<Rightarrow>
                       let s = cs_upd p (\<lambda>e. e\<lparr>ce_Sockfd := sockfd\<rparr>) (s\<lparr>cs_mng := m\<rparr>)
                       in (case CCenterEndpointManager_ActiveEndPoint E p 0 (env_svr_center E) (cs_mng s) of
                             (False, m) \<Rightarrow> (False, s\<lparr>cs_mng := m\<rparr>)
                           | (True, m) \<Rightarrow>
                               let s = cs_upd p (\<lambda>e. e\<lparr>ce_NetAddr := net_addr_aton P ''192.168.11.110'' 9001\<rparr>) (s\<lparr>cs_mng := m\<rparr>)
                               in (case CEpoll_Add P sockfd p READ_EV (cs_ReadEpoll s) (cs_os s) of
                                     (False, os) \<Rightarrow> (False, cs_release P E (Some p) (s\<lparr>cs_os := os\<rparr>))
                                   | (True, os) \<Rightarrow> (True, s\<lparr>cs_os := os\<rparr>)))))"

definition MAX_POINT :: int where "MAX_POINT = 512"

definition CCenterServer_Initalize :: "('os, 'x) netcalls_scheme \<Rightarrow> center_env \<Rightarrow> 'os CCenterServer \<Rightarrow> bool \<times> 'os CCenterServer" where
  "CCenterServer_Initalize P E s =
     (case SetRLimitForNofile P (MAX_POINT + 1) (cs_os s) of
        (r, os) \<Rightarrow>
          if r < 0 then (False, s\<lparr>cs_os := os\<rparr>)
          else (case CEpoll_Create P (MAX_POINT + 1) (cs_ReadEpoll s) os of
                  (False, ep, os) \<Rightarrow> (False, s\<lparr>cs_ReadEpoll := ep, cs_os := os\<rparr>)
                | (True, ep, os) \<Rightarrow>
                    let s = s\<lparr>cs_ReadEpoll := ep\<rparr>
                    in (case CEpoll_Create P (MAX_POINT + 1) (cs_WriteEpoll s) os of
                          (False, ep, os) \<Rightarrow> (False, s\<lparr>cs_WriteEpoll := ep, cs_os := os\<rparr>)
                        | (True, ep, os) \<Rightarrow>
                            let s = s\<lparr>cs_WriteEpoll := ep, cs_os := os\<rparr>
                            in (case CCenterEndpointManager_Initialize E (nat (MAX_POINT + 1)) (cs_mng s) of
                                  (False, m) \<Rightarrow> (False, s\<lparr>cs_mng := m\<rparr>)
                                | (True, m) \<Rightarrow> CCenterServer_CreateTcp P E (s\<lparr>cs_mng := m\<rparr>)))))"

definition CCenterServer_SetShutDown :: "bool \<Rightarrow> 'os CCenterServer \<Rightarrow> 'os CCenterServer" where
  "CCenterServer_SetShutDown b s = s\<lparr>cs_bShutDwon := b\<rparr>"

text \<open>The connections that are waiting, at most 101 of them; the descriptor is not closed when no endpoint is left.\<close>

function accept_loop :: "('os, 'x) netcalls_scheme \<Rightarrow> center_env \<Rightarrow> int \<Rightarrow> nat \<Rightarrow> 'os CCenterServer \<Rightarrow> (nat \<times> 'os CCenterServer) option" where
  "accept_loop P E sockfd num s =
     (case net_tcp_accept P sockfd \<lparr>na_addr = 0, na_port = 0\<rparr> (cs_os s) of
        None \<Rightarrow> None
      | Some (new_fd, addr, os) \<Rightarrow>
          let s = s\<lparr>cs_os := os\<rparr>
          in if new_fd \<le> 0 then Some (num, s)
             else if num > 100 then Some (num, s\<lparr>cs_os := net_close P new_fd (cs_os s)\<rparr>)
             else
               let s = s\<lparr>cs_os := snd (net_set_nonblocking P new_fd (cs_os s))\<rparr>
               in (case CCenterEndpointManager_AllocNew (cs_mng s) of
                     (None, m) \<Rightarrow> Some (num, s\<lparr>cs_mng := m\<rparr>)
                   | (Some p, m) \<Rightarrow>
                       let s = cs_upd p (\<lambda>e. e\<lparr>ce_NetAddr := addr, ce_Sockfd := new_fd\<rparr>) (s\<lparr>cs_mng := m\<rparr>)
                       in (case CEpoll_Add P new_fd p READ_EV (cs_ReadEpoll s) (cs_os s) of
                             (False, os) \<Rightarrow> Some (num, cs_release P E (Some p) (s\<lparr>cs_os := os\<rparr>))
                           | (True, os) \<Rightarrow> accept_loop P E sockfd (num + 1) (s\<lparr>cs_os := os\<rparr>))))"
  by pat_completeness auto
termination
  by (relation "measure (\<lambda>(P, E, sockfd, num, s). 102 - num)") auto

definition CCenterServer_HandleNewTcp :: "('os, 'x) netcalls_scheme \<Rightarrow> center_env \<Rightarrow> int \<Rightarrow> 'os CCenterServer \<Rightarrow> (nat \<times> 'os CCenterServer) option" where
  "CCenterServer_HandleNewTcp P E sockfd s = (if sockfd \<le> 0 then Some (0, s) else accept_loop P E sockfd 0 s)"

definition CCenterServer_ActiveWrite :: "('os, 'x) netcalls_scheme \<Rightarrow> nat \<Rightarrow> 'os CCenterServer \<Rightarrow> bool \<times> 'os CCenterServer" where
  "CCenterServer_ActiveWrite P p s =
     (if ce_Sockfd (ept s p) = 0 then (False, s)
      else (case CEpoll_Add P (ce_Sockfd (ept s p)) p WRITE_EV (cs_WriteEpoll s) (cs_os s) of
              (True, os) \<Rightarrow> (True, cs_upd p (\<lambda>e. e\<lparr>ce_writeActive := True\<rparr>) (s\<lparr>cs_os := os\<rparr>))
            | (False, os) \<Rightarrow> (False, s\<lparr>cs_os := os\<rparr>)))"

definition CCenterServer_DeactiveWrite :: "('os, 'x) netcalls_scheme \<Rightarrow> nat \<Rightarrow> 'os CCenterServer \<Rightarrow> bool \<times> 'os CCenterServer" where
  "CCenterServer_DeactiveWrite P p s =
     (if ce_Sockfd (ept s p) = 0 then (False, s)
      else (True, cs_upd p (\<lambda>e. e\<lparr>ce_writeActive := False\<rparr>) (write_del P (ce_Sockfd (ept s p)) s)))"

text \<open>\<^verbatim>\<open>SendMsgToEndpoint\<close>: an endpoint that cannot be registered for writing is released, and the message is still put into its buffer.\<close>

definition CCenterServer_SendMsgToEndpoint :: "('os, 'x) netcalls_scheme \<Rightarrow> center_env \<Rightarrow> nat \<Rightarrow> byte list \<Rightarrow> 'os CCenterServer \<Rightarrow> bool \<times> 'os CCenterServer" where
  "CCenterServer_SendMsgToEndpoint P E p pMsg s =
     (if 0 \<ge> ce_Sockfd (ept s p) then (False, s)
      else let s = (if ce_writeActive (ept s p) then s
                    else (case CCenterServer_ActiveWrite P p s of
                            (True, s) \<Rightarrow> s
                          | (False, s) \<Rightarrow> cs_release P E (Some p) (write_del P (ce_Sockfd (ept s p)) (read_del P (ce_Sockfd (ept s p)) s))))
           in (case CCenterEndpoint_SendMsg pMsg (ept s p) of (ok, e) \<Rightarrow> (ok, cs_upd p (\<lambda>_. e) s)))"

text \<open>The loops of a broadcast. Releasing the current element of the list invalidates the iterator; releasing one of the vector leaves the loop
  with an index beyond its end.\<close>

fun broadcast_list :: "('os, 'x) netcalls_scheme \<Rightarrow> center_env \<Rightarrow> byte list \<Rightarrow> nat list \<Rightarrow> 'os CCenterServer \<Rightarrow> 'os CCenterServer option" where
  "broadcast_list P E pMsg [] s = Some s"
| "broadcast_list P E pMsg (p # ps) s =
     (let s = snd (CCenterServer_SendMsgToEndpoint P E p pMsg s)
      in if p \<in> set (em_listActive (cs_mng s)) then broadcast_list P E pMsg ps s else None)"

fun broadcast_vec :: "('os, 'x) netcalls_scheme \<Rightarrow> center_env \<Rightarrow> byte list \<Rightarrow> uint32 \<Rightarrow> nat \<Rightarrow> nat \<Rightarrow> 'os CCenterServer \<Rightarrow> 'os CCenterServer option" where
  "broadcast_vec P E pMsg t i 0 s = Some s"
| "broadcast_vec P E pMsg t i (Suc n) s =
     (if i < length (of_type t (cs_mng s))
      then broadcast_vec P E pMsg t (Suc i) n (snd (CCenterServer_SendMsgToEndpoint P E (of_type t (cs_mng s) ! i) pMsg s))
      else None)"

definition CCenterServer_DealCenterMsg :: "('os, 'x) netcalls_scheme \<Rightarrow> center_env \<Rightarrow> nat \<Rightarrow> byte list \<Rightarrow> 'os CCenterServer \<Rightarrow> (bool \<times> 'os CCenterServer) option" where
  "CCenterServer_DealCenterMsg P E pEndpoint pMsg s =
     (if length pMsg > env_MSG_SIZE E + 4 then Some (False, s)
      else let head = env_head E pMsg; m = cs_mng s
           in (case ch_route_type head of
                 route_p2p \<Rightarrow>
                   (case CCenterEndpointManager_GetEndpointBySvrId (ch_des_id head) m of
                      None \<Rightarrow> Some (False, s)
                    | Some dst \<Rightarrow>
                        if Some dst = CCenterEndpointManager_GetEndpointBySvrId 0 m
                        then let s = s\<lparr>cs_mng := snd (CCenterEndpointManager_ActiveEndPoint E pEndpoint (ch_src_id head) (ch_src_type head) m)\<rparr>
                             in Some (CCenterServer_SendMsgToEndpoint P E pEndpoint pMsg s)
                        else Some (CCenterServer_SendMsgToEndpoint P E dst pMsg s))
               | route_hash \<Rightarrow>
                   if ch_des_type head = env_svr_none E
                   then if em_listActive m = [] then Some (False, s)
                        else Some (CCenterServer_SendMsgToEndpoint P E (em_listActive m ! (unat (ch_hash_key head) mod length (em_listActive m))) pMsg s)
                   else (case CCenterEndpointManager_GetEndpointBySvrType (ch_des_type head) m of
                           None \<Rightarrow> None
                         | Some v \<Rightarrow>
                             if v = [] then Some (False, s)
                             else Some (CCenterServer_SendMsgToEndpoint P E (v ! (unat (ch_hash_key head) mod length v)) pMsg s))
               | route_broadcast \<Rightarrow>
                   if ch_des_type head = env_svr_none E
                   then if em_listActive m = [] then Some (False, s)
                        else map_option (Pair True) (broadcast_list P E pMsg (em_listActive m) s)
                   else (case CCenterEndpointManager_GetEndpointBySvrType (ch_des_type head) m of
                           None \<Rightarrow> None
                         | Some v \<Rightarrow> map_option (Pair True) (broadcast_vec P E pMsg (ch_des_type head) 0 (length v) s))
               | _ \<Rightarrow> Some (True, s)))"

definition CCenterServer_HandleTcpRead :: "('os, 'x) netcalls_scheme \<Rightarrow> center_env \<Rightarrow> nat option \<Rightarrow> 'os CCenterServer \<Rightarrow> (bool \<times> 'os CCenterServer) option" where
  "CCenterServer_HandleTcpRead P E pEndpoint s =
     (case pEndpoint of
        None \<Rightarrow> Some (False, s)
      | Some p \<Rightarrow>
          (case CCenterEndpoint_onReadEv P E (ept s p) (cs_os s) of
             None \<Rightarrow> None
           | Some (ret, e, os) \<Rightarrow>
               let s = cs_upd p (\<lambda>_. e) (s\<lparr>cs_os := os\<rparr>)
               in if 0 > ret then Some (False, s)
                  else (case CCenterEndpoint_ReadMsg E (ept s p) of
                          (ret, pMsg, e) \<Rightarrow>
                            let s = cs_upd p (\<lambda>_. e) s
                            in if 0 \<ge> ret then Some (False, s)
                               else if ret = read_msg_complete then CCenterServer_DealCenterMsg P E p pMsg s
                               else Some (True, s))))"

definition CCenterServer_HandleTcpWrite :: "('os, 'x) netcalls_scheme \<Rightarrow> nat option \<Rightarrow> 'os CCenterServer \<Rightarrow> (bool \<times> 'os CCenterServer) option" where
  "CCenterServer_HandleTcpWrite P pEndpoint s =
     (case pEndpoint of
        None \<Rightarrow> Some (False, s)
      | Some p \<Rightarrow>
          (case CCenterEndpoint_onWriteEv P (ept s p) (cs_os s) of
             None \<Rightarrow> None
           | Some (ret, e, os) \<Rightarrow>
               let s = cs_upd p (\<lambda>_. e) (s\<lparr>cs_os := os\<rparr>)
               in if 0 \<ge> ret then Some (False, s)
                  else if ret = write_buffer_empty then Some (True, snd (CCenterServer_DeactiveWrite P p s))
                  else Some (True, s)))"

text \<open>One reported event of each kind. In the second loop the endpoint is taken from the events of the first one.\<close>

definition read_event :: "('os, 'x) netcalls_scheme \<Rightarrow> center_env \<Rightarrow> nat \<Rightarrow> 'os CCenterServer \<Rightarrow> 'os CCenterServer option" where
  "read_event P E i s =
     (let events = CEpoll_GetEvents i (cs_ReadEpoll s); pEndpoint = CEpoll_GetDataPtr i (cs_ReadEpoll s)
      in if pEndpoint = CCenterEndpointManager_GetEndpointBySvrId 0 (cs_mng s)
         then (case pEndpoint of None \<Rightarrow> None | Some p \<Rightarrow> map_option snd (CCenterServer_HandleNewTcp P E (ce_Sockfd (ept s p)) s))
         else (case (if \<not> CEpoll_IsEvErr events \<and> CEpoll_IsEvRead events then CCenterServer_HandleTcpRead P E pEndpoint s else Some (False, s)) of
                 None \<Rightarrow> None
               | Some (True, s) \<Rightarrow> Some s
               | Some (False, s) \<Rightarrow>
                   let fd = CEpoll_GetDataFd P i (cs_ReadEpoll s);
                       s = read_del P fd s;
                       s = (case pEndpoint of
                              None \<Rightarrow> write_del P fd s
                            | Some p \<Rightarrow> if env_svr_none E \<noteq> ce_Type (ept s p) then write_del P fd s else s)
                   in Some (cs_release P E pEndpoint s)))"

definition write_event :: "('os, 'x) netcalls_scheme \<Rightarrow> center_env \<Rightarrow> nat \<Rightarrow> 'os CCenterServer \<Rightarrow> 'os CCenterServer option" where
  "write_event P E i s =
     (let events = CEpoll_GetEvents i (cs_WriteEpoll s); pEndpoint = CEpoll_GetDataPtr i (cs_ReadEpoll s)
      in (case (if \<not> CEpoll_IsEvErr events \<and> CEpoll_IsEvWrite events then CCenterServer_HandleTcpWrite P pEndpoint s else Some (False, s)) of
            None \<Rightarrow> None
          | Some (True, s) \<Rightarrow> Some s
          | Some (False, s) \<Rightarrow>
              let fd = CEpoll_GetDataFd P i (cs_ReadEpoll s)
              in Some (cs_release P E pEndpoint (write_del P fd (read_del P fd s)))))"

fun events_loop :: "(nat \<Rightarrow> 's \<Rightarrow> 's option) \<Rightarrow> nat \<Rightarrow> nat \<Rightarrow> 's \<Rightarrow> 's option" where
  "events_loop f i 0 s = Some s"
| "events_loop f i (Suc n) s = (case f i s of None \<Rightarrow> None | Some s \<Rightarrow> events_loop f (Suc i) n s)"

definition CCenterServer_Update :: "('os, 'x) netcalls_scheme \<Rightarrow> center_env \<Rightarrow> tz \<Rightarrow> 'os CCenterServer \<Rightarrow> 'os CCenterServer option" where
  "CCenterServer_Update P E Z s =
     (case CEpoll_Wait P 5 (-1) (cs_ReadEpoll s) (cs_os s) of
        (ifds, ep, os) \<Rightarrow>
          (case events_loop (read_event P E) 0 (nat ifds) (s\<lparr>cs_ReadEpoll := ep, cs_os := os\<rparr>) of
             None \<Rightarrow> None
           | Some s \<Rightarrow>
               let ActiveNum = length (em_listActive (cs_mng s))
               in if ActiveNum = 0 then Some s
                  else (case CGameTime_GetCurrMiliSec (posix.truncate P) Z (cs_GameTime s) (cs_os s) of
                          (now, gt, os) \<Rightarrow>
                            let s = s\<lparr>cs_GameTime := gt, cs_os := os\<rparr>
                            in if (word_of_int (now - cs_lastWriteTime s) :: uint64) < 10 then Some s
                               else (case CEpoll_Wait P 5 (int ActiveNum) (cs_WriteEpoll s) (cs_os s) of
                                       (writeFds, ep, os) \<Rightarrow>
                                         (case events_loop (write_event P E) 0 (nat writeFds) (s\<lparr>cs_WriteEpoll := ep, cs_os := os\<rparr>) of
                                            None \<Rightarrow> None
                                          | Some s \<Rightarrow>
                                              (case CGameTime_GetCurrMiliSec (posix.truncate P) Z (cs_GameTime s) (cs_os s) of
                                                 (now, gt, os) \<Rightarrow> Some (s\<lparr>cs_GameTime := gt, cs_os := os, cs_lastWriteTime := now\<rparr>)))))))"

text \<open>\<^verbatim>\<open>Run\<close>, for a number of rounds; it ends before when the server is shut down.\<close>

fun CCenterServer_Run :: "('os, 'x) netcalls_scheme \<Rightarrow> center_env \<Rightarrow> tz \<Rightarrow> nat \<Rightarrow> 'os CCenterServer \<Rightarrow> 'os CCenterServer option" where
  "CCenterServer_Run P E Z 0 s = Some s"
| "CCenterServer_Run P E Z (Suc n) s =
     (if cs_bShutDwon s then Some s
      else (case CCenterServer_Update P E Z s of
              None \<Rightarrow> None
            | Some s \<Rightarrow> CCenterServer_Run P E Z n (s\<lparr>cs_os := mSleep P 1 (cs_os s)\<rparr>)))"

text \<open>The constructor and \<^verbatim>\<open>main\<close>.\<close>

definition CCenterServer_new :: "center_env \<Rightarrow> CGameTime \<Rightarrow> 'os \<Rightarrow> 'os CCenterServer" where
  "CCenterServer_new E gt os = \<lparr>cs_bShutDwon = False, cs_mng = CCenterEndpointManager_new E, cs_lastWriteTime = 0, cs_ReadEpoll = CEpoll_new, cs_WriteEpoll = CEpoll_new,
     cs_GameTime = gt, cs_os = os\<rparr>"

definition centersvr_main :: "('os, 'x) netcalls_scheme \<Rightarrow> center_env \<Rightarrow> tz \<Rightarrow> nat \<Rightarrow> CGameTime \<Rightarrow> 'os \<Rightarrow> 'os CCenterServer option" where
  "centersvr_main P E Z rounds gt os =
     (case CCenterServer_Initalize P E (CCenterServer_new E gt os) of
        (True, s) \<Rightarrow> CCenterServer_Run P E Z rounds s
      | (False, s) \<Rightarrow> Some s)"

subsection \<open>Events of a round\<close>

lemma Del_invalid [simp]: "CEpoll_Del P (-1) p os = (False, os)"
  by (simp add: CEpoll_Del_def)

lemma read_event_later:
  assumes "0 < i"
  shows "read_event P E i s = (if em_mapEndpointServerID (cs_mng s) 0 = None then None else Some s)"
  using assms
  by (auto simp: read_event_def CEpoll_GetEvents_def CEpoll_GetDataPtr_def CEpoll_GetDataFd_def CEpoll_IsEvErr_def CEpoll_IsEvRead_def
      CCenterEndpointManager_GetEndpointBySvrId_def read_del_def write_del_def cs_release_def CCenterEndpointManager_ReleaseEndpoint_def Let_def)

lemma read_events_later:
  assumes "0 < i"
  shows "events_loop (read_event P E) i n s = (if 0 < n \<and> em_mapEndpointServerID (cs_mng s) 0 = None then None else Some s)"
  using assms by (induction n arbitrary: i) (auto simp: read_event_later)

lemma cs_release_fields:
  "em_mapEndpointServerID (cs_mng (cs_release P E (Some p) s)) = (em_mapEndpointServerID (cs_mng s))(ce_Id (ept s p) := None)"
proof -
  obtain m os where r: "CCenterEndpointManager_ReleaseEndpoint P E (Some p) (cs_mng s) (cs_os s) = (m, os)" by fastforce
  show ?thesis using ReleaseEndpoint_fields(5) [OF r] by (simp add: cs_release_def r)
qed

lemma del_mng [simp]: "cs_mng (read_del P fd s) = cs_mng s" "cs_mng (write_del P fd s) = cs_mng s"
  by (simp_all add: read_del_def write_del_def)

lemma read_event_error:
  assumes "CEpoll_GetDataPtr 0 (cs_ReadEpoll s) = Some p" and "em_mapEndpointServerID (cs_mng s) 0 \<noteq> Some p"
    and "CEpoll_IsEvErr (CEpoll_GetEvents 0 (cs_ReadEpoll s))"
  obtains s' where "read_event P E 0 s = Some s'" and "em_mapEndpointServerID (cs_mng s') = (em_mapEndpointServerID (cs_mng s))(ce_Id (ept s p) := None)"
  using assms by (auto simp: read_event_def CCenterEndpointManager_GetEndpointBySvrId_def Let_def cs_release_fields)

subsection \<open>Relaying\<close>

text \<open>An endpoint that is registered for writing and has been sent a message, or whose send buffer was too full for it.\<close>

definition got :: "byte list \<Rightarrow> bool \<Rightarrow> CCenterEndpoint \<Rightarrow> CCenterEndpoint \<Rightarrow> bool" where
  "got msg ok e e' \<longleftrightarrow> (\<exists>b. e' = e\<lparr>ce_writeActive := True, ce_SendBuffer := b\<rparr> \<and> cb_wf b
     \<and> cb_content b = cb_content (ce_SendBuffer e) @ (if ok then msg else []))"

text \<open>Sending to the endpoints \<open>ps\<close> changes nothing else: \<open>R p\<close> tells whether endpoint \<open>p\<close> has taken the message.\<close>

definition relayed :: "byte list \<Rightarrow> (nat \<Rightarrow> bool) \<Rightarrow> nat list \<Rightarrow> 'os CCenterServer \<Rightarrow> 'os CCenterServer \<Rightarrow> bool" where
  "relayed msg R ps s s' \<longleftrightarrow> (\<forall>p. if p \<in> set ps then got msg (R p) (ept s p) (ept s' p) else ept s' p = ept s p)
     \<and> (\<exists>pool. cs_mng s' = (cs_mng s)\<lparr>em_EndpointPool := pool\<rparr>)"

text \<open>What the code relies on of epoll: adding a descriptor succeeds.\<close>

definition epoll_adds :: "('os, 'x) netcalls_scheme \<Rightarrow> bool" where
  "epoll_adds P \<longleftrightarrow> (\<forall>efd fd q ev os. fst (nc_epoll_add P efd fd q ev os))"

definition sendable :: "CCenterEndpoint \<Rightarrow> bool" where
  "sendable e \<longleftrightarrow> 0 < ce_Sockfd e \<and> cb_wf (ce_SendBuffer e)"

lemma got_sendable: "got msg ok e e' \<Longrightarrow> sendable e \<Longrightarrow> sendable e'"
  by (auto simp: got_def sendable_def)

lemma got_same: "got msg ok e e' \<Longrightarrow> ce_Hnd e' = ce_Hnd e \<and> ce_Type e' = ce_Type e \<and> ce_Id e' = ce_Id e"
  by (auto simp: got_def)

lemma SendMsgToEndpoint_relays:
  assumes "epoll_adds P" and "sendable (ept s p)" and "length msg < 2 ^ 31"
    and "CCenterServer_SendMsgToEndpoint P E p msg s = (ok, s')"
  shows "relayed msg (\<lambda>_. ok) [p] s s'"
proof -
  let ?b = "ce_SendBuffer (ept s p)"
  obtain ok1 b where b: "CBuffer_WriteBuf msg ?b = (ok1, b)" by fastforce
  have w: "cb_wf b \<and> cb_content b = (if ok1 then cb_content ?b @ msg else cb_content ?b)"
    using WriteBuf_ok [OF _ assms(3) b] assms(2) by (simp add: sendable_def)
  obtain os where a: "CEpoll_Add P (ce_Sockfd (ept s p)) p WRITE_EV (cs_WriteEpoll s) (cs_os s) = (True, os)"
    using assms(1) unfolding epoll_adds_def CEpoll_Add_def by (metis prod.collapse)
  have f: "0 < ce_Sockfd (ept s p)" using assms(2) by (simp add: sendable_def)
  let ?t = "if ce_writeActive (ept s p) then s else cs_upd p (\<lambda>e. e\<lparr>ce_writeActive := True\<rparr>) (s\<lparr>cs_os := os\<rparr>)"
  have t: "(if ce_writeActive (ept s p) then s
      else (case CCenterServer_ActiveWrite P p s of (True, s) \<Rightarrow> s
        | (False, s) \<Rightarrow> cs_release P E (Some p) (write_del P (ce_Sockfd (ept s p)) (read_del P (ce_Sockfd (ept s p)) s)))) = ?t"
    using f by (simp add: CCenterServer_ActiveWrite_def a)
  have e: "ept ?t p = (ept s p)\<lparr>ce_writeActive := True\<rparr>" by (simp add: cs_upd_def em_upd_def)
  have "(ok, s') = (ok1, cs_upd p (\<lambda>_. (ept s p)\<lparr>ce_writeActive := True, ce_SendBuffer := b\<rparr>) ?t)"
    using assms(4) f unfolding CCenterServer_SendMsgToEndpoint_def Let_def t CCenterEndpoint_SendMsg_def e by (simp add: b)
  then have s': "ok = ok1" "s' = cs_upd p (\<lambda>_. (ept s p)\<lparr>ce_writeActive := True, ce_SendBuffer := b\<rparr>) ?t" by auto
  have "ept s' = (ept s)(p := (ept s p)\<lparr>ce_writeActive := True, ce_SendBuffer := b\<rparr>)" "\<exists>pool. cs_mng s' = (cs_mng s)\<lparr>em_EndpointPool := pool\<rparr>"
    unfolding s'(2) by (auto simp: cs_upd_def em_upd_def)
  then show ?thesis using w s'(1) by (auto simp: relayed_def got_def)
qed

lemma relayed_Nil: "relayed msg R [] s s"
  by (auto simp: relayed_def intro: exI [of _ "em_EndpointPool (cs_mng s)"])

lemma relayed_Cons:
  assumes "relayed msg (\<lambda>_. ok) [p] s t" and "relayed msg R ps t u" and "p \<notin> set ps"
  shows "relayed msg (R(p := ok)) (p # ps) s u"
  using assms unfolding relayed_def by (auto split: if_splits) (metis)+

lemma relayed_rest:
  assumes "relayed msg R ps s s'"
  shows "em_listActive (cs_mng s') = em_listActive (cs_mng s)" and "of_type t (cs_mng s') = of_type t (cs_mng s)"
    and "em_mapEndpointServerID (cs_mng s') = em_mapEndpointServerID (cs_mng s)" and "em_mapEndpointType (cs_mng s') = em_mapEndpointType (cs_mng s)"
    and "\<forall>p. ce_Hnd (ept s' p) = ce_Hnd (ept s p) \<and> ce_Type (ept s' p) = ce_Type (ept s p) \<and> ce_Id (ept s' p) = ce_Id (ept s p)"
    and "sendable (ept s p) \<Longrightarrow> sendable (ept s' p)"
proof -
  show "em_listActive (cs_mng s') = em_listActive (cs_mng s)" "of_type t (cs_mng s') = of_type t (cs_mng s)"
    "em_mapEndpointServerID (cs_mng s') = em_mapEndpointServerID (cs_mng s)" "em_mapEndpointType (cs_mng s') = em_mapEndpointType (cs_mng s)"
    using assms by (auto simp: relayed_def of_type_def)
  have g: "got msg (R p) (ept s p) (ept s' p) \<or> ept s' p = ept s p" for p using assms by (auto simp: relayed_def split: if_splits)
  then show "\<forall>p. ce_Hnd (ept s' p) = ce_Hnd (ept s p) \<and> ce_Type (ept s' p) = ce_Type (ept s p) \<and> ce_Id (ept s' p) = ce_Id (ept s p)"
    using got_same by metis
  show "sendable (ept s p) \<Longrightarrow> sendable (ept s' p)" using g got_sendable by metis
qed

lemma em_inv_pool:
  assumes "em_inv E m" and "\<forall>q. ce_Hnd (pool q) = ce_Hnd (em_EndpointPool m q) \<and> ce_Type (pool q) = ce_Type (em_EndpointPool m q) \<and> ce_Id (pool q) = ce_Id (em_EndpointPool m q)"
  shows "em_inv E (m\<lparr>em_EndpointPool := pool\<rparr>)"
  using assms by (simp add: em_inv_def of_type_def)

lemma relayed_inv:
  assumes "relayed msg R ps s s'" and "em_inv E (cs_mng s)"
  shows "em_inv E (cs_mng s')"
proof -
  obtain pool where p: "cs_mng s' = (cs_mng s)\<lparr>em_EndpointPool := pool\<rparr>" using assms(1) by (auto simp: relayed_def)
  show ?thesis unfolding p by (rule em_inv_pool [OF assms(2)]) (use relayed_rest(5) [OF assms(1)] in \<open>simp add: p\<close>)
qed

lemma broadcast_list_relays:
  assumes "epoll_adds P" and "\<forall>p\<in>set ps. sendable (ept s p)" and "length msg < 2 ^ 31" and "distinct ps"
    and "set ps \<subseteq> set (em_listActive (cs_mng s))"
  shows "\<exists>R s'. broadcast_list P E msg ps s = Some s' \<and> relayed msg R ps s s'"
  using assms(2,4,5)
proof (induction ps arbitrary: s)
  case Nil
  then show ?case using relayed_Nil by auto
next
  case (Cons p ps)
  obtain ok t where t: "CCenterServer_SendMsgToEndpoint P E p msg s = (ok, t)" by fastforce
  have r: "relayed msg (\<lambda>_. ok) [p] s t" using SendMsgToEndpoint_relays [OF assms(1) _ assms(3) t] Cons.prems(1) by simp
  note f = relayed_rest [OF r]
  obtain R u where u: "broadcast_list P E msg ps t = Some u" "relayed msg R ps t u"
    using Cons.IH [of t] Cons.prems f(1,6) by auto
  then show ?case using relayed_Cons [OF r u(2)] Cons.prems t f(1) by auto
qed

lemma broadcast_vec_relays:
  assumes "epoll_adds P" and "length msg < 2 ^ 31" and "\<forall>p\<in>set (take n (drop i (of_type t (cs_mng s)))). sendable (ept s p)"
    and "distinct (of_type t (cs_mng s))" and "i + n \<le> length (of_type t (cs_mng s))"
  shows "\<exists>R s'. broadcast_vec P E msg t i n s = Some s' \<and> relayed msg R (take n (drop i (of_type t (cs_mng s)))) s s'"
  using assms(3,4,5)
proof (induction n arbitrary: i s)
  case 0
  then show ?case using relayed_Nil by auto
next
  case (Suc n)
  let ?v = "of_type t (cs_mng s)"
  have v: "take (Suc n) (drop i ?v) = ?v ! i # take n (drop (Suc i) ?v)" using Suc.prems(3) by (simp add: Cons_nth_drop_Suc [symmetric])
  have d: "?v ! i \<notin> set (take n (drop (Suc i) ?v))"
  proof -
    have "distinct (take (Suc n) (drop i ?v))" using Suc.prems(2) by simp
    then show ?thesis by (simp add: v)
  qed
  obtain ok x where x: "CCenterServer_SendMsgToEndpoint P E (?v ! i) msg s = (ok, x)" by fastforce
  have r: "relayed msg (\<lambda>_. ok) [?v ! i] s x" using SendMsgToEndpoint_relays [OF assms(1) _ assms(2) x] Suc.prems(1) by (simp add: v)
  note f = relayed_rest [OF r]
  obtain R u where u: "broadcast_vec P E msg t (Suc i) n x = Some u" "relayed msg R (take n (drop (Suc i) ?v)) x u"
    using Suc.IH [of "Suc i" x] Suc.prems f(2,6) by (auto simp: v)
  then show ?case using relayed_Cons [OF r u(2) d] x Suc.prems(3) by (auto simp: v)
qed

text \<open>The endpoints a message is meant for: the one with the server number, one of the candidates by the hash key, or all the candidates, which
  are the active endpoints of the type in the head or, for the type \<^verbatim>\<open>svr_none\<close>, all of them.\<close>

definition candidates :: "center_env \<Rightarrow> stCenterHead \<Rightarrow> CCenterEndpointManager \<Rightarrow> nat list" where
  "candidates E h m = filter (\<lambda>p. ch_des_type h = env_svr_none E \<or> ce_Type (em_EndpointPool m p) = ch_des_type h) (em_listActive m)"

definition targets :: "center_env \<Rightarrow> stCenterHead \<Rightarrow> CCenterEndpointManager \<Rightarrow> nat list" where
  "targets E h m =
     (case ch_route_type h of
        route_p2p \<Rightarrow> (case em_mapEndpointServerID m (ch_des_id h) of None \<Rightarrow> [] | Some p \<Rightarrow> [p])
      | route_hash \<Rightarrow> (let c = candidates E h m in if c = [] then [] else [c ! (unat (ch_hash_key h) mod length c)])
      | route_broadcast \<Rightarrow> candidates E h m
      | _ \<Rightarrow> [])"

lemma candidates_of_type:
  assumes "em_inv E m" and "ch_des_type h \<noteq> env_svr_none E" and "em_mapEndpointType m (ch_des_type h) \<noteq> None"
  shows "em_mapEndpointType m (ch_des_type h) = Some (candidates E h m)" and "of_type (ch_des_type h) m = candidates E h m"
proof -
  have "of_type (ch_des_type h) m = candidates E h m" using assms(1,2) by (simp add: em_inv_def candidates_def)
  then show "em_mapEndpointType m (ch_des_type h) = Some (candidates E h m)" "of_type (ch_des_type h) m = candidates E h m"
    using assms(3) by (auto simp: of_type_def)
qed

lemma candidates_all: "ch_des_type h = env_svr_none E \<Longrightarrow> candidates E h m = em_listActive m"
  by (simp add: candidates_def)

lemma targets_active:
  assumes "em_inv E m"
  shows "set (targets E h m) \<subseteq> set (em_listActive m)" and "distinct (targets E h m)"
proof -
  have c: "set (candidates E h m) \<subseteq> set (em_listActive m)" "distinct (candidates E h m)"
    using assms by (auto simp: candidates_def em_inv_def)
  moreover have "candidates E h m \<noteq> [] \<Longrightarrow> candidates E h m ! (k mod length (candidates E h m)) \<in> set (candidates E h m)" for k by simp
  ultimately show "set (targets E h m) \<subseteq> set (em_listActive m)"
    using assms by (auto simp: targets_def em_inv_def Let_def split: RouteType.splits option.splits simp del: nth_mem)
  show "distinct (targets E h m)" using c(2) by (auto simp: targets_def Let_def split: RouteType.splits option.splits)
qed

text \<open>A message that is not a broadcast goes to at most one endpoint.\<close>

lemma DealCenterMsg_single:
  assumes "em_inv E (cs_mng s)" and "length msg \<le> env_MSG_SIZE E + 4" and "h = env_head E msg" and "ch_route_type h = route_p2p \<or> ch_route_type h = route_hash"
    and "ch_route_type h = route_p2p \<Longrightarrow> ch_des_id h \<noteq> 0"
    and "ch_route_type h = route_hash \<Longrightarrow> ch_des_type h \<noteq> env_svr_none E \<Longrightarrow> em_mapEndpointType (cs_mng s) (ch_des_type h) \<noteq> None"
  shows "CCenterServer_DealCenterMsg P E src msg s
    = (case targets E h (cs_mng s) of [] \<Rightarrow> Some (False, s) | p # _ \<Rightarrow> Some (CCenterServer_SendMsgToEndpoint P E p msg s))"
proof -
  have id: "em_mapEndpointServerID (cs_mng s) i = Some p \<Longrightarrow> ce_Id (ept s p) = i" for i p using assms(1) by (simp add: em_inv_def)
  show ?thesis
  proof (cases "ch_route_type h = route_p2p")
    case True
    have "em_mapEndpointServerID (cs_mng s) (ch_des_id h) = Some p \<Longrightarrow> em_mapEndpointServerID (cs_mng s) 0 \<noteq> Some p" for p
      using id assms(5) [OF True] by metis
    then show ?thesis using assms(2,3) True
      by (cases "em_mapEndpointServerID (cs_mng s) (ch_des_id h)")
        (auto simp: CCenterServer_DealCenterMsg_def targets_def CCenterEndpointManager_GetEndpointBySvrId_def Let_def)
  next
    case False
    then have r: "ch_route_type h = route_hash" using assms(4) by simp
    have d: "\<not> length msg > env_MSG_SIZE E + 4" using assms(2) by simp
    show ?thesis
    proof (cases "ch_des_type h = env_svr_none E")
      case True
      show ?thesis unfolding CCenterServer_DealCenterMsg_def if_not_P [OF d] assms(3) [symmetric]
        using True r by (simp add: targets_def candidates_all [OF True] Let_def)
    next
      case False
      show ?thesis unfolding CCenterServer_DealCenterMsg_def if_not_P [OF d] assms(3) [symmetric]
        using False r candidates_of_type(1) [OF assms(1) False assms(6) [OF r False]]
        by (simp add: targets_def CCenterEndpointManager_GetEndpointBySvrType_def Let_def)
    qed
  qed
qed

lemma DealCenterMsg_broadcast:
  assumes "em_inv E (cs_mng s)" and "epoll_adds P" and "\<forall>p\<in>set (em_listActive (cs_mng s)). sendable (ept s p)"
    and "length msg \<le> env_MSG_SIZE E + 4" and "length msg < 2 ^ 31" and "h = env_head E msg" and "ch_route_type h = route_broadcast"
    and "ch_des_type h \<noteq> env_svr_none E \<Longrightarrow> em_mapEndpointType (cs_mng s) (ch_des_type h) \<noteq> None"
  shows "\<exists>R ok s'. CCenterServer_DealCenterMsg P E src msg s = Some (ok, s') \<and> relayed msg R (targets E h (cs_mng s)) s s'"
proof -
  let ?c = "candidates E h (cs_mng s)"
  have t: "targets E h (cs_mng s) = ?c" using assms(7) by (simp add: targets_def)
  have d: "\<not> length msg > env_MSG_SIZE E + 4" using assms(4) by simp
  have s: "\<forall>p\<in>set ?c. sendable (ept s p)" using targets_active(1) [OF assms(1), of h] assms(3) unfolding t by blast
  have dist: "distinct ?c" using targets_active(2) [OF assms(1), of h] unfolding t .
  show ?thesis
  proof (cases "ch_des_type h = env_svr_none E")
    case True
    note c = candidates_all [OF True]
    show ?thesis
    proof (cases "em_listActive (cs_mng s) = []")
      case True
      then have "CCenterServer_DealCenterMsg P E src msg s = Some (False, s)"
        unfolding CCenterServer_DealCenterMsg_def if_not_P [OF d] using assms(6,7) \<open>ch_des_type h = env_svr_none E\<close> by (simp add: Let_def)
      then show ?thesis using relayed_Nil True by (auto simp: t c)
    next
      case False
      obtain R s' where "broadcast_list P E msg (em_listActive (cs_mng s)) s = Some s'" "relayed msg R ?c s s'"
        using broadcast_list_relays [OF assms(2) s assms(5) dist, of E] by (auto simp: c)
      then show ?thesis unfolding t CCenterServer_DealCenterMsg_def if_not_P [OF d] assms(6) [symmetric]
        using assms(7) True False by (auto simp: Let_def)
    qed
  next
    case False
    note c = candidates_of_type [OF assms(1) False assms(8) [OF False]]
    obtain R s' where "broadcast_vec P E msg (ch_des_type h) 0 (length ?c) s = Some s'" "relayed msg R ?c s s'"
      using broadcast_vec_relays [OF assms(2,5), of "length ?c" 0 "ch_des_type h" s E] s dist by (auto simp: c(2))
    then show ?thesis unfolding t CCenterServer_DealCenterMsg_def if_not_P [OF d] assms(6) [symmetric]
      using assms(7) False c(1) by (auto simp: CCenterEndpointManager_GetEndpointBySvrType_def Let_def)
  qed
qed

subsection \<open>Output\<close>

lemma ReadSlip_content:
  assumes "cb_wf b" and "k \<le> length (cb_content b)"
  shows "cb_content (snd (CBuffer_ReadSlip (word_of_nat k) b)) = drop k (cb_content b)" and "cb_wf (snd (CBuffer_ReadSlip (word_of_nat k) b))"
proof -
  have k: "k < 2 ^ 31" using assms cb_wf_nat [OF assms(1)] by (simp add: length_cb_content)
  have "snd (CBuffer_ReadSlip n b) = snd (CBuffer_ReadBuf n b)" for n by (simp add: CBuffer_ReadBuf_def split: prod.split bool.split)
  then show "cb_content (snd (CBuffer_ReadSlip (word_of_nat k) b)) = drop k (cb_content b)" "cb_wf (snd (CBuffer_ReadSlip (word_of_nat k) b))"
    using ReadBuf_ok [OF assms(1) k] assms(2) by (metis prod.collapse)+
qed

lemma sint_small:
  fixes w :: uint32
  assumes "unat w < 2 ^ 31"
  shows "sint w = int (unat w)"
proof -
  have "int (unat w) < int (2 ^ 31)" using assms by (simp only: of_nat_less_iff)
  then have "uint w < 2 ^ 31" by simp
  then have "signed_take_bit 31 (uint w) = uint w" by (intro signed_take_bit_int_eq_self) (use order.trans [of "- (2 ^ 31)" 0 "uint w"] in simp_all)
  then show ?thesis by (simp add: sint_uint)
qed

lemma ReadSize_content:
  assumes "cb_wf b"
  shows "sint (CBuffer_ReadSize b) = int (length (cb_content b))" and "bytes_at b (length (cb_content b)) = cb_content b"
proof -
  note w = cb_wf_nat [OF assms]
  have "unat (CBuffer_ReadSize b) = length (cb_content b)" using w by (simp add: CBuffer_ReadSize_def length_cb_content [OF assms])
  moreover have "length (cb_content b) < 2 ^ 31" using w by (simp add: length_cb_content [OF assms])
  ultimately show "sint (CBuffer_ReadSize b) = int (length (cb_content b))" by (simp add: sint_small)
  show "bytes_at b (length (cb_content b)) = cb_content b" by (simp add: bytes_at_def length_cb_content [OF assms] cb_content_def)
qed

lemma onWriteEv_sends:
  assumes "cb_wf (ce_SendBuffer e)" and "cb_content (ce_SendBuffer e) \<noteq> []"
    and "net_tcp_send P (ce_Sockfd e) (cb_content (ce_SendBuffer e)) os = Some (int k, os')" and "0 < k"
  shows "\<exists>b. CCenterEndpoint_onWriteEv P e os = Some (if k = length (cb_content (ce_SendBuffer e)) then write_buffer_empty else error_none, e\<lparr>ce_SendBuffer := b\<rparr>, os')
    \<and> cb_wf b \<and> cb_content b = drop k (cb_content (ce_SendBuffer e))"
proof -
  let ?b = "ce_SendBuffer e"
  note r = ReadSize_content [OF assms(1)]
  have k: "k \<le> length (cb_content ?b)" using net_tcp_send_len [OF assms(3)] by simp
  note d = ReadSlip_content [OF assms(1) k]
  have z: "sint (CBuffer_ReadSize (snd (CBuffer_ReadSlip (word_of_nat k) ?b))) = int (length (cb_content ?b) - k)"
    using ReadSize_content(1) [OF d(2)] d(1) by simp
  have "CCenterEndpoint_onWriteEv P e os = Some (if k = length (cb_content ?b) then write_buffer_empty else error_none,
      e\<lparr>ce_SendBuffer := snd (CBuffer_ReadSlip (word_of_nat k) ?b)\<rparr>, os')"
    using assms k z by (simp add: CCenterEndpoint_onWriteEv_def r Let_def)
  then show ?thesis using d by blast
qed

text \<open>The write event of a connection: the kernel takes \<open>k\<close> of the waiting bytes.\<close>

lemma HandleTcpWrite_sends:
  fixes s :: "'os CCenterServer"
  assumes "sendable (ept s p)" and "b = ce_SendBuffer (ept s p)" and "cb_content b \<noteq> []"
    and "net_tcp_send P (ce_Sockfd (ept s p)) (cb_content b) (cs_os s) = Some (int k, os')" and "0 < k"
  obtains e s' where "CCenterServer_HandleTcpWrite P (Some p) s = Some (k = length (cb_content b), s')"
    and "cs_mng s' = em_upd p (\<lambda>_. e) (cs_mng s)" and "cs_ReadEpoll s' = cs_ReadEpoll s" and "cb_content (ce_SendBuffer e) = drop k (cb_content b)"
    and "k = length (cb_content b) \<Longrightarrow> \<not> ce_writeActive e"
proof -
  have w: "cb_wf (ce_SendBuffer (ept s p))" "ce_Sockfd (ept s p) \<noteq> 0" using assms(1) by (auto simp: sendable_def)
  from onWriteEv_sends [OF w(1) assms(3,4) [unfolded assms(2)] assms(5)]
  obtain c where c: "CCenterEndpoint_onWriteEv P (ept s p) (cs_os s)
      = Some (if k = length (cb_content b) then write_buffer_empty else error_none, (ept s p)\<lparr>ce_SendBuffer := c\<rparr>, os')" "cb_content c = drop k (cb_content b)"
    unfolding assms(2) by blast
  show ?thesis
  proof (cases "k = length (cb_content b)")
    case True
    let ?e = "(ept s p)\<lparr>ce_SendBuffer := c, ce_writeActive := False\<rparr>"
    show ?thesis
      by (rule that [of "snd (CCenterServer_DeactiveWrite P p (cs_upd p (\<lambda>_. (ept s p)\<lparr>ce_SendBuffer := c\<rparr>) (s\<lparr>cs_os := os'\<rparr>)))" ?e])
        (use c True w in \<open>simp_all add: CCenterServer_HandleTcpWrite_def CCenterServer_DeactiveWrite_def endpoint_ret_defs cs_upd_def em_upd_def write_del_def\<close>)
  next
    case False
    show ?thesis
      by (rule that [of "cs_upd p (\<lambda>_. (ept s p)\<lparr>ce_SendBuffer := c\<rparr>) (s\<lparr>cs_os := os'\<rparr>)" "(ept s p)\<lparr>ce_SendBuffer := c\<rparr>"])
        (use c False in \<open>simp_all add: CCenterServer_HandleTcpWrite_def endpoint_ret_defs cs_upd_def\<close>)
  qed
qed

text \<open>A message that is not a registration is appended, whole and once, to the send buffers of exactly the endpoints it is meant for, by
  server number, by hash key among the active endpoints of a type, or to all of those, unless a buffer is too full for it. No other endpoint
  changes, and the pool stays consistent. For one destination the result tells whether it has taken the message.\<close>

lemma DealCenterMsg_relays:
  assumes "em_inv E (cs_mng s)" and "epoll_adds P" and "\<forall>p\<in>set (em_listActive (cs_mng s)). sendable (ept s p)"
    and "length msg \<le> env_MSG_SIZE E + 4" and "length msg < 2 ^ 31" and "h = env_head E msg" and "ch_route_type h \<in> {route_p2p, route_hash, route_broadcast}"
    and "ch_route_type h = route_p2p \<Longrightarrow> ch_des_id h \<noteq> 0"
    and "ch_route_type h \<noteq> route_p2p \<Longrightarrow> ch_des_type h \<noteq> env_svr_none E \<Longrightarrow> em_mapEndpointType (cs_mng s) (ch_des_type h) \<noteq> None"
  shows "\<exists>R ok s'. CCenterServer_DealCenterMsg P E src msg s = Some (ok, s') \<and> relayed msg R (targets E h (cs_mng s)) s s' \<and> em_inv E (cs_mng s')
    \<and> (ch_route_type h \<noteq> route_broadcast \<longrightarrow> (ok \<longleftrightarrow> (\<exists>p\<in>set (targets E h (cs_mng s)). R p)))"
proof (cases "ch_route_type h = route_broadcast")
  case True
  have "ch_des_type h \<noteq> env_svr_none E \<Longrightarrow> em_mapEndpointType (cs_mng s) (ch_des_type h) \<noteq> None" using True assms(9) by simp
  from DealCenterMsg_broadcast [OF assms(1-6) True this]
  obtain R ok s' where r: "CCenterServer_DealCenterMsg P E src msg s = Some (ok, s')" "relayed msg R (targets E h (cs_mng s)) s s'" by blast
  from relayed_inv [OF r(2) assms(1)] show ?thesis using r True by blast
next
  case False
  then have u: "ch_route_type h = route_p2p \<or> ch_route_type h = route_hash" using assms(7) by auto
  note d = DealCenterMsg_single [OF assms(1,4,6) u assms(8), of P src]
  show ?thesis
  proof (cases "targets E h (cs_mng s)")
    case Nil
    then show ?thesis using d assms(1,9) relayed_Nil by fastforce
  next
    case (Cons p ps)
    then have ps: "ps = []" using u by (auto simp: targets_def Let_def split: option.splits if_splits)
    obtain ok s' where s: "CCenterServer_SendMsgToEndpoint P E p msg s = (ok, s')" by fastforce
    have "sendable (ept s p)" using targets_active(1) [OF assms(1), of h] assms(3) Cons by auto
    note r = SendMsgToEndpoint_relays [OF assms(2) this assms(5) s]
    have "CCenterServer_DealCenterMsg P E src msg s = Some (ok, s')" using d assms(9) Cons s by auto
    then show ?thesis using r relayed_inv [OF r assms(1)] by (auto simp: Cons ps intro!: exI [of _ "\<lambda>_. ok"])
  qed
qed

subsection \<open>From input to output\<close>

text \<open>A received message changes the two receive buffers of its connection only.\<close>

lemma HandleTcpRead_message:
  assumes "rx_ready E (ept s p)" and "net_tcp_recv P (ce_Sockfd (ept s p)) False (env_MSG_BUF_LEN E) (cs_os s) = Some (int (length bs), bs, os')" and "whole_message E bs"
  obtains t b where "CCenterServer_HandleTcpRead P E (Some p) s
      = CCenterServer_DealCenterMsg P E p bs (cs_upd p (\<lambda>e. e\<lparr>ce_RevTmp := t, ce_RevBuffer := b\<rparr>) (s\<lparr>cs_os := os'\<rparr>))"
    and "rx_ready E ((ept s p)\<lparr>ce_RevTmp := t, ce_RevBuffer := b\<rparr>)"
proof -
  obtain t b1 b2 where r: "CCenterEndpoint_onReadEv P E (ept s p) (cs_os s) = Some (error_none, (ept s p)\<lparr>ce_RevTmp := t, ce_RevBuffer := b1\<rparr>, os')"
      "CCenterEndpoint_ReadMsg E ((ept s p)\<lparr>ce_RevTmp := t, ce_RevBuffer := b1\<rparr>) = (read_msg_complete, bs, (ept s p)\<lparr>ce_RevTmp := t, ce_RevBuffer := b2\<rparr>)"
      "rx_ready E ((ept s p)\<lparr>ce_RevTmp := t, ce_RevBuffer := b2\<rparr>)"
    using receive_message [OF assms] by blast
  show ?thesis
    by (rule that [OF _ r(3)]) (use r(1,2) in \<open>simp add: CCenterServer_HandleTcpRead_def endpoint_ret_defs cs_upd_def em_upd_def Let_def\<close>)
qed

text \<open>A message that arrives in two pieces is taken for an error, and the caller closes the connection.\<close>

lemma incomplete_message_closes:
  assumes "rx_ready E (ept s p)" and "net_tcp_recv P (ce_Sockfd (ept s p)) False (env_MSG_BUF_LEN E) (cs_os s) = Some (int (length bs), bs, os')"
    and "whole_message E (bs @ rest)" and "bs \<noteq> []" and "rest \<noteq> []"
  shows "\<exists>s'. CCenterServer_HandleTcpRead P E (Some p) s = Some (False, s')"
proof -
  obtain t where "CCenterEndpoint_onReadEv P E (ept s p) (cs_os s) = Some (error_none, (ept s p)\<lparr>ce_RevTmp := t\<rparr>, os')"
      "CCenterEndpoint_ReadMsg E ((ept s p)\<lparr>ce_RevTmp := t\<rparr>) = (0, [], (ept s p)\<lparr>ce_RevTmp := t\<rparr>)"
    using receive_incomplete [OF assms] by blast
  then show ?thesis by (simp add: CCenterServer_HandleTcpRead_def endpoint_ret_defs cs_upd_def em_upd_def Let_def)
qed

lemma targets_cong:
  assumes "\<forall>q. ce_Type (pool q) = ce_Type (em_EndpointPool m q)"
  shows "targets E h (m\<lparr>em_EndpointPool := pool\<rparr>) = targets E h m"
proof -
  have "candidates E h (m\<lparr>em_EndpointPool := pool\<rparr>) = candidates E h m" using assms by (simp add: candidates_def)
  then show ?thesis by (simp add: targets_def cong: RouteType.case_cong)
qed

lemma rx_ready_cong: "ce_RevTmp e' = ce_RevTmp e \<Longrightarrow> ce_RevBuffer e' = ce_RevBuffer e \<Longrightarrow> rx_ready E e' = rx_ready E e"
  by (simp add: rx_ready_def)

lemma relayed_content:
  assumes "relayed msg R ps s s'"
  shows "cb_content (ce_SendBuffer (ept s' p)) = cb_content (ce_SendBuffer (ept s p)) @ (if p \<in> set ps \<and> R p then msg else [])"
    and "ce_RevTmp (ept s' p) = ce_RevTmp (ept s p)" and "ce_RevBuffer (ept s' p) = ce_RevBuffer (ept s p)"
proof -
  have "if p \<in> set ps then got msg (R p) (ept s p) (ept s' p) else ept s' p = ept s p" using assms by (simp add: relayed_def)
  then show "cb_content (ce_SendBuffer (ept s' p)) = cb_content (ce_SendBuffer (ept s p)) @ (if p \<in> set ps \<and> R p then msg else [])"
    "ce_RevTmp (ept s' p) = ce_RevTmp (ept s p)" "ce_RevBuffer (ept s' p) = ce_RevBuffer (ept s p)"
    by (auto simp: got_def split: if_splits)
qed

subsection \<open>Properties\<close>

text \<open>An example: endpoint 2 listens, endpoint 1 is server 5 of type 2, endpoint 0 is a connection that has not registered.\<close>

definition demo_net :: "nat netcalls" where
  "demo_net = posix.extend quiet_os
     \<lparr>nc_socket_udp = (\<lambda>os. (3, os)), nc_set_bufsize = (\<lambda>_ _ _ os. os), nc_get_bufsize = (\<lambda>_ os. ((0, 0), os)), nc_bind = (\<lambda>_ _ os. (True, os)),
      nc_listen = (\<lambda>_ _ os. (True, os)), nc_connect = (\<lambda>_ _ os. (True, os)), nc_accept = (\<lambda>_ os. (Inl EAGAIN, os)), nc_sendto = (\<lambda>_ bs _ os. (Inr (length bs), os)),
      nc_recvfrom = (\<lambda>_ _ os. (Inl EAGAIN, os)), nc_select = (\<lambda>_ _ _ _ os. (0, os)), nc_read = (\<lambda>_ _ os. ((0, []), os)),
      nc_epoll_add = (\<lambda>_ _ _ _ os. (True, os)), nc_epoll_mod = (\<lambda>_ _ _ _ os. (True, os)), nc_epoll_create = (\<lambda>_ os. (4, os)), nc_epoll_wait = (\<lambda>_ _ _ os. (None, os)),
      nc_inet_addr = (\<lambda>_. 0), nc_inet_ntoa = (\<lambda>_. []), nc_setrlimit = (\<lambda>_ os. (True, os)), nc_getrlimit = (\<lambda>os. (1024, os)), nc_ptr_fd = (\<lambda>_. 0)\<rparr>"

definition demo_endpoint :: "nat \<Rightarrow> CCenterEndpoint" where
  "demo_endpoint i = (CCenterEndpoint_Init i (CCenterEndpoint_new demo_env 7))\<lparr>ce_Id := (if i = 1 then 5 else 0), ce_Type := (if i = 1 then 2 else if i = 2 then 1 else 0)\<rparr>"

definition demo_center :: "nat option \<Rightarrow> uint32 \<Rightarrow> byte list \<Rightarrow> nat CCenterServer" where
  "demo_center ptr ev bs =
     (let ep = \<lparr>ep_Efd = 4, ep_MaxFd = 8, ep_pstEvents = (\<lambda>_. \<lparr>ce_events = ev, ce_ptr = ptr\<rparr>)\<rparr>;
          buf = \<lparr>cb_buffer = mem_write mem_zero 0 bs, cb_writePos = word_of_nat (length bs), cb_readPos = 0, cb_realcSize = 96, cb_curSzie = 96, cb_maxSize = 4800\<rparr>
      in \<lparr>cs_bShutDwon = False,
          cs_mng = \<lparr>em_MaxPoint = 3, em_EndpointPool = (\<lambda>i. (demo_endpoint i)\<lparr>ce_SendBuffer := buf\<rparr>), em_vecFree = [], em_listActive = [2, 1],
            em_mapEndpointType = [1 \<mapsto> [2], 2 \<mapsto> [1]], em_mapEndpointServerID = [0 \<mapsto> 2, 5 \<mapsto> 1]\<rparr>,
          cs_lastWriteTime = 0, cs_ReadEpoll = ep, cs_WriteEpoll = ep, cs_GameTime = CGameTime_new demo_tz 1, cs_os = 0\<rparr>)"

definition demo_route :: stCenterHead where
  "demo_route = \<lparr>ch_src_type = 3, ch_src_id = 6, ch_des_type = 2, ch_des_id = 5, ch_session_id = 0, ch_route_type = route_p2p, ch_hash_key = 0, ch_center_index = 0\<rparr>"

lemma demo_endpoint_fields:
  "ce_Hnd (demo_endpoint i) = i" "ce_Id (demo_endpoint i) = (if i = 1 then 5 else 0)" "ce_Sockfd (demo_endpoint i) = 7"
  "ce_Type (demo_endpoint i) = (if i = 1 then 2 else if i = 2 then 1 else 0)"
  by (simp_all add: demo_endpoint_def CCenterEndpoint_Init_def CCenterEndpoint_new_def Let_def)

lemma demo_center_sendable: "length bs \<le> 96 \<Longrightarrow> sendable (ept (demo_center ptr ev bs) p)"
  by (simp add: demo_center_def sendable_def demo_endpoint_fields cb_wf_def word_le_nat_alt unat_of_nat Let_def)

lemma demo_center_inv: "em_inv (demo_env\<lparr>env_head := f\<rparr>) (cs_mng (demo_center ptr ev bs))"
  by (auto simp: em_inv_def demo_center_def demo_endpoint_fields of_type_def demo_env_def Let_def less_Suc_eq numeral_3_eq_3)

lemma demo_net_adds: "epoll_adds demo_net"
  by (simp add: epoll_adds_def demo_net_def posix.defs)



text \<open>C40. A connection that fails before it has registered takes the center with it. Its endpoint still has the server number 0, so releasing it removes the entry of the listening
  endpoint; if another event is waiting in the same round, the center then dereferences a null pointer.\<close>

theorem unregistered_close_stops_center:
  assumes "CEpoll_GetDataPtr 0 (cs_ReadEpoll s) = Some p" and "CEpoll_IsEvErr (CEpoll_GetEvents 0 (cs_ReadEpoll s))"
    and "ce_Id (ept s p) = 0" and "em_mapEndpointServerID (cs_mng s) 0 \<noteq> Some p"
  shows "(\<exists>s'. events_loop (read_event P E) 0 1 s = Some s' \<and> em_mapEndpointServerID (cs_mng s') 0 = None)
    \<and> events_loop (read_event P E) 0 (n + 2) s = None"
proof -
  obtain s' where s': "read_event P E 0 s = Some s'" "em_mapEndpointServerID (cs_mng s') = (em_mapEndpointServerID (cs_mng s))(0 := None)"
    using read_event_error [OF assms(1,4,2), of P E] assms(3) by auto
  have "events_loop (read_event P E) 0 (n + 2) s = events_loop (read_event P E) 1 (n + 1) s'" using s'(1) by simp
  also have "\<dots> = None" using s'(2) by (subst read_events_later) simp_all
  finally show ?thesis using s' by simp
qed

theorem unregistered_close_stops_center_witness:
  "events_loop (read_event demo_net demo_env) 0 2 (demo_center (Some 0) EPOLLHUP []) = None"
proof -
  let ?s = "demo_center (Some 0) EPOLLHUP []"
  have "CEpoll_GetDataPtr 0 (cs_ReadEpoll ?s) = Some 0" "ce_Id (ept ?s 0) = 0" "em_mapEndpointServerID (cs_mng ?s) 0 \<noteq> Some 0"
    "CEpoll_IsEvErr (CEpoll_GetEvents 0 (cs_ReadEpoll ?s))"
    by (simp_all add: demo_center_def CEpoll_GetDataPtr_def CEpoll_GetEvents_def CEpoll_IsEvErr_def epoll_defs demo_endpoint_fields Let_def)
  from unregistered_close_stops_center [OF this(1,4,2,3), of demo_net demo_env 0] show ?thesis by (simp add: numeral_2_eq_2)
qed

text \<open>Output is all or nothing: at a write event the bytes waiting for a connection are offered to the kernel in order. If it takes all of them,
  the connection is no longer watched for writing. If it takes only some, the connection is closed, its endpoint
  released, and the rest is lost.\<close>

lemma write_event_all_or_close:
  assumes "sendable (ept s p)" and "b = ce_SendBuffer (ept s p)" and "cb_content b \<noteq> []" and "CEpoll_GetDataPtr 0 (cs_ReadEpoll s) = Some p"
    and "\<not> CEpoll_IsEvErr (CEpoll_GetEvents 0 (cs_WriteEpoll s))" and "CEpoll_IsEvWrite (CEpoll_GetEvents 0 (cs_WriteEpoll s))"
    and "net_tcp_send P (ce_Sockfd (ept s p)) (cb_content b) (cs_os s) = Some (int k, os')" and "0 < k"
  shows "\<exists>s'. write_event P E 0 s = Some s' \<and> cb_content (ce_SendBuffer (ept s' p)) = []
    \<and> (if k = length (cb_content b) then em_vecFree (cs_mng s') = em_vecFree (cs_mng s) \<and> \<not> ce_writeActive (ept s' p)
       else em_vecFree (cs_mng s') = em_vecFree (cs_mng s) @ [p])"
proof -
  obtain e t where t: "CCenterServer_HandleTcpWrite P (Some p) s = Some (k = length (cb_content b), t)" "cs_mng t = em_upd p (\<lambda>_. e) (cs_mng s)"
      "cs_ReadEpoll t = cs_ReadEpoll s" "cb_content (ce_SendBuffer e) = drop k (cb_content b)" "k = length (cb_content b) \<Longrightarrow> \<not> ce_writeActive e"
    using HandleTcpWrite_sends [OF assms(1-3,7,8)] by metis
  show ?thesis
  proof (cases "k = length (cb_content b)")
    case True
    then have "write_event P E 0 s = Some t" using assms(4-6) t(1) by (simp add: write_event_def Let_def)
    then show ?thesis using True t(2,4,5) by (simp add: em_upd_def)
  next
    case False
    let ?u = "write_del P (CEpoll_GetDataFd P 0 (cs_ReadEpoll t)) (read_del P (CEpoll_GetDataFd P 0 (cs_ReadEpoll t)) t)"
    have "write_event P E 0 s = Some (cs_release P E (Some p) ?u)" using False assms(4-6) t(1) by (simp add: write_event_def Let_def)
    moreover obtain m os where r: "CCenterEndpointManager_ReleaseEndpoint P E (Some p) (cs_mng ?u) (cs_os ?u) = (m, os)" by fastforce
    ultimately show ?thesis using False ReleaseEndpoint_fields(1,3) [OF r] t(2)
      by (auto simp: cs_release_def CCenterEndpoint_Reset_def CBuffer_Reset_def cb_content_def em_upd_def)
  qed
qed

end
