(* ===== verification/TcpClient.thy ===== *)
theory TcpClient
  imports NetUtil
begin

text \<open>
  \<^verbatim>\<open>tmp/tcp_client\<close>: the blocking or non-blocking client connection over the functions of \<^verbatim>\<open>net_util.hpp\<close>. The only state is the descriptor; 0 means no connection.
\<close>

record CTcpClient =
  tc_iSock :: int

definition CTcpClient_new :: CTcpClient where
  "CTcpClient_new = \<lparr>tc_iSock = 0\<rparr>"

definition CTcpClient_Close :: "('os, 'x) netcalls_scheme \<Rightarrow> CTcpClient \<Rightarrow> 'os \<Rightarrow> CTcpClient \<times> 'os" where
  "CTcpClient_Close P c os = (if tc_iSock c > 0 then (c\<lparr>tc_iSock := 0\<rparr>, net_close P (tc_iSock c) os) else (c, os))"

definition CTcpClient_Connect :: "('os, 'x) netcalls_scheme \<Rightarrow> string \<Rightarrow> uint32 \<Rightarrow> bool \<Rightarrow> CTcpClient \<Rightarrow> 'os \<Rightarrow> int \<times> CTcpClient \<times> 'os" where
  "CTcpClient_Connect P pszIpStr port bNoBlockFlag c os =
     (let (c, os) = (if tc_iSock c \<noteq> 0 then CTcpClient_Close P c os else (c, os));
          (fd, os) = net_tcp_sock P os;
          c = c\<lparr>tc_iSock := fd\<rparr>
      in if tc_iSock c \<le> 0 then (-1, c, os)
         else (case net_connect P (tc_iSock c) pszIpStr port os of
                 (iRet, os) \<Rightarrow>
                   if iRet \<noteq> 0 then (case CTcpClient_Close P c os of (c, os) \<Rightarrow> (-2, c, os))
                   else let os = (if bNoBlockFlag then snd (net_set_nonblocking P (tc_iSock c) os) else os)
                        in (tc_iSock c, c, os)))"

definition CTcpClient_Send :: "('os, 'x) netcalls_scheme \<Rightarrow> byte list \<Rightarrow> CTcpClient \<Rightarrow> 'os \<Rightarrow> (int \<times> 'os) option" where
  "CTcpClient_Send P bs c os = net_tcp_send P (tc_iSock c) bs os"

definition CTcpClient_Recv :: "('os, 'x) netcalls_scheme \<Rightarrow> bool \<Rightarrow> nat \<Rightarrow> CTcpClient \<Rightarrow> 'os \<Rightarrow> (int \<times> byte list \<times> 'os) option" where
  "CTcpClient_Recv P null iLen c os = net_tcp_recv P (tc_iSock c) null iLen os"

subsection \<open>Descriptors\<close>

text \<open>A client has an open descriptor exactly when \<^verbatim>\<open>Connect\<close> has returned it: \<open>opened\<close> counts the sockets created less the sockets closed. What is used of the
  system is that a socket that is created is counted, that closing one takes it off and that the other calls leave the count.\<close>

definition counts_fds :: "('os, 'x) netcalls_scheme \<Rightarrow> ('os \<Rightarrow> int) \<Rightarrow> bool" where
  "counts_fds P opened \<longleftrightarrow> (\<forall>os. opened (snd (sys_socket P os)) = opened os + (if fst (sys_socket P os) > 0 then 1 else 0))
     \<and> (\<forall>fd os. opened (sys_close P fd os) = opened os - 1)
     \<and> (\<forall>fd addr os. opened (snd (nc_connect P fd addr os)) = opened os)
     \<and> (\<forall>fd os. opened (snd (sys_fcntl_getfl P fd os)) = opened os \<and> opened (snd (sys_fcntl_nonblock P fd os)) = opened os)"

abbreviation held :: "CTcpClient \<Rightarrow> int" where
  "held c \<equiv> if tc_iSock c > 0 then 1 else 0"

lemma Close_counts:
  assumes "counts_fds P opened" and "CTcpClient_Close P c os = (c', os')"
  shows "tc_iSock c' \<le> 0" and "opened os' = opened os - held c"
  using assms by (auto simp: CTcpClient_Close_def net_close_def counts_fds_def split: if_splits)

lemma nonblocking_counts: "counts_fds P opened \<Longrightarrow> opened (snd (net_set_nonblocking P fd os)) = opened os"
  by (simp add: net_set_nonblocking_def counts_fds_def split: prod.split) (metis snd_conv)

lemma Connect_keeps_one_descriptor:
  assumes "counts_fds P opened" and "CTcpClient_Connect P ip port nb c os = (r, c', os')"
  shows "opened os' - held c' = opened os - held c" and "0 < r \<longleftrightarrow> 0 < tc_iSock c'" and "0 < r \<Longrightarrow> tc_iSock c' = r"
proof -
  obtain c1 os1 where 1: "(if tc_iSock c \<noteq> 0 then CTcpClient_Close P c os else (c, os)) = (c1, os1)" by fastforce
  have o1: "opened os1 = opened os - held c" using 1 Close_counts [OF assms(1)] by (auto split: if_splits)
  obtain fd os2 where 2: "sys_socket P os1 = (fd, os2)" by fastforce
  have o2: "opened os2 = opened os1 + (if fd > 0 then 1 else 0)" using assms(1) 2 unfolding counts_fds_def by (metis fst_conv snd_conv)
  let ?c = "c1\<lparr>tc_iSock := fd\<rparr>"
  obtain ret os3 where 3: "net_connect P fd ip port os2 = (ret, os3)" by fastforce
  have o3: "opened os3 = opened os2"
    using assms(1) 3 by (simp add: net_connect_def counts_fds_def split: prod.splits) (metis snd_conv)
  obtain c4 os4 where 4: "CTcpClient_Close P ?c os3 = (c4, os4)" by fastforce
  note o4 = Close_counts [OF assms(1) 4]
  note o5 = nonblocking_counts [OF assms(1), of fd os3]
  have "opened os' - held c' = opened os - held c \<and> (0 < r \<longleftrightarrow> 0 < tc_iSock c') \<and> (0 < r \<longrightarrow> tc_iSock c' = r)"
    using assms(2) o1 o2 o3 o4 o5 unfolding CTcpClient_Connect_def 1
    by (simp add: net_tcp_sock_def 2 3 4 Let_def split: if_splits) (auto split: if_splits)
  then show "opened os' - held c' = opened os - held c" "0 < r \<longleftrightarrow> 0 < tc_iSock c'" "0 < r \<Longrightarrow> tc_iSock c' = r" by auto
qed

end
