(* ===== verification/FakeRandom.thy ===== *)
theory FakeRandom
  imports Prelude
begin

text \<open>
  \<^verbatim>\<open>tmp/fake_random\<close>: the pseudo-random generator, a linear congruential generator of which three steps give one number of 31 bits. The
  functions return the number and the new seed. Floating-point numbers are not part of the model: the comparisons of a
  rate with 0 and 1 and its scaled value are arguments of \<^verbatim>\<open>Lottery\<close>.
\<close>

unbundle bit_operations_syntax

definition lcg :: "uint32 \<Rightarrow> uint32" where
  "lcg next = next * 1103515245 + 12345"

definition CFakeRandom_SetSeed :: "uint32 \<Rightarrow> uint32 \<Rightarrow> uint32" where
  "CFakeRandom_SetSeed uiSeed seed = uiSeed"

definition CFakeRandom_Random :: "uint32 \<Rightarrow> uint32 \<times> uint32" where
  "CFakeRandom_Random seed =
     (let next = lcg seed;
          result = (next div 65536) mod 2048;
          next = lcg next;
          result = push_bit 10 result XOR ((next div 65536) mod 1024);
          next = lcg next;
          result = push_bit 10 result XOR ((next div 65536) mod 1024)
      in (result, next))"

definition CFakeRandom_Random_range :: "uint32 \<Rightarrow> uint32 \<Rightarrow> uint32 \<times> uint32" where
  "CFakeRandom_Random_range uiRange seed =
     (if uiRange = 0 then (0, seed) else (case CFakeRandom_Random seed of (r, seed) \<Rightarrow> (r mod uiRange, seed)))"

definition CFakeRandom_Random_between :: "uint32 \<Rightarrow> uint32 \<Rightarrow> uint32 \<Rightarrow> uint32 \<times> uint32" where
  "CFakeRandom_Random_between uiMinRange uiMaxRange seed =
     (if uiMinRange = uiMaxRange then (uiMinRange, seed)
      else if uiMinRange > uiMaxRange
      then (case CFakeRandom_Random_range (uiMinRange - uiMaxRange) seed of (r, seed) \<Rightarrow> (r + uiMaxRange, seed))
      else (case CFakeRandom_Random_range (uiMaxRange - uiMinRange) seed of (r, seed) \<Rightarrow> (r + uiMinRange, seed)))"

definition CFakeRandom_Lottery :: "bool \<Rightarrow> bool \<Rightarrow> uint32 \<Rightarrow> uint32 \<Rightarrow> uint32 \<Rightarrow> bool \<times> uint32" where
  "CFakeRandom_Lottery rate_le_0 rate_ge_1 uiRateVal uiAccuracy seed =
     (if rate_le_0 then (False, seed)
      else if rate_ge_1 then (True, seed)
      else (case CFakeRandom_Random_range uiAccuracy seed of (v, seed) \<Rightarrow> (v < uiRateVal, seed)))"

subsection \<open>Ranges\<close>

lemma unat_mod_bound: "0 < unat n \<Longrightarrow> unat (w mod n :: uint32) < unat n"
  by (simp add: unat_mod)

text \<open>The three parts of a number do not overlap.\<close>

lemma random_lt: "unat (fst (CFakeRandom_Random seed)) < 2 ^ 31"
proof -
  define a b c where "a = (lcg seed div 65536) mod 2048" and "b = (lcg (lcg seed) div 65536) mod 1024"
    and "c = (lcg (lcg (lcg seed)) div 65536) mod 1024"
  have "a = take_bit 11 (lcg seed div 65536)" "b = take_bit 10 (lcg (lcg seed) div 65536)" "c = take_bit 10 (lcg (lcg (lcg seed)) div 65536)"
    by (simp_all add: a_def b_def c_def take_bit_eq_mod)
  then have ab: "a = take_bit 11 a" "b = take_bit 10 b" "c = take_bit 10 c" by simp_all
  have top: "bit a i \<Longrightarrow> i < 11" "bit b i \<Longrightarrow> i < 10" "bit c i \<Longrightarrow> i < 10" for i
    using ab by (metis bit_take_bit_iff)+
  have "take_bit 31 (push_bit 10 (push_bit 10 a XOR b) XOR c) = push_bit 10 (push_bit 10 a XOR b) XOR c"
    by (rule bit_word_eqI) (auto simp: bit_simps dest: top)
  moreover have "fst (CFakeRandom_Random seed) = push_bit 10 (push_bit 10 a XOR b) XOR c"
    by (simp add: CFakeRandom_Random_def Let_def a_def b_def c_def)
  ultimately have "fst (CFakeRandom_Random seed) = take_bit 31 (fst (CFakeRandom_Random seed))" by simp
  then have "unat (fst (CFakeRandom_Random seed)) = take_bit 31 (unat (fst (CFakeRandom_Random seed)))"
    by (metis unsigned_take_bit_eq)
  then show ?thesis by (metis take_bit_nat_less_exp)
qed

lemma Random_range_lt:
  assumes "0 < unat n"
  shows "unat (fst (CFakeRandom_Random_range n seed)) < unat n"
proof -
  have "n \<noteq> 0" using assms by auto
  then show ?thesis using unat_mod_bound [OF assms] by (simp add: CFakeRandom_Random_range_def split: prod.split)
qed

lemma between_add:
  assumes "(lo :: uint32) < hi" and "unat (r :: uint32) < unat (hi - lo)"
  shows "unat lo \<le> unat (r + lo) \<and> unat (r + lo) < unat hi"
proof -
  have d: "unat (hi - lo) = unat hi - unat lo" using assms(1) by (simp add: unat_sub less_imp_le)
  then have "unat r + unat lo < unat hi" using assms(2) by linarith
  then have "unat (r + lo) = unat r + unat lo" using unat_le_max32 [of hi] by (intro unat_add_noov) linarith
  then show ?thesis using d assms(2) by linarith
qed

text \<open>Random numbers stay in their range: a number has 31 bits, a number below a positive bound is below it, and a number between two different bounds lies
  between them, the upper one excluded, in whatever order the bounds are given; no intermediate sum wraps around.\<close>

lemma random_in_range:
  assumes "lo \<noteq> hi"
  shows "unat (fst (CFakeRandom_Random seed)) < 2 ^ 31
    \<and> min (unat lo) (unat hi) \<le> unat (fst (CFakeRandom_Random_between lo hi seed))
    \<and> unat (fst (CFakeRandom_Random_between lo hi seed)) < max (unat lo) (unat hi)"
proof (cases "lo < hi")
  case True
  then have "0 < unat (hi - lo)" by (simp add: unat_gt_0)
  from between_add [OF True Random_range_lt [OF this, of seed]] show ?thesis
    using True assms random_lt [of seed]
    by (cases "CFakeRandom_Random_range (hi - lo) seed") (auto simp: CFakeRandom_Random_between_def word_less_nat_alt)
next
  case False
  then have "hi < lo" using assms by simp
  then have "0 < unat (lo - hi)" by (simp add: unat_gt_0)
  from between_add [OF \<open>hi < lo\<close> Random_range_lt [OF this, of seed]] show ?thesis
    using \<open>hi < lo\<close> assms random_lt [of seed]
    by (cases "CFakeRandom_Random_range (lo - hi) seed") (auto simp: CFakeRandom_Random_between_def word_less_nat_alt)
qed

end
