(* ===== verification/Client.thy ===== *)
theory Client
  imports MsgBasic TcpSvr
begin

text \<open>
  \<^verbatim>\<open>src/client/test.cpp\<close>, the program that plays a client: it asks the authentication server for a token, then logs in to the
  lobby again and again. \<open>main\<close> is split at its connections: \<open>client_auth\<close>, \<open>client_hall\<close> and \<open>client_login\<close>, one turn of the
  endless loop. \<open>Some None\<close> is a \<^verbatim>\<open>return 0\<close> of \<^verbatim>\<open>main\<close>, \<open>None\<close> a loop that never ends.

  \<open>parsed\<close> gives the message after \<^verbatim>\<open>ParseFromArray\<close>, whose result the program does not look at; its argument is \<open>None\<close> when the
  size is negative as an \<^verbatim>\<open>int\<close>. The receive buffer is an
  array of \<^verbatim>\<open>MAX_BUF_LEN\<close> bytes that starts with the request. Tracing and the pause between two logins are left out.
\<close>

record 'os Client =
  cl_fd :: int
  cl_buf :: mem
  cl_uid :: uint64
  cl_token :: "byte list"
  cl_os :: 'os

text \<open>The first loop around \<^verbatim>\<open>send\<close>; a send that accepts fewer bytes ends it too.\<close>

partial_function (option) client_send :: "'os posix \<Rightarrow> int \<Rightarrow> byte list \<Rightarrow> 'os \<Rightarrow> (bool \<times> 'os) option" where
  "client_send P fd bs os =
     (case posix_send P fd bs os of
        (SendOk k, os) \<Rightarrow> Some (True, os)
      | (SendErr e, os) \<Rightarrow> if try_again e then client_send P fd bs os else Some (False, os))"

definition client_frame :: "lib \<Rightarrow> PBCSMsg \<Rightarrow> byte list" where
  "client_frame B msg = le32 (htonl (word_of_nat (length (ser_cs B msg)) + 4)) @ ser_cs B msg"

text \<open>\<^verbatim>\<open>int len = recv(...)\<close> as the unsigned number the conditions compare.\<close>

definition client_recv :: "'os posix \<Rightarrow> int \<Rightarrow> mem \<Rightarrow> 'os \<Rightarrow> uint32 \<times> mem \<times> 'os" where
  "client_recv P fd buf os =
     (case posix_recv P fd MAX_BUF_LEN os of
        (RecvOk bs, os) \<Rightarrow> (word_of_nat (length bs), mem_write buf 0 bs, os)
      | (RecvErr e, os) \<Rightarrow> (- 1, buf, os))"

text \<open>\<^verbatim>\<open>cs_response_auth()\<close> of a message without one is the default instance.\<close>

definition auth_of :: "PBCSMsg \<Rightarrow> CSResponseAuth" where
  "auth_of m = (case cs_msg_union m of cs_response_auth r \<Rightarrow> r | _ \<Rightarrow> \<lparr>rsa_result = EN_MESSAGE_OK, rsa_uid = 0, rsa_token = []\<rparr>)"

definition auth_request :: PBCSMsg where
  "auth_request = PBCSMsg_new\<lparr>cs_msg_union := cs_request_auth \<lparr>ra_type = EN_ACC_GEUST, ra_account = [116, 101, 115, 116], ra_pwd = []\<rparr>\<rparr>"

definition login_request :: "uint64 \<Rightarrow> byte list \<Rightarrow> PBCSMsg" where
  "login_request uid token = PBCSMsg_new\<lparr>cs_uid := ucast uid, cs_msg_union := cs_request_login token\<rparr>"

definition client_connect :: "'os posix \<Rightarrow> uint32 \<Rightarrow> 'os \<Rightarrow> int option \<times> 'os" where
  "client_connect P port os =
     (case sys_socket P os of (fd, os) \<Rightarrow>
        if fd = - 1 then (None, os)
        else (case sys_connect P fd ''127.0.0.1'' port os of (ok, os) \<Rightarrow> if \<not> ok then (None, os) else (Some fd, os)))"

definition array_of :: "mem \<Rightarrow> nat \<Rightarrow> uint32 \<Rightarrow> byte list option" where
  "array_of buf start buf_len = (if 4 \<le> unat buf_len \<and> unat buf_len - 4 < 2 ^ 31 then Some (mem_read buf start (unat buf_len - 4)) else None)"

definition client_auth :: "lib \<Rightarrow> (byte list option \<Rightarrow> PBCSMsg) \<Rightarrow> 'os posix \<Rightarrow> mem \<Rightarrow> 'os \<Rightarrow> 'os Client option option" where
  "client_auth B parsed P buf os =
     (case client_connect P 9000 os of
        (None, os) \<Rightarrow> Some None
      | (Some fd, os) \<Rightarrow>
          if length (ser_cs B auth_request) > MAX_PB_LEN then Some None
          else (case client_send P fd (client_frame B auth_request) os of
              None \<Rightarrow> None
            | Some (False, os) \<Rightarrow> Some None
            | Some (True, os) \<Rightarrow>
                (case client_recv P fd (mem_write buf 0 (client_frame B auth_request)) os of (len, buf, os) \<Rightarrow>
                   if len > 4 then
                     (let buf_len = ntohl (un_le32 (mem_read buf 0 4));
                          r = auth_of (parsed (array_of buf 4 buf_len))
                      in if rsa_result r \<noteq> EN_MESSAGE_OK then Some None
                         else Some (Some \<lparr>cl_fd = fd, cl_buf = buf, cl_uid = rsa_uid r, cl_token = rsa_token r, cl_os = sys_close P fd os\<rparr>))
                   else Some (Some \<lparr>cl_fd = fd, cl_buf = buf, cl_uid = 0, cl_token = [], cl_os = sys_close P fd os\<rparr>))))"

definition client_hall :: "'os posix \<Rightarrow> 'os Client \<Rightarrow> 'os Client option" where
  "client_hall P c = (case client_connect P 9001 (cl_os c) of (None, os) \<Rightarrow> None | (Some fd, os) \<Rightarrow> Some (c\<lparr>cl_fd := fd, cl_os := os\<rparr>))"

text \<open>The loop over the responses; the result is the list of messages it parsed.\<close>

partial_function (option) client_responses :: "(byte list option \<Rightarrow> PBCSMsg) \<Rightarrow> mem \<Rightarrow> uint32 \<Rightarrow> uint32 \<Rightarrow> PBCSMsg list \<Rightarrow> PBCSMsg list option" where
  "client_responses parsed buf len offset msgs =
     (if len > 4 then
        (let buf_len = ntohl (un_le32 (mem_read buf (unat offset) 4));
             msg = parsed (array_of buf (unat offset + 4) buf_len)
         in client_responses parsed buf (len - buf_len) (offset + buf_len) (msgs @ [msg]))
      else Some msgs)"

definition client_login :: "lib \<Rightarrow> (byte list option \<Rightarrow> PBCSMsg) \<Rightarrow> 'os posix \<Rightarrow> 'os Client \<Rightarrow> (PBCSMsg list \<times> 'os Client) option option" where
  "client_login B parsed P c =
     (let request = client_frame B (login_request (cl_uid c) (cl_token c)) in
      if length (ser_cs B (login_request (cl_uid c) (cl_token c))) > MAX_PB_LEN then Some None
      else (case client_send P (cl_fd c) request (cl_os c) of
              None \<Rightarrow> None
            | Some (False, os) \<Rightarrow> Some None
            | Some (True, os) \<Rightarrow>
                (case client_recv P (cl_fd c) (mem_write (cl_buf c) 0 request) os of (len, buf, os) \<Rightarrow>
                   map_option (\<lambda>msgs. Some (msgs, c\<lparr>cl_buf := buf, cl_os := os\<rparr>)) (client_responses parsed buf len 0 []))))"

subsection \<open>Requests and responses\<close>

lemma be32_header: "n < 2 ^ 32 \<Longrightarrow> unat (be32 (le32 (htonl (word_of_nat n)))) = n"
  by (simp add: be32_def unat_of_nat)

lemma client_frame_ok:
  assumes "ser_cs B msg \<noteq> []" "length (ser_cs B msg) \<le> MAX_PB_LEN"
  shows "frame_ok be32 MAX_BUF_LEN (client_frame B msg)"
proof -
  have "(word_of_nat (length (ser_cs B msg)) + 4 :: uint32) = word_of_nat (length (ser_cs B msg) + 4)" by simp
  then show ?thesis
    using assms be32_header [of "length (ser_cs B msg) + 4"]
    by (auto simp: frame_ok_def client_frame_def layout_simps simp del: of_nat_add)
qed

lemma client_send_ok: "posix_send P fd bs os = (SendOk k, os') \<Longrightarrow> client_send P fd bs os = Some (True, os')"
  by (simp add: client_send.simps)

lemma word_of_nat_unat32: "unat (w :: uint32) = n \<Longrightarrow> w = word_of_nat n"
  by auto

lemma client_responses_frames:
  assumes "\<forall>f\<in>set fs. frame_ok be32 MAX_BUF_LEN f" "off + length (concat fs) < 2 ^ 31" "mem_read buf off (length (concat fs)) = concat fs"
  shows "client_responses parsed buf (word_of_nat (length (concat fs))) (word_of_nat off) acc = Some (acc @ map (\<lambda>f. parsed (Some (drop 4 f))) fs)"
  using assms
proof (induction fs arbitrary: off acc)
  case Nil
  then show ?case by (simp add: client_responses.simps)
next
  case (Cons f fs)
  let ?n = "length f"
  have f: "4 < ?n" "unat (be32 (take 4 f)) = ?n" using Cons.prems(1) by (simp_all add: frame_ok_def)
  have len: "off + ?n + length (concat fs) < 2 ^ 31" using Cons.prems(2) by simp
  have split: "mem_read buf off ?n = f" "mem_read buf (off + ?n) (length (concat fs)) = concat fs"
    using Cons.prems(3) by (simp_all add: mem_read_append)
  have "take 4 f = mem_read buf off 4"
    using split(1) f(1) by (metis min.absorb1 less_imp_le take_mem_read)
  then have hdr: "ntohl (un_le32 (mem_read buf off 4)) = word_of_nat ?n"
    using f(2) by (metis be32_def word_of_nat_unat32)
  have "drop 4 f = mem_read buf (off + 4) (?n - 4)"
    using split(1) f(1) by (metis drop_mem_read)
  then have body: "array_of buf (unat (word_of_nat off :: uint32) + 4) (word_of_nat ?n) = Some (drop 4 f)"
    using len f(1) by (simp add: array_of_def unat_of_nat)
  have "4 < (word_of_nat (?n + length (concat fs)) :: uint32)"
    using len f(1) by (simp add: word_less_nat_alt unat_of_nat del: of_nat_add)
  then have "client_responses parsed buf (word_of_nat (length (concat (f # fs)))) (word_of_nat off) acc
      = client_responses parsed buf (word_of_nat (length (concat fs))) (word_of_nat (off + ?n)) (acc @ [parsed (Some (drop 4 f))])"
    using hdr body len by (subst client_responses.simps) (simp add: Let_def unat_of_nat)
  also have "\<dots> = Some ((acc @ [parsed (Some (drop 4 f))]) @ map (\<lambda>f. parsed (Some (drop 4 f))) fs)"
    using Cons.prems(1) len split(2) by (intro Cons.IH) simp_all
  finally show ?case by simp
qed

text \<open>A failed \<^verbatim>\<open>recv\<close> is a huge length: the client takes its own request for the first response and goes on behind it.\<close>

lemma recv_error_parses_request:
  assumes "posix_recv P fd MAX_BUF_LEN os = (RecvErr e, os')" and "ser_cs B msg \<noteq> []" "length (ser_cs B msg) \<le> MAX_PB_LEN"
    and "client_recv P fd (mem_write buf 0 (client_frame B msg)) os = (len, buf', os'')"
  shows "client_responses parsed buf' len 0 []
    = client_responses parsed buf' (len - word_of_nat (length (client_frame B msg))) (word_of_nat (length (client_frame B msg))) [parsed (Some (ser_cs B msg))]"
proof -
  let ?f = "client_frame B msg"
  have eq: "len = - 1" "buf' = mem_write buf 0 ?f" using assms(1,4) by (simp_all add: client_recv_def)
  have f: "frame_ok be32 MAX_BUF_LEN ?f" using client_frame_ok assms by blast
  then have n: "4 < length ?f" "length ?f \<le> 4096" "unat (be32 (take 4 ?f)) = length ?f" by (simp_all add: frame_ok_def layout_simps)
  have "mem_read buf' 0 4 = take 4 ?f" "mem_read buf' 4 (length ?f - 4) = drop 4 ?f"
    using n(1) by (simp_all add: eq mem_read_write_part)
  moreover have "ntohl (un_le32 (take 4 ?f)) = word_of_nat (length ?f)"
    using word_of_nat_unat32 [OF n(3)] by (simp add: be32_def)
  moreover have "array_of buf' 4 (word_of_nat (length ?f)) = Some (mem_read buf' 4 (length ?f - 4))"
    using n by (simp add: array_of_def unat_of_nat)
  moreover have "drop 4 ?f = ser_cs B msg" by (simp add: client_frame_def)
  moreover have "(4 :: uint32) < - 1" by (simp add: word_less_nat_alt unsigned_minus_1_eq_mask mask_eq_exp_minus_1)
  ultimately show ?thesis
    by (subst client_responses.simps) (simp add: eq(1) Let_def)
qed

text \<open>The answer of the authentication server: one message that carries an accepted authorization.\<close>

lemma array_of_frame:
  assumes "frame_ok be32 MAX_BUF_LEN f"
  shows "array_of (mem_write buf 0 f) 4 (ntohl (un_le32 (mem_read (mem_write buf 0 f) 0 4))) = Some (drop 4 f)"
proof -
  have f: "4 < length f" "length f \<le> 4096" "unat (be32 (take 4 f)) = length f" using assms by (simp_all add: frame_ok_def layout_simps)
  then have "mem_read (mem_write buf 0 f) 0 4 = take 4 f" "mem_read (mem_write buf 0 f) 4 (length f - 4) = drop 4 f"
    by (simp_all add: mem_read_write_part)
  then show ?thesis
    using f word_of_nat_unat32 [OF f(3)] by (simp add: array_of_def be32_def unat_of_nat)
qed

lemma client_auth_answer:
  assumes "client_connect P 9000 os = (Some fd, os1)" and "length (ser_cs B auth_request) \<le> MAX_PB_LEN"
    and "posix_send P fd (client_frame B auth_request) os1 = (SendOk k, os2)"
    and "posix_recv P fd MAX_BUF_LEN os2 = (RecvOk (client_frame B answer), os3)"
    and "ser_cs B answer \<noteq> []" "length (ser_cs B answer) \<le> MAX_PB_LEN" "parsed (Some (ser_cs B answer)) = answer"
    and "rsa_result (auth_of answer) = EN_MESSAGE_OK"
  shows "\<exists>c. client_auth B parsed P buf os = Some (Some c) \<and> cl_uid c = rsa_uid (auth_of answer) \<and> cl_token c = rsa_token (auth_of answer)"
proof -
  let ?f = "client_frame B answer"
  let ?buf = "mem_write buf 0 (client_frame B auth_request)"
  have f: "frame_ok be32 MAX_BUF_LEN ?f" using client_frame_ok assms by blast
  then have "4 < (word_of_nat (length ?f) :: uint32)"
    by (simp add: frame_ok_def layout_simps word_less_nat_alt unat_of_nat)
  moreover have "parsed (array_of (mem_write ?buf 0 ?f) 4 (ntohl (un_le32 (mem_read (mem_write ?buf 0 ?f) 0 4)))) = answer"
    using array_of_frame [OF f] assms(7) by (simp add: client_frame_def)
  ultimately show ?thesis
    using assms by (simp add: client_auth_def client_send_ok client_recv_def Let_def)
qed

text \<open>A response of length 0 is parsed for ever: the length and the offset stay as they are.\<close>

lemma zero_response_loops:
  assumes "4 < len" "ntohl (un_le32 (mem_read buf (unat offset) 4)) = 0"
  shows "client_responses parsed buf len offset msgs = None"
proof (rule ccontr)
  assume "client_responses parsed buf len offset msgs \<noteq> None"
  then obtain y where y: "client_responses parsed buf len offset msgs = Some y" by auto
  let ?Q = "\<lambda>(parsed :: byte list option \<Rightarrow> PBCSMsg) (buf :: mem) (len :: uint32) (offset :: uint32) (msgs :: PBCSMsg list) (y :: PBCSMsg list).
    \<not> (4 < len \<and> ntohl (un_le32 (mem_read buf (unat offset) 4)) = 0)"
  have "?Q parsed buf len offset msgs y"
  proof (rule client_responses.raw_induct [where P = ?Q, OF _ y], goal_cases)
    case (1 loop parsed buf len offset msgs y)
    then show ?case by (fastforce simp: Let_def)
  qed
  with assms show False by simp
qed

subsection \<open>Properties\<close>

text \<open>C29. A login is a message exchange. What the client sends is one message the gateway accepts, with its length in network
  order; and when the lobby's answer to it is a sequence of complete messages, the client parses each of them, once and in order, and
  is ready for the next login with the same uid and token.\<close>

theorem client_login_exchange:
  assumes "ser_cs B (login_request (cl_uid c) (cl_token c)) \<noteq> []" "length (ser_cs B (login_request (cl_uid c) (cl_token c))) \<le> MAX_PB_LEN"
    and "posix_send P (cl_fd c) (client_frame B (login_request (cl_uid c) (cl_token c))) (cl_os c) = (SendOk k, os1)"
    and "posix_recv P (cl_fd c) MAX_BUF_LEN os1 = (RecvOk (concat fs), os2)" "\<forall>f\<in>set fs. frame_ok be32 MAX_BUF_LEN f"
  shows "frame_ok be32 MAX_BUF_LEN (client_frame B (login_request (cl_uid c) (cl_token c)))
    \<and> (\<exists>c'. client_login B parsed P c = Some (Some (map (\<lambda>f. parsed (Some (drop 4 f))) fs, c'))
            \<and> cl_uid c' = cl_uid c \<and> cl_token c' = cl_token c \<and> cl_fd c' = cl_fd c \<and> cl_os c' = os2)"
proof -
  let ?request = "client_frame B (login_request (cl_uid c) (cl_token c))"
  let ?buf = "mem_write (mem_write (cl_buf c) 0 ?request) 0 (concat fs)"
  have "length (concat fs) \<le> MAX_BUF_LEN" using posix_recv_length [OF assms(4)] .
  then have "0 + length (concat fs) < 2 ^ 31" by (simp add: layout_simps)
  then have "client_responses parsed ?buf (word_of_nat (length (concat fs))) (word_of_nat 0) [] = Some ([] @ map (\<lambda>f. parsed (Some (drop 4 f))) fs)"
    using assms(5) by (intro client_responses_frames) simp_all
  then show ?thesis
    using assms client_frame_ok [of B "login_request (cl_uid c) (cl_token c)"]
    by (simp add: client_login_def client_send_ok client_recv_def Let_def)
qed

text \<open>A lobby that answers every login with one message of one byte.\<close>

definition answering_os :: "nat posix" where
  "answering_os = quiet_os\<lparr>sys_recv := (\<lambda>fd n os. (RecvOk [0, 0, 0, 5, 9], os + 1))\<rparr>"

definition client_lib :: lib where
  "client_lib = \<lparr>ser_cs = (\<lambda>m. case cs_msg_union m of cs_request_login token \<Rightarrow> 1 # token | _ \<Rightarrow> [0]), parse_cs = (\<lambda>_. None),
     ser_ss = (\<lambda>_. [1]), parse_ss = (\<lambda>_. None), ser_inter = (\<lambda>_. [1]), parse_inter = (\<lambda>_. None),
     ser_base = (\<lambda>_. [1]), parse_base = (\<lambda>_. None), ser_money = (\<lambda>_. [1]), parse_money = (\<lambda>_. None), touch = (\<lambda>_. True), db_copy = (\<lambda>p. p),
     junk = \<lparr>ch_src_type = 0, ch_src_id = 0, ch_des_type = 0, ch_des_id = 0, ch_session_id = 0, ch_route_type = route_p2p, ch_hash_key = 0, ch_center_index = 0\<rparr>\<rparr>"

definition logged_in :: "nat Client" where
  "logged_in = \<lparr>cl_fd = 3, cl_buf = mem_zero, cl_uid = 7, cl_token = [1, 2], cl_os = 0\<rparr>"

theorem client_login_exchange_witness:
  "\<exists>c'. client_login client_lib (\<lambda>bs. PBCSMsg_new\<lparr>cs_ver := word_of_nat (length (the bs))\<rparr>) answering_os logged_in
    = Some (Some ([PBCSMsg_new\<lparr>cs_ver := 1\<rparr>], c')) \<and> cl_uid c' = 7"
proof -
  have "frame_ok be32 MAX_BUF_LEN [0, 0, 0, 5, 9]"
    by (simp add: frame_ok_def layout_simps be32_rev un_le32_def)
  then show ?thesis
    using client_login_exchange [of client_lib logged_in answering_os 7 0 "[[0, 0, 0, 5, 9]]" 1 "\<lambda>bs. PBCSMsg_new\<lparr>cs_ver := word_of_nat (length (the bs))\<rparr>"]
    by (auto simp: client_lib_def logged_in_def login_request_def client_frame_def posix_send_def posix_recv_def answering_os_def quiet_os_def layout_simps)
qed

end
