(* ===== verification/CodedStream.thy ===== *)
theory CodedStream
  imports Prelude
begin

text \<open>
  \<^verbatim>\<open>include/google/protobuf/io/coded_stream\<close>: the byte coding under every message of the program. Messages are parsed from
  and serialized to flat arrays only (\<^verbatim>\<open>ParseFromArray\<close>, \<^verbatim>\<open>SerializeWithCachedSizesToArray\<close>), so the input stream is the
  one its array constructor makes (\<^verbatim>\<open>input_\<close> is \<^verbatim>\<open>NULL\<close>) and the writers are the \<^verbatim>\<open>ToArray\<close> functions.

  An input stream keeps the bytes between \<^verbatim>\<open>buffer_\<close> and \<^verbatim>\<open>buffer_end_\<close> and, apart, the \<^verbatim>\<open>buffer_size_after_limit_\<close>
  bytes that a limit hides. A reader returns \<open>None\<close> where the code would read past \<^verbatim>\<open>buffer_end_\<close> or call the null
  \<^verbatim>\<open>input_\<close>; otherwise \<open>Some (r, s)\<close> with the value read (\<open>None\<close>: the function returned false) and the stream after it.
  A writer returns the bytes it stores at \<^verbatim>\<open>target\<close>; the pointer it returns is behind them. The reference definitions
  are \<open>varint\<close> and \<open>enc\<close>: base-128 digits, least significant first, the top bit of a byte set when more follow.
\<close>

unbundle bit_operations_syntax

definition kMaxVarintBytes :: nat where
  "kMaxVarintBytes = 10"

definition kMaxVarint32Bytes :: nat where
  "kMaxVarint32Bytes = 5"

definition INT_MAX :: int where
  "INT_MAX = 2 ^ 31 - 1"

subsection \<open>The input stream\<close>

record CodedInputStream =
  ci_buffer :: "byte list"
  ci_after :: "byte list"
  total_bytes_read :: int
  current_limit :: int
  total_bytes_limit :: int
  last_tag :: uint32
  legitimate_message_end :: bool
  recursion_depth :: int
  recursion_limit :: int

definition CodedInputStream_array :: "byte list \<Rightarrow> CodedInputStream" where
  "CodedInputStream_array bs = \<lparr>ci_buffer = bs, ci_after = [], total_bytes_read = int (length bs), current_limit = int (length bs),
     total_bytes_limit = 64 * 2 ^ 20, last_tag = 0, legitimate_message_end = False, recursion_depth = 0, recursion_limit = 100\<rparr>"

definition BufferSize :: "CodedInputStream \<Rightarrow> nat" where
  "BufferSize s = length (ci_buffer s)"

definition Advance :: "nat \<Rightarrow> CodedInputStream \<Rightarrow> CodedInputStream" where
  "Advance n s = s\<lparr>ci_buffer := drop n (ci_buffer s)\<rparr>"

definition CurrentPosition :: "CodedInputStream \<Rightarrow> int" where
  "CurrentPosition s = total_bytes_read s - int (BufferSize s + length (ci_after s))"

text \<open>A flat stream has nothing to refresh from: past the limit test, \<^verbatim>\<open>Refresh\<close> would call \<^verbatim>\<open>input_->Next\<close>.\<close>

definition Refresh :: "CodedInputStream \<Rightarrow> bool option" where
  "Refresh s = (if ci_after s \<noteq> [] \<or> total_bytes_read s = current_limit s then Some False else None)"

definition RecomputeBufferLimits :: "CodedInputStream \<Rightarrow> CodedInputStream" where
  "RecomputeBufferLimits s =
     (let whole = ci_buffer s @ ci_after s;
          closest = min (current_limit s) (total_bytes_limit s);
          hidden = (if closest < total_bytes_read s then nat (total_bytes_read s - closest) else 0)
      in s\<lparr>ci_buffer := take (length whole - hidden) whole, ci_after := drop (length whole - hidden) whole\<rparr>)"

definition PushLimit :: "int \<Rightarrow> CodedInputStream \<Rightarrow> int \<times> CodedInputStream" where
  "PushLimit byte_limit s =
     (let pos = CurrentPosition s;
          old = current_limit s;
          new = (if byte_limit \<ge> 0 \<and> byte_limit \<le> INT_MAX - pos then pos + byte_limit else INT_MAX)
      in (old, RecomputeBufferLimits (s\<lparr>current_limit := min new old\<rparr>)))"

definition PopLimit :: "int \<Rightarrow> CodedInputStream \<Rightarrow> CodedInputStream" where
  "PopLimit limit s = (RecomputeBufferLimits (s\<lparr>current_limit := limit\<rparr>))\<lparr>legitimate_message_end := False\<rparr>"

definition BytesUntilLimit :: "CodedInputStream \<Rightarrow> int" where
  "BytesUntilLimit s = (if current_limit s = INT_MAX then - 1 else current_limit s - CurrentPosition s)"

definition IncrementRecursionDepth :: "CodedInputStream \<Rightarrow> bool \<times> CodedInputStream" where
  "IncrementRecursionDepth s =
     (let s = s\<lparr>recursion_depth := recursion_depth s + 1\<rparr> in (recursion_depth s \<le> recursion_limit s, s))"

definition DecrementRecursionDepth :: "CodedInputStream \<Rightarrow> CodedInputStream" where
  "DecrementRecursionDepth s = (if recursion_depth s > 0 then s\<lparr>recursion_depth := recursion_depth s - 1\<rparr> else s)"

definition LastTagWas :: "uint32 \<Rightarrow> CodedInputStream \<Rightarrow> bool" where
  "LastTagWas expected s = (last_tag s = expected)"

definition ConsumedEntireMessage :: "CodedInputStream \<Rightarrow> bool" where
  "ConsumedEntireMessage s = legitimate_message_end s"

definition ExpectTag :: "uint32 \<Rightarrow> CodedInputStream \<Rightarrow> bool \<times> CodedInputStream" where
  "ExpectTag expected s =
     (if expected < 2 ^ 7 then
        (if 0 < BufferSize s \<and> ucast (ci_buffer s ! 0) = expected then (True, Advance 1 s) else (False, s))
      else if expected < 2 ^ 14 then
        (if 2 \<le> BufferSize s \<and> ci_buffer s ! 0 = ucast (expected OR 0x80) \<and> ci_buffer s ! 1 = ucast (drop_bit 7 expected)
         then (True, Advance 2 s) else (False, s))
      else (False, s))"

definition ExpectAtEnd :: "CodedInputStream \<Rightarrow> bool \<times> CodedInputStream" where
  "ExpectAtEnd s =
     (if ci_buffer s = [] \<and> (ci_after s \<noteq> [] \<or> total_bytes_read s = current_limit s)
      then (True, s\<lparr>last_tag := 0, legitimate_message_end := True\<rparr>) else (False, s))"

subsection \<open>Raw bytes\<close>

text \<open>The loops of \<^verbatim>\<open>ReadRaw\<close> and \<^verbatim>\<open>ReadStringFallback\<close> copy what the buffer holds and refresh; on a flat stream the
  refresh is the last thing they do. Both return the bytes they stored.\<close>

definition ReadRaw :: "nat \<Rightarrow> CodedInputStream \<Rightarrow> ((bool \<times> byte list) \<times> CodedInputStream) option" where
  "ReadRaw n s =
     (if BufferSize s < n then
        (let got = ci_buffer s; s = Advance (BufferSize s) s in map_option (\<lambda>_. ((False, got), s)) (Refresh s))
      else Some ((True, take n (ci_buffer s)), Advance n s))"

definition ReadString :: "int \<Rightarrow> CodedInputStream \<Rightarrow> ((bool \<times> byte list) \<times> CodedInputStream) option" where
  "ReadString n s =
     (if n < 0 then Some ((False, []), s)
      else if nat n \<le> BufferSize s then Some ((True, take (nat n) (ci_buffer s)), Advance (nat n) s)
      else (let got = ci_buffer s; s = Advance (BufferSize s) s in map_option (\<lambda>_. ((False, got), s)) (Refresh s)))"

definition Skip :: "int \<Rightarrow> CodedInputStream \<Rightarrow> (bool \<times> CodedInputStream) option" where
  "Skip n s =
     (if n < 0 then Some (False, s)
      else if nat n \<le> BufferSize s then Some (True, Advance (nat n) s)
      else if ci_after s \<noteq> [] then Some (False, Advance (BufferSize s) s)
      else (let left = n - int (BufferSize s);
                until = min (current_limit s) (total_bytes_limit s) - total_bytes_read s
            in if until < left \<and> until \<le> 0 then Some (False, s\<lparr>ci_buffer := []\<rparr>) else None))"

text \<open>The little-endian build copies the bytes of the integer.\<close>

definition ReadLittleEndian32 :: "CodedInputStream \<Rightarrow> (uint32 option \<times> CodedInputStream) option" where
  "ReadLittleEndian32 s =
     (if BufferSize s \<ge> 4 then Some (Some (un_le32 (take 4 (ci_buffer s))), Advance 4 s)
      else map_option (\<lambda>((ok, bytes), s). (if ok then Some (un_le32 bytes) else None, s)) (ReadRaw 4 s))"

definition ReadLittleEndian64 :: "CodedInputStream \<Rightarrow> (uint64 option \<times> CodedInputStream) option" where
  "ReadLittleEndian64 s =
     (if BufferSize s \<ge> 8 then Some (Some (un_le64 (take 8 (ci_buffer s))), Advance 8 s)
      else map_option (\<lambda>((ok, bytes), s). (if ok then Some (un_le64 bytes) else None, s)) (ReadRaw 8 s))"

subsection \<open>Reading varints\<close>

text \<open>One unrolled run of \<^verbatim>\<open>b = *(ptr++); part += b << s; if (!(b & 0x80)) goto done; part -= 0x80 << s\<close> over the shifts
  \<open>s\<close>. \<open>Overrun\<close> is a read past the end of the array, \<open>More\<close> the fall through after the last shift.\<close>

datatype part_result = Overrun | Done uint32 "byte list" | More uint32 "byte list"

fun read_part :: "nat list \<Rightarrow> uint32 \<Rightarrow> byte list \<Rightarrow> part_result" where
  "read_part [] part ptr = More part ptr"
| "read_part (sh # shs) part [] = Overrun"
| "read_part (sh # shs) part (b # ptr) =
     (let part = part + push_bit sh (ucast b)
      in if b AND 0x80 = 0 then Done part ptr else read_part shs (part - push_bit sh 0x80) ptr)"

fun discard_high :: "nat \<Rightarrow> byte list \<Rightarrow> byte list option option" where
  "discard_high 0 ptr = Some None"
| "discard_high (Suc n) [] = None"
| "discard_high (Suc n) (b # ptr) = (if b AND 0x80 = 0 then Some (Some ptr) else discard_high n ptr)"

definition ReadVarint32FromArray :: "byte list \<Rightarrow> (uint32 \<times> byte list) option option" where
  "ReadVarint32FromArray ptr =
     (case read_part [0, 7, 14, 21, 28] 0 ptr of
        Overrun \<Rightarrow> None
      | Done result ptr \<Rightarrow> Some (Some (result, ptr))
      | More result ptr \<Rightarrow>
          map_option (map_option (\<lambda>ptr. (result, ptr))) (discard_high (kMaxVarintBytes - kMaxVarint32Bytes) ptr))"

definition fast_path :: "CodedInputStream \<Rightarrow> bool" where
  "fast_path s = (BufferSize s \<ge> kMaxVarintBytes \<or> (ci_buffer s \<noteq> [] \<and> last (ci_buffer s) AND 0x80 = 0))"

function ReadVarint64Slow_loop :: "nat \<Rightarrow> uint64 \<Rightarrow> CodedInputStream \<Rightarrow> (uint64 option \<times> CodedInputStream) option" where
  "ReadVarint64Slow_loop cnt result s =
     (if cnt \<ge> kMaxVarintBytes then Some (None, s)
      else if ci_buffer s = [] then map_option (\<lambda>_. (None, s)) (Refresh s)
      else (let b = hd (ci_buffer s);
                result = result OR push_bit (7 * cnt) (ucast (b AND 0x7F));
                s = Advance 1 s
            in if b AND 0x80 \<noteq> 0 then ReadVarint64Slow_loop (cnt + 1) result s else Some (Some result, s)))"
  by pat_completeness auto
termination
  by (relation "measure (\<lambda>(cnt, _, _). kMaxVarintBytes - cnt)") (auto simp: kMaxVarintBytes_def)

definition ReadVarint64Slow :: "CodedInputStream \<Rightarrow> (uint64 option \<times> CodedInputStream) option" where
  "ReadVarint64Slow s = ReadVarint64Slow_loop 0 0 s"

definition join_parts :: "uint32 \<Rightarrow> uint32 \<Rightarrow> uint32 \<Rightarrow> uint64" where
  "join_parts part0 part1 part2 = ucast part0 OR push_bit 28 (ucast part1) OR push_bit 56 (ucast part2)"

definition ReadVarint64Fallback :: "CodedInputStream \<Rightarrow> (uint64 option \<times> CodedInputStream) option" where
  "ReadVarint64Fallback s =
     (if fast_path s then
        (case read_part [0, 7, 14, 21] 0 (ci_buffer s) of
           Overrun \<Rightarrow> None
         | Done part0 ptr \<Rightarrow> Some (Some (join_parts part0 0 0), s\<lparr>ci_buffer := ptr\<rparr>)
         | More part0 ptr \<Rightarrow>
             (case read_part [0, 7, 14, 21] 0 ptr of
                Overrun \<Rightarrow> None
              | Done part1 ptr \<Rightarrow> Some (Some (join_parts part0 part1 0), s\<lparr>ci_buffer := ptr\<rparr>)
              | More part1 ptr \<Rightarrow>
                  (case read_part [0, 7] 0 ptr of
                     Overrun \<Rightarrow> None
                   | Done part2 ptr \<Rightarrow> Some (Some (join_parts part0 part1 part2), s\<lparr>ci_buffer := ptr\<rparr>)
                   | More part2 ptr \<Rightarrow> Some (None, s))))
      else ReadVarint64Slow s)"

definition ReadVarint32Slow :: "CodedInputStream \<Rightarrow> (uint32 option \<times> CodedInputStream) option" where
  "ReadVarint32Slow s = map_option (\<lambda>(r, s). (map_option ucast r, s)) (ReadVarint64Fallback s)"

definition ReadVarint32Fallback :: "CodedInputStream \<Rightarrow> (uint32 option \<times> CodedInputStream) option" where
  "ReadVarint32Fallback s =
     (if fast_path s then
        map_option (\<lambda>r. case r of None \<Rightarrow> (None, s) | Some (v, endp) \<Rightarrow> (Some v, s\<lparr>ci_buffer := endp\<rparr>))
          (ReadVarint32FromArray (ci_buffer s))
      else ReadVarint32Slow s)"

definition ReadVarint32 :: "CodedInputStream \<Rightarrow> (uint32 option \<times> CodedInputStream) option" where
  "ReadVarint32 s =
     (if ci_buffer s \<noteq> [] \<and> hd (ci_buffer s) < 0x80 then Some (Some (ucast (hd (ci_buffer s))), Advance 1 s)
      else ReadVarint32Fallback s)"

definition ReadVarint64 :: "CodedInputStream \<Rightarrow> (uint64 option \<times> CodedInputStream) option" where
  "ReadVarint64 s =
     (if ci_buffer s \<noteq> [] \<and> hd (ci_buffer s) < 0x80 then Some (Some (ucast (hd (ci_buffer s))), Advance 1 s)
      else ReadVarint64Fallback s)"

subsection \<open>Reading tags\<close>

definition ReadTagSlow :: "CodedInputStream \<Rightarrow> (uint32 \<times> CodedInputStream) option" where
  "ReadTagSlow s =
     (if ci_buffer s = [] then
        map_option (\<lambda>_.
          (let pos = total_bytes_read s - int (length (ci_after s)) in
           (0, s\<lparr>legitimate_message_end := (if pos \<ge> total_bytes_limit s then current_limit s = total_bytes_limit s else True)\<rparr>)))
          (Refresh s)
      else map_option (\<lambda>(r, s). (case r of None \<Rightarrow> 0 | Some v \<Rightarrow> ucast v, s)) (ReadVarint64 s))"

definition ReadTagFallback :: "CodedInputStream \<Rightarrow> (uint32 \<times> CodedInputStream) option" where
  "ReadTagFallback s =
     (if fast_path s then
        map_option (\<lambda>r. case r of None \<Rightarrow> (0, s) | Some (tag, endp) \<Rightarrow> (tag, s\<lparr>ci_buffer := endp\<rparr>)) (ReadVarint32FromArray (ci_buffer s))
      else if BufferSize s = 0 \<and> (ci_after s \<noteq> [] \<or> total_bytes_read s = current_limit s)
              \<and> total_bytes_read s - int (length (ci_after s)) < total_bytes_limit s
      then Some (0, s\<lparr>legitimate_message_end := True\<rparr>)
      else ReadTagSlow s)"

definition ReadTag :: "CodedInputStream \<Rightarrow> (uint32 \<times> CodedInputStream) option" where
  "ReadTag s =
     (if ci_buffer s \<noteq> [] \<and> hd (ci_buffer s) < 0x80
      then (let tag = ucast (hd (ci_buffer s)) in Some (tag, Advance 1 (s\<lparr>last_tag := tag\<rparr>)))
      else map_option (\<lambda>(tag, s). (tag, s\<lparr>last_tag := tag\<rparr>)) (ReadTagFallback s))"

definition ReadTagWithCutoff :: "uint32 \<Rightarrow> CodedInputStream \<Rightarrow> ((uint32 \<times> bool) \<times> CodedInputStream) option" where
  "ReadTagWithCutoff cutoff s =
     (if ci_buffer s \<noteq> [] \<and> 0 < hd (ci_buffer s) \<and> hd (ci_buffer s) < 0x80
      then (let tag = ucast (hd (ci_buffer s))
            in Some ((tag, cutoff \<ge> 0x7F \<or> tag \<le> cutoff), Advance 1 (s\<lparr>last_tag := tag\<rparr>)))
      else if ci_buffer s \<noteq> [] \<and> cutoff \<ge> 0x80 \<and> 1 < BufferSize s \<and> ci_buffer s ! 0 AND NOT (ci_buffer s ! 1) \<ge> 0x80
      then (let tag = 128 * ucast (ci_buffer s ! 1) + (ucast (ci_buffer s ! 0) - 0x80)
            in Some ((tag, cutoff \<ge> 0x3FFF \<or> tag \<le> cutoff), Advance 2 (s\<lparr>last_tag := tag\<rparr>)))
      else map_option (\<lambda>(tag, s). ((tag, tag - 1 < cutoff), s\<lparr>last_tag := tag\<rparr>)) (ReadTagFallback s))"

subsection \<open>Writing\<close>

definition WriteVarint32FallbackToArray :: "uint32 \<Rightarrow> byte list" where
  "WriteVarint32FallbackToArray v =
     (let t0 = ucast (v OR 0x80); t1 = ucast (drop_bit 7 v OR 0x80); t2 = ucast (drop_bit 14 v OR 0x80);
          t3 = ucast (drop_bit 21 v OR 0x80); t4 = ucast (drop_bit 28 v)
      in if v \<ge> 2 ^ 7 then
           if v \<ge> 2 ^ 14 then
             if v \<ge> 2 ^ 21 then
               if v \<ge> 2 ^ 28 then [t0, t1, t2, t3, t4]
               else [t0, t1, t2, t3 AND 0x7F]
             else [t0, t1, t2 AND 0x7F]
           else [t0, t1 AND 0x7F]
         else [t0 AND 0x7F])"

definition WriteVarint32ToArray :: "uint32 \<Rightarrow> byte list" where
  "WriteVarint32ToArray v = (if v < 0x80 then [ucast v] else WriteVarint32FallbackToArray v)"

definition varint64_size :: "uint32 \<Rightarrow> uint32 \<Rightarrow> uint32 \<Rightarrow> nat" where
  "varint64_size part0 part1 part2 =
     (if part2 = 0 then
        if part1 = 0 then
          if part0 < 2 ^ 14 then (if part0 < 2 ^ 7 then 1 else 2) else (if part0 < 2 ^ 21 then 3 else 4)
        else
          if part1 < 2 ^ 14 then (if part1 < 2 ^ 7 then 5 else 6) else (if part1 < 2 ^ 21 then 7 else 8)
      else if part2 < 2 ^ 7 then 9 else 10)"

definition WriteVarint64ToArray :: "uint64 \<Rightarrow> byte list" where
  "WriteVarint64ToArray v =
     (let part0 = ucast v :: uint32; part1 = ucast (drop_bit 28 v) :: uint32; part2 = ucast (drop_bit 56 v) :: uint32;
          sz = varint64_size part0 part1 part2;
          target = take sz
            [ucast (part0 OR 0x80), ucast (drop_bit 7 part0 OR 0x80), ucast (drop_bit 14 part0 OR 0x80),
             ucast (drop_bit 21 part0 OR 0x80),
             ucast (part1 OR 0x80), ucast (drop_bit 7 part1 OR 0x80), ucast (drop_bit 14 part1 OR 0x80),
             ucast (drop_bit 21 part1 OR 0x80),
             ucast (part2 OR 0x80), ucast (drop_bit 7 part2 OR 0x80)]
      in target[sz - 1 := target ! (sz - 1) AND 0x7F])"

text \<open>The slow loops of \<^verbatim>\<open>WriteVarint32\<close> and \<^verbatim>\<open>WriteVarint64\<close>, which compose the bytes before they copy them.\<close>

function varint_bytes :: "'a::len word \<Rightarrow> byte list" where
  "varint_bytes v =
     (if unat v > 0x7F then ((ucast v AND 0x7F) OR 0x80) # varint_bytes (drop_bit 7 v) else [ucast v AND 0x7F])"
  by pat_completeness auto
termination
  by (relation "measure unat") (auto simp: unat_drop_bit_eq drop_bit_nat_def)

definition WriteTagToArray :: "uint32 \<Rightarrow> byte list" where
  "WriteTagToArray v =
     (if v < 2 ^ 7 then [ucast v]
      else if v < 2 ^ 14 then [ucast (v OR 0x80), ucast (drop_bit 7 v)]
      else WriteVarint32FallbackToArray v)"

definition WriteVarint32SignExtendedToArray :: "uint32 \<Rightarrow> byte list" where
  "WriteVarint32SignExtendedToArray v =
     (if sint v < 0 then WriteVarint64ToArray (scast v) else WriteVarint32ToArray v)"

definition WriteLittleEndian32ToArray :: "uint32 \<Rightarrow> byte list" where
  "WriteLittleEndian32ToArray v = le32 v"

definition WriteLittleEndian64ToArray :: "uint64 \<Rightarrow> byte list" where
  "WriteLittleEndian64ToArray v = le64 v"

definition WriteStringWithSizeToArray :: "byte list \<Rightarrow> byte list" where
  "WriteStringWithSizeToArray str = WriteVarint32ToArray (word_of_nat (length str)) @ str"

definition VarintSize32Fallback :: "uint32 \<Rightarrow> nat" where
  "VarintSize32Fallback v =
     (if v < 2 ^ 7 then 1 else if v < 2 ^ 14 then 2 else if v < 2 ^ 21 then 3 else if v < 2 ^ 28 then 4 else 5)"

definition VarintSize32 :: "uint32 \<Rightarrow> nat" where
  "VarintSize32 v = (if v < 2 ^ 7 then 1 else VarintSize32Fallback v)"

definition VarintSize32SignExtended :: "uint32 \<Rightarrow> nat" where
  "VarintSize32SignExtended v = (if sint v < 0 then 10 else VarintSize32 v)"

definition VarintSize64 :: "uint64 \<Rightarrow> nat" where
  "VarintSize64 v =
     (if v < 2 ^ 35 then
        if v < 2 ^ 7 then 1 else if v < 2 ^ 14 then 2 else if v < 2 ^ 21 then 3 else if v < 2 ^ 28 then 4 else 5
      else if v < 2 ^ 42 then 6 else if v < 2 ^ 49 then 7 else if v < 2 ^ 56 then 8 else if v < 2 ^ 63 then 9 else 10)"

subsection \<open>Reference coding\<close>

fun varint :: "nat \<Rightarrow> byte list \<Rightarrow> (nat \<times> byte list) option" where
  "varint 0 bs = None"
| "varint (Suc n) [] = None"
| "varint (Suc n) (b # bs) =
     (if unat b < 128 then Some (unat b, bs) else map_option (\<lambda>(v, rest). (unat b mod 128 + 128 * v, rest)) (varint n bs))"

fun enc :: "nat \<Rightarrow> byte list" where
  "enc v = (if v < 128 then [word_of_nat v] else word_of_nat (v mod 128 + 128) # enc (v div 128))"

declare enc.simps [simp del] varint_bytes.simps [simp del] ReadVarint64Slow_loop.simps [simp del]

subsection \<open>Bytes and digits\<close>

lemma byte_lt: "unat (b :: byte) < 256"
  using unat_bound [of b] by simp

lemma byte_high: "\<not> unat (b :: byte) < 128 \<Longrightarrow> unat b = unat b mod 128 + 128"
  using byte_lt [of b] by (simp add: le_mod_geq)

lemma bit7_iff: "bit (b :: byte) 7 \<longleftrightarrow> \<not> unat b < 128"
proof -
  have "bit b 7 \<longleftrightarrow> odd (unat b div 128)"
    using bit_unsigned_iff [where ?'a = nat, of b 7] by (simp add: bit_iff_odd)
  also have "odd (unat b div 128) \<longleftrightarrow> 128 \<le> unat b"
  proof -
    have "unat b div 128 < 2"
      using byte_lt [of b] by simp
    then show ?thesis by (cases "unat b div 128 = 0") (auto simp: less_2_cases_iff)
  qed
  finally show ?thesis by (simp only: not_less)
qed

lemma top_bit_iff: "b AND 0x80 = 0 \<longleftrightarrow> unat (b :: byte) < 128"
  using and_exp_eq_0_iff_not_bit [of b 7] by (simp add: bit7_iff)

lemma byte_lt_iff: "b < 0x80 \<longleftrightarrow> unat (b :: byte) < 128"
  by (simp add: word_less_nat_alt)

text \<open>The base-128 number of the first \<open>n\<close> bytes without their top bits.\<close>

fun digits :: "nat \<Rightarrow> byte list \<Rightarrow> nat" where
  "digits 0 bs = 0"
| "digits (Suc n) [] = 0"
| "digits (Suc n) (b # bs) = unat b mod 128 + 128 * digits n bs"

lemma add_digit_lt: "d < 128 ^ n \<Longrightarrow> unat (b :: byte) mod 128 + 128 * d < 128 ^ Suc n"
proof -
  assume "d < 128 ^ n"
  then have "128 * d + 128 \<le> 128 ^ Suc n" by simp
  moreover have "unat b mod 128 < 128" by simp
  ultimately show ?thesis by linarith
qed

lemma digits_lt: "digits n bs < 128 ^ n"
proof (induction n bs rule: digits.induct)
  case (3 n b bs)
  then show ?case using add_digit_lt [of "digits n bs" n b] by simp
qed auto

lemma varint_split:
  "varint n bs = None \<Longrightarrow> n \<le> length bs \<Longrightarrow>
   varint (n + m) bs = map_option (\<lambda>(v, rest). (digits n bs + 128 ^ n * v, rest)) (varint m (drop n bs))"
proof (induction n arbitrary: bs)
  case 0
  then show ?case by (cases "varint m bs") auto
next
  case (Suc n)
  then obtain b bs' where bs: "bs = b # bs'" by (cases bs) auto
  with Suc.prems have "\<not> unat b < 128" "varint n bs' = None" "n \<le> length bs'"
    by (auto split: if_splits)
  with Suc.IH [of bs'] bs show ?case
    by (cases "varint m (drop n bs')") (auto simp: algebra_simps)
qed

lemma varint_more: "varint n bs = Some r \<Longrightarrow> varint (n + m) bs = Some r"
  by (induction n bs arbitrary: r rule: varint.induct) (auto split: if_splits)

lemma varint_lt: "varint n bs = Some (v, rest) \<Longrightarrow> v < 128 ^ n"
proof (induction n arbitrary: bs v rest)
  case 0
  then show ?case by simp
next
  case (Suc n)
  then obtain b bs' where bs: "bs = b # bs'" by (cases bs) auto
  show ?case
  proof (cases "unat b < 128")
    case True
    have "(128::nat) \<le> 128 ^ Suc n" by simp
    moreover have "v < 128" using True Suc.prems bs by simp
    ultimately show ?thesis by (rule less_le_trans [rotated])
  next
    case False
    with Suc.prems bs obtain w where w: "varint n bs' = Some (w, rest)" "v = unat b mod 128 + 128 * w"
      by auto
    with Suc.IH have "w < 128 ^ n" by blast
    with w add_digit_lt [of w n b] show ?thesis by simp
  qed
qed

lemma varint_shorter: "varint n bs = Some (v, rest) \<Longrightarrow> \<exists>k. 0 < k \<and> k \<le> n \<and> k \<le> length bs \<and> rest = drop k bs"
proof (induction n bs arbitrary: v rest rule: varint.induct)
  case (3 n b bs)
  show ?case
  proof (cases "unat b < 128")
    case True
    with "3.prems" show ?thesis by (intro exI [of _ 1]) auto
  next
    case False
    with "3.prems" obtain w where "varint n bs = Some (w, rest)" by auto
    with 3 False obtain k where "0 < k" "k \<le> n" "k \<le> length bs" "rest = drop k bs" by blast
    then show ?thesis by (intro exI [of _ "Suc k"]) auto
  qed
qed auto

text \<open>An array that ends a varint within its bounds cannot run out.\<close>

lemma varint_end: "bs \<noteq> [] \<Longrightarrow> unat (last bs) < 128 \<Longrightarrow> varint n bs = None \<Longrightarrow> n \<le> length bs"
  by (induction n bs rule: varint.induct) (auto split: if_splits)

lemma fast_path_room: "fast_path s \<Longrightarrow> varint n (ci_buffer s) = None \<Longrightarrow> n \<le> 10 \<Longrightarrow> n \<le> length (ci_buffer s)"
  using varint_end [of "ci_buffer s" n] by (auto simp: fast_path_def BufferSize_def kMaxVarintBytes_def top_bit_iff)

subsection \<open>Readers\<close>

fun shifts :: "nat \<Rightarrow> nat \<Rightarrow> nat list" where
  "shifts sh 0 = []"
| "shifts sh (Suc n) = sh # shifts (sh + 7) n"

lemma read_part_spec:
  "read_part (shifts sh n) part bs =
     (case varint n bs of
        Some (v, rest) \<Rightarrow> Done (part + word_of_nat (2 ^ sh * v)) rest
      | None \<Rightarrow> if n \<le> length bs then More (part + word_of_nat (2 ^ sh * digits n bs)) (drop n bs) else Overrun)"
proof (induction n arbitrary: sh part bs)
  case 0
  then show ?case by simp
next
  case (Suc n)
  show ?case
  proof (cases bs)
    case Nil
    then show ?thesis by simp
  next
    case (Cons b bs')
    show ?thesis
    proof (cases "unat b < 128")
      case True
      with Cons show ?thesis by (simp add: Let_def top_bit_iff push_bit_eq_mult)
    next
      case False
      then have "(ucast b :: uint32) = word_of_nat (unat b mod 128) + 128"
        using arg_cong [OF byte_high [of b], of "of_nat :: nat \<Rightarrow> uint32"] by simp
      then have "push_bit sh (ucast b :: uint32) = word_of_nat (2 ^ sh * (unat b mod 128)) + push_bit sh 0x80"
        by (simp only: push_bit_eq_mult of_nat_mult of_nat_power of_nat_numeral ring_distribs mult.commute)
      with False Cons show ?thesis
        by (cases "varint n bs'") (auto simp: Let_def top_bit_iff Suc.IH power_add algebra_simps)
    qed
  qed
qed

lemma discard_high_spec:
  "discard_high n bs =
     (case varint n bs of Some (v, rest) \<Rightarrow> Some (Some rest) | None \<Rightarrow> if n \<le> length bs then Some None else None)"
  by (induction n bs rule: discard_high.induct) (auto simp: top_bit_iff split: option.split)

text \<open>Disjoint digits: a bitwise or is a sum.\<close>

lemma or_push: "x < 2 ^ k \<Longrightarrow> (word_of_nat x :: 'a::len word) OR push_bit k (word_of_nat d) = word_of_nat (x + 2 ^ k * d)"
proof -
  assume "x < 2 ^ k"
  then have "take_bit k x = x" by (simp add: take_bit_nat_eq_self_iff)
  moreover have "take_bit k x AND push_bit k d = 0"
    by (rule bit_eqI) (auto simp: bit_simps)
  ultimately have "x AND push_bit k d = 0" by simp
  then have "x OR push_bit k d = x + 2 ^ k * d"
    by (simp add: disjunctive_add_eq_or [symmetric]) (simp add: push_bit_eq_mult)
  then show ?thesis
    by (metis of_nat_or_eq push_bit_of_nat)
qed

lemma join_parts_eq:
  assumes "a < 2 ^ 28" "b < 2 ^ 28" "c < 2 ^ 32"
  shows "join_parts (word_of_nat a) (word_of_nat b) (word_of_nat c) = word_of_nat (a + 2 ^ 28 * b + 2 ^ 56 * c)"
proof -
  have u: "(ucast (word_of_nat n :: uint32) :: uint64) = word_of_nat n" if "n < 2 ^ 32" for n
    using that by (simp add: unsigned_of_nat take_bit_nat_eq_self)
  have "word_of_nat a OR push_bit 28 (word_of_nat b) = (word_of_nat (a + 2 ^ 28 * b) :: uint64)"
    using assms by (intro or_push)
  moreover have "word_of_nat (a + 2 ^ 28 * b) OR push_bit 56 (word_of_nat c) = (word_of_nat (a + 2 ^ 28 * b + 2 ^ 56 * c) :: uint64)"
    using assms by (intro or_push) simp
  moreover have "a < 2 ^ 32" "b < 2 ^ 32"
    using assms by simp_all
  ultimately show ?thesis
    using assms by (simp only: join_parts_def u or.assoc [symmetric])
qed

lemma ucast_low_bits: "(ucast (b AND 0x7F :: byte) :: 'a::len word) = word_of_nat (unat b mod 128)"
proof -
  have "b AND 0x7F = take_bit 7 b"
    by (simp add: take_bit_eq_mask mask_eq_exp_minus_1)
  moreover have "(ucast (take_bit 7 b) :: 'a word) = word_of_nat (unat (take_bit 7 b))"
    by simp
  moreover have "unat (take_bit 7 b) = unat b mod 128"
    by (simp add: unsigned_take_bit_eq del: take_bit_word_def) (simp add: take_bit_eq_mod)
  ultimately show ?thesis by metis
qed

lemma slow_loop_spec:
  assumes "Refresh s = Some False" "acc < 128 ^ cnt" "cnt \<le> 10"
  shows "ReadVarint64Slow_loop cnt (word_of_nat acc) s =
     (case varint (10 - cnt) (ci_buffer s) of
        Some (v, rest) \<Rightarrow> Some (Some (word_of_nat (acc + 128 ^ cnt * v)), s\<lparr>ci_buffer := rest\<rparr>)
      | None \<Rightarrow> Some (None, Advance (10 - cnt) s))"
  using assms
proof (induction "10 - cnt" arbitrary: cnt acc s)
  case 0
  then show ?case by (simp add: ReadVarint64Slow_loop.simps kMaxVarintBytes_def Advance_def)
next
  case (Suc n)
  then have n: "10 - cnt = Suc n" "cnt < 10" "n = 10 - (cnt + 1)" by simp_all
  show ?case
  proof (cases "ci_buffer s")
    case Nil
    with Suc.prems n show ?thesis by (simp add: ReadVarint64Slow_loop.simps kMaxVarintBytes_def Advance_def)
  next
    case (Cons b bs)
    define d where "d = unat b mod 128"
    have d: "(ucast (b AND 0x7F) :: uint64) = word_of_nat d" "unat b < 128 \<Longrightarrow> d = unat b"
      by (simp_all add: d_def ucast_low_bits)
    have acc: "word_of_nat acc OR push_bit (7 * cnt) (ucast (b AND 0x7F) :: uint64) = word_of_nat (acc + 128 ^ cnt * d)"
      using or_push [of acc "7 * cnt" d] Suc.prems by (simp add: d power_mult)
    show ?thesis
    proof (cases "unat b < 128")
      case True
      with Cons n acc d show ?thesis
        by (simp add: ReadVarint64Slow_loop.simps [of cnt] kMaxVarintBytes_def Let_def top_bit_iff Advance_def)
    next
      case False
      have "d + 1 \<le> 128" by (simp add: d_def less_eq_Suc_le [symmetric])
      then have "128 ^ cnt * (d + 1) \<le> 128 ^ cnt * (128 :: nat)" by (rule mult_le_mono2)
      then have "128 ^ cnt * d + 128 ^ cnt \<le> (128 :: nat) ^ (cnt + 1)" by (simp only: distrib_left mult_1_right power_add power_one_right)
      with Suc.prems have "acc + 128 ^ cnt * d < 128 ^ (cnt + 1)" by linarith
      then have "ReadVarint64Slow_loop (cnt + 1) (word_of_nat (acc + 128 ^ cnt * d)) (s\<lparr>ci_buffer := bs\<rparr>) =
        (case varint (10 - (cnt + 1)) (ci_buffer (s\<lparr>ci_buffer := bs\<rparr>)) of
           Some (v, rest) \<Rightarrow> Some (Some (word_of_nat (acc + 128 ^ cnt * d + 128 ^ (cnt + 1) * v)), s\<lparr>ci_buffer := bs, ci_buffer := rest\<rparr>)
         | None \<Rightarrow> Some (None, Advance (10 - (cnt + 1)) (s\<lparr>ci_buffer := bs\<rparr>)))"
        using n Suc.prems by (intro Suc.hyps(1)) (auto simp: Refresh_def split: if_splits)
      moreover have "ReadVarint64Slow_loop cnt (word_of_nat acc) s
        = ReadVarint64Slow_loop (cnt + 1) (word_of_nat (acc + 128 ^ cnt * d)) (s\<lparr>ci_buffer := bs\<rparr>)"
        using Cons n acc False
        by (simp add: ReadVarint64Slow_loop.simps [of cnt] kMaxVarintBytes_def Let_def top_bit_iff Advance_def)
      ultimately show ?thesis
        using Cons n False by (cases "varint n bs") (auto simp: d_def [symmetric] algebra_simps Advance_def)
    qed
  qed
qed

lemma shifts5: "shifts 0 5 = [0, 7, 14, 21, 28]" "shifts 0 4 = [0, 7, 14, 21]" "shifts 0 2 = [0, 7]"
  by (simp_all add: eval_nat_numeral)

lemma array_spec:
  assumes room: "\<And>n. varint n bs = None \<Longrightarrow> n \<le> 10 \<Longrightarrow> n \<le> length bs"
  shows "ReadVarint32FromArray bs = Some (map_option (\<lambda>(v, rest). (word_of_nat v, rest)) (varint 10 bs))"
proof (cases "varint 5 bs")
  case (Some r)
  then show ?thesis
    using varint_more [OF Some, of 5] read_part_spec [of 0 5 0 bs]
    by (cases r) (simp add: ReadVarint32FromArray_def shifts5)
next
  case None
  then have len: "5 \<le> length bs" using room by simp
  have "(128 ^ 5 :: uint32) = 0"
    by (rule word_uint_eqI) simp
  then have high: "(word_of_nat (128 ^ 5 * v) :: uint32) = 0" for v
    by (simp only: of_nat_mult of_nat_power of_nat_numeral mult_zero_left)
  have "varint 10 bs = map_option (\<lambda>(v, rest). (digits 5 bs + 128 ^ 5 * v, rest)) (varint 5 (drop 5 bs))"
    using varint_split [OF None len, of 5] by simp
  moreover from this have "varint 5 (drop 5 bs) = None \<Longrightarrow> 10 \<le> length bs"
    using room by simp
  ultimately show ?thesis
    using None len read_part_spec [of 0 5 0 bs] high
    by (cases "varint 5 (drop 5 bs)")
      (auto simp: ReadVarint32FromArray_def discard_high_spec kMaxVarintBytes_def kMaxVarint32Bytes_def shifts5 simp del: of_nat_mult)
qed

text \<open>The three parts of a 64-bit read, as one result.\<close>

definition read_parts :: "byte list \<Rightarrow> (uint64 \<times> byte list) option option" where
  "read_parts bs =
     (case read_part [0, 7, 14, 21] 0 bs of
        Overrun \<Rightarrow> None
      | Done part0 ptr \<Rightarrow> Some (Some (join_parts part0 0 0, ptr))
      | More part0 ptr \<Rightarrow>
          (case read_part [0, 7, 14, 21] 0 ptr of
             Overrun \<Rightarrow> None
           | Done part1 ptr \<Rightarrow> Some (Some (join_parts part0 part1 0, ptr))
           | More part1 ptr \<Rightarrow>
               (case read_part [0, 7] 0 ptr of
                  Overrun \<Rightarrow> None
                | Done part2 ptr \<Rightarrow> Some (Some (join_parts part0 part1 part2, ptr))
                | More part2 ptr \<Rightarrow> Some None)))"

lemma fast_read_parts:
  "fast_path s \<Longrightarrow> ReadVarint64Fallback s =
     map_option (\<lambda>r. case r of None \<Rightarrow> (None, s) | Some (v, ptr) \<Rightarrow> (Some v, s\<lparr>ci_buffer := ptr\<rparr>)) (read_parts (ci_buffer s))"
  by (simp add: ReadVarint64Fallback_def read_parts_def split: part_result.split)

lemma parts_spec:
  assumes room: "\<And>n. varint n bs = None \<Longrightarrow> n \<le> 10 \<Longrightarrow> n \<le> length bs"
  shows "read_parts bs = Some (map_option (\<lambda>(v, rest). (word_of_nat v, rest)) (varint 10 bs))"
proof (cases "varint 4 bs")
  case (Some r)
  obtain v rest where r: "r = (v, rest)" by (cases r)
  have "v < 2 ^ 28" using varint_lt [of 4 bs v rest] Some r by simp
  then show ?thesis
    using varint_more [OF Some, of 6] read_part_spec [of 0 4 0 bs] Some r join_parts_eq [of v 0 0]
    by (simp add: read_parts_def shifts5)
next
  case None
  define a bs1 where "a = digits 4 bs" and "bs1 = drop 4 bs"
  have a: "a < 2 ^ 28" using digits_lt [of 4 bs] by (simp add: a_def)
  have len: "4 \<le> length bs" using room [OF None] by simp
  have split: "varint (4 + n) bs = map_option (\<lambda>(v, rest). (a + 2 ^ 28 * v, rest)) (varint n bs1)" for n
    using varint_split [OF None len, of n] by (simp add: a_def bs1_def)
  have first: "read_part [0, 7, 14, 21] 0 bs = More (word_of_nat a) bs1"
    using None len read_part_spec [of 0 4 0 bs] by (simp add: a_def bs1_def shifts5)
  show ?thesis
  proof (cases "varint 4 bs1")
    case (Some r)
    obtain v rest where r: "r = (v, rest)" by (cases r)
    have "v < 2 ^ 28" using varint_lt [of 4 bs1 v rest] Some r by simp
    then show ?thesis
      using split [of 6] varint_more [OF Some, of 2] read_part_spec [of 0 4 0 bs1] Some r join_parts_eq [of a v 0] a
      by (simp add: read_parts_def shifts5 first)
  next
    case None1: None
    define b bs2 where "b = digits 4 bs1" and "bs2 = drop 4 bs1"
    have b: "b < 2 ^ 28" using digits_lt [of 4 bs1] by (simp add: b_def)
    have len1: "4 \<le> length bs1" using room [of 8] split [of 4] None1 by (simp add: bs1_def)
    have "varint 6 bs1 = map_option (\<lambda>(v, rest). (b + 2 ^ 28 * v, rest)) (varint 2 bs2)"
      using varint_split [OF None1 len1, of 2] by (simp add: b_def bs2_def)
    then have all: "varint 10 bs = map_option (\<lambda>(v, rest). (a + 2 ^ 28 * b + 2 ^ 56 * v, rest)) (varint 2 bs2)"
      using split [of 6] by (cases "varint 2 bs2") auto
    have second: "read_part [0, 7, 14, 21] 0 bs1 = More (word_of_nat b) bs2"
      using None1 len1 read_part_spec [of 0 4 0 bs1] by (simp add: b_def bs2_def shifts5)
    show ?thesis
    proof (cases "varint 2 bs2")
      case (Some r)
      obtain v rest where r: "r = (v, rest)" by (cases r)
      have "v < 2 ^ 32" using varint_lt [of 2 bs2 v rest] Some r by simp
      then show ?thesis
        using all read_part_spec [of 0 2 0 bs2] Some r join_parts_eq [of a b v] a b
        by (simp add: read_parts_def shifts5 first second)
    next
      case None
      then have "2 \<le> length bs2" using room [of 10] all by (simp add: bs1_def bs2_def)
      then show ?thesis
        using all read_part_spec [of 0 2 0 bs2] None by (simp add: read_parts_def shifts5 first second)
    qed
  qed
qed

text \<open>What a reader of the stream returns, in terms of the reference decoding.\<close>

definition decodes :: "(nat \<Rightarrow> 'w) \<Rightarrow> CodedInputStream \<Rightarrow> ('w option \<times> CodedInputStream) option \<Rightarrow> bool" where
  "decodes f s r =
     (case varint kMaxVarintBytes (ci_buffer s) of
        Some (v, rest) \<Rightarrow> r = Some (Some (f v), s\<lparr>ci_buffer := rest\<rparr>)
      | None \<Rightarrow> r = Some (None, s) \<or> r = Some (None, Advance kMaxVarintBytes s))"

lemma Fallback64_decodes:
  assumes "Refresh s = Some False"
  shows "decodes word_of_nat s (ReadVarint64Fallback s)"
proof (cases "fast_path s")
  case True
  with parts_spec [of "ci_buffer s"] fast_path_room [OF True] show ?thesis
    by (auto simp: decodes_def fast_read_parts kMaxVarintBytes_def split: option.split)
next
  case False
  with slow_loop_spec [of s 0 0] assms show ?thesis
    by (auto simp: decodes_def ReadVarint64Fallback_def ReadVarint64Slow_def kMaxVarintBytes_def split: option.splits)
qed

lemma one_byte: "bs \<noteq> [] \<Longrightarrow> hd bs < 0x80 \<Longrightarrow> varint kMaxVarintBytes bs = Some (unat (hd bs), tl bs)"
  by (cases bs) (auto simp: kMaxVarintBytes_def eval_nat_numeral byte_lt_iff)

lemma ReadVarint64_decodes: "Refresh s = Some False \<Longrightarrow> decodes word_of_nat s (ReadVarint64 s)"
  using Fallback64_decodes [of s] by (auto simp: ReadVarint64_def decodes_def one_byte Advance_def drop_Suc)

lemma ucast_word_of_nat: "(ucast (word_of_nat n :: uint64) :: uint32) = word_of_nat n"
  by (simp add: unsigned_of_nat word_of_nat_eq_iff)

lemma ReadVarint32_decodes: "Refresh s = Some False \<Longrightarrow> decodes word_of_nat s (ReadVarint32 s)"
proof -
  assume "Refresh s = Some False"
  then have slow: "decodes word_of_nat s (ReadVarint32Slow s)"
    using Fallback64_decodes [of s] by (auto simp: decodes_def ReadVarint32Slow_def ucast_word_of_nat split: option.splits)
  have "decodes word_of_nat s (ReadVarint32Fallback s)"
  proof (cases "fast_path s")
    case True
    with array_spec [of "ci_buffer s"] fast_path_room [OF True] show ?thesis
      by (auto simp: decodes_def ReadVarint32Fallback_def kMaxVarintBytes_def split: option.split)
  qed (use slow in \<open>simp add: ReadVarint32Fallback_def\<close>)
  then show ?thesis
    by (auto simp: ReadVarint32_def decodes_def one_byte Advance_def drop_Suc)
qed

subsection \<open>Writers\<close>

lemma low_digit: "(take_bit 7 (ucast w) :: byte) = word_of_nat (unat (w :: 'a::len word) mod 128)"
proof -
  have "take_bit 7 (word_of_nat (unat w)) = (word_of_nat (take_bit 7 (unat w)) :: byte)"
    by (rule take_bit_of_nat)
  then show ?thesis by (simp add: take_bit_eq_mod)
qed

lemma and_low: "x AND 0x7F = take_bit 7 (x :: byte)"
  by (simp add: take_bit_eq_mask mask_eq_exp_minus_1)

lemma or_top:
  "LENGTH('a) = Suc k \<Longrightarrow> take_bit k x OR 2 ^ k = x OR (2 ^ k :: 'a::len word)"
  "LENGTH('a) = Suc k \<Longrightarrow> take_bit k (x OR 2 ^ k) = take_bit k (x :: 'a::len word)"
  by (rule bit_word_eqI; auto simp: bit_simps less_Suc_eq)+

lemma or_high: "take_bit 7 x OR 0x80 = x OR (0x80 :: byte)" "take_bit 7 (x OR 0x80) = take_bit 7 (x :: byte)"
  using or_top [of 7 x] by simp_all

lemma or_byte: "(ucast w :: byte) OR 0x80 = word_of_nat (unat (w :: 'a::len word) mod 128 + 128)"
  using or_push [where 'a = 8, of "unat w mod 128" 7 1] or_high(1) [of "ucast w"] low_digit [of w] by simp

lemma byte_split:
  "(ucast (w OR 0x80 :: uint32) :: byte) = word_of_nat (unat w mod 128 + 128)"
  "(ucast (w OR 0x80 :: uint32) AND 0x7F :: byte) = word_of_nat (unat w mod 128)"
  by (simp_all only: unsigned_or_eq unsigned_numeral and_low or_byte [symmetric] low_digit [symmetric])
    (simp_all add: or_high)

lemma byte_split_loop:
  "(ucast w AND 0x7F) OR 0x80 = (word_of_nat (unat w mod 128 + 128) :: byte)"
  "(ucast w AND 0x7F :: byte) = word_of_nat (unat w mod 128)"
  by (simp_all only: and_low or_high or_byte) (simp only: low_digit)

lemma enc_div:
  "enc (v div 2 ^ k) =
     (if v < 2 ^ (k + 7) then [word_of_nat (v div 2 ^ k mod 128)]
      else word_of_nat (v div 2 ^ k mod 128 + 128) # enc (v div 2 ^ (k + 7)))"
proof -
  have "v div 2 ^ k < 128 \<longleftrightarrow> v < 2 ^ (k + 7)"
    by (simp add: div_less_iff_less_mult power_add mult.commute)
  then show ?thesis
    by (auto simp: enc.simps [of "v div 2 ^ k"] power_add div_mult2_eq)
qed

lemmas enc_steps = enc_div [of v 0 for v] enc_div [of v 7 for v] enc_div [of v 14 for v] enc_div [of v 21 for v] enc_div [of v 28 for v]
  enc_div [of v 35 for v] enc_div [of v 42 for v] enc_div [of v 49 for v] enc_div [of v 56 for v] enc_div [of v 63 for v]

lemma unat_drop: "unat (drop_bit k (w :: 'a::len word)) = unat w div 2 ^ k"
  by (simp add: unat_drop_bit_eq drop_bit_nat_def)

lemma ucast_small: "unat (w :: 'a::len word) < 128 \<Longrightarrow> (ucast w :: byte) = word_of_nat (unat w mod 128)"
  by simp

lemma Write32Fallback_enc: "WriteVarint32FallbackToArray v = enc (unat v)"
proof -
  have "unat v < 2 ^ 32" using unat_bound [of v] by simp
  then have "(ucast (drop_bit 28 v) :: byte) = word_of_nat (unat v div 2 ^ 28 mod 128)"
    using ucast_small [of "drop_bit 28 v"] by (simp add: unat_drop)
  with \<open>unat v < 2 ^ 32\<close> show ?thesis
    using enc_steps [where v = "unat v"]
    by (simp only: WriteVarint32FallbackToArray_def byte_split(2) Let_def)
      (simp add: byte_split(1) unat_drop word_le_nat_alt)
qed

lemma Write32_enc: "WriteVarint32ToArray v = enc (unat v)"
  by (simp add: WriteVarint32ToArray_def Write32Fallback_enc word_less_nat_alt enc.simps)

lemma WriteTag_enc: "WriteTagToArray v = enc (unat v)"
proof -
  have "unat v < 2 ^ 14 \<Longrightarrow> (ucast (drop_bit 7 v) :: byte) = word_of_nat (unat v div 2 ^ 7 mod 128)"
    using ucast_small [of "drop_bit 7 v"] by (simp add: unat_drop)
  then show ?thesis
    using enc_steps [where v = "unat v"]
    by (simp add: WriteTagToArray_def Write32Fallback_enc byte_split word_less_nat_alt)
qed

lemma varint_bytes_enc: "varint_bytes v = enc (unat v)"
proof (induction v rule: varint_bytes.induct)
  case (1 v)
  then show ?case
    by (simp only: varint_bytes.simps [of v] byte_split_loop(1)) (simp add: byte_split_loop(2) enc.simps [of "unat v"] unat_drop)
qed

lemma VarintSize32_enc: "VarintSize32 v = length (enc (unat v))"
proof -
  have "unat v < 2 ^ 32" using unat_bound [of v] by simp
  then show ?thesis
    using enc_steps [where v = "unat v"]
    by (simp add: VarintSize32_def VarintSize32Fallback_def word_less_nat_alt)
qed

lemma VarintSize64_enc: "VarintSize64 v = length (enc (unat v))"
proof -
  have "unat v < 2 ^ 64" using unat_bound [of v] by simp
  then show ?thesis
    using enc_steps [where v = "unat v"]
    by (simp add: VarintSize64_def word_less_nat_alt)
qed

lemma digit_of_part:
  assumes "k + 7 \<le> 32"
  shows "unat (drop_bit k (ucast (drop_bit j v) :: uint32)) mod 128 = unat (v :: uint64) div 2 ^ (j + k) mod 128"
proof -
  have "take_bit 7 (drop_bit k (take_bit 32 (drop_bit j (unat v)))) = take_bit 7 (drop_bit k (drop_bit j (unat v)))"
    using assms by (simp add: drop_bit_take_bit)
  then show ?thesis
    by (simp add: unat_drop unsigned_ucast_eq take_bit_eq_mod drop_bit_nat_def power_add div_mult2_eq)
qed

lemma part_byte:
  "k + 7 \<le> 32 \<Longrightarrow> (ucast (drop_bit k (ucast (drop_bit j v) :: uint32) OR 0x80) :: byte)
     = word_of_nat (unat (v :: uint64) div 2 ^ (j + k) mod 128 + 128)"
  by (simp only: byte_split digit_of_part)

lemma and_word_of_nat: "(word_of_nat (d mod 128 + 128) AND 0x7F :: byte) = word_of_nat (d mod 128)"
proof -
  have "take_bit 7 (word_of_nat (d mod 128 + 128)) = (word_of_nat (take_bit 7 (d mod 128 + 128)) :: byte)"
    by (rule take_bit_of_nat)
  then show ?thesis by (simp add: and_low take_bit_eq_mod)
qed

lemma unat_part: "unat (ucast (drop_bit j v) :: uint32) = unat (v :: uint64) div 2 ^ j mod 2 ^ 32"
  by (simp add: unat_drop unsigned_ucast_eq take_bit_eq_mod)

lemma varint64_size_eq:
  "varint64_size (ucast v) (ucast (drop_bit 28 v)) (ucast (drop_bit 56 v)) = VarintSize64 v"
proof -
  define u where "u = unat v"
  have u: "u < 2 ^ 64" using unat_bound [of v] by (simp add: u_def)
  have p2: "unat (ucast (drop_bit 56 v) :: uint32) = u div 2 ^ 56"
    using unat_part [of 56 v] u by (simp add: u_def)
  have p1: "unat (ucast (drop_bit 28 v) :: uint32) = u div 2 ^ 28" if "u < 2 ^ 56"
    using unat_part [of 28 v] that by (simp add: u_def)
  have p0: "unat (ucast v :: uint32) = u" if "u < 2 ^ 28"
    using unat_part [of 0 v] that by (simp add: u_def)
  have zero: "w = 0 \<longleftrightarrow> unat w = 0" for w :: uint32
    by (simp add: unat_eq_zero)
  consider "u < 2 ^ 28" | "2 ^ 28 \<le> u" "u < 2 ^ 56" | "2 ^ 56 \<le> u" by linarith
  then show ?thesis
    by cases (use p0 p1 p2 u in \<open>simp_all add: varint64_size_def VarintSize64_def word_less_nat_alt zero u_def [symmetric]
      div_less_iff_less_mult div_eq_0_iff del: unat_eq_zero unsigned_eq_0_iff\<close>)
qed

lemma enc_nth:
  "i < length (enc u) \<Longrightarrow> enc u ! i = word_of_nat (u div 128 ^ i mod 128 + (if Suc i = length (enc u) then 0 else 128))"
proof (induction u arbitrary: i rule: enc.induct)
  case (1 u)
  show ?case
  proof (cases "u < 128")
    case True
    with 1 show ?thesis by (simp add: enc.simps [of u])
  next
    case False
    then have "enc u = word_of_nat (u mod 128 + 128) # enc (u div 128)" "enc (u div 128) \<noteq> []"
      by (simp add: enc.simps [of u]) (simp add: enc.simps [of "u div 128"])
    with 1 False show ?thesis
      by (cases i) (auto simp: div_mult2_eq simp del: of_nat_add)
  qed
qed

lemma Write64_enc: "WriteVarint64ToArray v = enc (unat v)"
proof -
  define u where "u = unat v"
  define digit where "digit k = u div 2 ^ k mod 128" for k
  have u: "u < 2 ^ 64" using unat_bound [of v] by (simp add: u_def)
  have byte: "k + 7 \<le> 32 \<Longrightarrow> (ucast (drop_bit k (ucast (drop_bit j v) :: uint32) OR 0x80) :: byte) = word_of_nat (digit (j + k) + 128)" for j k
    unfolding digit_def u_def by (rule part_byte)
  note bytes = byte [of 0 0, simplified] byte [of 7 0, simplified] byte [of 14 0, simplified] byte [of 21 0, simplified]
    byte [of 0 28, simplified] byte [of 7 28, simplified] byte [of 14 28, simplified] byte [of 21 28, simplified]
    byte [of 0 56, simplified] byte [of 7 56, simplified]
  have target: "WriteVarint64ToArray v =
     (let target = take (VarintSize64 v) (map (\<lambda>k. word_of_nat (digit k + 128)) [0, 7, 14, 21, 28, 35, 42, 49, 56, 63])
      in target[VarintSize64 v - 1 := target ! (VarintSize64 v - 1) AND 0x7F])"
    by (simp only: WriteVarint64ToArray_def Let_def varint64_size_eq list.map bytes of_nat_add of_nat_numeral)
  have seven: "[0, 7, 14, 21, 28, 35, 42, 49, 56, 63] = map (\<lambda>i. 7 * i) [0..<10]"
    by (simp add: upt_rec)
  have len: "0 < VarintSize64 v" "VarintSize64 v \<le> 10"
    by (simp_all add: VarintSize64_def)
  show ?thesis
    using enc_nth [of _ u] len
    by (intro nth_equalityI)
      (auto simp: target seven nth_list_update and_word_of_nat digit_def VarintSize64_enc u_def [symmetric] power_mult Let_def
        simp del: of_nat_add)
qed

lemma varint_enc: "length (enc v) \<le> n \<Longrightarrow> varint n (enc v @ rest) = Some (v, rest)"
proof (induction v arbitrary: n rule: enc.induct)
  case (1 v)
  from 1(2) obtain m where m: "n = Suc m"
    by (cases n) (simp_all add: enc.simps [of v] split: if_splits)
  show ?case
  proof (cases "v < 128")
    case True
    with m show ?thesis by (simp add: enc.simps [of v] unat_of_nat)
  next
    case False
    then have eq: "enc v = word_of_nat (v mod 128 + 128) # enc (v div 128)"
      by (simp add: enc.simps [of v])
    have "unat (word_of_nat (v mod 128 + 128) :: byte) = v mod 128 + 128"
      by (simp add: unat_of_nat del: of_nat_add)
    with 1 m False eq show ?thesis by (simp del: of_nat_add)
  qed
qed

lemma length_enc_32: "length (enc (unat (v :: uint32))) \<le> 5"
  by (simp add: VarintSize32_enc [symmetric] VarintSize32_def VarintSize32Fallback_def)

lemma length_enc_64: "0 < length (enc (unat (v :: uint64)))" "length (enc (unat (v :: uint64))) \<le> 10"
  by (simp_all add: VarintSize64_enc [symmetric] VarintSize64_def)

text \<open>Reading back what was written, on any flat stream.\<close>

lemma read_enc64:
  "Refresh s = Some False \<Longrightarrow> ci_buffer s = enc (unat v) @ rest \<Longrightarrow> ReadVarint64 s = Some (Some v, s\<lparr>ci_buffer := rest\<rparr>)"
  using ReadVarint64_decodes [of s] varint_enc [of "unat v" 10 rest] length_enc_64 [of v]
  by (simp add: decodes_def kMaxVarintBytes_def)

lemma read_enc32:
  assumes "Refresh s = Some False" "ci_buffer s = enc (unat v) @ rest"
  shows "ReadVarint32 s = Some (Some v, s\<lparr>ci_buffer := rest\<rparr>)"
proof -
  have "length (enc (unat v)) \<le> 10" using length_enc_32 [of v] by simp
  then show ?thesis
    using ReadVarint32_decodes [OF assms(1)] varint_enc [of "unat v" 10 rest] assms(2)
    by (simp add: decodes_def kMaxVarintBytes_def)
qed

lemma read_extended:
  assumes "Refresh s = Some False" "ci_buffer s = WriteVarint32SignExtendedToArray v @ rest"
  shows "ReadVarint32 s = Some (Some v, s\<lparr>ci_buffer := rest\<rparr>)"
proof (cases "sint v < 0")
  case True
  then have "ci_buffer s = enc (unat (scast v :: uint64)) @ rest"
    using assms(2) by (simp add: WriteVarint32SignExtendedToArray_def Write64_enc)
  moreover have "(word_of_nat (unat (scast v :: uint64)) :: uint32) = v"
    by (rule bit_word_eqI) (auto simp: bit_simps)
  ultimately show ?thesis
    using ReadVarint32_decodes [OF assms(1)] varint_enc [of "unat (scast v :: uint64)" 10 rest] length_enc_64 [of "scast v"]
    by (simp add: decodes_def kMaxVarintBytes_def)
qed (use assms in \<open>simp add: WriteVarint32SignExtendedToArray_def Write32_enc read_enc32\<close>)

lemma flat_array [simp]: "Refresh (CodedInputStream_array bs) = Some False" "ci_buffer (CodedInputStream_array bs) = bs"
  by (simp_all add: CodedInputStream_array_def Refresh_def)

subsection \<open>Tags\<close>

lemma Advance_flat [simp]: "Refresh (Advance n s) = Refresh s" "Refresh (s\<lparr>ci_buffer := bs\<rparr>) = Refresh s" "Refresh (s\<lparr>last_tag := t\<rparr>) = Refresh s"
    "Refresh (s\<lparr>legitimate_message_end := l\<rparr>) = Refresh s"
  by (simp_all add: Advance_def Refresh_def)

lemma buffer_Advance: "ci_buffer (Advance n s) = drop n (ci_buffer s)"
  by (simp add: Advance_def)

text \<open>The stream a reader leaves: flat again, behind the bytes it read, with the same limits.\<close>

definition keeps :: "CodedInputStream \<Rightarrow> CodedInputStream \<Rightarrow> bool" where
  "keeps s t \<longleftrightarrow> Refresh t = Some False \<and> (\<exists>k. ci_buffer t = drop k (ci_buffer s)) \<and> ci_after t = ci_after s
     \<and> total_bytes_read t = total_bytes_read s \<and> current_limit t = current_limit s \<and> total_bytes_limit t = total_bytes_limit s"

lemma keeps_flat: "keeps s t \<Longrightarrow> Refresh t = Some False"
  by (simp add: keeps_def)

lemma keeps_length: "keeps s t \<Longrightarrow> length (ci_buffer t) \<le> length (ci_buffer s)"
  by (auto simp: keeps_def)

lemma keeps_trans: "keeps s t \<Longrightarrow> keeps t r \<Longrightarrow> keeps s r"
  by (auto simp: keeps_def)

lemma keepsI [simp]:
  assumes "Refresh s = Some False"
  shows "keeps s s" "keeps s (Advance k s)" "keeps s (s\<lparr>ci_buffer := drop k (ci_buffer s)\<rparr>)" "keeps s (s\<lparr>ci_buffer := []\<rparr>)"
proof -
  show "keeps s s" using assms unfolding keeps_def by (auto intro: exI [of _ 0])
  show "keeps s (Advance k s)" "keeps s (s\<lparr>ci_buffer := drop k (ci_buffer s)\<rparr>)" using assms by (auto simp: keeps_def Advance_def)
  show "keeps s (s\<lparr>ci_buffer := []\<rparr>)" using assms by (auto simp: keeps_def intro: exI [of _ "length (ci_buffer s)"])
qed

lemma keeps_update [simp]:
  "keeps s (t\<lparr>last_tag := x\<rparr>) = keeps s t" "keeps s (t\<lparr>legitimate_message_end := l\<rparr>) = keeps s t"
  "keeps s (t\<lparr>recursion_depth := d\<rparr>) = keeps s t" "keeps (s\<lparr>recursion_depth := d\<rparr>) t = keeps s t"
  by (simp_all add: keeps_def Refresh_def)

lemma varint_keeps: "Refresh s = Some False \<Longrightarrow> varint n (ci_buffer s) = Some (v, rest) \<Longrightarrow> keeps s (s\<lparr>ci_buffer := rest\<rparr>)"
  using varint_shorter [of n "ci_buffer s" v rest] by auto

lemma ReadTagFallback_spec:
  assumes flat: "Refresh s = Some False"
  shows "case varint kMaxVarintBytes (ci_buffer s) of
           Some (v, rest) \<Rightarrow> ReadTagFallback s = Some (word_of_nat v, s\<lparr>ci_buffer := rest\<rparr>)
         | None \<Rightarrow> \<exists>t. ReadTagFallback s = Some (0, t) \<and> keeps s t"
proof (cases "fast_path s")
  case True
  with array_spec [of "ci_buffer s"] fast_path_room [OF True] flat show ?thesis
    by (auto simp: ReadTagFallback_def kMaxVarintBytes_def split: option.split)
next
  case False
  show ?thesis
  proof (cases "ci_buffer s")
    case Nil
    with False flat show ?thesis
      by (auto simp: ReadTagFallback_def ReadTagSlow_def Let_def kMaxVarintBytes_def eval_nat_numeral)
  next
    case (Cons b bs)
    with False have "ReadTagFallback s = map_option (\<lambda>(r, s). (case r of None \<Rightarrow> 0 | Some v \<Rightarrow> ucast v, s)) (ReadVarint64 s)"
      by (simp add: ReadTagFallback_def ReadTagSlow_def BufferSize_def)
    with ReadVarint64_decodes [OF flat] flat show ?thesis
      by (auto simp: decodes_def ucast_word_of_nat split: option.splits)
  qed
qed

lemma ReadTag_spec:
  assumes flat: "Refresh s = Some False"
  shows "case varint kMaxVarintBytes (ci_buffer s) of
           Some (v, rest) \<Rightarrow> ReadTag s = Some (word_of_nat v, s\<lparr>ci_buffer := rest, last_tag := word_of_nat v\<rparr>)
         | None \<Rightarrow> \<exists>t. ReadTag s = Some (0, t) \<and> keeps s t"
proof (cases "ci_buffer s \<noteq> [] \<and> hd (ci_buffer s) < 0x80")
  case True
  then show ?thesis by (simp add: ReadTag_def one_byte Advance_def drop_Suc Let_def)
next
  case False
  then show ?thesis
    using ReadTagFallback_spec [OF flat] by (auto simp: ReadTag_def split: option.splits)
qed

lemma ReadTag_enc:
  assumes "Refresh s = Some False" "ci_buffer s = enc (unat tag) @ rest"
  shows "ReadTag s = Some (tag, s\<lparr>ci_buffer := rest, last_tag := tag\<rparr>)"
proof -
  have "length (enc (unat tag)) \<le> 10" using length_enc_32 [of tag] by simp
  then show ?thesis
    using ReadTag_spec [OF assms(1)] varint_enc [of "unat tag" 10 rest] assms(2) by (simp add: kMaxVarintBytes_def)
qed

lemma ReadTag_consumes:
  assumes "Refresh s = Some False" "ReadTag s = Some (tag, t)"
  shows "keeps s t" "tag \<noteq> 0 \<Longrightarrow> length (ci_buffer t) < length (ci_buffer s)"
  using ReadTag_spec [OF assms(1)] assms varint_shorter [of kMaxVarintBytes "ci_buffer s"] varint_keeps [OF assms(1)]
  by (fastforce split: option.splits)+

lemma ReadTag_returns: "Refresh s = Some False \<Longrightarrow> \<exists>tag t. ReadTag s = Some (tag, t)"
  using ReadTag_spec [of s] by (auto split: option.splits)

text \<open>The cutoff variant of the generated parsers: the same tag, the same stream, and the comparison of the tag with the
  cutoff.\<close>

lemma two_bytes:
  assumes "x AND NOT y \<ge> (0x80 :: byte)"
  shows "\<not> unat x < 128" "unat y < 128"
proof -
  have "\<not> unat (x AND NOT y) < 128" using assms by (simp add: word_le_nat_alt)
  then have "bit x 7" "\<not> bit y 7" by (simp_all add: bit7_iff [symmetric] bit_simps)
  then show "\<not> unat x < 128" "unat y < 128" by (simp_all add: bit7_iff)
qed

lemma cutoff_flag: "(c \<ge> m \<or> tag \<le> c) = (tag \<le> c)" if "tag \<le> m" for tag c m :: uint32
  using that by auto

lemma ReadTagWithCutoff_eq:
  assumes flat: "Refresh s = Some False"
  shows "case ReadTag s of
           Some (tag, t) \<Rightarrow> \<exists>ok. ReadTagWithCutoff cutoff s = Some ((tag, ok), t) \<and> (tag \<noteq> 0 \<longrightarrow> ok = (tag \<le> cutoff))
         | None \<Rightarrow> False"
proof -
  let ?bs = "ci_buffer s"
  let ?one = "?bs \<noteq> [] \<and> 0 < hd ?bs \<and> hd ?bs < 0x80"
  let ?two = "?bs \<noteq> [] \<and> cutoff \<ge> 0x80 \<and> 1 < BufferSize s \<and> ?bs ! 0 AND NOT (?bs ! 1) \<ge> 0x80"
  consider (one) ?one | (two) "\<not> ?one" ?two | (slow) "\<not> ?one" "\<not> ?two" by blast
  then show ?thesis
  proof cases
    case one
    then have "(ucast (hd ?bs) :: uint32) \<le> 0x7F"
      by (auto simp: word_le_nat_alt word_less_nat_alt unsigned_ucast_eq take_bit_nat_eq_self)
    with one show ?thesis by (simp add: ReadTag_def ReadTagWithCutoff_def Let_def cutoff_flag)
  next
    case two
    then obtain x y rest where bs: "?bs = x # y # rest" and "x AND NOT y \<ge> 0x80"
      by (cases "?bs"; cases "tl ?bs") (auto simp: BufferSize_def)
    then have xy: "\<not> unat x < 128" "unat y < 128" using two_bytes by blast+
    have tag: "128 * ucast y + (ucast x - 0x80) = (word_of_nat (unat x mod 128 + 128 * unat y) :: uint32)"
      using arg_cong [OF byte_high [OF xy(1)], of "of_nat :: nat \<Rightarrow> uint32"] by simp
    have "unat x mod 128 + 128 * unat y \<le> 0x3FFF" using xy(2) mod_less_divisor [of 128 "unat x"] by simp
    then have "(word_of_nat (unat x mod 128 + 128 * unat y) :: uint32) \<le> 0x3FFF"
      by (simp add: word_le_nat_alt unat_of_nat del: of_nat_add of_nat_mult)
    moreover have "varint kMaxVarintBytes ?bs = Some (unat x mod 128 + 128 * unat y, rest)"
      using bs xy varint_more [of 2 ?bs _ 8] by (simp add: kMaxVarintBytes_def numeral_2_eq_2)
    moreover have "\<not> x < 0x80" using xy(1) by (simp add: byte_lt_iff)
    ultimately show ?thesis
      using two bs ReadTag_spec [OF flat] tag
      by (simp add: ReadTagWithCutoff_def Let_def cutoff_flag Advance_def del: of_nat_add of_nat_mult)
  next
    case slow
    have le: "tag - 1 < cutoff \<longleftrightarrow> tag \<le> cutoff" if "tag \<noteq> 0" for tag
    proof -
      from that have "0 < unat tag" by (simp add: unat_gt_0)
      with that show ?thesis by (auto simp: word_less_nat_alt word_le_nat_alt unat_minus_one)
    qed
    have cut: "ReadTagWithCutoff cutoff s = map_option (\<lambda>(tag, s). ((tag, tag - 1 < cutoff), s\<lparr>last_tag := tag\<rparr>)) (ReadTagFallback s)"
      using slow by (simp only: ReadTagWithCutoff_def if_False)
    show ?thesis
    proof (cases "varint kMaxVarintBytes ?bs")
      case None
      then have "ReadTag s = map_option (\<lambda>(tag, s). (tag, s\<lparr>last_tag := tag\<rparr>)) (ReadTagFallback s)"
        using one_byte by (auto simp: ReadTag_def)
      with None ReadTagFallback_spec [OF flat] cut show ?thesis by auto
    next
      case (Some r)
      with ReadTag_spec [OF flat] ReadTagFallback_spec [OF flat] cut show ?thesis
        by (cases r) (simp add: le)
    qed
  qed
qed

subsection \<open>Limits\<close>

text \<open>A stream below the total limit whose hidden bytes are those behind the current limit: every stream of an array of less
  than 64 MB, whatever limits are pushed on it.\<close>

definition limits_ok :: "CodedInputStream \<Rightarrow> bool" where
  "limits_ok s \<longleftrightarrow> total_bytes_read s < total_bytes_limit s \<and> total_bytes_limit s \<le> INT_MAX
     \<and> int (length (ci_after s)) = total_bytes_read s - current_limit s
     \<and> int (BufferSize s + length (ci_after s)) \<le> total_bytes_read s"

lemma limits_ok_array: "length bs < 64 * 2 ^ 20 \<Longrightarrow> limits_ok (CodedInputStream_array bs)"
  by (simp add: limits_ok_def CodedInputStream_array_def INT_MAX_def BufferSize_def)

lemma limits_ok_flat: "limits_ok s \<Longrightarrow> Refresh s = Some False"
  by (auto simp: limits_ok_def Refresh_def)

lemma recompute_limit:
  assumes "limits_ok s" "CurrentPosition s \<le> limit" "limit \<le> total_bytes_read s"
  shows "RecomputeBufferLimits (s\<lparr>current_limit := limit\<rparr>) =
     s\<lparr>ci_buffer := take (nat (limit - CurrentPosition s)) (ci_buffer s @ ci_after s),
       ci_after := drop (nat (limit - CurrentPosition s)) (ci_buffer s @ ci_after s), current_limit := limit\<rparr>"
proof -
  have "length (ci_buffer s @ ci_after s) - nat (total_bytes_read s - limit) = nat (limit - CurrentPosition s)"
    using assms unfolding limits_ok_def CurrentPosition_def BufferSize_def length_append by linarith
  moreover have "min limit (total_bytes_limit s) = limit" "(if limit < total_bytes_read s then nat (total_bytes_read s - limit) else 0) = nat (total_bytes_read s - limit)"
    using assms by (auto simp: limits_ok_def)
  moreover have "ci_buffer (s\<lparr>current_limit := limit\<rparr>) = ci_buffer s" "ci_after (s\<lparr>current_limit := limit\<rparr>) = ci_after s"
      "current_limit (s\<lparr>current_limit := limit\<rparr>) = limit" "total_bytes_limit (s\<lparr>current_limit := limit\<rparr>) = total_bytes_limit s"
      "total_bytes_read (s\<lparr>current_limit := limit\<rparr>) = total_bytes_read s"
    by simp_all
  ultimately have "RecomputeBufferLimits (s\<lparr>current_limit := limit\<rparr>) =
     s\<lparr>current_limit := limit, ci_buffer := take (nat (limit - CurrentPosition s)) (ci_buffer s @ ci_after s),
       ci_after := drop (nat (limit - CurrentPosition s)) (ci_buffer s @ ci_after s)\<rparr>"
    by (simp only: RecomputeBufferLimits_def Let_def)
  then show ?thesis by simp
qed

text \<open>The position up to which a pushed limit lets the reader go.\<close>

definition visible :: "int \<Rightarrow> CodedInputStream \<Rightarrow> nat" where
  "visible n s = (if n < 0 then BufferSize s else min (nat n) (BufferSize s))"

lemma PushLimit_eq:
  assumes ok: "limits_ok s"
  shows "PushLimit n s = (current_limit s,
     s\<lparr>ci_buffer := take (visible n s) (ci_buffer s), ci_after := drop (visible n s) (ci_buffer s) @ ci_after s,
       current_limit := CurrentPosition s + int (visible n s)\<rparr>)"
proof -
  let ?pos = "CurrentPosition s"
  have pos: "?pos + int (BufferSize s) = current_limit s" "0 \<le> ?pos" "current_limit s \<le> INT_MAX" "current_limit s \<le> total_bytes_read s"
    using ok by (auto simp: limits_ok_def CurrentPosition_def)
  have "min (if n \<ge> 0 \<and> n \<le> INT_MAX - ?pos then ?pos + n else INT_MAX) (current_limit s) = ?pos + int (visible n s)"
    using pos by (auto simp: visible_def)
  moreover have "visible n s \<le> length (ci_buffer s)" "int (visible n s) \<le> int (BufferSize s)"
    by (auto simp: visible_def BufferSize_def)
  ultimately show ?thesis
    using recompute_limit [OF ok, of "?pos + int (visible n s)"] pos
    by (simp add: PushLimit_def Let_def)
qed

text \<open>The limits of nested messages. On a stream below the total limit, \<^verbatim>\<open>PushLimit\<close> with the length of a
  submessage shows the reader exactly that many of the bytes that are left; a negative length, or one larger than what the
  enclosing limit leaves, shows those that are left and no more. After any number of these bytes are read, \<^verbatim>\<open>PopLimit\<close> with
  the old limit gives back the stream as it would be without the limit, at the same position.\<close>

lemma PushLimit_PopLimit:
  assumes "limits_ok s" "k \<le> visible n s" "PushLimit n s = (old, t)"
  shows "ci_buffer t = take (visible n s) (ci_buffer s) \<and> limits_ok t
     \<and> PopLimit old (Advance k t) = (Advance k s)\<lparr>legitimate_message_end := False\<rparr>"
proof -
  have v: "visible n s \<le> length (ci_buffer s)" by (auto simp: visible_def BufferSize_def)
  have t: "old = current_limit s" "t = s\<lparr>ci_buffer := take (visible n s) (ci_buffer s),
      ci_after := drop (visible n s) (ci_buffer s) @ ci_after s, current_limit := CurrentPosition s + int (visible n s)\<rparr>"
    using PushLimit_eq [OF assms(1), of n] assms(3) by simp_all
  have ok: "limits_ok (Advance k t)" "limits_ok t"
    using assms(1,2) v by (auto simp: t limits_ok_def CurrentPosition_def BufferSize_def Advance_def)
  have pos: "nat (current_limit s - CurrentPosition (Advance k t)) = length (ci_buffer s) - k"
    using assms(1,2) v by (simp add: t limits_ok_def CurrentPosition_def BufferSize_def Advance_def)
  have "CurrentPosition (Advance k t) \<le> current_limit s" "current_limit s \<le> total_bytes_read (Advance k t)"
    using assms(1,2) v by (auto simp: t limits_ok_def CurrentPosition_def BufferSize_def Advance_def)
  moreover have "drop k (take (visible n s) (ci_buffer s)) @ drop (visible n s) (ci_buffer s) = drop k (ci_buffer s)"
    using drop_append [of k "take (visible n s) (ci_buffer s)" "drop (visible n s) (ci_buffer s)"] assms(2) v by simp
  ultimately have "PopLimit old (Advance k t) = (Advance k s)\<lparr>legitimate_message_end := False\<rparr>"
    using recompute_limit [OF ok(1), of "current_limit s"] pos assms(2) v
    by (simp add: PopLimit_def t Advance_def)
  then show ?thesis using ok(2) by (simp add: t)
qed

lemma keeps_limits_ok: "limits_ok s \<Longrightarrow> keeps s t \<Longrightarrow> limits_ok t"
  by (auto simp: limits_ok_def keeps_def BufferSize_def)

subsection \<open>Properties of the coding\<close>

text \<open>C33. Every reader decodes the same numbers. On every flat stream and whatever bytes it holds, \<^verbatim>\<open>ReadVarint32\<close> and
  \<^verbatim>\<open>ReadVarint64\<close>, through their one-byte, unrolled and byte-by-byte paths, return what the reference decoding of at most
  ten base-128 digits gives, reduced to 32 or 64 bits, and stand behind its last byte; they return false exactly when the
  reference has no number there, and no path reads past the end of the array. The cutoff variant of the tag reader returns
  the tag and the stream of \<^verbatim>\<open>ReadTag\<close> and compares a tag other than 0 with the cutoff.\<close>

theorem varint_readers_decode:
  assumes "Refresh s = Some False"
  shows "decodes (word_of_nat :: nat \<Rightarrow> uint32) s (ReadVarint32 s) \<and> decodes (word_of_nat :: nat \<Rightarrow> uint64) s (ReadVarint64 s)
     \<and> (case ReadTag s of
           Some (tag, t) \<Rightarrow> ReadTagWithCutoff cutoff s = Some ((tag, tag \<le> cutoff), t) \<or> (\<exists>ok. tag = 0 \<and> ReadTagWithCutoff cutoff s = Some ((0, ok), t))
         | None \<Rightarrow> False)"
  using ReadVarint32_decodes [OF assms] ReadVarint64_decodes [OF assms] ReadTagWithCutoff_eq [OF assms, of cutoff]
  by (auto split: option.splits)

lemma varint_example: "varint kMaxVarintBytes [0xAC, 0x02, 0x08] = Some (300, [0x08])"
  by code_simp

theorem varint_readers_decode_witness:
  "decodes (word_of_nat :: nat \<Rightarrow> uint32) (CodedInputStream_array [0xAC, 0x02, 0x08]) (ReadVarint32 (CodedInputStream_array [0xAC, 0x02, 0x08]))
   \<and> varint kMaxVarintBytes [0xAC, 0x02, 0x08] = Some (300, [0x08])"
  using varint_readers_decode [of "CodedInputStream_array [0xAC, 0x02, 0x08]"]
  by (simp add: varint_example)

lemma size_top: "bit v 63 \<Longrightarrow> VarintSize64 v = 10"
proof -
  assume "bit v 63"
  then have "odd (unat v div 2 ^ 63)"
    using bit_unsigned_iff [where ?'a = nat, of v 63] by (simp add: bit_iff_odd)
  then have "2 ^ 63 \<le> unat v"
    by (cases "unat v < 2 ^ 63") auto
  then show ?thesis
    by (simp add: VarintSize64_def word_less_nat_alt)
qed

text \<open>C34. Varints round trip. What \<^verbatim>\<open>WriteVarint64ToArray\<close>, \<^verbatim>\<open>WriteVarint32ToArray\<close>, \<^verbatim>\<open>WriteVarint32SignExtendedToArray\<close> and
  \<^verbatim>\<open>WriteTagToArray\<close> write is read back as the same value by \<^verbatim>\<open>ReadVarint64\<close>, \<^verbatim>\<open>ReadVarint32\<close> and \<^verbatim>\<open>ReadTag\<close>, for every
  value and whatever bytes follow, which are left in the stream; the unrolled writers store the bytes of the byte-by-byte
  loops; and \<^verbatim>\<open>VarintSize32\<close>, \<^verbatim>\<open>VarintSize32SignExtended\<close> and \<^verbatim>\<open>VarintSize64\<close> announce the number of bytes written.\<close>

theorem varint_roundtrip:
  "let from = CodedInputStream_array in
     ReadVarint64 (from (WriteVarint64ToArray x @ rest)) = Some (Some x, (from (WriteVarint64ToArray x @ rest))\<lparr>ci_buffer := rest\<rparr>)
   \<and> ReadVarint32 (from (WriteVarint32ToArray y @ rest)) = Some (Some y, (from (WriteVarint32ToArray y @ rest))\<lparr>ci_buffer := rest\<rparr>)
   \<and> ReadVarint32 (from (WriteVarint32SignExtendedToArray y @ rest))
       = Some (Some y, (from (WriteVarint32SignExtendedToArray y @ rest))\<lparr>ci_buffer := rest\<rparr>)
   \<and> ReadTag (from (WriteTagToArray y @ rest)) = Some (y, (from (WriteTagToArray y @ rest))\<lparr>ci_buffer := rest, last_tag := y\<rparr>)
   \<and> WriteVarint64ToArray x = varint_bytes x \<and> WriteVarint32ToArray y = varint_bytes y
   \<and> VarintSize64 x = length (WriteVarint64ToArray x) \<and> VarintSize32 y = length (WriteVarint32ToArray y)
   \<and> VarintSize32SignExtended y = length (WriteVarint32SignExtendedToArray y)"
proof -
  have "VarintSize64 (scast y) = 10" if "sint y < 0"
    using that by (intro size_top) (simp add: bit_simps bit_last_iff [symmetric])
  then have "VarintSize32SignExtended y = length (WriteVarint32SignExtendedToArray y)"
    by (simp add: VarintSize32SignExtended_def WriteVarint32SignExtendedToArray_def VarintSize32_enc VarintSize64_enc Write64_enc Write32_enc)
  then show ?thesis
    by (simp add: Let_def read_enc64 read_enc32 read_extended ReadTag_enc Write64_enc Write32_enc WriteTag_enc varint_bytes_enc
        VarintSize64_enc VarintSize32_enc)
qed

end
