(* ===== verification/WireFormat.thy ===== *)
theory WireFormat
  imports CodedStream
begin

text \<open>
  \<^verbatim>\<open>include/google/protobuf/wire_format_lite\<close>, \<^verbatim>\<open>wire_format.cc\<close> and \<^verbatim>\<open>unknown_field_set.cc\<close> over flat arrays: tags, the fields
  of the types the program's messages use, nested messages, and the fields a parser does not know. The servers relay
  messages that other servers added fields to, so what is kept of unknown fields matters to them.

  The parser of a message class is generated code: \<open>ReadMessage\<close> takes it as an argument. An \<^verbatim>\<open>UnknownFieldSet*\<close> is an
  optional list (\<open>None\<close>: the null pointer). \<open>SkipMessage\<close> recurses on a fuel; \<open>None\<close> is again a read outside the array, or
  no fuel left, and the fuel of \<open>Skip_fuel\<close> (more than the bytes of the stream) is always enough.
\<close>

unbundle bit_operations_syntax

subsection \<open>Tags\<close>

definition WIRETYPE_VARINT :: uint32 where "WIRETYPE_VARINT = 0"

definition WIRETYPE_FIXED64 :: uint32 where "WIRETYPE_FIXED64 = 1"

definition WIRETYPE_LENGTH_DELIMITED :: uint32 where "WIRETYPE_LENGTH_DELIMITED = 2"

definition WIRETYPE_START_GROUP :: uint32 where "WIRETYPE_START_GROUP = 3"

definition WIRETYPE_END_GROUP :: uint32 where "WIRETYPE_END_GROUP = 4"

definition WIRETYPE_FIXED32 :: uint32 where "WIRETYPE_FIXED32 = 5"

lemmas wiretype_defs = WIRETYPE_VARINT_def WIRETYPE_FIXED64_def WIRETYPE_LENGTH_DELIMITED_def WIRETYPE_START_GROUP_def
  WIRETYPE_END_GROUP_def WIRETYPE_FIXED32_def

definition MakeTag :: "uint32 \<Rightarrow> uint32 \<Rightarrow> uint32" where
  "MakeTag field_number type = push_bit 3 field_number OR type"

definition GetTagWireType :: "uint32 \<Rightarrow> uint32" where
  "GetTagWireType tag = tag AND 7"

definition GetTagFieldNumber :: "uint32 \<Rightarrow> uint32" where
  "GetTagFieldNumber tag = drop_bit 3 tag"

subsection \<open>Fields\<close>

definition ReadPrimitive_int32 :: "CodedInputStream \<Rightarrow> (int option \<times> CodedInputStream) option" where
  "ReadPrimitive_int32 s = map_option (\<lambda>(r, s). (map_option sint r, s)) (ReadVarint32 s)"

definition ReadPrimitive_int64 :: "CodedInputStream \<Rightarrow> (int option \<times> CodedInputStream) option" where
  "ReadPrimitive_int64 s = map_option (\<lambda>(r, s). (map_option sint r, s)) (ReadVarint64 s)"

definition ReadPrimitive_uint32 :: "CodedInputStream \<Rightarrow> (uint32 option \<times> CodedInputStream) option" where
  "ReadPrimitive_uint32 s = ReadVarint32 s"

definition ReadPrimitive_uint64 :: "CodedInputStream \<Rightarrow> (uint64 option \<times> CodedInputStream) option" where
  "ReadPrimitive_uint64 s = ReadVarint64 s"

definition ReadPrimitive_bool :: "CodedInputStream \<Rightarrow> (bool option \<times> CodedInputStream) option" where
  "ReadPrimitive_bool s = map_option (\<lambda>(r, s). (map_option (\<lambda>temp. temp \<noteq> 0) r, s)) (ReadVarint64 s)"

definition ReadPrimitive_enum :: "CodedInputStream \<Rightarrow> (int option \<times> CodedInputStream) option" where
  "ReadPrimitive_enum s = map_option (\<lambda>(r, s). (map_option sint r, s)) (ReadVarint32 s)"

definition ReadBytes :: "CodedInputStream \<Rightarrow> ((bool \<times> byte list) \<times> CodedInputStream) option" where
  "ReadBytes s =
     (case ReadVarint32 s of
        None \<Rightarrow> None
      | Some (None, s) \<Rightarrow> Some ((False, []), s)
      | Some (Some len, s) \<Rightarrow> ReadString (sint len) s)"

text \<open>\<^verbatim>\<open>PushLimit\<close> takes an \<^verbatim>\<open>int\<close>: a length of 2^31 or more is negative there. When the generated parser fails the limit
  stays pushed.\<close>

definition ReadMessage ::
    "(CodedInputStream \<Rightarrow> 'm \<Rightarrow> (bool \<times> 'm \<times> CodedInputStream) option) \<Rightarrow> CodedInputStream \<Rightarrow> 'm \<Rightarrow> (bool \<times> 'm \<times> CodedInputStream) option" where
  "ReadMessage MergePartialFromCodedStream s m =
     (case ReadVarint32 s of
        None \<Rightarrow> None
      | Some (None, s) \<Rightarrow> Some (False, m, s)
      | Some (Some len, s) \<Rightarrow>
          (case IncrementRecursionDepth s of (ok, s) \<Rightarrow>
             if \<not> ok then Some (False, m, s)
             else (case PushLimit (sint len) s of (limit, s) \<Rightarrow>
               (case MergePartialFromCodedStream s m of
                  None \<Rightarrow> None
                | Some (ok, m, s) \<Rightarrow>
                    if \<not> ok \<or> \<not> ConsumedEntireMessage s then Some (False, m, s)
                    else Some (True, m, DecrementRecursionDepth (PopLimit limit s))))))"

text \<open>\<^verbatim>\<open>ReadPackedPrimitive\<close>; \<open>reader\<close> is the \<^verbatim>\<open>ReadPrimitive\<close> of the element type.\<close>

partial_function (option) packed_loop ::
    "(CodedInputStream \<Rightarrow> ('v option \<times> CodedInputStream) option) \<Rightarrow> CodedInputStream \<Rightarrow> 'v list \<Rightarrow> (bool \<times> 'v list \<times> CodedInputStream) option" where
  "packed_loop reader s vs =
     (if BytesUntilLimit s > 0 then
        (case reader s of
           None \<Rightarrow> None
         | Some (None, s) \<Rightarrow> Some (False, vs, s)
         | Some (Some v, s) \<Rightarrow> packed_loop reader s (vs @ [v]))
      else Some (True, vs, s))"

definition ReadPackedPrimitive ::
    "(CodedInputStream \<Rightarrow> ('v option \<times> CodedInputStream) option) \<Rightarrow> CodedInputStream \<Rightarrow> 'v list \<Rightarrow> (bool \<times> 'v list \<times> CodedInputStream) option" where
  "ReadPackedPrimitive reader s vs =
     (case ReadVarint32 s of
        None \<Rightarrow> None
      | Some (None, s) \<Rightarrow> Some (False, vs, s)
      | Some (Some len, s) \<Rightarrow>
          (case PushLimit (sint len) s of (limit, s) \<Rightarrow>
             (case packed_loop reader s vs of
                None \<Rightarrow> None
              | Some (ok, vs, s) \<Rightarrow> if \<not> ok then Some (False, vs, s) else Some (True, vs, PopLimit limit s))))"

definition lite_WriteTagToArray :: "uint32 \<Rightarrow> uint32 \<Rightarrow> byte list" where
  "lite_WriteTagToArray field_number type = WriteTagToArray (MakeTag field_number type)"

definition WriteInt32ToArray :: "uint32 \<Rightarrow> uint32 \<Rightarrow> byte list" where
  "WriteInt32ToArray field_number v = lite_WriteTagToArray field_number WIRETYPE_VARINT @ WriteVarint32SignExtendedToArray v"

definition WriteInt64ToArray :: "uint32 \<Rightarrow> uint64 \<Rightarrow> byte list" where
  "WriteInt64ToArray field_number v = lite_WriteTagToArray field_number WIRETYPE_VARINT @ WriteVarint64ToArray v"

definition WriteUInt32ToArray :: "uint32 \<Rightarrow> uint32 \<Rightarrow> byte list" where
  "WriteUInt32ToArray field_number v = lite_WriteTagToArray field_number WIRETYPE_VARINT @ WriteVarint32ToArray v"

definition WriteUInt64ToArray :: "uint32 \<Rightarrow> uint64 \<Rightarrow> byte list" where
  "WriteUInt64ToArray field_number v = lite_WriteTagToArray field_number WIRETYPE_VARINT @ WriteVarint64ToArray v"

definition WriteFixed32ToArray :: "uint32 \<Rightarrow> uint32 \<Rightarrow> byte list" where
  "WriteFixed32ToArray field_number v = lite_WriteTagToArray field_number WIRETYPE_FIXED32 @ WriteLittleEndian32ToArray v"

definition WriteFixed64ToArray :: "uint32 \<Rightarrow> uint64 \<Rightarrow> byte list" where
  "WriteFixed64ToArray field_number v = lite_WriteTagToArray field_number WIRETYPE_FIXED64 @ WriteLittleEndian64ToArray v"

definition WriteBoolToArray :: "uint32 \<Rightarrow> bool \<Rightarrow> byte list" where
  "WriteBoolToArray field_number v = lite_WriteTagToArray field_number WIRETYPE_VARINT @ WriteVarint32ToArray (if v then 1 else 0)"

definition WriteEnumToArray :: "uint32 \<Rightarrow> uint32 \<Rightarrow> byte list" where
  "WriteEnumToArray field_number v = lite_WriteTagToArray field_number WIRETYPE_VARINT @ WriteVarint32SignExtendedToArray v"

definition WriteBytesToArray :: "uint32 \<Rightarrow> byte list \<Rightarrow> byte list" where
  "WriteBytesToArray field_number v = lite_WriteTagToArray field_number WIRETYPE_LENGTH_DELIMITED @ WriteStringWithSizeToArray v"

text \<open>A nested message: its cached size, then its bytes.\<close>

definition WriteMessageToArray :: "uint32 \<Rightarrow> uint32 \<Rightarrow> byte list \<Rightarrow> byte list" where
  "WriteMessageToArray field_number cached_size serialized =
     lite_WriteTagToArray field_number WIRETYPE_LENGTH_DELIMITED @ WriteVarint32ToArray cached_size @ serialized"

subsection \<open>Unknown fields\<close>

datatype UnknownField =
    TYPE_VARINT uint32 uint64
  | TYPE_FIXED32 uint32 uint32
  | TYPE_FIXED64 uint32 uint64
  | TYPE_LENGTH_DELIMITED uint32 "byte list"
  | TYPE_GROUP uint32 "UnknownField list"

definition add_field :: "UnknownField list option \<Rightarrow> UnknownField \<Rightarrow> UnknownField list option" where
  "add_field u f = map_option (\<lambda>fs. fs @ [f]) u"

definition WireFormat_SkipField ::
    "(CodedInputStream \<Rightarrow> UnknownField list option \<Rightarrow> (bool \<times> UnknownField list option \<times> CodedInputStream) option)
     \<Rightarrow> CodedInputStream \<Rightarrow> uint32 \<Rightarrow> UnknownField list option \<Rightarrow> (bool \<times> UnknownField list option \<times> CodedInputStream) option" where
  "WireFormat_SkipField SkipMessage s tag u =
     (let number = GetTagFieldNumber tag; type = GetTagWireType tag in
      if type = WIRETYPE_VARINT then
        map_option (\<lambda>(r, s). case r of None \<Rightarrow> (False, u, s) | Some v \<Rightarrow> (True, add_field u (TYPE_VARINT number v), s)) (ReadVarint64 s)
      else if type = WIRETYPE_FIXED64 then
        map_option (\<lambda>(r, s). case r of None \<Rightarrow> (False, u, s) | Some v \<Rightarrow> (True, add_field u (TYPE_FIXED64 number v), s)) (ReadLittleEndian64 s)
      else if type = WIRETYPE_LENGTH_DELIMITED then
        (case ReadVarint32 s of
           None \<Rightarrow> None
         | Some (None, s) \<Rightarrow> Some (False, u, s)
         | Some (Some len, s) \<Rightarrow>
             (if u = None then map_option (\<lambda>(ok, s). (ok, None, s)) (Skip (sint len) s)
              else map_option (\<lambda>((ok, str), s). (ok, add_field u (TYPE_LENGTH_DELIMITED number str), s)) (ReadString (sint len) s)))
      else if type = WIRETYPE_START_GROUP then
        (case IncrementRecursionDepth s of (ok, s) \<Rightarrow>
           if \<not> ok then Some (False, u, s)
           else (case SkipMessage s (map_option (\<lambda>_. []) u) of
                   None \<Rightarrow> None
                 | Some (ok, grp, s) \<Rightarrow>
                     let u = (case grp of None \<Rightarrow> u | Some fs \<Rightarrow> add_field u (TYPE_GROUP number fs)) in
                     if \<not> ok then Some (False, u, s)
                     else (let s = DecrementRecursionDepth s in Some (LastTagWas (MakeTag number WIRETYPE_END_GROUP) s, u, s))))
      else if type = WIRETYPE_END_GROUP then Some (False, u, s)
      else if type = WIRETYPE_FIXED32 then
        map_option (\<lambda>(r, s). case r of None \<Rightarrow> (False, u, s) | Some v \<Rightarrow> (True, add_field u (TYPE_FIXED32 number v), s)) (ReadLittleEndian32 s)
      else Some (False, u, s))"

text \<open>One iteration of the loop of \<^verbatim>\<open>SkipMessage\<close>; \<open>again\<close> is the rest of the loop and the call for a group.\<close>

definition skip_step ::
    "(CodedInputStream \<Rightarrow> UnknownField list option \<Rightarrow> (bool \<times> UnknownField list option \<times> CodedInputStream) option)
     \<Rightarrow> CodedInputStream \<Rightarrow> UnknownField list option \<Rightarrow> (bool \<times> UnknownField list option \<times> CodedInputStream) option" where
  "skip_step again s u =
     (case ReadTag s of
        None \<Rightarrow> None
      | Some (tag, s) \<Rightarrow>
          if tag = 0 then Some (True, u, s)
          else if GetTagWireType tag = WIRETYPE_END_GROUP then Some (True, u, s)
          else (case WireFormat_SkipField again s tag u of
                  None \<Rightarrow> None
                | Some (ok, u, s) \<Rightarrow> if ok then again s u else Some (False, u, s)))"

primrec WireFormat_SkipMessage ::
    "nat \<Rightarrow> CodedInputStream \<Rightarrow> UnknownField list option \<Rightarrow> (bool \<times> UnknownField list option \<times> CodedInputStream) option" where
  "WireFormat_SkipMessage 0 = (\<lambda>s u. None)"
| "WireFormat_SkipMessage (Suc fuel) = skip_step (WireFormat_SkipMessage fuel)"

definition Skip_fuel :: "CodedInputStream \<Rightarrow> nat" where
  "Skip_fuel s = Suc (length (ci_buffer s))"

fun SerializeUnknownFieldsToArray :: "UnknownField list \<Rightarrow> byte list"
  and SerializeUnknownFieldToArray :: "UnknownField \<Rightarrow> byte list" where
  "SerializeUnknownFieldsToArray [] = []"
| "SerializeUnknownFieldsToArray (f # fs) = SerializeUnknownFieldToArray f @ SerializeUnknownFieldsToArray fs"
| "SerializeUnknownFieldToArray (TYPE_VARINT number v) = WriteInt64ToArray number v"
| "SerializeUnknownFieldToArray (TYPE_FIXED32 number v) = WriteFixed32ToArray number v"
| "SerializeUnknownFieldToArray (TYPE_FIXED64 number v) = WriteFixed64ToArray number v"
| "SerializeUnknownFieldToArray (TYPE_LENGTH_DELIMITED number str) = WriteBytesToArray number str"
| "SerializeUnknownFieldToArray (TYPE_GROUP number grp) =
     lite_WriteTagToArray number WIRETYPE_START_GROUP @ SerializeUnknownFieldsToArray grp
     @ lite_WriteTagToArray number WIRETYPE_END_GROUP"

fun ComputeUnknownFieldsSize :: "UnknownField list \<Rightarrow> nat"
  and ComputeUnknownFieldSize :: "UnknownField \<Rightarrow> nat" where
  "ComputeUnknownFieldsSize [] = 0"
| "ComputeUnknownFieldsSize (f # fs) = ComputeUnknownFieldSize f + ComputeUnknownFieldsSize fs"
| "ComputeUnknownFieldSize (TYPE_VARINT number v) = VarintSize32 (MakeTag number WIRETYPE_VARINT) + VarintSize64 v"
| "ComputeUnknownFieldSize (TYPE_FIXED32 number v) = VarintSize32 (MakeTag number WIRETYPE_FIXED32) + 4"
| "ComputeUnknownFieldSize (TYPE_FIXED64 number v) = VarintSize32 (MakeTag number WIRETYPE_FIXED64) + 8"
| "ComputeUnknownFieldSize (TYPE_LENGTH_DELIMITED number str) =
     VarintSize32 (MakeTag number WIRETYPE_LENGTH_DELIMITED) + VarintSize32 (word_of_nat (length str)) + length str"
| "ComputeUnknownFieldSize (TYPE_GROUP number grp) =
     VarintSize32 (MakeTag number WIRETYPE_START_GROUP) + ComputeUnknownFieldsSize grp
     + VarintSize32 (MakeTag number WIRETYPE_END_GROUP)"

definition UnknownFieldSet_MergeFromCodedStream ::
    "CodedInputStream \<Rightarrow> UnknownField list \<Rightarrow> (bool \<times> UnknownField list \<times> CodedInputStream) option" where
  "UnknownFieldSet_MergeFromCodedStream s set_fields =
     (case WireFormat_SkipMessage (Skip_fuel s) s (Some []) of
        None \<Rightarrow> None
      | Some (ok, other, s) \<Rightarrow>
          if ok \<and> ConsumedEntireMessage s then Some (True, set_fields @ the other, s) else Some (False, set_fields, s))"

definition UnknownFieldSet_ParseFromCodedStream ::
    "CodedInputStream \<Rightarrow> UnknownField list \<Rightarrow> (bool \<times> UnknownField list \<times> CodedInputStream) option" where
  "UnknownFieldSet_ParseFromCodedStream s set_fields = UnknownFieldSet_MergeFromCodedStream s []"

subsection \<open>Tags and their parts\<close>

lemma MakeTag_unat:
  assumes "unat n < 2 ^ 29" "unat t < 8"
  shows "unat (MakeTag n t) = unat t + 8 * unat n"
proof -
  have "MakeTag n t = word_of_nat (unat t) OR push_bit 3 (word_of_nat (unat n))"
    by (simp add: MakeTag_def or.commute)
  also have "\<dots> = word_of_nat (unat t + 8 * unat n)"
    using or_push [where 'a = 32, of "unat t" 3 "unat n"] assms(2) by simp
  finally show ?thesis
    using assms by (simp add: unat_of_nat del: of_nat_add of_nat_mult)
qed

lemma and_7: "unat (tag AND 7 :: uint32) = unat tag mod 8"
proof -
  have "tag AND 7 = take_bit 3 tag"
    by (simp add: take_bit_eq_mask mask_eq_exp_minus_1)
  also have "unat \<dots> = take_bit 3 (unat tag)"
    by (rule unsigned_take_bit_eq)
  finally show ?thesis by (simp add: take_bit_eq_mod)
qed

lemma tag_parts:
  assumes "unat n < 2 ^ 29" "unat t < 8"
  shows "GetTagWireType (MakeTag n t) = t" "GetTagFieldNumber (MakeTag n t) = n" "n \<noteq> 0 \<Longrightarrow> MakeTag n t \<noteq> 0"
proof -
  show "GetTagWireType (MakeTag n t) = t"
    by (rule word_unat_eq_iff [THEN iffD2]) (use assms in \<open>simp add: GetTagWireType_def and_7 MakeTag_unat\<close>)
  show "GetTagFieldNumber (MakeTag n t) = n"
    by (rule word_unat_eq_iff [THEN iffD2]) (use assms in \<open>simp add: GetTagFieldNumber_def unat_drop MakeTag_unat\<close>)
  show "MakeTag n t \<noteq> 0" if "n \<noteq> 0"
    using MakeTag_unat [OF assms] that by (metis add_is_0 mult_is_0 unat_0 unat_eq_zero zero_neq_numeral)
qed

subsection \<open>Skipping ends\<close>

definition returns :: "CodedInputStream \<Rightarrow> (bool \<times> 'u \<times> CodedInputStream) option \<Rightarrow> bool" where
  "returns s r = (case r of None \<Rightarrow> False | Some (ok, v, t) \<Rightarrow> keeps s t)"

lemma returns_Some [simp]: "returns s (Some (ok, v, t)) = keeps s t" "\<not> returns s None"
  by (simp_all add: returns_def)

lemma returnsE: "returns s r \<Longrightarrow> (\<And>ok v t. r = Some (ok, v, t) \<Longrightarrow> keeps s t \<Longrightarrow> P) \<Longrightarrow> P"
  by (auto simp: returns_def split: option.splits)

lemma decodes_keeps: "decodes f s r \<Longrightarrow> Refresh s = Some False \<Longrightarrow> \<exists>v t. r = Some (v, t) \<and> keeps s t"
  using varint_keeps [of s kMaxVarintBytes] by (auto simp: decodes_def split: option.splits)

lemma ReadVarint_keeps:
  "Refresh s = Some False \<Longrightarrow> \<exists>v t. ReadVarint64 s = Some (v, t) \<and> keeps s t"
  "Refresh s = Some False \<Longrightarrow> \<exists>v t. ReadVarint32 s = Some (v, t) \<and> keeps s t"
  using decodes_keeps [OF ReadVarint64_decodes] decodes_keeps [OF ReadVarint32_decodes] by blast+

lemma ReadRaw_keeps: "Refresh s = Some False \<Longrightarrow> \<exists>v t. ReadRaw n s = Some (v, t) \<and> keeps s t"
  by (auto simp: ReadRaw_def Let_def)

lemma ReadLittleEndian_keeps:
  assumes "Refresh s = Some False"
  shows "\<exists>v t. ReadLittleEndian64 s = Some (v, t) \<and> keeps s t" "\<exists>v t. ReadLittleEndian32 s = Some (v, t) \<and> keeps s t"
proof -
  obtain ok8 bs8 t8 where "ReadRaw 8 s = Some ((ok8, bs8), t8)" "keeps s t8" using ReadRaw_keeps [OF assms, of 8] by force
  then show "\<exists>v t. ReadLittleEndian64 s = Some (v, t) \<and> keeps s t"
    using assms by (simp add: ReadLittleEndian64_def)
  obtain ok4 bs4 t4 where "ReadRaw 4 s = Some ((ok4, bs4), t4)" "keeps s t4" using ReadRaw_keeps [OF assms, of 4] by force
  then show "\<exists>v t. ReadLittleEndian32 s = Some (v, t) \<and> keeps s t"
    using assms by (simp add: ReadLittleEndian32_def)
qed

lemma ReadString_keeps: "Refresh s = Some False \<Longrightarrow> \<exists>v t. ReadString n s = Some (v, t) \<and> keeps s t"
  by (auto simp: ReadString_def Let_def)

lemma Skip_keeps:
  assumes "Refresh s = Some False"
  shows "\<exists>v t. Skip n s = Some (v, t) \<and> keeps s t"
proof -
  have "ci_after s \<noteq> [] \<or> total_bytes_read s = current_limit s"
    using assms by (simp add: Refresh_def split: if_splits)
  then have "Skip n s = Some (False, s) \<or> Skip n s = Some (True, Advance (nat n) s) \<or> Skip n s = Some (False, Advance (BufferSize s) s)
      \<or> Skip n s = Some (False, s\<lparr>ci_buffer := []\<rparr>)"
    by (auto simp: Skip_def Let_def)
  with assms show ?thesis by (elim disjE) auto
qed

lemma depth_keeps [simp]:
  "Refresh (s\<lparr>recursion_depth := d\<rparr>) = Refresh s"
  "Refresh (DecrementRecursionDepth s) = Refresh s" "ci_buffer (DecrementRecursionDepth s) = ci_buffer s"
  by (simp_all add: Refresh_def DecrementRecursionDepth_def)

lemma SkipField_keeps:
  assumes flat: "Refresh s = Some False"
    and again: "\<And>t u. Refresh t = Some False \<Longrightarrow> length (ci_buffer t) \<le> length (ci_buffer s) \<Longrightarrow> returns t (again t u)"
  shows "returns s (WireFormat_SkipField again s tag u)"
proof -
  define inc where "inc = s\<lparr>recursion_depth := recursion_depth s + 1\<rparr>"
  have inc: "Refresh inc = Some False" "ci_buffer inc = ci_buffer s" using flat by (simp_all add: inc_def)
  obtain v1 t1 where "ReadVarint64 s = Some (v1, t1)" "keeps s t1" using ReadVarint_keeps(1) [OF flat] by blast
  moreover obtain v2 t2 where "ReadLittleEndian64 s = Some (v2, t2)" "keeps s t2" using ReadLittleEndian_keeps(1) [OF flat] by blast
  moreover obtain v3 t3 where "ReadLittleEndian32 s = Some (v3, t3)" "keeps s t3" using ReadLittleEndian_keeps(2) [OF flat] by blast
  moreover obtain v4 t4 where 4: "ReadVarint32 s = Some (v4, t4)" "keeps s t4" using ReadVarint_keeps(2) [OF flat] by blast
  moreover obtain v5 t5 where "ReadString (sint (the v4)) t4 = Some (v5, t5)" "keeps s t5"
    using ReadString_keeps [OF keeps_flat [OF 4(2)]] keeps_trans [OF 4(2)] by blast
  moreover obtain v6 t6 where "Skip (sint (the v4)) t4 = Some (v6, t6)" "keeps s t6"
    using Skip_keeps [OF keeps_flat [OF 4(2)]] keeps_trans [OF 4(2)] by blast
  moreover obtain ok v7 t7 where "again inc (map_option (\<lambda>_. []) u) = Some (ok, v7, t7)" "keeps s t7"
    using again [of inc "map_option (\<lambda>_. []) u"] inc by (auto simp: inc_def elim!: returnsE)
  moreover have "keeps s (DecrementRecursionDepth t7)" "keeps s s" "keeps s inc"
    using flat inc \<open>keeps s t7\<close> by (simp_all add: inc_def DecrementRecursionDepth_def)
  ultimately show ?thesis
    by (cases v4; cases u) (simp_all add: WireFormat_SkipField_def Let_def IncrementRecursionDepth_def inc_def [symmetric] wiretype_defs
      split: option.split prod.split)
qed

lemma SkipMessage_keeps:
  "Refresh s = Some False \<Longrightarrow> length (ci_buffer s) < f \<Longrightarrow> returns s (WireFormat_SkipMessage f s u)"
proof (induction f arbitrary: s u)
  case (Suc f)
  obtain tag t where t: "ReadTag s = Some (tag, t)" using ReadTag_returns [OF Suc.prems(1)] by blast
  show ?case
  proof (cases "tag = 0")
    case True
    then show ?thesis
      using t ReadTag_consumes [OF Suc.prems(1) t] by (simp add: skip_step_def)
  next
    case False
    then have flat: "Refresh t = Some False" "length (ci_buffer t) < length (ci_buffer s)" "keeps s t"
      using ReadTag_consumes [OF Suc.prems(1) t] keeps_flat by auto
    have again: "returns r (WireFormat_SkipMessage f r u)"
      if "Refresh r = Some False" "length (ci_buffer r) \<le> length (ci_buffer t)" for r u
      using that flat Suc.prems by (intro Suc.IH) simp_all
    have "returns t (WireFormat_SkipField (WireFormat_SkipMessage f) t tag u)"
      using flat(1) again by (rule SkipField_keeps)
    then obtain ok v r where r: "WireFormat_SkipField (WireFormat_SkipMessage f) t tag u = Some (ok, v, r)" "keeps t r"
      by (elim returnsE) blast
    obtain ok' v' r' where r': "WireFormat_SkipMessage f r v = Some (ok', v', r')" "keeps r r'"
      using again [OF keeps_flat [OF r(2)] keeps_length [OF r(2)], of v] by (auto elim!: returnsE)
    have "keeps s r" "keeps s r'" using flat(3) r(2) r'(2) keeps_trans by blast+
    then show ?thesis
      using t False r(1) r'(1) flat(3) by (simp add: skip_step_def)
  qed
qed simp

text \<open>The loop without its fuel, and its unfolding.\<close>

definition skip_all :: "CodedInputStream \<Rightarrow> UnknownField list option \<Rightarrow> (bool \<times> UnknownField list option \<times> CodedInputStream) option" where
  "skip_all s u = WireFormat_SkipMessage (Skip_fuel s) s u"

lemma SkipField_cong:
  assumes "Refresh s = Some False" "\<And>t u. Refresh t = Some False \<Longrightarrow> length (ci_buffer t) \<le> length (ci_buffer s) \<Longrightarrow> a t u = b t u"
  shows "WireFormat_SkipField a s tag u = WireFormat_SkipField b s tag u"
proof -
  have "a (s\<lparr>recursion_depth := d\<rparr>) v = b (s\<lparr>recursion_depth := d\<rparr>) v" for d v
    using assms by simp
  then show ?thesis
    by (simp add: WireFormat_SkipField_def Let_def IncrementRecursionDepth_def)
qed

lemma step_cong:
  assumes flat: "Refresh s = Some False"
    and returns: "\<And>t u. Refresh t = Some False \<Longrightarrow> length (ci_buffer t) < length (ci_buffer s) \<Longrightarrow> returns t (a t u)"
    and eq: "\<And>t u. Refresh t = Some False \<Longrightarrow> length (ci_buffer t) < length (ci_buffer s) \<Longrightarrow> a t u = b t u"
  shows "skip_step a s u = skip_step b s u"
proof -
  obtain tag t where t: "ReadTag s = Some (tag, t)" using ReadTag_returns [OF flat] by blast
  show ?thesis
  proof (cases "tag = 0")
    case False
    note t_flat = keeps_flat [OF ReadTag_consumes(1) [OF flat t]] ReadTag_consumes(2) [OF flat t False]
    have same: "WireFormat_SkipField a t tag u = WireFormat_SkipField b t tag u"
      using t_flat eq by (intro SkipField_cong) auto
    have "returns t (WireFormat_SkipField a t tag u)"
      using t_flat returns by (intro SkipField_keeps) auto
    then obtain ok v r where r: "WireFormat_SkipField a t tag u = Some (ok, v, r)" "keeps t r"
      by (elim returnsE) blast
    then have "a r v = b r v"
      using t_flat keeps_flat [OF r(2)] keeps_length [OF r(2)] by (intro eq) auto
    with t r(1) same show ?thesis by (simp add: skip_step_def)
  qed (use t in \<open>simp add: skip_step_def\<close>)
qed

lemma fuel_eq:
  "Refresh s = Some False \<Longrightarrow> length (ci_buffer s) < f \<Longrightarrow> length (ci_buffer s) < g \<Longrightarrow>
   WireFormat_SkipMessage f s u = WireFormat_SkipMessage g s u"
proof (induction f arbitrary: g s u)
  case (Suc f)
  then obtain g' where g: "g = Suc g'" by (cases g) auto
  with Suc show ?case
    by (auto intro!: step_cong Suc.IH SkipMessage_keeps)
qed simp

lemma skip_all_step:
  assumes "Refresh s = Some False"
  shows "skip_all s u = skip_step skip_all s u"
proof -
  have "skip_all s u = skip_step (WireFormat_SkipMessage (length (ci_buffer s))) s u"
    by (simp add: skip_all_def Skip_fuel_def)
  also have "\<dots> = skip_step skip_all s u"
    using assms by (intro step_cong) (auto simp: skip_all_def Skip_fuel_def intro: SkipMessage_keeps fuel_eq simp del: WireFormat_SkipMessage.simps)
  finally show ?thesis .
qed

subsection \<open>Unknown fields round trip\<close>

text \<open>Fields a stream can carry: numbers of 29 bits other than 0 and strings shorter than 2^31 bytes; and the depth of the
  groups in them.\<close>

definition good_number :: "uint32 \<Rightarrow> bool" where
  "good_number n \<longleftrightarrow> n \<noteq> 0 \<and> unat n < 2 ^ 29"

fun good_fields :: "UnknownField list \<Rightarrow> bool" and good_field :: "UnknownField \<Rightarrow> bool" where
  "good_fields [] = True"
| "good_fields (f # fs) = (good_field f \<and> good_fields fs)"
| "good_field (TYPE_VARINT n v) = good_number n"
| "good_field (TYPE_FIXED32 n v) = good_number n"
| "good_field (TYPE_FIXED64 n v) = good_number n"
| "good_field (TYPE_LENGTH_DELIMITED n str) = (good_number n \<and> length str < 2 ^ 31)"
| "good_field (TYPE_GROUP n fs) = (good_number n \<and> good_fields fs)"

fun nesting :: "UnknownField list \<Rightarrow> nat" and nesting_field :: "UnknownField \<Rightarrow> nat" where
  "nesting [] = 0"
| "nesting (f # fs) = max (nesting_field f) (nesting fs)"
| "nesting_field (TYPE_GROUP n fs) = Suc (nesting fs)"
| "nesting_field _ = 0"

lemma lite_WriteTag_enc: "lite_WriteTagToArray n t = enc (unat (MakeTag n t))"
  by (simp add: lite_WriteTagToArray_def WriteTag_enc)

lemmas write_defs = WriteInt64ToArray_def WriteFixed32ToArray_def WriteFixed64ToArray_def WriteBytesToArray_def
  WriteStringWithSizeToArray_def WriteLittleEndian32ToArray_def WriteLittleEndian64ToArray_def
  lite_WriteTag_enc Write64_enc Write32_enc

lemma ReadLittleEndian_back:
  "ci_buffer s = le32 v @ rest \<Longrightarrow> ReadLittleEndian32 s = Some (Some v, s\<lparr>ci_buffer := rest\<rparr>)"
  "ci_buffer s = le64 w @ rest \<Longrightarrow> ReadLittleEndian64 s = Some (Some w, s\<lparr>ci_buffer := rest\<rparr>)"
  by (simp_all add: ReadLittleEndian32_def ReadLittleEndian64_def BufferSize_def Advance_def)

lemma ReadString_back:
  "ci_buffer s = str @ rest \<Longrightarrow> ReadString (int (length str)) s = Some ((True, str), s\<lparr>ci_buffer := rest\<rparr>)"
  by (simp add: ReadString_def BufferSize_def Advance_def)

lemma sint_length: "length str < 2 ^ 31 \<Longrightarrow> sint (word_of_nat (length str) :: uint32) = int (length str)"
  by (simp add: signed_of_nat signed_take_bit_int_eq_self)

text \<open>One field: its tag is read, the field is added, and the loop goes on behind it.\<close>

lemma skip_all_field:
  assumes flat: "Refresh s = Some False" and number: "good_number n" and t: "unat t < 8" "t \<noteq> WIRETYPE_END_GROUP"
    and buf: "ci_buffer s = lite_WriteTagToArray n t @ body"
    and field: "WireFormat_SkipField skip_all (s\<lparr>ci_buffer := body, last_tag := MakeTag n t\<rparr>) (MakeTag n t) u = Some (True, v, r)"
  shows "skip_all s u = skip_all r v"
proof -
  have "ReadTag s = Some (MakeTag n t, s\<lparr>ci_buffer := body, last_tag := MakeTag n t\<rparr>)"
    using ReadTag_enc [OF flat] buf by (simp add: lite_WriteTag_enc)
  then show ?thesis
    using skip_all_step [OF flat] field number t tag_parts [of n t] by (simp add: skip_step_def good_number_def)
qed

lemma skip_all_end:
  assumes flat: "Refresh s = Some False" and number: "good_number n" and buf: "ci_buffer s = lite_WriteTagToArray n WIRETYPE_END_GROUP @ rest"
  shows "skip_all s u = Some (True, u, s\<lparr>ci_buffer := rest, last_tag := MakeTag n WIRETYPE_END_GROUP\<rparr>)"
proof -
  have "ReadTag s = Some (MakeTag n WIRETYPE_END_GROUP, s\<lparr>ci_buffer := rest, last_tag := MakeTag n WIRETYPE_END_GROUP\<rparr>)"
    using ReadTag_enc [OF flat] buf by (simp add: lite_WriteTag_enc)
  then show ?thesis
    using skip_all_step [OF flat] number tag_parts [of n WIRETYPE_END_GROUP] by (simp add: skip_step_def good_number_def wiretype_defs)
qed

lemma skip_fields:
  "Refresh s = Some False \<Longrightarrow> good_fields fs \<Longrightarrow> 0 \<le> recursion_depth s \<Longrightarrow> recursion_depth s + int (nesting fs) \<le> recursion_limit s \<Longrightarrow>
   ci_buffer s = SerializeUnknownFieldsToArray fs @ rest \<Longrightarrow>
   \<exists>x. skip_all s (Some acc) = skip_all (s\<lparr>ci_buffer := rest, last_tag := x\<rparr>) (Some (acc @ fs))"
  "Refresh s = Some False \<Longrightarrow> good_field f \<Longrightarrow> 0 \<le> recursion_depth s \<Longrightarrow> recursion_depth s + int (nesting_field f) \<le> recursion_limit s \<Longrightarrow>
   ci_buffer s = SerializeUnknownFieldToArray f @ rest \<Longrightarrow>
   \<exists>x. skip_all s (Some acc) = skip_all (s\<lparr>ci_buffer := rest, last_tag := x\<rparr>) (Some (acc @ [f]))"
proof (induction fs and f arbitrary: s acc rest and s acc rest rule: SerializeUnknownFieldsToArray_SerializeUnknownFieldToArray.induct)
  case 1
  then have "s\<lparr>ci_buffer := rest, last_tag := last_tag s\<rparr> = s" by simp
  then show ?case by (metis append_Nil2)
next
  case (2 f fs)
  have "\<exists>x. skip_all s (Some acc) = skip_all (s\<lparr>ci_buffer := SerializeUnknownFieldsToArray fs @ rest, last_tag := x\<rparr>) (Some (acc @ [f]))"
    using 2 by (intro "2.IH"(1)) auto
  then obtain x where x: "skip_all s (Some acc) = skip_all (s\<lparr>ci_buffer := SerializeUnknownFieldsToArray fs @ rest, last_tag := x\<rparr>) (Some (acc @ [f]))" ..
  have "\<exists>y. skip_all (s\<lparr>ci_buffer := SerializeUnknownFieldsToArray fs @ rest, last_tag := x\<rparr>) (Some (acc @ [f])) =
     skip_all (s\<lparr>ci_buffer := SerializeUnknownFieldsToArray fs @ rest, last_tag := x, ci_buffer := rest, last_tag := y\<rparr>) (Some ((acc @ [f]) @ fs))"
    using 2 by (intro "2.IH"(2)) auto
  with x show ?case by auto
next
  case (3 n v)
  show ?case
    by (rule exI [of _ "MakeTag n WIRETYPE_VARINT"], rule skip_all_field [of s n WIRETYPE_VARINT "enc (unat v) @ rest"])
      (use 3 tag_parts [of n WIRETYPE_VARINT] in \<open>auto simp: write_defs WireFormat_SkipField_def good_number_def wiretype_defs add_field_def read_enc64\<close>)
next
  case (4 n v)
  show ?case
    by (rule exI [of _ "MakeTag n WIRETYPE_FIXED32"], rule skip_all_field [of s n WIRETYPE_FIXED32 "le32 v @ rest"])
      (use 4 tag_parts [of n WIRETYPE_FIXED32] in \<open>auto simp: write_defs WireFormat_SkipField_def good_number_def wiretype_defs add_field_def ReadLittleEndian_back\<close>)
next
  case (5 n v)
  show ?case
    by (rule exI [of _ "MakeTag n WIRETYPE_FIXED64"], rule skip_all_field [of s n WIRETYPE_FIXED64 "le64 v @ rest"])
      (use 5 tag_parts [of n WIRETYPE_FIXED64] in \<open>auto simp: write_defs WireFormat_SkipField_def good_number_def wiretype_defs add_field_def ReadLittleEndian_back\<close>)
next
  case (6 n str)
  define s1 where "s1 = s\<lparr>ci_buffer := enc (unat (word_of_nat (length str) :: uint32)) @ str @ rest, last_tag := MakeTag n WIRETYPE_LENGTH_DELIMITED\<rparr>"
  have "ReadVarint32 s1 = Some (Some (word_of_nat (length str)), s1\<lparr>ci_buffer := str @ rest\<rparr>)"
    using 6 by (intro read_enc32) (simp_all add: s1_def)
  moreover have "ReadString (sint (word_of_nat (length str) :: uint32)) (s1\<lparr>ci_buffer := str @ rest\<rparr>) = Some ((True, str), s1\<lparr>ci_buffer := rest\<rparr>)"
    using 6 ReadString_back [of "s1\<lparr>ci_buffer := str @ rest\<rparr>" str rest] by (simp add: sint_length)
  ultimately have "WireFormat_SkipField skip_all s1 (MakeTag n WIRETYPE_LENGTH_DELIMITED) (Some acc)
      = Some (True, Some (acc @ [TYPE_LENGTH_DELIMITED n str]), s1\<lparr>ci_buffer := rest\<rparr>)"
    using 6 tag_parts [of n WIRETYPE_LENGTH_DELIMITED]
    by (simp add: WireFormat_SkipField_def Let_def good_number_def wiretype_defs add_field_def)
  then have "skip_all s (Some acc) = skip_all (s1\<lparr>ci_buffer := rest\<rparr>) (Some (acc @ [TYPE_LENGTH_DELIMITED n str]))"
    unfolding s1_def using 6 by (intro skip_all_field) (simp_all add: write_defs wiretype_defs)
  moreover have "s1\<lparr>ci_buffer := rest\<rparr> = s\<lparr>ci_buffer := rest, last_tag := MakeTag n WIRETYPE_LENGTH_DELIMITED\<rparr>" by (simp add: s1_def)
  ultimately show ?case by auto
next
  case (7 n fs)
  let ?stop = "lite_WriteTagToArray n WIRETYPE_END_GROUP"
  define s1 where "s1 = s\<lparr>ci_buffer := SerializeUnknownFieldsToArray fs @ ?stop @ rest, last_tag := MakeTag n WIRETYPE_START_GROUP\<rparr>"
  define inc where "inc = s1\<lparr>recursion_depth := recursion_depth s1 + 1\<rparr>"
  have "\<exists>x. skip_all inc (Some []) = skip_all (inc\<lparr>ci_buffer := ?stop @ rest, last_tag := x\<rparr>) (Some ([] @ fs))"
    using 7 by (intro "7.IH") (simp_all add: inc_def s1_def)
  then obtain x where "skip_all inc (Some []) = skip_all (inc\<lparr>ci_buffer := ?stop @ rest, last_tag := x\<rparr>) (Some fs)" by auto
  also have "\<dots> = Some (True, Some fs, inc\<lparr>ci_buffer := ?stop @ rest, last_tag := x, ci_buffer := rest, last_tag := MakeTag n WIRETYPE_END_GROUP\<rparr>)"
    using 7 by (intro skip_all_end) (simp_all add: inc_def s1_def)
  finally have "skip_all inc (Some []) = Some (True, Some fs, inc\<lparr>ci_buffer := rest, last_tag := MakeTag n WIRETYPE_END_GROUP\<rparr>)" by simp
  then have "WireFormat_SkipField skip_all s1 (MakeTag n WIRETYPE_START_GROUP) (Some acc)
      = Some (True, Some (acc @ [TYPE_GROUP n fs]), s1\<lparr>ci_buffer := rest, last_tag := MakeTag n WIRETYPE_END_GROUP\<rparr>)"
    using 7 tag_parts [of n WIRETYPE_START_GROUP]
    by (simp add: WireFormat_SkipField_def Let_def good_number_def wiretype_defs add_field_def IncrementRecursionDepth_def
      DecrementRecursionDepth_def LastTagWas_def inc_def s1_def)
  then have "skip_all s (Some acc) = skip_all (s1\<lparr>ci_buffer := rest, last_tag := MakeTag n WIRETYPE_END_GROUP\<rparr>) (Some (acc @ [TYPE_GROUP n fs]))"
    unfolding s1_def using 7 by (intro skip_all_field) (simp_all add: wiretype_defs)
  moreover have "s1\<lparr>ci_buffer := rest, last_tag := MakeTag n WIRETYPE_END_GROUP\<rparr> = s\<lparr>ci_buffer := rest, last_tag := MakeTag n WIRETYPE_END_GROUP\<rparr>"
    by (simp add: s1_def)
  ultimately show ?case by auto
qed

lemma skip_all_nothing:
  assumes "ci_buffer s = []" "limits_ok s"
  shows "skip_all s u = Some (True, u, s\<lparr>legitimate_message_end := True, last_tag := 0\<rparr>)"
proof -
  have "ci_after s \<noteq> [] \<or> total_bytes_read s = current_limit s" "total_bytes_read s - int (length (ci_after s)) < total_bytes_limit s"
    using assms(2) by (auto simp: limits_ok_def)
  then have "ReadTag s = Some (0, s\<lparr>legitimate_message_end := True, last_tag := 0\<rparr>)"
    using assms(1) by (simp add: ReadTag_def ReadTagFallback_def fast_path_def BufferSize_def kMaxVarintBytes_def)
  then show ?thesis
    using skip_all_step [OF limits_ok_flat [OF assms(2)]] by (simp add: skip_step_def)
qed

text \<open>A stream that holds the serialized fields and nothing else, up to its limit.\<close>

lemma skip_all_fields:
  assumes "limits_ok s" "good_fields fs" "0 \<le> recursion_depth s" "recursion_depth s + int (nesting fs) \<le> recursion_limit s"
    and "ci_buffer s = SerializeUnknownFieldsToArray fs"
  shows "skip_all s (Some acc) = Some (True, Some (acc @ fs), s\<lparr>ci_buffer := [], last_tag := 0, legitimate_message_end := True\<rparr>)"
proof -
  obtain x where "skip_all s (Some acc) = skip_all (s\<lparr>ci_buffer := [], last_tag := x\<rparr>) (Some (acc @ fs))"
    using skip_fields(1) [OF limits_ok_flat [OF assms(1)] assms(2-4), of "[]" acc] assms(5) by auto
  also have "\<dots> = Some (True, Some (acc @ fs), s\<lparr>ci_buffer := [], last_tag := 0, legitimate_message_end := True\<rparr>)"
    using skip_all_nothing [of "s\<lparr>ci_buffer := [], last_tag := x\<rparr>"] assms(1) by (simp add: limits_ok_def BufferSize_def)
  finally show ?thesis .
qed

lemma unknown_size:
  "length (SerializeUnknownFieldsToArray fs) = ComputeUnknownFieldsSize fs"
  "length (SerializeUnknownFieldToArray f) = ComputeUnknownFieldSize f"
  by (induction fs and f rule: SerializeUnknownFieldsToArray_SerializeUnknownFieldToArray.induct)
    (simp_all add: write_defs VarintSize32_enc VarintSize64_enc)

text \<open>C32. Unknown fields survive. A set of unknown fields of every wire type, groups within groups included, that was
  serialized into an array is parsed back as the same set, in the same order, and the parser has consumed the whole array,
  as long as the groups are nested at most 100 deep and the array is below the 64 MB limit; the array has exactly the
  \<^verbatim>\<open>ComputeUnknownFieldsSize\<close> bytes a server reserves for it.\<close>

theorem unknown_fields_roundtrip:
  assumes "good_fields fs" "nesting fs \<le> 100" "ComputeUnknownFieldsSize fs < 64 * 2 ^ 20"
  shows "length (SerializeUnknownFieldsToArray fs) = ComputeUnknownFieldsSize fs
    \<and> (\<exists>t. UnknownFieldSet_ParseFromCodedStream (CodedInputStream_array (SerializeUnknownFieldsToArray fs)) old = Some (True, fs, t)
           \<and> ci_buffer t = [] \<and> recursion_depth t = 0)"
proof -
  define s where "s = CodedInputStream_array (SerializeUnknownFieldsToArray fs)"
  have s: "limits_ok s" "ci_buffer s = SerializeUnknownFieldsToArray fs" "recursion_depth s = 0" "recursion_limit s = 100"
    using assms(3) limits_ok_array [of "SerializeUnknownFieldsToArray fs"] by (simp_all add: s_def CodedInputStream_array_def unknown_size)
  then show ?thesis
    using skip_all_fields [of s fs "[]"] assms
    by (simp add: UnknownFieldSet_ParseFromCodedStream_def UnknownFieldSet_MergeFromCodedStream_def skip_all_def
      ConsumedEntireMessage_def unknown_size s_def [symmetric])
qed

theorem unknown_fields_roundtrip_witness:
  "\<exists>t. UnknownFieldSet_ParseFromCodedStream (CodedInputStream_array (SerializeUnknownFieldsToArray
          [TYPE_VARINT 1 300, TYPE_GROUP 2 [TYPE_LENGTH_DELIMITED 3 [7, 8], TYPE_FIXED32 4 9]])) []
        = Some (True, [TYPE_VARINT 1 300, TYPE_GROUP 2 [TYPE_LENGTH_DELIMITED 3 [7, 8], TYPE_FIXED32 4 9]], t) \<and> ci_buffer t = []"
proof -
  have "ComputeUnknownFieldsSize [TYPE_VARINT 1 300, TYPE_GROUP 2 [TYPE_LENGTH_DELIMITED 3 [7, 8], TYPE_FIXED32 4 9]] = 14"
    by code_simp
  then show ?thesis
    using unknown_fields_roundtrip [of "[TYPE_VARINT 1 300, TYPE_GROUP 2 [TYPE_LENGTH_DELIMITED 3 [7, 8], TYPE_FIXED32 4 9]]" "[]"]
    by (auto simp: good_number_def)
qed

text \<open>C36. Skipping always ends and stays inside the array. Whatever bytes a flat stream holds, with more fuel than there
  are bytes \<^verbatim>\<open>WireFormat::SkipMessage\<close> returns: every reader it calls, \<^verbatim>\<open>Skip\<close> and \<^verbatim>\<open>ReadString\<close> with a length taken from the
  input included, keeps to the bytes of the array: what is left is a suffix of them, under the same limits. The result does not depend on the fuel.\<close>

theorem SkipMessage_always_returns:
  assumes "Refresh s = Some False" "length (ci_buffer s) < fuel"
  shows "\<exists>ok v t. WireFormat_SkipMessage fuel s u = Some (ok, v, t) \<and> WireFormat_SkipMessage (Skip_fuel s) s u = Some (ok, v, t)
     \<and> keeps s t"
  using SkipMessage_keeps [OF assms, of u] fuel_eq [OF assms, of "Skip_fuel s" u]
  by (auto simp: Skip_fuel_def elim!: returnsE)

theorem SkipMessage_always_returns_witness:
  "\<exists>ok v t. WireFormat_SkipMessage 9 (CodedInputStream_array [0x0B, 0xFF, 0xFF, 0xFF]) None = Some (ok, v, t)"
  using SkipMessage_always_returns [of "CodedInputStream_array [0x0B, 0xFF, 0xFF, 0xFF]" 9 None] by auto

subsection \<open>Bytes under a limit\<close>

text \<open>A piece of the input between \<^verbatim>\<open>PushLimit\<close> with its length and \<^verbatim>\<open>PopLimit\<close>.\<close>

lemma limit_bracket:
  assumes ok: "limits_ok s" and buf: "ci_buffer s = bytes @ rest" and push: "PushLimit (int (length bytes)) s = (old, t)"
  shows "ci_buffer t = bytes" "limits_ok t" "recursion_depth t = recursion_depth s" "recursion_limit t = recursion_limit s"
    "last_tag t = last_tag s" "legitimate_message_end t = legitimate_message_end s"
    "PopLimit old (t\<lparr>ci_buffer := [], last_tag := x, legitimate_message_end := l\<rparr>)
       = s\<lparr>ci_buffer := rest, last_tag := x, legitimate_message_end := False\<rparr>"
proof -
  have vis: "visible (int (length bytes)) s = length bytes"
    by (simp add: visible_def BufferSize_def buf)
  then have P: "ci_buffer t = bytes" "limits_ok t"
      "PopLimit old (Advance (length bytes) t) = (Advance (length bytes) s)\<lparr>legitimate_message_end := False\<rparr>"
    using PushLimit_PopLimit [OF ok _ push, of "length bytes"] by (auto simp: buf)
  then show "ci_buffer t = bytes" "limits_ok t" by blast+
  show "recursion_depth t = recursion_depth s" "recursion_limit t = recursion_limit s" "last_tag t = last_tag s"
      "legitimate_message_end t = legitimate_message_end s"
    using PushLimit_eq [OF ok, of "int (length bytes)"] push by auto
  have "PopLimit old (t\<lparr>ci_buffer := [], last_tag := x, legitimate_message_end := l\<rparr>) = (PopLimit old (Advance (length bytes) t))\<lparr>last_tag := x\<rparr>"
    using P(1) by (simp add: PopLimit_def RecomputeBufferLimits_def Advance_def Let_def)
  also have "\<dots> = s\<lparr>ci_buffer := rest, last_tag := x, legitimate_message_end := False\<rparr>"
    unfolding P(3) by (simp add: Advance_def buf)
  finally show "PopLimit old (t\<lparr>ci_buffer := [], last_tag := x, legitimate_message_end := l\<rparr>)
       = s\<lparr>ci_buffer := rest, last_tag := x, legitimate_message_end := False\<rparr>" .
qed

subsection \<open>Fields\<close>

definition reads_back :: "byte list \<Rightarrow> byte list \<Rightarrow> uint32 \<Rightarrow> (CodedInputStream \<Rightarrow> ('v \<times> CodedInputStream) option) \<Rightarrow> 'v \<Rightarrow> bool" where
  "reads_back written rest tag reader v =
     (case ReadTag (CodedInputStream_array (written @ rest)) of
        None \<Rightarrow> False
      | Some (t, s) \<Rightarrow> t = tag \<and> reader s = Some (v, s\<lparr>ci_buffer := rest\<rparr>))"

lemma reads_backI:
  assumes "written = lite_WriteTagToArray n t @ body"
    and "\<And>s. Refresh s = Some False \<Longrightarrow> ci_buffer s = body @ rest \<Longrightarrow> reader s = Some (v, s\<lparr>ci_buffer := rest\<rparr>)"
  shows "reads_back written rest (MakeTag n t) reader v"
proof -
  let ?s = "CodedInputStream_array (written @ rest)"
  have "ReadTag ?s = Some (MakeTag n t, ?s\<lparr>ci_buffer := body @ rest, last_tag := MakeTag n t\<rparr>)"
    using assms(1) by (intro ReadTag_enc) (simp_all add: lite_WriteTag_enc)
  then show ?thesis
    using assms(2) [of "?s\<lparr>ci_buffer := body @ rest, last_tag := MakeTag n t\<rparr>"] by (simp add: reads_back_def)
qed

lemma enc_nonempty [simp]: "enc v \<noteq> []"
  by (simp add: enc.simps [of v])

lemma extended_nonempty: "WriteVarint32SignExtendedToArray v \<noteq> []"
  by (simp add: WriteVarint32SignExtendedToArray_def Write64_enc Write32_enc)

lemma BytesUntilLimit_wf: "limits_ok s \<Longrightarrow> BytesUntilLimit s = int (BufferSize s)"
  by (auto simp: limits_ok_def BytesUntilLimit_def CurrentPosition_def)

text \<open>What a field relies on: a writer of values and the reader that inverts it, on any flat stream and whatever follows.\<close>

locale value_codec =
  fixes writer :: "'v \<Rightarrow> byte list" and reader :: "CodedInputStream \<Rightarrow> ('w option \<times> CodedInputStream) option" and val :: "'v \<Rightarrow> 'w"
  assumes read_back: "Refresh s = Some False \<Longrightarrow> ci_buffer s = writer v @ rest \<Longrightarrow> reader s = Some (Some (val v), s\<lparr>ci_buffer := rest\<rparr>)"
    and nonempty: "writer v \<noteq> []"
begin

lemma field_back: "reads_back (lite_WriteTagToArray n t @ writer v) rest (MakeTag n t) reader (Some (val v))"
  by (rule reads_backI [OF refl]) (rule read_back)

lemma packed_loop_back:
  "limits_ok s \<Longrightarrow> ci_buffer s = concat (map writer xs) \<Longrightarrow> packed_loop reader s vs = Some (True, vs @ map val xs, s\<lparr>ci_buffer := []\<rparr>)"
proof (induction xs arbitrary: s vs)
  case Nil
  then have "BytesUntilLimit s = 0" "s\<lparr>ci_buffer := []\<rparr> = s"
    by (simp_all add: BytesUntilLimit_wf BufferSize_def)
  then show ?case by (simp add: packed_loop.simps)
next
  case (Cons x xs)
  let ?t = "s\<lparr>ci_buffer := concat (map writer xs)\<rparr>"
  have "0 < length (writer x)" using nonempty [of x] by simp
  then have "0 < BufferSize s" unfolding BufferSize_def Cons.prems(2) by simp
  then have "0 < BytesUntilLimit s" using Cons.prems(1) by (simp add: BytesUntilLimit_wf)
  moreover have "reader s = Some (Some (val x), ?t)"
    using Cons.prems by (intro read_back limits_ok_flat) simp_all
  ultimately have "packed_loop reader s vs = packed_loop reader ?t (vs @ [val x])"
    by (subst packed_loop.simps) simp
  moreover have "limits_ok ?t"
    using Cons.prems by (auto simp: limits_ok_def BufferSize_def)
  ultimately show ?case
    using Cons.IH [of ?t "vs @ [val x]"] by simp
qed

lemma packed_back:
  assumes "limits_ok s" "length (concat (map writer xs)) < 2 ^ 31"
    and "ci_buffer s = WriteVarint32ToArray (word_of_nat (length (concat (map writer xs)))) @ concat (map writer xs) @ rest"
  shows "ReadPackedPrimitive reader s vs = Some (True, vs @ map val xs, s\<lparr>ci_buffer := rest, legitimate_message_end := False\<rparr>)"
proof -
  let ?bytes = "concat (map writer xs)"
  let ?s1 = "s\<lparr>ci_buffer := ?bytes @ rest\<rparr>"
  have read: "ReadVarint32 s = Some (Some (word_of_nat (length ?bytes)), ?s1)"
    using assms limits_ok_flat by (intro read_enc32) (simp_all add: Write32_enc)
  have ok: "limits_ok ?s1"
    using ReadVarint_keeps(2) [OF limits_ok_flat [OF assms(1)]] read keeps_limits_ok [OF assms(1)] by auto
  obtain old t where t: "PushLimit (int (length ?bytes)) ?s1 = (old, t)" by force
  have buf: "ci_buffer ?s1 = ?bytes @ rest" by simp
  note B = limit_bracket(1-6) [OF ok buf t] limit_bracket(7) [OF ok buf t, where x = "last_tag t" and l = "legitimate_message_end t"]
  have "packed_loop reader t vs = Some (True, vs @ map val xs, t\<lparr>ci_buffer := []\<rparr>)"
    using B by (intro packed_loop_back)
  moreover have "t\<lparr>ci_buffer := [], last_tag := last_tag t, legitimate_message_end := legitimate_message_end t\<rparr> = t\<lparr>ci_buffer := []\<rparr>"
      "?s1\<lparr>ci_buffer := rest, last_tag := last_tag t, legitimate_message_end := False\<rparr> = s\<lparr>ci_buffer := rest, legitimate_message_end := False\<rparr>"
    using B(5) by simp_all
  ultimately show ?thesis
    using read t B(7) assms(2) by (simp add: ReadPackedPrimitive_def sint_length)
qed

end

interpretation u32: value_codec WriteVarint32ToArray ReadPrimitive_uint32 "\<lambda>v. v"
  by unfold_locales (simp_all add: ReadPrimitive_uint32_def Write32_enc read_enc32 enc_nonempty)

interpretation u64: value_codec WriteVarint64ToArray ReadPrimitive_uint64 "\<lambda>v. v"
  by unfold_locales (simp_all add: ReadPrimitive_uint64_def Write64_enc read_enc64 enc_nonempty)

interpretation i32: value_codec WriteVarint32SignExtendedToArray ReadPrimitive_int32 sint
  by unfold_locales (simp_all add: ReadPrimitive_int32_def read_extended extended_nonempty)

interpretation i64: value_codec WriteVarint64ToArray ReadPrimitive_int64 sint
  by unfold_locales (simp_all add: ReadPrimitive_int64_def Write64_enc read_enc64 enc_nonempty)

interpretation enum: value_codec WriteVarint32SignExtendedToArray ReadPrimitive_enum sint
  by unfold_locales (simp_all add: ReadPrimitive_enum_def read_extended extended_nonempty)

interpretation boolean: value_codec "\<lambda>b. WriteVarint32ToArray (if b then 1 else 0)" ReadPrimitive_bool "\<lambda>b. b"
proof
  fix s b rest
  assume s: "Refresh s = Some False" "ci_buffer s = WriteVarint32ToArray (if b then 1 else 0) @ rest"
  have "enc (unat (if b then 1 else 0 :: uint32)) = enc (unat (if b then 1 else 0 :: uint64))" by simp
  then show "ReadPrimitive_bool s = Some (Some b, s\<lparr>ci_buffer := rest\<rparr>)"
    using s by (simp add: ReadPrimitive_bool_def Write32_enc read_enc64 [where v = "if b then 1 else 0"])
qed (simp add: Write32_enc enc_nonempty)

text \<open>C30. Every scalar field round trips. For each field type of the program's messages (\<^verbatim>\<open>uint32\<close>, \<^verbatim>\<open>uint64\<close>, \<^verbatim>\<open>int32\<close>,
  \<^verbatim>\<open>bool\<close>, enumerations, \<^verbatim>\<open>string\<close> and \<^verbatim>\<open>bytes\<close>) and for \<^verbatim>\<open>int64\<close>, what the writer stored is read back: \<^verbatim>\<open>ReadTag\<close> gives the tag of the field, from
  which its number and its wire type are recovered, the reader of the type gives the value (negative numbers too, for
  which the writer sign-extends to ten bytes), and the bytes behind the field are left in the stream.\<close>

theorem fields_roundtrip:
  assumes "good_number n" "length str < 2 ^ 31"
  shows "reads_back (WriteUInt32ToArray n x) rest (MakeTag n WIRETYPE_VARINT) ReadPrimitive_uint32 (Some x)
   \<and> reads_back (WriteUInt64ToArray n y) rest (MakeTag n WIRETYPE_VARINT) ReadPrimitive_uint64 (Some y)
   \<and> reads_back (WriteInt32ToArray n x) rest (MakeTag n WIRETYPE_VARINT) ReadPrimitive_int32 (Some (sint x))
   \<and> reads_back (WriteInt64ToArray n y) rest (MakeTag n WIRETYPE_VARINT) ReadPrimitive_int64 (Some (sint y))
   \<and> reads_back (WriteBoolToArray n b) rest (MakeTag n WIRETYPE_VARINT) ReadPrimitive_bool (Some b)
   \<and> reads_back (WriteEnumToArray n x) rest (MakeTag n WIRETYPE_VARINT) ReadPrimitive_enum (Some (sint x))
   \<and> reads_back (WriteBytesToArray n str) rest (MakeTag n WIRETYPE_LENGTH_DELIMITED) ReadBytes (True, str)
   \<and> GetTagFieldNumber (MakeTag n WIRETYPE_VARINT) = n \<and> GetTagWireType (MakeTag n WIRETYPE_VARINT) = WIRETYPE_VARINT
   \<and> GetTagFieldNumber (MakeTag n WIRETYPE_LENGTH_DELIMITED) = n
   \<and> GetTagWireType (MakeTag n WIRETYPE_LENGTH_DELIMITED) = WIRETYPE_LENGTH_DELIMITED"
proof (intro conjI)
  show "reads_back (WriteUInt32ToArray n x) rest (MakeTag n WIRETYPE_VARINT) ReadPrimitive_uint32 (Some x)"
    unfolding WriteUInt32ToArray_def by (rule u32.field_back)
  show "reads_back (WriteUInt64ToArray n y) rest (MakeTag n WIRETYPE_VARINT) ReadPrimitive_uint64 (Some y)"
    unfolding WriteUInt64ToArray_def by (rule u64.field_back)
  show "reads_back (WriteInt32ToArray n x) rest (MakeTag n WIRETYPE_VARINT) ReadPrimitive_int32 (Some (sint x))"
    unfolding WriteInt32ToArray_def by (rule i32.field_back)
  show "reads_back (WriteInt64ToArray n y) rest (MakeTag n WIRETYPE_VARINT) ReadPrimitive_int64 (Some (sint y))"
    unfolding WriteInt64ToArray_def by (rule i64.field_back)
  show "reads_back (WriteBoolToArray n b) rest (MakeTag n WIRETYPE_VARINT) ReadPrimitive_bool (Some b)"
    unfolding WriteBoolToArray_def by (rule boolean.field_back)
  show "reads_back (WriteEnumToArray n x) rest (MakeTag n WIRETYPE_VARINT) ReadPrimitive_enum (Some (sint x))"
    unfolding WriteEnumToArray_def by (rule enum.field_back)
  show "reads_back (WriteBytesToArray n str) rest (MakeTag n WIRETYPE_LENGTH_DELIMITED) ReadBytes (True, str)"
    by (rule reads_backI [OF WriteBytesToArray_def])
      (use assms(2) in \<open>simp add: WriteStringWithSizeToArray_def ReadBytes_def Write32_enc read_enc32 [where rest = "str @ rest"] sint_length ReadString_back\<close>)
qed (use assms tag_parts [of n WIRETYPE_VARINT] tag_parts [of n WIRETYPE_LENGTH_DELIMITED] in \<open>simp_all add: good_number_def wiretype_defs\<close>)

theorem fields_roundtrip_witness:
  "reads_back (WriteBytesToArray 3 [104, 105]) [0x10, 0x07] (MakeTag 3 WIRETYPE_LENGTH_DELIMITED) ReadBytes (True, [104, 105])
   \<and> reads_back (WriteInt32ToArray 3 (- 1)) [0x10, 0x07] (MakeTag 3 WIRETYPE_VARINT) ReadPrimitive_int32 (Some (- 1))"
  using fields_roundtrip [of 3 "[104, 105]" "- 1" "[0x10, 0x07]"] by (simp add: good_number_def)

subsection \<open>Nested messages\<close>

text \<open>C31. A nested message is read back, and nothing but it. Let a parser of some message class, called on a stream whose
  visible bytes are a serialized message, consume them all and stop at the limit. Then \<^verbatim>\<open>WireFormatLite::ReadMessage\<close>, on a
  stream that holds what \<^verbatim>\<open>WriteMessageToArray\<close> wrote behind the tag and any bytes after it, gives the message of the
  parser, hides the bytes after it while the parser runs, and leaves them in the stream with the limits and the recursion
  depth as they were.\<close>

theorem nested_message_roundtrip:
  assumes ok: "limits_ok s" "0 \<le> recursion_depth s" "recursion_depth s < recursion_limit s" "length bytes < 2 ^ 31"
    and buf: "lite_WriteTagToArray n WIRETYPE_LENGTH_DELIMITED @ ci_buffer s = WriteMessageToArray n (word_of_nat (length bytes)) bytes @ rest"
    and parser: "\<And>t. limits_ok t \<Longrightarrow> ci_buffer t = bytes \<Longrightarrow> recursion_depth t = recursion_depth s + 1 \<Longrightarrow> recursion_limit t = recursion_limit s
        \<Longrightarrow> merge t m = Some (True, m', t\<lparr>ci_buffer := [], last_tag := 0, legitimate_message_end := True\<rparr>)"
  shows "ReadMessage merge s m = Some (True, m', s\<lparr>ci_buffer := rest, last_tag := 0, legitimate_message_end := False\<rparr>)"
proof -
  let ?len = "word_of_nat (length bytes) :: uint32"
  define s1 where "s1 = s\<lparr>ci_buffer := bytes @ rest\<rparr>"
  define s2 where "s2 = s1\<lparr>recursion_depth := recursion_depth s1 + 1\<rparr>"
  obtain old s3 where s3: "PushLimit (int (length bytes)) s2 = (old, s3)" by force
  have read: "ReadVarint32 s = Some (Some ?len, s1)"
    unfolding s1_def using buf limits_ok_flat [OF ok(1)] by (intro read_enc32) (simp_all add: WriteMessageToArray_def Write32_enc)
  have "keeps s s1" using ReadVarint_keeps(2) [OF limits_ok_flat [OF ok(1)]] read by auto
  then have "keeps s s2" by (simp add: s2_def)
  then have "limits_ok s2" by (rule keeps_limits_ok [OF ok(1)])
  then have B: "ci_buffer s3 = bytes" "limits_ok s3" "recursion_depth s3 = recursion_depth s + 1" "recursion_limit s3 = recursion_limit s"
      "PopLimit old (s3\<lparr>ci_buffer := [], last_tag := 0, legitimate_message_end := True\<rparr>)
         = s2\<lparr>ci_buffer := rest, last_tag := 0, legitimate_message_end := False\<rparr>"
    using limit_bracket(1-4) [OF _ _ s3, of rest] limit_bracket(7) [OF _ _ s3, where rest = rest and x = 0 and l = True] by (simp_all add: s2_def s1_def)
  have "merge s3 m = Some (True, m', s3\<lparr>ci_buffer := [], last_tag := 0, legitimate_message_end := True\<rparr>)"
    using B by (intro parser)
  then show ?thesis
    using read s3 ok(2-4) B(5)
    by (simp add: ReadMessage_def IncrementRecursionDepth_def Let_def ConsumedEntireMessage_def sint_length
      s2_def s1_def DecrementRecursionDepth_def)
qed

text \<open>The parser of unknown fields is such a parser.\<close>

theorem nested_message_roundtrip_witness:
  "ReadMessage (\<lambda>t u. WireFormat_SkipMessage (Skip_fuel t) t u)
     (CodedInputStream_array (WriteVarint32ToArray 2 @ SerializeUnknownFieldsToArray [TYPE_VARINT 1 5] @ [0x10, 0x07])) (Some [])
   = Some (True, Some [TYPE_VARINT 1 5],
       (CodedInputStream_array (WriteVarint32ToArray 2 @ SerializeUnknownFieldsToArray [TYPE_VARINT 1 5] @ [0x10, 0x07]))
         \<lparr>ci_buffer := [0x10, 0x07], last_tag := 0, legitimate_message_end := False\<rparr>)"
proof -
  let ?bytes = "SerializeUnknownFieldsToArray [TYPE_VARINT 1 5]"
  let ?all = "WriteVarint32ToArray 2 @ ?bytes @ [0x10, 0x07]"
  have len: "length ?bytes = 2" "length ?all = 5"
    by code_simp+
  show ?thesis
  proof (rule nested_message_roundtrip [where n = 1 and bytes = ?bytes])
    show "limits_ok (CodedInputStream_array ?all)"
      using len(2) by (intro limits_ok_array) simp
    show "lite_WriteTagToArray 1 WIRETYPE_LENGTH_DELIMITED @ ci_buffer (CodedInputStream_array ?all)
        = WriteMessageToArray 1 (word_of_nat (length ?bytes)) ?bytes @ [0x10, 0x07]"
      using len(1) by (simp add: WriteMessageToArray_def)
  next
    fix t
    assume "limits_ok t" "ci_buffer t = ?bytes" "recursion_depth t = recursion_depth (CodedInputStream_array ?all) + 1"
      "recursion_limit t = recursion_limit (CodedInputStream_array ?all)"
    then show "WireFormat_SkipMessage (Skip_fuel t) t (Some [])
        = Some (True, Some [TYPE_VARINT 1 5], t\<lparr>ci_buffer := [], last_tag := 0, legitimate_message_end := True\<rparr>)"
      using skip_all_fields [of t "[TYPE_VARINT 1 5]" "[]"]
      by (simp add: skip_all_def CodedInputStream_array_def good_number_def)
  qed (use len in \<open>simp_all add: CodedInputStream_array_def\<close>)
qed

subsection \<open>Well-formed streams\<close>

text \<open>C35. A stream stays well-formed. From a stream over an array of less than 64 MB, with any limits pushed on it, every
  reader (varints, tags, little-endian integers, strings and skips of any length, negative and oversized ones included)
  returns without leaving the array and leaves a well-formed stream, and so does \<^verbatim>\<open>PushLimit\<close> with any length: no sequence
  of these calls reaches the null input of a flat stream.\<close>

theorem stream_stays_wellformed:
  assumes "limits_ok s"
  shows "(\<exists>v t. ReadVarint32 s = Some (v, t) \<and> limits_ok t) \<and> (\<exists>v t. ReadVarint64 s = Some (v, t) \<and> limits_ok t)
    \<and> (\<exists>v t. ReadTag s = Some (v, t) \<and> limits_ok t) \<and> (\<exists>v t. ReadRaw k s = Some (v, t) \<and> limits_ok t)
    \<and> (\<exists>v t. ReadLittleEndian32 s = Some (v, t) \<and> limits_ok t) \<and> (\<exists>v t. ReadLittleEndian64 s = Some (v, t) \<and> limits_ok t)
    \<and> (\<exists>v t. ReadString n s = Some (v, t) \<and> limits_ok t) \<and> (\<exists>v t. Skip n s = Some (v, t) \<and> limits_ok t)
    \<and> limits_ok (snd (PushLimit n s)) \<and> limits_ok (snd (ExpectTag tag s)) \<and> limits_ok (snd (ExpectAtEnd s))
    \<and> Refresh s = Some False"
proof -
  note flat = limits_ok_flat [OF assms] and step = keeps_limits_ok [OF assms]
  have "\<exists>v t. ReadTag s = Some (v, t) \<and> limits_ok t"
    using ReadTag_returns [OF flat] ReadTag_consumes(1) [OF flat] step by blast
  moreover have "limits_ok (snd (PushLimit n s))"
    using PushLimit_PopLimit [OF assms, of 0 n] by (cases "PushLimit n s") simp
  moreover have "keeps s (snd (ExpectTag tag s))" "keeps s (snd (ExpectAtEnd s))"
    using flat by (simp_all add: ExpectTag_def ExpectAtEnd_def)
  ultimately show ?thesis
    using ReadVarint_keeps [OF flat] ReadRaw_keeps [OF flat, of k] ReadLittleEndian_keeps [OF flat] ReadString_keeps [OF flat, of n]
      Skip_keeps [OF flat, of n] flat step by blast
qed

theorem stream_stays_wellformed_witness:
  "limits_ok (snd (PushLimit 7 (CodedInputStream_array [1, 2])))"
  using stream_stays_wellformed [of "CodedInputStream_array [1, 2]" 0 7 0] limits_ok_array [of "[1, 2]"] by simp

end
