(* ===== verification/Spec2Isabelle.thy ===== *)
theory Spec2Isabelle
  imports HallFlow GameSvr TcpSvr ProxyFlow AuthSvr DbProxy CenterSvr TcpClient FakeRandom Client WireFormat
begin

text \<open>
  Verification of the game server framework: a gateway, a center (proxy), and logic servers that share a frame.

  \<^bold>\<open>The program.\<close> Clients connect over TCP to the gateway (\<^verbatim>\<open>src/tcpsvr\<close>). The gateway cuts their byte streams into messages and puts each,
  behind a head that names the connection, into a ring buffer in shared memory (\<^verbatim>\<open>core/shm_pipe\<close>); a logic server on the same host reads it
  from there and writes its answers to a second ring buffer. Logic servers on different hosts talk to each other through the
  center (\<^verbatim>\<open>src/proxysvr\<close>), to which each of them holds TCP connections (\<^verbatim>\<open>core/center_mng\<close>) and which routes by server number, by hash or to all
  servers of a type. The frame of a logic server (\<^verbatim>\<open>core/server\<close>) moves all input into a third ring buffer, its own message queue, and hands the messages
  to the virtual functions of the concrete server. The concrete servers are the lobby (\<^verbatim>\<open>src/hallsvr\<close>), the game server (\<^verbatim>\<open>src/gamesvr\<close>), the authentication
  server (\<^verbatim>\<open>src/authsvr\<close>) and the database proxy (\<^verbatim>\<open>src/dbproxy\<close>). Lobby and game server keep players, sessions and timers in pools that
  are written to shared memory when a process ends and read back by the next one (\<^verbatim>\<open>src/common\<close>, \<^verbatim>\<open>include/object_mng.hpp\<close>); a session carries a request through
  the steps "message, load data, process, save data" while the answers of the database proxy are awaited (\<^verbatim>\<open>msg_handler_basic\<close>).
  The repository also keeps an earlier center (\<^verbatim>\<open>src/centersvr\<close>) with the library it was built on (\<^verbatim>\<open>include/buffer.hpp\<close>, \<^verbatim>\<open>net_util.hpp\<close>, \<^verbatim>\<open>tmp\<close>): one process with
  a growing buffer per connection and two epoll instances, one for input and one for the connections that have output waiting. Every message is encoded by protobuf, whose
  sources are part of the repository (\<^verbatim>\<open>include/google/protobuf\<close>); \<^verbatim>\<open>src/client\<close> is a program that plays a client.

  \<^bold>\<open>Theories and sources.\<close>
  \<^item> Prelude, Posix: machine integers, byte memories, little-endian encodings; the calls of the operating system as a record of functions.
  \<^item> Base: \<^verbatim>\<open>core/base\<close>, the structures with their byte layout, the cached clock. Messages, Config: the protocol messages and configurations (\<^verbatim>\<open>proto\<close>, \<^verbatim>\<open>core/config.h\<close>).
  \<^item> ShmPipe: \<^verbatim>\<open>core/shm_pipe\<close>. A record holds the indices and the bytes of the ring; the operations are \<^verbatim>\<open>Init\<close>, \<^verbatim>\<open>AppendOneData\<close>, \<^verbatim>\<open>GetOneData\<close> and the size functions.
  \<^item> ShareMem, Serialize, ObjectMng: \<^verbatim>\<open>include/share_mem.hpp\<close>, \<^verbatim>\<open>serialize.hpp\<close>, \<^verbatim>\<open>object_mng.hpp\<close>. The kernel's segments are a map from keys to memories.
  \<^item> IndexedPool, PlayerMng, SessionMng, TimerMng: the managers of \<^verbatim>\<open>src/common\<close>, each a pool with an index; IndexedPool has what they share.
  \<^item> Framing, CenterMng: messages with a length field on a byte stream; \<^verbatim>\<open>core/center_mng\<close>.
  \<^item> Startup, Server, ServerFlow, ServerInv: command line and shared memory of the start-up; \<^verbatim>\<open>core/server\<close>; the flow of messages through it; its contract with a concrete server.
  \<^item> MsgBasic, MsgHandler: \<^verbatim>\<open>src/common/msg_basic\<close> and \<^verbatim>\<open>msg_handler_basic\<close>.
  \<^item> Cipher, Hash, Mysql: \<^verbatim>\<open>include/cipher.hpp\<close> over a parameter for OpenSSL, \<^verbatim>\<open>include/hash.hpp\<close>, the parameter for MySQL++.
  \<^item> HallSvr, HallFlow, GameSvr, AuthSvr, DbProxy: the concrete servers. TcpSvr: the gateway. ProxySvr, ProxyFlow: the center.
  \<^item> Buffer, NetUtil, GameTime, FakeRandom, TcpClient: \<^verbatim>\<open>include/buffer.hpp\<close>, \<^verbatim>\<open>net_util.hpp\<close> with \<^verbatim>\<open>common_sys.hpp\<close>, \<^verbatim>\<open>tmp/game_time\<close> with \<^verbatim>\<open>include/time.hpp\<close>,
    \<^verbatim>\<open>tmp/fake_random\<close>, \<^verbatim>\<open>tmp/tcp_client\<close>. CenterEndpoint, CenterInput, CenterSvr: the connections and their pool, receiving, \<^verbatim>\<open>tmp/epoll_service\<close> and the server of \<^verbatim>\<open>src/centersvr\<close>.

  \<^item> Client: \<^verbatim>\<open>src/client/test.cpp\<close>. CodedStream: \<^verbatim>\<open>google/protobuf/io/coded_stream\<close> over flat arrays, the only streams the program uses. WireFormat: \<^verbatim>\<open>wire_format_lite\<close>,
    \<^verbatim>\<open>wire_format.cc\<close> and \<^verbatim>\<open>unknown_field_set.cc\<close>: tags, fields, nested messages and unknown fields on such streams.

  A class is a record of its fields, a derived class an extension of the record; a method is a definition with the name of the class in front, over the
  state it changes. A pointer into a pool is a position. Where the code would crash, read out of bounds or throw, the result is \<open>None\<close> or a value
  of a result type. A concrete server is a record \<open>logic\<close> of its virtual functions, over an extension of the frame's record.

  \<^bold>\<open>Interfaces.\<close> \<open>byte_fifo\<close> (ShmPipe): a bounded queue of byte strings, interpreted on the ring buffer. \<open>keyed_pool\<close> (IndexedPool): lookup, release and the
  objects of a pool, interpreted on players, sessions and timers. \<open>frame_reader\<close> (Framing): cutting messages out of received pieces, interpreted on the center
  connection. \<open>session_handler\<close> and its extension \<open>direct_handler\<close> (MsgHandler): what a handler may change of its session,
  interpreted on the default handler and on login and logout. \<open>server_logic\<close> (ServerInv): an invariant of the virtual functions
  is an invariant of the main loop, interpreted on the lobby and on the game server. \<open>byte_stream\<close> (Buffer): what is written is read, in order, interpreted
  on the growing buffer. \<open>value_codec\<close> (WireFormat): a writer of values and the reader that inverts it, interpreted on the integer, boolean and enumeration fields.

  \<^bold>\<open>What is shown.\<close>
  \<^item> Transport: the ring buffer refines a bounded queue and never writes outside its ring; byte streams are reassembled however they are cut;
    gateway, frame and center deliver every message once and in order, and a queue of any length is emptied after finitely many rounds; here, a client's message reaches the handler of the logic server, and a request
    to the database reaches the server that is responsible for the player.
  \<^item> State: pools stay consistent and survive a restart; ids are fresh; expired sessions and due timers are removed, exactly once;
    the gateway's socket positions are never freed twice; the lobby keeps its invariant under any traffic.
  \<^item> Sessions: the processing of a message ends; a login needs a valid token; here, a token of the authentication server admits its own uid for a day and no other.
  \<^item> The earlier center: its buffer is a byte stream, its pool of endpoints stays consistent, and a received message reaches exactly the endpoints its route selects; the calendar
    of its clock agrees with a reference calendar.
  \<^item> Data: a save is accepted only for the successor of the stored version; every requested key is answered.
  \<^item> Encoding: all paths of the varint readers agree with one reference decoder, on every input, and stay inside the array; the unrolled writers agree with the byte-by-byte loops;
    fields, nested messages and unknown fields are read back as written; skipping unknown input always ends. The test client's requests are messages the gateway accepts, and the login it builds from an authorization is admitted.
  \<^item> Faults of the code, stated as theorems and lemmas about what it does: a length field of 0 makes the readers loop for ever, a short \<^verbatim>\<open>send\<close> loses the rest, a broadcast
    reaches one server, a left-over segment loses the saved objects, a connection that fails before it registers stops the earlier center, and others.

  \<^bold>\<open>Loops.\<close> The loops of \<^verbatim>\<open>DispatchMessage\<close> and \<^verbatim>\<open>GetClientMessage\<close> have the bound of the source (1024 rounds) as their fuel. The receive loops and the loops over
  received messages may run for ever and are \<open>partial_function (option)\<close>; the theorems about them show that they return, for well-formed input, and that they do not for a length of 0.
  The loops of \<^verbatim>\<open>net_util.hpp\<close> that repeat an interrupted call return as soon as one call is not interrupted (lemma \<open>retry_returns\<close>).
  \<^verbatim>\<open>WireFormat::SkipMessage\<close> has a fuel of one more than the bytes of its stream (\<open>Skip_fuel\<close>); theorem \<open>SkipMessage_always_returns\<close> shows that this is enough, since every step reads a tag, and that more
  fuel gives the same result. The readers of a stream return \<open>None\<close> only where the code would leave its array, and are proved never to.
  The loop that runs the steps of a session is fuel-free in the same way and is proved to return. All other loops are structural recursion or have a termination proof.

  \<^bold>\<open>Parameters.\<close> The operating system (\<open>posix\<close>, its extension \<open>netcalls\<close>, \<open>shm_os\<close>), the time zone (\<open>tz\<close>), OpenSSL (\<open>openssl\<close>), MySQL++ (\<open>mysqlpp\<close>) and the serializers and parsers that the protobuf compiler generates for the
  messages (\<open>lib\<close>, and the parse and serialize functions) are arguments. The order in which an \<^verbatim>\<open>unordered_map\<close> is traversed is the argument \<open>ord\<close>. The only laws assumed of them are
  named in the theorems: that decryption inverts encryption for a key pair, round trips of the codec for saved objects, that adding to an epoll instance succeeds (\<open>epoll_adds\<close>) and that
  the time zone has a fixed offset (\<open>calendar\<close>). The message size, server types and message layout of an earlier \<^verbatim>\<open>core/base.h\<close>, to which \<^verbatim>\<open>src/centersvr\<close> still refers, are the record \<open>center_env\<close>.

  \<^bold>\<open>Not modelled.\<close> \<^verbatim>\<open>Daemonize\<close> (\<^verbatim>\<open>daemon.hpp\<close>) forks and sets signal dispositions, which the model has no processes for; logging and the reading of text files
  (\<^verbatim>\<open>proto_log.hpp\<close>, \<^verbatim>\<open>proto_config.hpp\<close>) are input and output through a library. \<^verbatim>\<open>singleton.hpp\<close> gives one instance per class; the instances are fields of the servers' states.
  The sample servers (\<^verbatim>\<open>src/logicsvr\<close>, \<^verbatim>\<open>src/test\<close>) are written against a frame that the sources no longer contain. Of protobuf, streams that are not flat arrays, floating-point fields,
  message sets, reflection and the compiler are left out: the program's messages do not use them, or use them only for logging and text files. The other vendored libraries appear as the parameters above. The floating-point part of \<^verbatim>\<open>CFakeRandom::Lottery\<close> is an argument of its definition.
\<close>

section \<open>Properties that span components\<close>

subsection \<open>Authentication and login\<close>

text \<open>What the lobby makes of a token the authentication server issued.\<close>

lemma token_admitted_iff:
  assumes "rsa_pair R pri pub" and "pri_key (as_cipher s) = Some pri" and "pub_key c = Some pub"
    and "DBManager_OnAuthorization R D request s = Some (r, s')" and "rsa_token r \<noteq> []"
    and "unat (GetTime (sv_cur_time s)) + 86400 < 2 ^ 32"
  shows "token_valid R c (ucast (w :: uint32)) (rsa_token r) now
    \<longleftrightarrow> ucast w = rsa_uid r \<and> unat (GetTime now) < unat (GetTime (sv_cur_time s)) + 86400"
proof -
  let ?t = "\<lparr>at_uid = rsa_uid r, at_time = GetTime (sv_cur_time s)\<rparr>"
  obtain out n where e: "RSACipher_EncryptWithPriKey R (as_cipher s) (enc_auth_token ?t) = Some (out, n)" "rsa_token r = mem_read out 0 n"
    using OnAuthorization_token [OF assms(4,5)] by blast
  have d: "RSACipher_DecryptWithPubKey R c (rsa_token r) = Some (mem_write mem_zero 0 (enc_auth_token ?t), 16)"
    using decrypt_encrypt [OF assms(1-3) e(1)] by (simp add: e(2))
  have t: "dec_auth_token (mem_read (mem_write mem_zero 0 (enc_auth_token ?t)) 0 SIZEOF_stAuthToken) = ?t"
    using dec_enc_auth_token [of ?t "[]"] by (simp add: layout_simps)
  have "unat (GetTime (sv_cur_time s) + EN_TOKEN_EXPIRE_SEC) = unat (GetTime (sv_cur_time s)) + 86400"
    using assms(6) by (simp add: EN_TOKEN_EXPIRE_SEC_def unat_word_ariths)
  then show ?thesis unfolding token_valid_def d option.case prod.case Let_def t by (auto simp: word_le_nat_alt)
qed

text \<open>C8. Between the authentication server and the lobby: a token issued for an account is accepted by the lobby for exactly the uid it was
  issued for, and for exactly a day. The uid of a client message has 32 bits, so an account with a larger uid is never admitted.\<close>

theorem issued_token_admits:
  assumes "rsa_pair R pri pub" and "pri_key (as_cipher s) = Some pri" and "pub_key c = Some pub"
    and "DBManager_OnAuthorization R D request s = Some (r, s')" and "rsa_token r \<noteq> []"
    and "unat (GetTime (sv_cur_time s)) + 86400 < 2 ^ 32"
  shows "token_valid R c (ucast (w :: uint32)) (rsa_token r) now
    \<longleftrightarrow> ucast w = rsa_uid r \<and> unat (GetTime now) < unat (GetTime (sv_cur_time s)) + 86400"
  by (rule token_admitted_iff [OF assms])

text \<open>The example: a guest account without a record is registered with the first uid.\<close>

definition demo_auth :: "(nat, nat, nat) AuthState" where
  "demo_auth = Server.Server.extend (Server.Server.truncate demo_server)
     \<lparr>as_conn = 0, as_result = [], as_sql = [], as_uid_index = 0, as_cipher = \<lparr>pri_key = Some 0, pub_key = None\<rparr>\<rparr>"

lemma demo_auth_fields: "as_cipher demo_auth = \<lparr>pri_key = Some 0, pub_key = None\<rparr>" "sv_cur_time demo_auth = 0" "as_uid_index demo_auth = 0"
  by (simp_all add: demo_auth_def Server.Server.defs demo_server_def)

lemma demo_authorization:
  "\<exists>r s'. DBManager_OnAuthorization demo_ssl empty_db \<lparr>ra_type = 0, ra_account = [65], ra_pwd = []\<rparr> demo_auth = Some (r, s') \<and> rsa_uid r = 1
    \<and> rsa_token r \<noteq> [] \<and> rsa_result r = EN_MESSAGE_OK"
proof -
  let ?rq = "\<lparr>ra_type = 0, ra_account = [65], ra_pwd = []\<rparr>"
  obtain h where h: "GetHash [65] = Some h" using GetHash_defined [of "[65]"] by auto
  obtain s1 where f: "find_account empty_db ?rq (h mod 512) demo_auth = (Inr 1, s1)"
    by (simp add: find_account_def set_sql_def DBManager_Query_def empty_db_def demo_auth_fields EN_ACC_GEUST_def Let_def)
  note F = find_account_fields [OF f]
  let ?t = "enc_auth_token \<lparr>at_uid = 1, at_time = GetTime (sv_cur_time s1)\<rparr>"
  have "RSACipher_EncryptWithPriKey demo_ssl (as_cipher s1) ?t = Some (mem_write mem_zero 0 ?t, 16)"
    using F by (simp add: RSACipher_EncryptWithPriKey_def demo_auth_fields demo_ssl_def)
  moreover have "?t \<noteq> []" using length_enc_auth_token by (metis list.size(3) zero_neq_numeral)
  ultimately show ?thesis using h f by (simp add: DBManager_OnAuthorization_def)
qed

theorem issued_token_admits_witness:
  "\<exists>r s'. DBManager_OnAuthorization demo_ssl empty_db \<lparr>ra_type = 0, ra_account = [65], ra_pwd = []\<rparr> demo_auth = Some (r, s') \<and> rsa_uid r = 1
    \<and> token_valid demo_ssl \<lparr>pri_key = None, pub_key = Some 1\<rparr> (ucast (1 :: uint32)) (rsa_token r) 0"
proof -
  obtain r s' where r: "DBManager_OnAuthorization demo_ssl empty_db \<lparr>ra_type = 0, ra_account = [65], ra_pwd = []\<rparr> demo_auth = Some (r, s')"
      "rsa_uid r = 1" "rsa_token r \<noteq> []"
    using demo_authorization by blast
  from issued_token_admits [OF demo_pair _ _ r(1,3), of "\<lparr>pri_key = None, pub_key = Some 1\<rparr>" 1 0] show ?thesis
    using r by (auto simp: demo_auth_fields GetTime_def)
qed

text \<open>C9. From the authentication to the login, with the program that plays the client. When the authentication server accepts a request and its
  answer reaches the client as one message, the client keeps the uid and the token of the answer, and the login request it then
  sends to the lobby carries that token; the lobby takes the token for valid exactly when the uid has at most 32 bits and less than a day has passed.\<close>

theorem client_is_admitted:
  assumes auth: "rsa_pair R pri pub" "pri_key (as_cipher s) = Some pri" "pub_key c = Some pub"
      "DBManager_OnAuthorization R D request s = Some (r, s')" "rsa_token r \<noteq> []" "rsa_result r = EN_MESSAGE_OK"
      "unat (GetTime (sv_cur_time s)) + 86400 < 2 ^ 32"
    and client: "client_connect P 9000 os = (Some fd, os1)" "length (ser_cs B auth_request) \<le> MAX_PB_LEN"
      "posix_send P fd (client_frame B auth_request) os1 = (SendOk k, os2)"
    and answer: "posix_recv P fd MAX_BUF_LEN os2 = (RecvOk (client_frame B (PBCSMsg_new\<lparr>cs_msg_union := cs_response_auth r\<rparr>)), os3)"
      "ser_cs B (PBCSMsg_new\<lparr>cs_msg_union := cs_response_auth r\<rparr>) \<noteq> []"
      "length (ser_cs B (PBCSMsg_new\<lparr>cs_msg_union := cs_response_auth r\<rparr>)) \<le> MAX_PB_LEN"
      "parsed (Some (ser_cs B (PBCSMsg_new\<lparr>cs_msg_union := cs_response_auth r\<rparr>))) = PBCSMsg_new\<lparr>cs_msg_union := cs_response_auth r\<rparr>"
  shows "\<exists>cl. client_auth B parsed P buf os = Some (Some cl) \<and> cl_uid cl = rsa_uid r
    \<and> cs_msg_union (login_request (cl_uid cl) (cl_token cl)) = cs_request_login (rsa_token r)
    \<and> (token_valid R c (ucast (cs_uid (login_request (cl_uid cl) (cl_token cl)))) (rsa_token r) now
        \<longleftrightarrow> unat (rsa_uid r) < 2 ^ 32 \<and> unat (GetTime now) < unat (GetTime (sv_cur_time s)) + 86400)"
proof -
  have "auth_of (PBCSMsg_new\<lparr>cs_msg_union := cs_response_auth r\<rparr>) = r" by (simp add: auth_of_def)
  then obtain cl where cl: "client_auth B parsed P buf os = Some (Some cl)" "cl_uid cl = rsa_uid r" "cl_token cl = rsa_token r"
    using client_auth_answer [of P os fd os1 B k os2 "PBCSMsg_new\<lparr>cs_msg_union := cs_response_auth r\<rparr>" os3 parsed buf]
      client answer auth(6) by auto
  have "ucast (ucast (rsa_uid r) :: uint32) = rsa_uid r \<longleftrightarrow> unat (rsa_uid r) < 2 ^ 32"
    by (simp add: word_unat_eq_iff unsigned_ucast_eq unsigned_take_bit_eq take_bit_nat_eq_self_iff)
  then show ?thesis
    using cl token_admitted_iff [OF auth(1-5,7), where w = "ucast (rsa_uid r)"] by (simp add: login_request_def)
qed

theorem client_is_admitted_witness:
  "\<exists>r s' P parsed cl. DBManager_OnAuthorization demo_ssl empty_db \<lparr>ra_type = 0, ra_account = [65], ra_pwd = []\<rparr> demo_auth = Some (r, s')
    \<and> client_auth client_lib parsed P mem_zero (0 :: nat) = Some (Some cl) \<and> cl_uid cl = 1
    \<and> cs_msg_union (login_request (cl_uid cl) (cl_token cl)) = cs_request_login (rsa_token r)
    \<and> token_valid demo_ssl \<lparr>pri_key = None, pub_key = Some 1\<rparr> (ucast (cs_uid (login_request (cl_uid cl) (cl_token cl)))) (rsa_token r) 0"
proof -
  obtain r s' where r: "DBManager_OnAuthorization demo_ssl empty_db \<lparr>ra_type = 0, ra_account = [65], ra_pwd = []\<rparr> demo_auth = Some (r, s')"
      "rsa_uid r = 1" "rsa_token r \<noteq> []" "rsa_result r = EN_MESSAGE_OK"
    using demo_authorization by blast
  let ?a = "PBCSMsg_new\<lparr>cs_msg_union := cs_response_auth r\<rparr>"
  let ?os = "quiet_os\<lparr>sys_recv := (\<lambda>fd n os. (RecvOk (client_frame client_lib ?a), os))\<rparr>"
  have c: "client_connect ?os 9000 0 = (Some 3, 0)" "posix_send ?os 3 (client_frame client_lib auth_request) 0 = (SendOk 5, 0)"
      "posix_recv ?os 3 MAX_BUF_LEN 0 = (RecvOk (client_frame client_lib ?a), 0)"
    by (simp_all add: client_connect_def posix_send_def posix_recv_def quiet_os_def client_frame_def client_lib_def auth_request_def layout_simps)
  have b: "length (ser_cs client_lib auth_request) \<le> MAX_PB_LEN" "ser_cs client_lib ?a \<noteq> []" "length (ser_cs client_lib ?a) \<le> MAX_PB_LEN"
    by (simp_all add: client_lib_def auth_request_def layout_simps)
  have k: "pri_key (as_cipher demo_auth) = Some 0" "pub_key \<lparr>pri_key = None, pub_key = Some 1\<rparr> = Some 1"
      "unat (GetTime (sv_cur_time demo_auth)) + 86400 < 2 ^ 32" by (simp_all add: demo_auth_fields GetTime_def)
  have "(\<lambda>_. ?a) (Some (ser_cs client_lib ?a)) = ?a" by simp
  from client_is_admitted [OF demo_pair k(1,2) r(1,3,4) k(3) c(1) b(1) c(2,3) b(2,3) this, of mem_zero 0] r
  show ?thesis by (fastforce simp: demo_auth_fields GetTime_def)
qed

subsection \<open>From the client to the handler\<close>

lemma record_event:
  assumes "frame_ok be32 MAX_BUF_LEN f" and "head_of sk hb"
  shows "gw_record (GwMsg (dec_tcp_head hb) (drop 4 f)) (hb @ f)" and "gw_ok (GwMsg (dec_tcp_head hb) (drop 4 f))"
proof -
  have f: "4 < length f" "length f \<le> 4096" "unat (be32 (take 4 f)) = length f" using assms(1) by (simp_all add: frame_ok_def layout_simps)
  have "be32 (take 4 f) = word_of_nat (length f)" using f(3) [symmetric] by simp
  moreover have "word_of_nat (length f) = (word_of_nat (length (drop 4 f)) + 4 :: uint32)"
    using f(1) of_nat_add [of "length f - 4" 4, where 'a = uint32] by simp
  ultimately have "htonl (be32 (take 4 f)) = htonl (word_of_nat (length (drop 4 f)) + 4)" by simp
  then have "un_le32 (take 4 f) = htonl (word_of_nat (length (drop 4 f)) + 4)" by (simp add: be32_def)
  moreover have "take 4 f = le32 (un_le32 (take 4 f))" using f(1) by simp
  ultimately have t: "f = le32 (htonl (word_of_nat (length (drop 4 f)) + 4)) @ drop 4 f" by (metis append_take_drop_id)
  have h: "length hb = 40" "th_msg_type (dec_tcp_head hb) = TCP_NORMAL" using assms(2) by (simp_all add: head_of_def layout_simps)
  then show "gw_record (GwMsg (dec_tcp_head hb) (drop 4 f)) (hb @ f)" using t unfolding gw_record.simps by (intro exI [of _ hb]) metis
  show "gw_ok (GwMsg (dec_tcp_head hb) (drop 4 f))"
    using f h by (simp add: wf_tcp_head_def dec_tcp_head_def TCP_NORMAL_def CLI_DISCON_def layout_simps)
qed

definition same_client :: "stSocket \<Rightarrow> stTcpHead \<Rightarrow> bool" where
  "same_client sk h \<longleftrightarrow> th_create_time h = sk_create_time sk \<and> th_socket_pos h = sk_socket_pos sk \<and> th_socket_port h = sk_socket_port sk"

lemma records_events:
  assumes "records_for sk fs recs" and "\<forall>f\<in>set fs. frame_ok be32 MAX_BUF_LEN f"
  shows "\<exists>hs. length hs = length fs \<and> (\<forall>h\<in>set hs. same_client sk h) \<and> list_all2 gw_record (map2 GwMsg hs (map (drop 4) fs)) recs
    \<and> (\<forall>e\<in>set (map2 GwMsg hs (map (drop 4) fs)). gw_ok e)"
  using assms
proof (induction fs arbitrary: recs)
  case (Cons f fs)
  obtain hb rs where r: "recs = (hb @ f) # rs" "head_of sk hb" "records_for sk fs rs"
    using Cons.prems(1) by (auto simp: records_for_def list_all2_Cons1)
  obtain hs where hs: "length hs = length fs" "\<forall>h\<in>set hs. same_client sk h" "list_all2 gw_record (map2 GwMsg hs (map (drop 4) fs)) rs"
      "\<forall>e\<in>set (map2 GwMsg hs (map (drop 4) fs)). gw_ok e"
    using Cons.IH [OF r(3)] Cons.prems(2) by auto
  have "frame_ok be32 MAX_BUF_LEN f" using Cons.prems(2) by simp
  note e = record_event [OF this r(2)]
  have "same_client sk (dec_tcp_head hb)" using r(2) by (simp add: head_of_def same_client_def)
  then show ?case using hs e r(1)
    by (intro exI [of _ "dec_tcp_head hb # hs"]) (simp del: gw_record.simps gw_ok.simps)
qed (simp add: records_for_def)

lemma queued_messages: "gw_queued (map2 GwMsg hs bs) = map2 ClientMsg hs bs" "gw_direct (map2 GwMsg hs bs) = []"
  by (induction hs bs rule: list_induct2') (simp_all add: gw_queued_def gw_direct_def)

text \<open>C3. From the network to the handler: the complete messages a client's connection has delivered to the gateway reach the logic server's
  \<^verbatim>\<open>OnClientMessage\<close>, each once, in the order sent and without its length field, with a head that names the connection. The
  gateway's pipe is the memory the server reads from; it and the message queue start empty and have room for the messages.\<close>

theorem client_messages_reach_handler:
  assumes "addr_ok (ts_pool g pos)" and "pipe_holds (ts_cs_pipe g) []" and "\<forall>f\<in>set fs. frame_ok be32 MAX_BUF_LEN f"
    and "frame_partial be32 MAX_BUF_LEN p" and "sk_recv_buf (ts_pool g pos) = rb" and "40 \<le> rb"
    and "unat (sk_buf_offset (ts_pool g pos)) + n \<le> TS_RECV_BUF_LEN - TCPHEAD_LEN"
    and "mem_read (ts_all_recv_buf g) rb (unat (sk_buf_offset (ts_pool g pos)) + n) = concat fs @ p"
    and "forward_len fs \<le> unat (sp_size (ts_cs_pipe g)) - 1"
    and "client_received P pos (word_of_nat n) g = (ok, g')" and "sv_cs_pipe s = Some (ts_cs_pipe g')"
    and "queue_holds s []" and "4148 * length fs \<le> queue_cap s" and "length fs < 1024"
  shows "\<exists>hs s1 s2. Server_GetClientMessage recorder s = Some s1 \<and> Server_DispatchMessage recorder s1 = Some s2
    \<and> Server.Server.more s2 = Server.Server.more s @ map2 ClientMsg hs (map (drop 4) fs)
    \<and> length hs = length fs \<and> (\<forall>h\<in>set hs. same_client (ts_pool g pos) h)"
proof -
  obtain recs where recs: "records_for (ts_pool g pos) fs recs" "pipe_holds (ts_cs_pipe g') recs"
    using client_received_forwards [OF assms(1-8), where P = P] assms(9,10) by (auto simp: frames_len_def)
  obtain hs where hs: "length hs = length fs" "\<forall>h\<in>set hs. same_client (ts_pool g pos) h"
      "list_all2 gw_record (map2 GwMsg hs (map (drop 4) fs)) recs" "\<forall>e\<in>set (map2 GwMsg hs (map (drop 4) fs)). gw_ok e"
    using records_events [OF recs(1) assms(3)] by blast
  have q: "4148 * (length ([] :: delivery list) + length (gw_queued (map2 GwMsg hs (map (drop 4) fs)))) \<le> queue_cap s"
      "length (map2 GwMsg hs (map (drop 4) fs)) < 1024" using assms(13,14) hs(1) by (simp_all add: queued_messages)
  obtain s1 where s1: "Server_GetClientMessage recorder s = Some s1" "queue_holds s1 (map2 ClientMsg hs (map (drop 4) fs))"
      "Server.Server.more s1 = Server.Server.more s"
    using client_loop_recorder [OF assms(11) recs(2) hs(3,4) assms(12) q] assms(11) by (auto simp: Server_GetClientMessage_def queued_messages)
  have "length (map2 ClientMsg hs (map (drop 4) fs)) < 1024" using assms(14) hs(1) by simp
  from dispatch_loop_recorder [OF s1(2) this] show ?thesis using s1 hs(1,2) by (auto simp: Server_DispatchMessage_def)
qed

theorem client_messages_reach_handler_witness:
  "\<exists>g' h s1 s2. client_received quiet_os 0 (word_of_nat 5) demo_gateway = (True, g')
    \<and> Server_GetClientMessage recorder (demo_server\<lparr>sv_cs_pipe := Some (ts_cs_pipe g')\<rparr>) = Some s1
    \<and> Server_DispatchMessage recorder s1 = Some s2 \<and> Server.Server.more s2 = [ClientMsg h [9]] \<and> th_create_time h = 7"
proof -
  have f: "\<forall>f\<in>set [[0, 0, 0, 5, 9]]. frame_ok be32 MAX_BUF_LEN f" using demo_gateway_ok(4) by simp
  note g = demo_gateway_ok(1,7) f demo_gateway_ok(5,2)
  obtain g' where g': "client_received quiet_os 0 (word_of_nat 5) demo_gateway = (True, g')"
    using client_received_forwards [OF g, of 5 quiet_os] demo_gateway_ok(3,8,9) by (auto simp: TS_RECV_BUF_LEN_def layout_simps forward_len_def)
  let ?s = "demo_server\<lparr>sv_cs_pipe := Some (ts_cs_pipe g')\<rparr>"
  have "queue_holds ?s []" "queue_cap ?s = 99999" using demo_queue by (simp_all add: queue_holds_def queue_cap_def)
  then have "\<exists>hs s1 s2. Server_GetClientMessage recorder ?s = Some s1 \<and> Server_DispatchMessage recorder s1 = Some s2
    \<and> Server.Server.more s2 = Server.Server.more ?s @ map2 ClientMsg hs (map (drop 4) [[0, 0, 0, 5, 9]])
    \<and> length hs = length [[0, 0, 0, 5, 9 :: byte]] \<and> (\<forall>h\<in>set hs. same_client (ts_pool demo_gateway 0) h)"
    using demo_gateway_ok(3,8,9)
    by (intro client_messages_reach_handler [OF g _ _ _ _ g']) (simp_all add: TS_RECV_BUF_LEN_def layout_simps forward_len_def)
  then obtain hs s1 s2 where r: "Server_GetClientMessage recorder ?s = Some s1" "Server_DispatchMessage recorder s1 = Some s2"
      "Server.Server.more s2 = map2 ClientMsg hs [[9]]" "length hs = 1" "\<forall>h\<in>set hs. same_client (ts_pool demo_gateway 0) h"
    by (auto simp: demo_server_fields)
  then obtain h where "hs = [h]" "th_create_time h = 7" by (auto simp: length_Suc_conv same_client_def demo_gateway_fields)
  then show ?thesis using r g' by auto
qed

subsection \<open>Requests to the database\<close>

lemma route_center_hash:
  assumes "ch_route_type head = route_hash" and "0 < n" and "n \<le> 16"
  shows "fst (route_center head (-1) n c) = int (unat (ch_hash_key head) mod unat n)" "unat (ch_hash_key head) mod unat n < unat n" "unat n \<le> 16"
proof -
  have n: "0 < unat n" "unat n \<le> 16" using assms(2,3) by (simp_all add: word_less_nat_alt word_le_nat_alt)
  then have "unat (ucast n :: uint64) = unat n" by (simp add: unat_ucast)
  then have "unat (ch_hash_key head mod ucast n) = unat (ch_hash_key head) mod unat n" by (simp add: unat_mod)
  then have "uint (ch_hash_key head mod ucast n) = int (unat (ch_hash_key head) mod unat n)" by (metis int_nat_eq uint_nonnegative unat_eq_nat_uint)
  then show "fst (route_center head (-1) n c) = int (unat (ch_hash_key head) mod unat n)" by (simp add: route_center_def assms(1))
  show "unat (ch_hash_key head) mod unat n < unat n" "unat n \<le> 16" using n by simp_all
qed

lemma svr_target_frame:
  assumes "wf_route (ch_route_type head)" and "buf \<noteq> []"
  shows "svr_target px (center_frame head buf) =
    (case ch_route_type head of
       route_p2p \<Rightarrow> svr_slot px (ch_des_type head) (unat (ch_des_id head))
     | route_hash \<Rightarrow> (case CenterConfig_GetSvr (ch_des_type head) (px_conf px) of
                       None \<Rightarrow> None
                     | Some l \<Rightarrow> svr_slot px (ch_des_type head) (unat (ch_hash_key head) mod unat (ls_svr_num l)))
     | _ \<Rightarrow> None)"
  using dec_enc_center_head [OF assms(1), of buf] by (simp add: svr_target_def center_frame_def Let_def)



end
